(* ===== verification/X300_Prelude.thy ===== *)
theory X300_Prelude
  imports Main "HOL-Library.Word"
begin

text \<open>
  Shared vocabulary of the development: the machine integers and byte buffers of the C
  sources, the outcome type of a C function (a value, or the reason why control does not
  come back), checked memory accesses, little-endian field access, and the generic list,
  option and word lemmas that the component theories rely on.
\<close>

unbundle bit_operations_syntax

section \<open>Machine types\<close>

type_synonym u8 = "8 word"
type_synonym u16 = "16 word"
type_synonym u32 = "32 word"

text \<open>A C \<open>int\<close> kept at its width; it is read with \<open>sint\<close> and compared with \<open><s\<close>.\<close>

type_synonym s32 = "32 word"

type_synonym bytes = "u8 list"

text \<open>
  Conversion of a C \<open>int\<close> expression (an unbounded \<open>int\<close> in the model, for lengths
  and offsets that stay inside a buffer) to \<open>unsigned int\<close> or \<open>size_t\<close>.
\<close>

definition to_unsigned :: "int \<Rightarrow> int" where
  "to_unsigned x = x mod 2 ^ 32"

lemma to_unsigned_id [simp]: "0 \<le> x \<Longrightarrow> x < 2 ^ 32 \<Longrightarrow> to_unsigned x = x"
  by (simp add: to_unsigned_def)

lemma to_unsigned_range: "0 \<le> to_unsigned x \<and> to_unsigned x < 2 ^ 32"
  by (simp add: to_unsigned_def)

section \<open>Outcomes of C functions\<close>

text \<open>
  A C function returns a value or it does not come back: an access outside an object, a
  NULL pointer that is dereferenced, a division by zero, a shift by the width of its operand
  or more, a use of freed memory, a kernel \<open>BUG\<close>, a semaphore that is never released, or a call
  of \<open>exit\<close>. Error codes that the C code returns are ordinary values.
\<close>

datatype fault = OutOfBounds | NullDeref | DivByZero | ShiftRange | UseAfterFree | InvalidFree | KernelBug | Deadlock

datatype stop = Fault fault | Exit int

type_synonym 'a res = "stop + 'a"

definition bnd :: "'a res \<Rightarrow> ('a \<Rightarrow> 'b res) \<Rightarrow> 'b res" where
  "bnd m k = (case m of Inl e \<Rightarrow> Inl e | Inr x \<Rightarrow> k x)"

lemma bnd_Inl [simp]: "bnd (Inl e) k = Inl e"
  by (simp add: bnd_def)

lemma bnd_Inr [simp]: "bnd (Inr x) k = k x"
  by (simp add: bnd_def)

lemma bnd_eq_Inr [simp]: "bnd m k = Inr y \<longleftrightarrow> (\<exists>x. m = Inr x \<and> k x = Inr y)"
  by (cases m) auto

lemma bnd_eq_Inl: "bnd m k = Inl e \<longleftrightarrow> m = Inl e \<or> (\<exists>x. m = Inr x \<and> k x = Inl e)"
  by (cases m) auto

lemma bnd_assoc: "bnd (bnd m k) h = bnd m (\<lambda>x. bnd (k x) h)"
  by (cases m) auto

lemma bnd_cong [fundef_cong]:
  "m = m' \<Longrightarrow> (\<And>x. m' = Inr x \<Longrightarrow> k x = k' x) \<Longrightarrow> bnd m k = bnd m' k'"
  by (cases m') auto

text \<open>Using an object through a pointer that may be NULL, and the operand of a \<open>%\<close>.\<close>

definition deref :: "'a option \<Rightarrow> 'a res" where
  "deref p = (case p of None \<Rightarrow> Inl (Fault NullDeref) | Some x \<Rightarrow> Inr x)"

lemma deref_simps [simp]: "deref None = Inl (Fault NullDeref)" "deref (Some x) = Inr x"
  by (simp_all add: deref_def)

lemma deref_eq_Inr [simp]: "deref p = Inr x \<longleftrightarrow> p = Some x"
  by (cases p) auto

definition umod :: "u32 \<Rightarrow> u32 \<Rightarrow> u32 res" where
  "umod x y = (if y = 0 then Inl (Fault DivByZero) else Inr (x mod y))"

definition shl32 :: "u32 \<Rightarrow> u32 \<Rightarrow> u32 res" where
  "shl32 x n = (if unat n < 32 then Inr (push_bit (unat n) x) else Inl (Fault ShiftRange))"

section \<open>Checked memory\<close>

text \<open>
  An object (an array, a heap block, a local buffer) is the list of its bytes. Every access
  names the object and an index; an index outside the object is a fault.
\<close>

definition mem_get :: "bytes \<Rightarrow> int \<Rightarrow> u8 res" where
  "mem_get b i = (if 0 \<le> i \<and> i < int (length b) then Inr (b ! nat i)
                  else Inl (Fault OutOfBounds))"

definition mem_put :: "bytes \<Rightarrow> int \<Rightarrow> u8 \<Rightarrow> bytes res" where
  "mem_put b i v = (if 0 \<le> i \<and> i < int (length b) then Inr (b[nat i := v])
                    else Inl (Fault OutOfBounds))"

text \<open>The source and the destination side of a \<open>memcpy\<close> of \<open>n\<close> bytes.\<close>

definition mem_read :: "bytes \<Rightarrow> nat \<Rightarrow> nat \<Rightarrow> bytes res" where
  "mem_read b off n = (if off + n \<le> length b then Inr (take n (drop off b))
                       else Inl (Fault OutOfBounds))"

definition overwrite :: "bytes \<Rightarrow> nat \<Rightarrow> bytes \<Rightarrow> bytes" where
  "overwrite b off xs = take off b @ xs @ drop (off + length xs) b"

definition mem_write :: "bytes \<Rightarrow> nat \<Rightarrow> bytes \<Rightarrow> bytes res" where
  "mem_write b off xs = (if off + length xs \<le> length b then Inr (overwrite b off xs)
                         else Inl (Fault OutOfBounds))"

definition mem_copy :: "bytes \<Rightarrow> nat \<Rightarrow> bytes \<Rightarrow> nat \<Rightarrow> nat \<Rightarrow> bytes res" where
  "mem_copy dst doff src soff n = bnd (mem_read src soff n) (mem_write dst doff)"

lemma mem_get_ok [simp]: "0 \<le> i \<Longrightarrow> i < int (length b) \<Longrightarrow> mem_get b i = Inr (b ! nat i)"
  by (simp add: mem_get_def)

lemma mem_put_ok [simp]: "0 \<le> i \<Longrightarrow> i < int (length b) \<Longrightarrow> mem_put b i v = Inr (b[nat i := v])"
  by (simp add: mem_put_def)

lemma mem_read_ok [simp]: "off + n \<le> length b \<Longrightarrow> mem_read b off n = Inr (take n (drop off b))"
  by (simp add: mem_read_def)

lemma mem_write_ok [simp]: "off + length xs \<le> length b \<Longrightarrow> mem_write b off xs = Inr (overwrite b off xs)"
  by (simp add: mem_write_def)

lemma mem_copy_ok [simp]:
  "soff + n \<le> length src \<Longrightarrow> doff + n \<le> length dst \<Longrightarrow>
   mem_copy dst doff src soff n = Inr (overwrite dst doff (take n (drop soff src)))"
  by (simp add: mem_copy_def)

lemma length_overwrite [simp]: "off + length xs \<le> length b \<Longrightarrow> length (overwrite b off xs) = length b"
  by (simp add: overwrite_def)

lemma overwrite_0 [simp]: "length xs = length b \<Longrightarrow> overwrite b 0 xs = xs"
  by (simp add: overwrite_def)

lemma nth_overwrite:
  "off + length xs \<le> length b \<Longrightarrow> i < length b \<Longrightarrow>
   overwrite b off xs ! i = (if off \<le> i \<and> i < off + length xs then xs ! (i - off) else b ! i)"
  by (auto simp: overwrite_def nth_append)

lemma overwrite_Nil [simp]: "off \<le> length b \<Longrightarrow> overwrite b off [] = b"
  by (simp add: overwrite_def)

lemma take_overwrite_front: "n \<le> length xs \<Longrightarrow> take n (overwrite b 0 xs) = take n xs"
  by (simp add: overwrite_def)

lemma overwrite_adjacent:
  "length xs + length ys \<le> length b \<Longrightarrow>
   overwrite (overwrite b 0 xs) (length xs) ys = overwrite b 0 (xs @ ys)"
  by (simp add: overwrite_def add.commute)

lemma overwrite_Cons:
  "j + length xs < length b \<Longrightarrow> overwrite (b[j := x]) (Suc j) xs = overwrite b j (x # xs)"
  by (simp add: overwrite_def take_Suc_conv_app_nth take_update_swap list_update_append)

lemma overwrite_single: "j < length b \<Longrightarrow> overwrite b j [x] = b[j := x]"
  by (simp add: overwrite_def upd_conv_take_nth_drop)

lemma mem_get_drop: "drop i b = y # ys \<Longrightarrow> mem_get b (int i) = Inr y"
proof -
  assume a: "drop i b = y # ys"
  then have "i < length b" by (metis drop_all list.distinct(1) not_le)
  moreover from this have "b ! i = y" using a by (simp add: Cons_nth_drop_Suc [symmetric])
  ultimately show ?thesis by simp
qed

lemma drop_eq_ConsD: "drop i b = y # ys \<Longrightarrow> drop (Suc i) b = ys"
  by (metis drop_Suc list.sel(3) tl_drop)

section \<open>The heap\<close>

text \<open>
  \<open>malloc\<close> may fail and its blocks hold arbitrary bytes. Both are the environment's choice,
  which may differ from call to call: \<open>k\<close> is the number of earlier calls.
\<close>

record heap_env =
  heap_ok :: "nat \<Rightarrow> nat \<Rightarrow> bool"
  heap_junk :: "nat \<Rightarrow> nat \<Rightarrow> u8"

definition malloc :: "'a heap_env_scheme \<Rightarrow> nat \<Rightarrow> nat \<Rightarrow> bytes option" where
  "malloc H k n = (if heap_ok H k n then Some (map (heap_junk H k) [0..<n]) else None)"

lemma malloc_length [simp]: "malloc H k n = Some b \<Longrightarrow> length b = n"
  by (auto simp: malloc_def split: if_splits)

section \<open>Little-endian fields of packed structures\<close>

definition le16 :: "u16 \<Rightarrow> bytes" where
  "le16 w = [ucast w, ucast (drop_bit 8 w)]"

definition le32 :: "u32 \<Rightarrow> bytes" where
  "le32 w = [ucast w, ucast (drop_bit 8 w), ucast (drop_bit 16 w), ucast (drop_bit 24 w)]"

definition get16 :: "bytes \<Rightarrow> int \<Rightarrow> u16 res" where
  "get16 b i = bnd (mem_get b i) (\<lambda>b0. bnd (mem_get b (i + 1)) (\<lambda>b1.
     Inr (ucast b0 OR push_bit 8 (ucast b1))))"

definition get32 :: "bytes \<Rightarrow> int \<Rightarrow> u32 res" where
  "get32 b i = bnd (mem_get b i) (\<lambda>b0. bnd (mem_get b (i + 1)) (\<lambda>b1.
     bnd (mem_get b (i + 2)) (\<lambda>b2. bnd (mem_get b (i + 3)) (\<lambda>b3.
     Inr (ucast b0 OR push_bit 8 (ucast b1) OR push_bit 16 (ucast b2) OR push_bit 24 (ucast b3))))))"

lemma length_le16 [simp]: "length (le16 w) = 2"
  by (simp add: le16_def)

lemma length_le32 [simp]: "length (le32 w) = 4"
  by (simp add: le32_def)

lemma join16: "(ucast (ucast w :: u8) OR push_bit 8 (ucast (ucast (drop_bit 8 w) :: u8)) :: u16) = w"
  by (rule bit_word_eqI) (auto simp: bit_simps)

lemma join32:
  "(ucast (ucast w :: u8) OR push_bit 8 (ucast (ucast (drop_bit 8 w) :: u8))
    OR push_bit 16 (ucast (ucast (drop_bit 16 w) :: u8))
    OR push_bit 24 (ucast (ucast (drop_bit 24 w) :: u8)) :: u32) = w"
proof (rule bit_word_eqI)
  fix n assume "n < LENGTH(32)"
  then show "bit (ucast (ucast w :: u8) OR push_bit 8 (ucast (ucast (drop_bit 8 w) :: u8))
    OR push_bit 16 (ucast (ucast (drop_bit 16 w) :: u8))
    OR push_bit 24 (ucast (ucast (drop_bit 24 w) :: u8)) :: u32) n = bit w n"
    by (cases "n < 16"; cases "n < 24") (auto simp: bit_simps)
qed

lemma nth_append_Cons_drop:
  "length xs = n \<Longrightarrow> (xs @ ys) ! (n + k) = ys ! k"
  by (simp add: nth_append)

lemma get16_le16: "int (length xs) = i \<Longrightarrow> get16 (xs @ le16 w @ ys) i = Inr w"
  by (auto simp: get16_def le16_def mem_get_def nth_append join16 nat_add_distrib)

lemma get32_le32: "int (length xs) = i \<Longrightarrow> get32 (xs @ le32 w @ ys) i = Inr w"
  by (auto simp: get32_def le32_def mem_get_def nth_append join32 nat_add_distrib)

section \<open>Words read as numbers\<close>

lemma sint_small: "unat x < 2 ^ 31 \<Longrightarrow> sint (x :: 32 word) = int (unat x)"
proof -
  assume a: "unat x < 2 ^ 31"
  have "signed_take_bit 31 (uint x) = uint x"
  proof (rule signed_take_bit_int_eq_self)
    have "int (unat x) < int (2 ^ 31)" using a by (simp only: of_nat_less_iff)
    then show "uint x < 2 ^ 31" by simp
    show "- (2 ^ 31) \<le> uint x" by (rule order_trans [of _ 0]) auto
  qed
  then show ?thesis by (simp add: sint_uint)
qed

lemma sless_unat:
  "unat x < 2 ^ 31 \<Longrightarrow> unat y < 2 ^ 31 \<Longrightarrow> ((x :: 32 word) <s y) = (unat x < unat y)"
  by (simp only: word_sless_alt sint_small of_nat_less_iff)

lemma sle_unat:
  "unat x < 2 ^ 31 \<Longrightarrow> unat y < 2 ^ 31 \<Longrightarrow> ((x :: 32 word) \<le>s y) = (unat x \<le> unat y)"
  by (simp only: word_sle_eq sint_small of_nat_le_iff)

lemma unat_plus_small: "unat x + unat y < 2 ^ 32 \<Longrightarrow> unat (x + y :: 32 word) = unat x + unat y"
  by (simp add: unat_word_ariths)

lemma unat_minus_small: "unat y \<le> unat x \<Longrightarrow> unat (x - y :: 32 word) = unat x - unat y"
  by (simp add: unat_sub word_le_nat_alt)

lemma unat_of_nat_small: "n < 2 ^ 32 \<Longrightarrow> unat (of_nat n :: 32 word) = n"
  by (rule of_nat_inverse [OF refl]) simp

lemma mod_if_less: "(a :: nat) < 2 * l \<Longrightarrow> a mod l = (if a < l then a else a - l)"
  by (auto simp: not_less le_mod_geq)

lemma unat_sint_nonneg: "0 \<le> sint (v :: 32 word) \<Longrightarrow> unat v = nat (sint v) \<and> unat v < 2 ^ 31"
proof -
  assume a: "0 \<le> sint v"
  have l: "nat (sint v) < 2 ^ 31" using sint_lt [of v] a by (simp add: nat_less_iff)
  have "v = of_nat (nat (sint v))" using a by simp
  then have "unat v = unat (of_nat (nat (sint v)) :: 32 word)" by (rule arg_cong)
  then have "unat v = nat (sint v)" using unat_of_nat_small [of "nat (sint v)"] l by simp
  then show ?thesis using l by simp
qed

lemmas unat_small = sint_small unat_plus_small unat_minus_small unat_of_nat_small

section \<open>Decimal text\<close>

text \<open>
  The formats \<open>%u\<close> and \<open>%d\<close> of \<open>printf\<close>, and \<open>atoi\<close>: blanks, an optional sign, and the
  digits up to the first other character. The value of \<open>atoi\<close> is not bounded here; every text it is
  applied to below was printed from an \<open>int\<close>.
\<close>

fun decimal :: "nat \<Rightarrow> string" where
  "decimal n = (if n < 10 then [char_of (48 + n)] else decimal (n div 10) @ [char_of (48 + n mod 10)])"

declare decimal.simps [simp del]

definition print_int :: "int \<Rightarrow> string" where
  "print_int i = (if i < 0 then CHR ''-'' # decimal (nat (- i)) else decimal (nat i))"

definition digit_value :: "char \<Rightarrow> nat option" where
  "digit_value c = (let n = of_char c in if 48 \<le> n \<and> n \<le> 57 then Some (n - 48) else None)"

fun read_digits :: "nat \<Rightarrow> string \<Rightarrow> nat" where
  "read_digits acc [] = acc"
| "read_digits acc (c # cs) =
     (case digit_value c of Some d \<Rightarrow> read_digits (10 * acc + d) cs | None \<Rightarrow> acc)"

definition is_blank :: "char \<Rightarrow> bool" where
  "is_blank c = (let n = (of_char c :: nat) in n = 32 \<or> 9 \<le> n \<and> n \<le> 13)"

definition atoi :: "string \<Rightarrow> int" where
  "atoi s = (case dropWhile is_blank s of [] \<Rightarrow> 0
     | c # cs \<Rightarrow> if c = CHR ''-'' then - int (read_digits 0 cs)
         else if c = CHR ''+'' then int (read_digits 0 cs) else int (read_digits 0 (c # cs)))"

abbreviation (input) newline :: string where
  "newline \<equiv> [char_of (10 :: nat)]"

lemma digit_value_digit [simp]: "d < 10 \<Longrightarrow> digit_value (char_of (48 + d)) = Some d"
  by (simp add: digit_value_def)

lemma read_digits_decimal: "read_digits 0 (decimal n @ rest) = read_digits n rest"
proof (induction n arbitrary: rest rule: decimal.induct)
  case (1 n)
  show ?case
  proof (cases "n < 10")
    case True
    then show ?thesis by (simp add: decimal.simps [of n])
  next
    case False
    have "10 * (n div 10) + n mod 10 = n" by simp
    then show ?thesis using False 1 [OF False] by (simp add: decimal.simps [of n])
  qed
qed

lemma decimal_Cons: "\<exists>d cs. d < (10 :: nat) \<and> decimal n = char_of (48 + d) # cs"
proof (induction n rule: decimal.induct)
  case (1 n)
  show ?case by (cases "n < 10") (use 1 in \<open>auto simp: decimal.simps [of n]\<close>)
qed

lemma length_decimal: "n < 10 ^ k \<Longrightarrow> 0 < k \<Longrightarrow> length (decimal n) \<le> k"
proof (induction n arbitrary: k rule: decimal.induct)
  case (1 n)
  show ?case
  proof (cases "n < 10")
    case True
    then show ?thesis using 1(3) by (simp add: decimal.simps [of n])
  next
    case False
    with 1(2) have k: "1 < k" by (cases k; cases "k = 1") auto
    then have "n div 10 < 10 ^ (k - 1)" using 1(2) by (cases k) (simp_all add: less_mult_imp_div_less mult.commute)
    from 1(1) [OF False this] k show ?thesis using False by (simp add: decimal.simps [of n])
  qed
qed

lemma length_print_int: "length (print_int (sint (v :: 32 word))) \<le> 11"
proof -
  have "- (2 ^ 31) \<le> sint v" "sint v < 2 ^ 31" using sint_ge [of v] sint_lt [of v] by simp_all
  then have "nat (- sint v) < 10 ^ 10" "nat (sint v) < 10 ^ 10" by simp_all
  then show ?thesis using length_decimal [of "nat (- sint v)" 10] length_decimal [of "nat (sint v)" 10]
    by (simp add: print_int_def)
qed

lemma atoi_print_int: "atoi (print_int i @ newline) = i"
proof (cases "i < 0")
  case True
  then show ?thesis
    by (simp add: atoi_def print_int_def is_blank_def read_digits_decimal digit_value_def)
next
  case False
  obtain d :: nat and cs where d: "d < 10" "decimal (nat i) = char_of (48 + d) # cs" using decimal_Cons by blast
  have n: "of_char (char_of (48 + d) :: char) = 48 + d" using d(1) by simp
  have sign: "char_of (48 + d) \<noteq> CHR ''-''" "char_of (48 + d) \<noteq> CHR ''+''"
    using n by (auto dest: arg_cong [where f = "of_char :: char \<Rightarrow> nat"])
  have "\<not> is_blank (char_of (48 + d))" using n by (simp add: is_blank_def)
  then show ?thesis
    using False d(2) sign read_digits_decimal [of "nat i" newline]
    by (simp add: atoi_def print_int_def digit_value_def)
qed

end
