(* ===== verification/Scorpion_CB.thy ===== *)
theory Scorpion_CB
  imports X300_Prelude
begin

text \<open>
  The circular buffer of \<open>external/scorpion/scorpion_cb.c\<close>, at the widths of the C types:
  \<open>cb_s32\<close> and \<open>cb_u32\<close> are 32-bit words, compared with \<open><s\<close> and \<open><\<close> as the C code
  compares them. The interface \<open>byte_fifo\<close> states what the rest of the daemon relies on
  (a bounded byte queue), and the circular buffer is an interpretation of it. The mutex
  makes each region between \<open>CB_LOCK\<close> and \<open>CB_UNLOCK\<close> atomic; those regions are the
  \<open>_locked\<close> definitions.
\<close>

section \<open>State and operations\<close>

record CircleBufferMngr =
  bufptr :: "bytes option"
  buflen :: s32
  datalen :: s32
  readpos :: u32
  writepos :: u32

definition cb_full :: "CircleBufferMngr \<Rightarrow> bool" where
  "cb_full pmngr = (buflen pmngr = datalen pmngr)"

definition cb_empty :: "CircleBufferMngr \<Rightarrow> bool" where
  "cb_empty pmngr = (0 = datalen pmngr)"

definition sizeof_CircleBufferMngr :: nat where
  "sizeof_CircleBufferMngr = 24"

definition cb_init ::
  "'a heap_env_scheme \<Rightarrow> nat \<Rightarrow> CircleBufferMngr option \<Rightarrow> u32 \<Rightarrow>
   (CircleBufferMngr option \<times> bool \<times> nat) res" where
  "cb_init H k ppmngr len =
     (if ppmngr \<noteq> None then Inr (ppmngr, False, k)
      else if len = 0 then Inr (ppmngr, False, k)
      else bnd (deref (malloc H k sizeof_CircleBufferMngr)) (\<lambda>_.
           bnd (deref (malloc H (k + 1) (unat len))) (\<lambda>b.
           Inr (Some \<lparr>bufptr = Some (replicate (length b) 0), buflen = len, datalen = 0,
                      readpos = 0, writepos = 0\<rparr>, True, k + 2))))"

definition cb_deinit :: "CircleBufferMngr option \<Rightarrow> CircleBufferMngr option \<times> bool" where
  "cb_deinit ppmngr = (case ppmngr of None \<Rightarrow> (None, False) | Some _ \<Rightarrow> (None, True))"

definition cb_clear :: "CircleBufferMngr \<Rightarrow> CircleBufferMngr" where
  "cb_clear pmngr = pmngr\<lparr>readpos := 0, writepos := 0, datalen := 0\<rparr>"

definition cb_datalen :: "CircleBufferMngr \<Rightarrow> s32" where
  "cb_datalen pmngr = datalen pmngr"

definition cb_freelen :: "CircleBufferMngr \<Rightarrow> s32" where
  "cb_freelen pmngr = buflen pmngr - datalen pmngr"

text \<open>The two \<open>CB_MEMCPY\<close> cases of \<open>cb_read\<close> and \<open>cb_read_no_offset\<close>.\<close>

definition cb_copy_out :: "CircleBufferMngr \<Rightarrow> bytes option \<Rightarrow> u32 \<Rightarrow> bytes option res" where
  "cb_copy_out pmngr outbuf readlen =
     (let tmplen = buflen pmngr - readpos pmngr in
      case outbuf of None \<Rightarrow> Inr None
      | Some out \<Rightarrow> bnd (deref (bufptr pmngr)) (\<lambda>b.
          if readlen \<le> tmplen
          then bnd (mem_copy out 0 b (unat (readpos pmngr)) (unat readlen)) (\<lambda>out. Inr (Some out))
          else bnd (mem_copy out 0 b (unat (readpos pmngr)) (unat tmplen)) (\<lambda>out.
               bnd (mem_copy out (unat tmplen) b 0 (unat (readlen - tmplen))) (\<lambda>out.
               Inr (Some out)))))"

definition cb_read_locked ::
  "CircleBufferMngr \<Rightarrow> bytes option \<Rightarrow> s32 \<Rightarrow> (CircleBufferMngr \<times> bytes option \<times> s32) res" where
  "cb_read_locked pmngr outbuf len =
     (let readlen = (if datalen pmngr <s len then datalen pmngr else len) in
      bnd (cb_copy_out pmngr outbuf readlen) (\<lambda>outbuf.
      bnd (umod (readpos pmngr + readlen) (buflen pmngr)) (\<lambda>pos.
      Inr (pmngr\<lparr>readpos := pos, datalen := datalen pmngr - readlen\<rparr>, outbuf, readlen))))"

definition cb_read ::
  "CircleBufferMngr \<Rightarrow> bytes option \<Rightarrow> s32 \<Rightarrow> (CircleBufferMngr \<times> bytes option \<times> s32) res" where
  "cb_read pmngr outbuf len =
     (if cb_empty pmngr then Inr (pmngr, outbuf, 0) else cb_read_locked pmngr outbuf len)"

definition cb_read_no_offset ::
  "CircleBufferMngr \<Rightarrow> bytes option \<Rightarrow> s32 \<Rightarrow> (bytes option \<times> s32) res" where
  "cb_read_no_offset pmngr outbuf len =
     (if cb_empty pmngr then Inr (outbuf, 0)
      else let readlen = (if datalen pmngr <s len then datalen pmngr else len) in
           bnd (cb_copy_out pmngr outbuf readlen) (\<lambda>outbuf. Inr (outbuf, readlen)))"

definition cb_read_move_offset :: "CircleBufferMngr \<Rightarrow> s32 \<Rightarrow> CircleBufferMngr res" where
  "cb_read_move_offset pmngr offset =
     (let len = cb_datalen pmngr in
      if len \<le>s offset then Inr (pmngr\<lparr>readpos := writepos pmngr, datalen := 0\<rparr>)
      else bnd (umod (readpos pmngr + offset) (buflen pmngr)) (\<lambda>pos.
           Inr (pmngr\<lparr>readpos := pos, datalen := datalen pmngr - offset\<rparr>)))"

text \<open>The \<open>CB_MEMCPY\<close> cases of \<open>cb_write\<close>.\<close>

definition cb_copy_in :: "CircleBufferMngr \<Rightarrow> bytes \<Rightarrow> s32 \<Rightarrow> bytes res" where
  "cb_copy_in pmngr datptr writelen =
     bnd (deref (bufptr pmngr)) (\<lambda>b.
     if writepos pmngr < readpos pmngr
     then mem_copy b (unat (writepos pmngr)) datptr 0 (unat writelen)
     else let tmplen = buflen pmngr - writepos pmngr in
          if writelen \<le>s tmplen
          then mem_copy b (unat (writepos pmngr)) datptr 0 (unat writelen)
          else bnd (mem_copy b (unat (writepos pmngr)) datptr 0 (unat tmplen)) (\<lambda>b.
               mem_copy b 0 datptr (unat tmplen) (unat (writelen - tmplen))))"

definition cb_write_locked ::
  "CircleBufferMngr \<Rightarrow> bytes \<Rightarrow> s32 \<Rightarrow> (CircleBufferMngr \<times> s32) res" where
  "cb_write_locked pmngr datptr datlen =
     (let tmplen = buflen pmngr - datalen pmngr;
          writelen = (if datlen <s tmplen then datlen else tmplen) in
      bnd (cb_copy_in pmngr datptr writelen) (\<lambda>b.
      bnd (umod (writepos pmngr + writelen) (buflen pmngr)) (\<lambda>pos.
      Inr (pmngr\<lparr>bufptr := Some b, writepos := pos, datalen := datalen pmngr + writelen\<rparr>,
           writelen))))"

definition cb_write ::
  "CircleBufferMngr \<Rightarrow> bytes \<Rightarrow> s32 \<Rightarrow> (CircleBufferMngr \<times> s32) res" where
  "cb_write pmngr datptr datlen =
     (if cb_full pmngr then Inr (pmngr, 0) else cb_write_locked pmngr datptr datlen)"

section \<open>Invariant and abstraction\<close>

definition cb_inv :: "CircleBufferMngr \<Rightarrow> bool" where
  "cb_inv m = (case bufptr m of None \<Rightarrow> False | Some b \<Rightarrow>
     length b = unat (buflen m) \<and> 0 < unat (buflen m) \<and> unat (buflen m) < 2 ^ 31 \<and>
     unat (datalen m) \<le> unat (buflen m) \<and>
     unat (readpos m) < unat (buflen m) \<and>
     unat (writepos m) = (unat (readpos m) + unat (datalen m)) mod unat (buflen m))"

definition cb_list :: "CircleBufferMngr \<Rightarrow> bytes" where
  "cb_list m = (case bufptr m of None \<Rightarrow> [] | Some b \<Rightarrow>
     map (\<lambda>i. b ! ((unat (readpos m) + i) mod unat (buflen m))) [0..<unat (datalen m)])"

definition cb_cap :: "CircleBufferMngr \<Rightarrow> nat" where
  "cb_cap m = unat (buflen m)"

text \<open>
  The same invariant over the natural numbers that the fields denote: buffer \<open>b\<close> of length
  \<open>L\<close>, \<open>R\<close> the read position, \<open>D\<close> the number of bytes held, \<open>W\<close> the write position.
\<close>

lemma cb_invE:
  assumes "cb_inv m"
  obtains b L R D W where
    "bufptr m = Some b" "length b = L" "unat (buflen m) = L" "unat (datalen m) = D"
    "unat (readpos m) = R" "unat (writepos m) = W"
    "0 < L" "L < 2 ^ 31" "D \<le> L" "R < L" "W < L" "W = (if R + D < L then R + D else R + D - L)"
proof -
  obtain b where b: "bufptr m = Some b" using assms by (auto simp: cb_inv_def split: option.splits)
  moreover have "unat (writepos m) < unat (buflen m)"
    using assms b by (simp add: cb_inv_def)
  ultimately show ?thesis
    using assms that [of b] by (simp add: cb_inv_def mod_if_less)
qed

lemma cb_list_nth:
  "cb_inv m \<Longrightarrow> bufptr m = Some b \<Longrightarrow> i < unat (datalen m) \<Longrightarrow>
   cb_list m ! i = b ! (if unat (readpos m) + i < unat (buflen m) then unat (readpos m) + i
                        else unat (readpos m) + i - unat (buflen m))"
  by (auto simp: cb_list_def cb_inv_def mod_if_less)

lemma length_cb_list [simp]: "cb_inv m \<Longrightarrow> length (cb_list m) = unat (datalen m)"
  by (auto simp: cb_list_def cb_inv_def split: option.splits)

lemma cb_list_bounded: "cb_inv m \<Longrightarrow> length (cb_list m) \<le> cb_cap m"
  by (auto simp: cb_cap_def cb_inv_def split: option.splits)

section \<open>Refinement of a byte queue\<close>

lemma cb_list_prefix_near:
  assumes "cb_inv m" "bufptr m = Some b" "n \<le> unat (datalen m)"
    "unat (readpos m) + n \<le> unat (buflen m)"
  shows "take n (cb_list m) = take n (drop (unat (readpos m)) b)"
  using assms by (intro nth_equalityI) (auto simp: cb_list_nth, auto simp: cb_inv_def)

lemma cb_list_prefix_wrap:
  assumes "cb_inv m" "bufptr m = Some b" "n \<le> unat (datalen m)"
    "unat (buflen m) < unat (readpos m) + n"
    and t: "t = unat (buflen m) - unat (readpos m)"
  shows "take n (cb_list m) = take t (drop (unat (readpos m)) b) @ take (n - t) b"
proof (rule nth_equalityI)
  have len: "length b = unat (buflen m)" "unat (readpos m) < unat (buflen m)"
    "unat (datalen m) \<le> unat (buflen m)"
    using assms(1,2) by (auto simp: cb_inv_def)
  then show "length (take n (cb_list m)) =
      length (take t (drop (unat (readpos m)) b) @ take (n - t) b)"
    using assms by auto
  fix i assume "i < length (take n (cb_list m))"
  then show "take n (cb_list m) ! i = (take t (drop (unat (readpos m)) b) @ take (n - t) b) ! i"
    using assms len by (auto simp: cb_list_nth nth_append intro!: arg_cong [of _ _ "(!) b"])
qed

lemma cb_copy_out_ok:
  assumes inv: "cb_inv m" and n: "unat len \<le> unat (datalen m)" "unat len \<le> length out"
  shows "cb_copy_out m (Some out) len = Inr (Some (overwrite out 0 (take (unat len) (cb_list m))))"
  using inv
proof (rule cb_invE)
  fix b L R D W
  assume f: "bufptr m = Some b" "length b = L" "unat (buflen m) = L" "unat (datalen m) = D"
    "unat (readpos m) = R" "R < L" "D \<le> L"
  have t: "unat (buflen m - readpos m) = L - R" using f by (simp add: unat_minus_small)
  show ?thesis
  proof (cases "len \<le> buflen m - readpos m")
    case True
    then have "unat len \<le> L - R" using t by (simp add: word_le_nat_alt)
    then show ?thesis using True f n cb_list_prefix_near [OF inv f(1), of "unat len"]
      by (simp add: cb_copy_out_def)
  next
    case False
    then have far: "L - R < unat len" using t by (simp add: word_le_nat_alt)
    then have d: "unat (len - (buflen m - readpos m)) = unat len - (L - R)"
      using t by (simp add: unat_minus_small)
    have "overwrite (overwrite out 0 (take (L - R) (drop R b))) (L - R) (take (unat len - (L - R)) b)
        = overwrite out 0 (take (L - R) (drop R b) @ take (unat len - (L - R)) b)"
      using overwrite_adjacent [of "take (L - R) (drop R b)" "take (unat len - (L - R)) b" out] f n far
      by simp
    then show ?thesis
      using False f n far t d cb_list_prefix_wrap [OF inv f(1), of "unat len" "L - R"]
      by (simp add: cb_copy_out_def)
  qed
qed

lemma cb_skip_list:
  assumes inv: "cb_inv m" and n: "n \<le> unat (datalen m)"
    and m': "unat (readpos m') = (unat (readpos m) + n) mod unat (buflen m)"
    "unat (datalen m') = unat (datalen m) - n"
    "bufptr m' = bufptr m" "buflen m' = buflen m" "writepos m' = writepos m"
  shows "cb_inv m' \<and> cb_list m' = drop n (cb_list m)"
  using inv
proof (rule cb_invE)
  fix b L R D W
  assume f: "bufptr m = Some b" "length b = L" "unat (buflen m) = L" "unat (datalen m) = D"
    "unat (readpos m) = R" "unat (writepos m) = W" "R < L" "D \<le> L" "0 < L" "L < 2 ^ 31"
    "W = (if R + D < L then R + D else R + D - L)"
  have r: "unat (readpos m') = (if R + n < L then R + n else R + n - L)"
    using m' f n by (simp add: mod_if_less)
  have inv': "cb_inv m'"
    using f m'(2-5) n r by (auto simp: cb_inv_def mod_if_less)
  moreover have "cb_list m' = drop n (cb_list m)"
  proof (rule nth_equalityI)
    show "length (cb_list m') = length (drop n (cb_list m))" using inv inv' m' by simp
    fix i assume "i < length (cb_list m')"
    then have i: "i < D - n" using inv' m' f by simp
    then show "cb_list m' ! i = drop n (cb_list m) ! i"
      using cb_list_nth [OF inv f(1), of "n + i"] cb_list_nth [OF inv' _, of b i] inv f m'(2-5) n r
      by (auto intro!: arg_cong [of _ _ "(!) b"])
  qed
  ultimately show ?thesis ..
qed

text \<open>The length that a read or a write settles on, as a number.\<close>

lemma unat_min_signed:
  assumes "unat x < 2 ^ 31" "unat y < 2 ^ 31"
  shows "unat (if x <s y then x else y :: s32) = min (unat y) (unat x)"
  using assms by (simp add: sless_unat)

lemma word_eq_of_nat: "unat x = k \<Longrightarrow> x = of_nat k"
  by auto

definition fits :: "bytes option \<Rightarrow> nat \<Rightarrow> bool" where
  "fits out k = (case out of None \<Rightarrow> True | Some b \<Rightarrow> k \<le> length b)"

lemma fits_simps [simp]: "fits None k" "fits (Some b) k = (k \<le> length b)"
  by (simp_all add: fits_def)

definition fill :: "bytes option \<Rightarrow> bytes \<Rightarrow> bytes option" where
  "fill out xs = map_option (\<lambda>b. overwrite b 0 xs) out"

lemma cb_copy_out_fill:
  "cb_inv m \<Longrightarrow> unat len \<le> unat (datalen m) \<Longrightarrow> fits out (unat len) \<Longrightarrow>
   cb_copy_out m out len = Inr (fill out (take (unat len) (cb_list m)))"
  by (cases out) (simp_all add: fill_def cb_copy_out_ok, simp add: cb_copy_out_def)

lemma cb_read_locked_refines:
  assumes inv: "cb_inv m" and len: "unat len < 2 ^ 31"
    and k: "k = min (unat len) (unat (datalen m))" and fit: "fits out k"
  shows "\<exists>m'. cb_read_locked m out len = Inr (m', fill out (take k (cb_list m)), of_nat k) \<and>
           cb_inv m' \<and> cb_list m' = drop k (cb_list m) \<and> buflen m' = buflen m"
proof -
  define n where "n = (if datalen m <s len then datalen m else len)"
  have d: "unat (datalen m) < 2 ^ 31" "unat (readpos m) < unat (buflen m)"
    "unat (buflen m) < 2 ^ 31" "buflen m \<noteq> 0"
    using inv by (auto simp: cb_inv_def split: option.splits)
  have n: "unat n = k" unfolding n_def using unat_min_signed [OF d(1) len] k by simp
  then have nle: "unat n \<le> unat (datalen m)" "fits out (unat n)" using k fit by auto
  let ?m = "m\<lparr>readpos := (readpos m + n) mod buflen m, datalen := datalen m - n\<rparr>"
  have "cb_read_locked m out len = Inr (?m, fill out (take k (cb_list m)), n)"
    using cb_copy_out_fill [OF inv nle] n d(4)
    by (simp add: cb_read_locked_def umod_def Let_def flip: n_def)
  moreover have "cb_inv ?m \<and> cb_list ?m = drop k (cb_list m)"
    by (rule cb_skip_list [OF inv])
       (use n k d in \<open>simp_all add: unat_mod_distrib unat_plus_small unat_minus_small\<close>)
  ultimately show ?thesis using word_eq_of_nat [OF n] by auto
qed

lemma cb_read_refines:
  assumes inv: "cb_inv m" and len: "unat len < 2 ^ 31"
    and k: "k = min (unat len) (length (cb_list m))" and fit: "fits out k"
  shows "\<exists>m'. cb_read m out len = Inr (m', fill out (take k (cb_list m)), of_nat k) \<and>
           cb_inv m' \<and> cb_list m' = drop k (cb_list m) \<and> buflen m' = buflen m"
proof (cases "cb_empty m")
  case True
  then have "length (cb_list m) = 0" using inv by (simp add: cb_empty_def)
  then have "k = 0" "fill out [] = out" using k by (auto simp: fill_def option.map_ident_strong)
  then show ?thesis using inv True by (simp add: cb_read_def)
next
  case False
  then show ?thesis using cb_read_locked_refines [OF inv len, of k out] k fit inv
    by (simp add: cb_read_def)
qed

lemma cb_read_no_offset_refines:
  assumes inv: "cb_inv m" and len: "unat len < 2 ^ 31"
    and k: "k = min (unat len) (length (cb_list m))" and fit: "fits out k"
  shows "cb_read_no_offset m out len = Inr (fill out (take k (cb_list m)), of_nat k)"
proof (cases "cb_empty m")
  case True
  then have "length (cb_list m) = 0" using inv by (simp add: cb_empty_def)
  then have "k = 0" "fill out [] = out" using k by (auto simp: fill_def option.map_ident_strong)
  then show ?thesis using True by (simp add: cb_read_no_offset_def)
next
  case False
  define n where "n = (if datalen m <s len then datalen m else len)"
  have d: "unat (datalen m) < 2 ^ 31" using inv by (auto simp: cb_inv_def split: option.splits)
  have n: "unat n = k" unfolding n_def using unat_min_signed [OF d len] k inv by simp
  then show ?thesis using cb_copy_out_fill [OF inv, of n out] k fit inv word_eq_of_nat [OF n] False
    by (simp add: cb_read_no_offset_def Let_def flip: n_def)
qed

lemma cb_read_move_offset_refines:
  assumes inv: "cb_inv m" and len: "unat offset < 2 ^ 31"
  shows "\<exists>m'. cb_read_move_offset m offset = Inr m' \<and> cb_inv m' \<and>
           cb_list m' = drop (unat offset) (cb_list m) \<and> buflen m' = buflen m"
  using inv
proof (rule cb_invE)
  fix b L R D W
  assume f: "bufptr m = Some b" "length b = L" "unat (buflen m) = L" "unat (datalen m) = D"
    "unat (readpos m) = R" "unat (writepos m) = W" "R < L" "D \<le> L" "0 < L" "L < 2 ^ 31" "W < L"
  have s: "(datalen m \<le>s offset) = (D \<le> unat offset)"
    using f len by (simp add: sle_unat)
  show ?thesis
  proof (cases "D \<le> unat offset")
    case True
    let ?m = "m\<lparr>readpos := writepos m, datalen := 0\<rparr>"
    have "cb_inv ?m" using f by (simp add: cb_inv_def)
    moreover have "cb_list ?m = []" using f by (simp add: cb_list_def)
    ultimately show ?thesis using True s f inv
      by (simp add: cb_read_move_offset_def cb_datalen_def)
  next
    case False
    let ?m = "m\<lparr>readpos := (readpos m + offset) mod buflen m, datalen := datalen m - offset\<rparr>"
    have "buflen m \<noteq> 0" using f by auto
    moreover have "cb_inv ?m \<and> cb_list ?m = drop (unat offset) (cb_list m)"
      by (rule cb_skip_list [OF inv])
         (use False f in \<open>simp_all add: unat_mod_distrib unat_plus_small unat_minus_small\<close>)
    ultimately show ?thesis using False s
      by (simp add: cb_read_move_offset_def cb_datalen_def umod_def)
  qed
qed

text \<open>Where an old and a new index of the queue lie in the ring.\<close>

lemma ring_old_index:
  assumes "R < L" "D \<le> L" "n \<le> L - D" "i < D"
    "W = (if R + D < L then R + D else R + D - L)" "p = (if R + i < L then R + i else R + i - L)"
  shows "\<not> (W \<le> p \<and> p < W + n) \<and> \<not> p + L < W + (n :: nat)"
  using assms by (cases "R + D < L"; cases "R + i < L"; simp; arith)

lemma ring_new_index:
  assumes "R < L" "D \<le> L" "n \<le> L - D" "\<not> i < D" "i < D + n"
    "W = (if R + D < L then R + D else R + D - L)" "p = (if R + i < L then R + i else R + i - L)"
  shows "(W \<le> p \<and> p < W + n \<and> p - W = i - D) \<or>
         (\<not> W \<le> p \<and> p + L < W + n \<and> p + L - W = i - (D :: nat))"
  using assms by (cases "R + D < L"; cases "R + i < L"; simp; arith)

text \<open>Writing \<open>n\<close> bytes at the write position, around the end of the buffer if need be.\<close>

lemma cb_store_list:
  assumes inv: "cb_inv m" and b: "bufptr m = Some b"
    and n: "n \<le> unat (buflen m) - unat (datalen m)" "n \<le> length xs"
    and b': "length b' = length b"
    "\<And>j. j < unat (buflen m) \<Longrightarrow>
       b' ! j = (if unat (writepos m) \<le> j \<and> j < unat (writepos m) + n then xs ! (j - unat (writepos m))
                 else if j + unat (buflen m) < unat (writepos m) + n
                 then xs ! (j + unat (buflen m) - unat (writepos m)) else b ! j)"
    and m': "bufptr m' = Some b'" "buflen m' = buflen m" "readpos m' = readpos m"
    "unat (writepos m') = (unat (writepos m) + n) mod unat (buflen m)"
    "unat (datalen m') = unat (datalen m) + n"
  shows "cb_inv m' \<and> cb_list m' = cb_list m @ take n xs"
  using inv
proof (rule cb_invE)
  fix c L R D W
  assume f: "bufptr m = Some c" "length c = L" "unat (buflen m) = L" "unat (datalen m) = D"
    "unat (readpos m) = R" "unat (writepos m) = W" "R < L" "D \<le> L" "0 < L" "L < 2 ^ 31" "W < L"
    "W = (if R + D < L then R + D else R + D - L)"
  have "unat (writepos m') = (R + (D + n)) mod L"
    using m'(4) f inv b by (simp add: cb_inv_def mod_simps add.assoc)
  then have inv': "cb_inv m'"
    using f m' n b b'(1) by (simp add: cb_inv_def add.assoc)
  moreover have "cb_list m' = cb_list m @ take n xs"
  proof (rule nth_equalityI)
    show "length (cb_list m') = length (cb_list m @ take n xs)" using inv inv' m' n by simp
    fix i assume "i < length (cb_list m')"
    then have i: "i < D + n" using inv' m' f by simp
    define p where "p = (if R + i < L then R + i else R + i - L)"
    have p: "p < L" using i f n p_def by (auto split: if_splits)
    have "cb_list m' ! i = b' ! p"
      using cb_list_nth [OF inv' m'(1), of i] i f m' by (simp add: p_def)
    also have "\<dots> = (if i < D then b ! p else xs ! (i - D))"
    proof (cases "i < D")
      case True
      have "n \<le> L - D" using n(1) f(3,4) by simp
      then have "\<not> (W \<le> p \<and> p < W + n) \<and> \<not> p + L < W + n"
        using ring_old_index [OF f(7,8) _ True f(12) p_def] by simp
      then show ?thesis using b'(2) [of p] p f(3,6) True by auto
    next
      case False
      have "n \<le> L - D" using n(1) f(3,4) by simp
      from ring_new_index [OF f(7,8) this False i f(12) p_def]
      show ?thesis using b'(2) [of p] p f(3,6) False by (elim disjE) simp_all
    qed
    also have "\<dots> = (cb_list m @ take n xs) ! i"
      using cb_list_nth [OF inv b, of i] i f inv by (simp add: nth_append p_def)
    finally show "cb_list m' ! i = (cb_list m @ take n xs) ! i" .
  qed
  ultimately show ?thesis ..
qed

lemma cb_copy_in_ok:
  assumes inv: "cb_inv m" and b: "bufptr m = Some b"
    and n: "unat len \<le> unat (buflen m) - unat (datalen m)" "unat len \<le> length xs"
  shows "\<exists>b'. cb_copy_in m xs len = Inr b' \<and> length b' = length b \<and>
    (\<forall>j < unat (buflen m).
       b' ! j = (if unat (writepos m) \<le> j \<and> j < unat (writepos m) + unat len then xs ! (j - unat (writepos m))
                 else if j + unat (buflen m) < unat (writepos m) + unat len
                 then xs ! (j + unat (buflen m) - unat (writepos m)) else b ! j))"
  using inv
proof (rule cb_invE)
  fix c L R D W
  assume f: "bufptr m = Some c" "length c = L" "unat (buflen m) = L" "unat (datalen m) = D"
    "unat (readpos m) = R" "unat (writepos m) = W" "R < L" "D \<le> L" "0 < L" "L < 2 ^ 31" "W < L"
    "W = (if R + D < L then R + D else R + D - L)"
  define N where "N = unat len"
  have N: "N \<le> L - D" "N \<le> length xs" using n f(3,4) by (simp_all add: N_def)
  have t: "unat (buflen m - writepos m) = L - W" using f(3,6,11) by (simp add: unat_minus_small)
  have small: "unat len < 2 ^ 31" "unat (buflen m - writepos m) < 2 ^ 31"
    using N f(10) t by (simp_all add: N_def)
  have lt: "(writepos m < readpos m) = (W < R)" using f(5,6) by (simp add: word_less_nat_alt)
  have near: "W + N \<le> L" if "W < R" using that N(1) f(7,8,12) by (simp split: if_splits)
  show ?thesis
  proof (cases "W < R \<or> N \<le> L - W")
    case True
    then have "W + N \<le> L" using near f(11) by auto
    moreover have "len \<le>s buflen m - writepos m" if "\<not> W < R"
      using that True t sle_unat [OF small] by (simp add: N_def)
    ultimately have "cb_copy_in m xs len = Inr (overwrite b W (take N xs))"
      using f(1,2,6) b N(2) lt by (auto simp: cb_copy_in_def Let_def simp flip: N_def)
    then show ?thesis using \<open>W + N \<le> L\<close> f(1-3,6) b N(2)
      by (auto simp: nth_overwrite simp flip: N_def)
  next
    case False
    then have far: "\<not> W < R" "L - W < N" "\<not> len \<le>s buflen m - writepos m"
      using t sle_unat [OF small] by (simp_all add: N_def)
    have d: "unat (len - (buflen m - writepos m)) = N - (L - W)"
      using far t by (simp add: unat_minus_small N_def)
    have "N - (L - W) \<le> L" using N(1) by simp
    then have "cb_copy_in m xs len =
        Inr (overwrite (overwrite b W (take (L - W) xs)) 0 (take (N - (L - W)) (drop (L - W) xs)))"
      using f(1,2,6,11) b N(2) lt far d t by (simp add: cb_copy_in_def Let_def)
    moreover have "N \<le> L" using N(1) by simp
    ultimately show ?thesis using far f(1-3,6,11) b N(2)
      by (auto simp: nth_overwrite add.commute simp flip: N_def)
  qed
qed

lemma cb_write_locked_refines:
  assumes inv: "cb_inv m" and len: "unat len < 2 ^ 31" "unat len \<le> length xs"
    and k: "k = min (unat len) (cb_cap m - length (cb_list m))"
  shows "\<exists>m'. cb_write_locked m xs len = Inr (m', of_nat k) \<and> cb_inv m' \<and>
           cb_list m' = cb_list m @ take k xs \<and> buflen m' = buflen m"
  using inv
proof (rule cb_invE)
  fix b L R D W
  assume f: "bufptr m = Some b" "length b = L" "unat (buflen m) = L" "unat (datalen m) = D"
    "unat (readpos m) = R" "unat (writepos m) = W" "R < L" "D \<le> L" "0 < L" "L < 2 ^ 31" "W < L"
  define n where "n = (if len <s buflen m - datalen m then len else buflen m - datalen m)"
  have t: "unat (buflen m - datalen m) = L - D" using f(3,4,8) by (simp add: unat_minus_small)
  have n: "unat n = k" unfolding n_def
    using unat_min_signed [of len "buflen m - datalen m"] len t f(3,4,10) k inv
    by (simp add: cb_cap_def)
  have kle: "k \<le> L - D" "k \<le> length xs" using k len inv f(3,4) by (simp_all add: cb_cap_def)
  obtain b' where b': "cb_copy_in m xs n = Inr b'" "length b' = length b"
    "\<forall>j < unat (buflen m).
       b' ! j = (if unat (writepos m) \<le> j \<and> j < unat (writepos m) + k then xs ! (j - unat (writepos m))
                 else if j + unat (buflen m) < unat (writepos m) + k
                 then xs ! (j + unat (buflen m) - unat (writepos m)) else b ! j)"
    using cb_copy_in_ok [OF inv f(1), of n xs] n kle f(3,4) by auto
  let ?m = "m\<lparr>bufptr := Some b', writepos := (writepos m + n) mod buflen m, datalen := datalen m + n\<rparr>"
  have "buflen m \<noteq> 0" using f(3,9) by auto
  then have "cb_write_locked m xs len = Inr (?m, n)"
    using b'(1) by (simp add: cb_write_locked_def umod_def Let_def flip: n_def)
  moreover have "cb_inv ?m \<and> cb_list ?m = cb_list m @ take k xs"
  proof (rule cb_store_list [OF inv f(1)])
    show "unat (writepos ?m) = (unat (writepos m) + k) mod unat (buflen m)"
      using n kle f(3,6,10,11) by (simp add: unat_mod_distrib unat_plus_small)
    show "unat (datalen ?m) = unat (datalen m) + k"
      using n kle f(4,8,10) by (simp add: unat_plus_small)
  qed (use kle f(3,4) b' in simp_all)
  ultimately show ?thesis using word_eq_of_nat [OF n] by auto
qed

lemma cb_write_refines:
  assumes inv: "cb_inv m" and len: "unat len < 2 ^ 31" "unat len \<le> length xs"
    and k: "k = min (unat len) (cb_cap m - length (cb_list m))"
  shows "\<exists>m'. cb_write m xs len = Inr (m', of_nat k) \<and> cb_inv m' \<and>
           cb_list m' = cb_list m @ take k xs \<and> buflen m' = buflen m"
proof (cases "cb_full m")
  case True
  then have "k = 0" using k inv by (simp add: cb_full_def cb_cap_def)
  then show ?thesis using True inv by (simp add: cb_write_def)
next
  case False
  then show ?thesis using cb_write_locked_refines [OF inv len k] by (simp add: cb_write_def)
qed

lemma cb_init_inv:
  assumes "0 < unat len" "unat len < 2 ^ 31" "cb_init H k None len = Inr (Some m, True, k')"
  shows "cb_inv m \<and> cb_list m = [] \<and> buflen m = len"
  using assms by (auto simp: cb_init_def cb_inv_def cb_list_def split: if_splits)

section \<open>The queue interface\<close>

text \<open>
  What the UART threads rely on: a bounded queue of bytes that accepts as much of a block as
  fits, delivers a prefix into the caller's buffer, shows a prefix without consuming it, and
  drops a prefix.
\<close>

locale byte_fifo =
  fixes inv :: "'s \<Rightarrow> bool" and contents :: "'s \<Rightarrow> bytes" and capacity :: "'s \<Rightarrow> nat"
    and wr :: "'s \<Rightarrow> bytes \<Rightarrow> s32 \<Rightarrow> ('s \<times> s32) res"
    and rd :: "'s \<Rightarrow> bytes option \<Rightarrow> s32 \<Rightarrow> ('s \<times> bytes option \<times> s32) res"
    and peek :: "'s \<Rightarrow> bytes option \<Rightarrow> s32 \<Rightarrow> (bytes option \<times> s32) res"
    and skip :: "'s \<Rightarrow> s32 \<Rightarrow> 's res"
  assumes bounded: "inv s \<Longrightarrow> length (contents s) \<le> capacity s"
    and capacity_small: "inv s \<Longrightarrow> capacity s < 2 ^ 31"
    and write_law: "inv s \<Longrightarrow> unat len < 2 ^ 31 \<Longrightarrow> unat len \<le> length xs \<Longrightarrow>
      k = min (unat len) (capacity s - length (contents s)) \<Longrightarrow>
      \<exists>s'. wr s xs len = Inr (s', of_nat k) \<and> inv s' \<and>
        contents s' = contents s @ take k xs \<and> capacity s' = capacity s"
    and read_law: "inv s \<Longrightarrow> unat len < 2 ^ 31 \<Longrightarrow> k = min (unat len) (length (contents s)) \<Longrightarrow>
      fits out k \<Longrightarrow>
      \<exists>s'. rd s out len = Inr (s', fill out (take k (contents s)), of_nat k) \<and> inv s' \<and>
        contents s' = drop k (contents s) \<and> capacity s' = capacity s"
    and peek_law: "inv s \<Longrightarrow> unat len < 2 ^ 31 \<Longrightarrow> k = min (unat len) (length (contents s)) \<Longrightarrow>
      fits out k \<Longrightarrow> peek s out len = Inr (fill out (take k (contents s)), of_nat k)"
    and skip_law: "inv s \<Longrightarrow> unat len < 2 ^ 31 \<Longrightarrow>
      \<exists>s'. skip s len = Inr s' \<and> inv s' \<and> contents s' = drop (unat len) (contents s) \<and>
        capacity s' = capacity s"

text \<open>
  The three ways in which the daemon uses a queue: \<open>Put\<close> writes a block, \<open>Get\<close> reads up to
  \<open>n\<close> bytes, and \<open>Consume\<close> looks at up to \<open>n\<close> bytes and then drops the first \<open>k\<close> of
  what was seen, the pattern of the UART parsing thread. A step reports the bytes accepted and the
  bytes delivered.
\<close>

datatype fifo_op = Put bytes | Get nat | Consume nat nat

fun op_small :: "fifo_op \<Rightarrow> bool" where
  "op_small (Put xs) = (length xs < 2 ^ 31)"
| "op_small (Get n) = (n < 2 ^ 31)"
| "op_small (Consume n k) = (n < 2 ^ 31)"

fun fifo_step where
  "fifo_step wr rd pk sk s (Put xs) =
     bnd (wr s xs (of_nat (length xs))) (\<lambda>(s', n). Inr (s', take (unat (n :: s32)) xs, []))"
| "fifo_step wr rd pk sk s (Get n) =
     bnd (rd s (Some (replicate n 0)) (of_nat n)) (\<lambda>(s', out, k).
     bnd (deref out) (\<lambda>b. Inr (s', [], take (unat (k :: s32)) b)))"
| "fifo_step wr rd pk sk s (Consume n k) =
     bnd (pk s (Some (replicate n 0)) (of_nat n)) (\<lambda>(out, l).
     bnd (deref out) (\<lambda>b.
     bnd (sk s (of_nat (min k (unat (l :: s32))))) (\<lambda>s'.
     Inr (s', [], take (min k (unat l)) b))))"

fun fifo_run where
  "fifo_run wr rd pk sk s [] = Inr (s, [], [])"
| "fifo_run wr rd pk sk s (a # as) =
     bnd (fifo_step wr rd pk sk s a) (\<lambda>(s', acc, del).
     bnd (fifo_run wr rd pk sk s' as) (\<lambda>(s'', acc', del'). Inr (s'', acc @ acc', del @ del')))"

context byte_fifo
begin

lemma step_ok:
  assumes "inv s" "op_small a"
  shows "\<exists>s' acc del. fifo_step wr rd peek skip s a = Inr (s', acc, del) \<and> inv s' \<and>
    del @ contents s' = contents s @ acc \<and> capacity s' = capacity s"
proof (cases a)
  case (Put xs)
  let ?k = "min (length xs) (capacity s - length (contents s))"
  have "unat (of_nat (length xs) :: s32) = length xs" "unat (of_nat ?k :: s32) = ?k"
    using assms Put by (simp_all add: unat_of_nat_small)
  then show ?thesis using write_law [OF assms(1), of "of_nat (length xs)" xs ?k] assms Put by auto
next
  case (Get n)
  let ?k = "min n (length (contents s))"
  have "unat (of_nat n :: s32) = n" "unat (of_nat ?k :: s32) = ?k"
    using assms Get by (simp_all add: unat_of_nat_small)
  then show ?thesis
    using read_law [OF assms(1), of "of_nat n" ?k "Some (replicate n 0)"] assms Get
    by (auto simp: fill_def take_overwrite_front)
next
  case (Consume n k)
  let ?k = "min n (length (contents s))"
  have k: "unat (of_nat n :: s32) = n" "unat (of_nat ?k :: s32) = ?k"
    "unat (of_nat (min k ?k) :: s32) = min k ?k"
    using assms Consume by (simp_all add: unat_of_nat_small)
  moreover have "\<exists>s'. skip s (of_nat (min k ?k)) = Inr s' \<and> inv s' \<and>
      contents s' = drop (min k ?k) (contents s) \<and> capacity s' = capacity s"
    using skip_law [OF assms(1), of "of_nat (min k ?k)"] k(3) assms(2) Consume by simp
  moreover have "take (min k ?k) (overwrite (replicate n 0) 0 (take ?k (contents s)))
      = take (min k ?k) (contents s)"
    by (subst take_overwrite_front) (auto simp: min_def)
  ultimately show ?thesis
    using peek_law [OF assms(1), of "of_nat n" ?k "Some (replicate n 0)"] assms Consume
    by (auto simp: fill_def)
qed

lemma run_ok:
  "inv s \<Longrightarrow> list_all op_small as \<Longrightarrow>
   \<exists>s' acc del. fifo_run wr rd peek skip s as = Inr (s', acc, del) \<and> inv s' \<and>
     del @ contents s' = contents s @ acc \<and> capacity s' = capacity s"
proof (induction as arbitrary: s)
  case (Cons a as)
  from Cons.prems obtain s1 a1 d1 where s1: "fifo_step wr rd peek skip s a = Inr (s1, a1, d1)"
    "inv s1" "d1 @ contents s1 = contents s @ a1" "capacity s1 = capacity s"
    using step_ok [of s a] by auto
  with Cons.IH [of s1] Cons.prems obtain s2 a2 d2
    where s2: "fifo_run wr rd peek skip s1 as = Inr (s2, a2, d2)"
      "inv s2" "d2 @ contents s2 = contents s1 @ a2" "capacity s2 = capacity s1"
    by auto
  have "(d1 @ d2) @ contents s2 = contents s @ (a1 @ a2)"
    using s1(3) s2(3) by (metis append.assoc)
  with s1 s2 show ?case by simp
qed simp

lemma peek_then_skip_is_read:
  assumes "inv s" "unat len < 2 ^ 31" "k = min (unat len) (length (contents s))" "k \<le> length b"
  shows "\<exists>s1 s2 n. rd s (Some b) len = Inr (s1, Some (overwrite b 0 (take k (contents s))), n) \<and>
    peek s (Some b) len = Inr (Some (overwrite b 0 (take k (contents s))), n) \<and>
    skip s n = Inr s2 \<and> contents s1 = contents s2 \<and> unat n = k"
proof -
  have k: "unat (of_nat k :: s32) = k" "k < 2 ^ 31"
    using assms(2,3) by (simp_all add: unat_of_nat_small)
  then obtain s2 where "skip s (of_nat k) = Inr s2" "contents s2 = drop k (contents s)"
    using skip_law [OF assms(1), of "of_nat k"] by auto
  then show ?thesis
    using read_law [OF assms(1-3), of "Some b"] peek_law [OF assms(1-3), of "Some b"] k assms(4)
    by (auto simp: fill_def)
qed

end

interpretation cb: byte_fifo cb_inv cb_list cb_cap cb_write cb_read cb_read_no_offset
  cb_read_move_offset
proof unfold_locales
  fix s assume "cb_inv s"
  then show "length (cb_list s) \<le> cb_cap s" by (rule cb_list_bounded)
next
  fix s assume "cb_inv s"
  then show "cb_cap s < 2 ^ 31" by (auto simp: cb_cap_def cb_inv_def split: option.splits)
next
  fix s and len :: s32 and xs :: bytes and k
  assume "cb_inv s" "unat len < 2 ^ 31" "unat len \<le> length xs"
    "k = min (unat len) (cb_cap s - length (cb_list s))"
  then show "\<exists>s'. cb_write s xs len = Inr (s', of_nat k) \<and> cb_inv s' \<and>
      cb_list s' = cb_list s @ take k xs \<and> cb_cap s' = cb_cap s"
    using cb_write_refines by (fastforce simp: cb_cap_def)
next
  fix s and len :: s32 and k out
  assume "cb_inv s" "unat len < 2 ^ 31" "k = min (unat len) (length (cb_list s))" "fits out k"
  then show "\<exists>s'. cb_read s out len = Inr (s', fill out (take k (cb_list s)), of_nat k) \<and>
      cb_inv s' \<and> cb_list s' = drop k (cb_list s) \<and> cb_cap s' = cb_cap s"
    using cb_read_refines by (fastforce simp: cb_cap_def)
next
  fix s and len :: s32 and k out
  assume "cb_inv s" "unat len < 2 ^ 31" "k = min (unat len) (length (cb_list s))" "fits out k"
  then show "cb_read_no_offset s out len = Inr (fill out (take k (cb_list s)), of_nat k)"
    by (rule cb_read_no_offset_refines)
next
  fix s and len :: s32
  assume "cb_inv s" "unat len < 2 ^ 31"
  then show "\<exists>s'. cb_read_move_offset s len = Inr s' \<and> cb_inv s' \<and>
      cb_list s' = drop (unat len) (cb_list s) \<and> cb_cap s' = cb_cap s"
    using cb_read_move_offset_refines by (fastforce simp: cb_cap_def)
qed

section \<open>Properties\<close>

text \<open>
  The buffers that the daemon creates: \<open>cb_init\<close> with a length of its own gives an empty queue
  of that capacity, whatever the heap holds.
\<close>

definition cb_new :: "u32 \<Rightarrow> CircleBufferMngr" where
  "cb_new len = \<lparr>bufptr = Some (replicate (unat len) 0), buflen = len, datalen = 0,
                 readpos = 0, writepos = 0\<rparr>"

lemma cb_new_inv [simp]: "0 < unat len \<Longrightarrow> unat len < 2 ^ 31 \<Longrightarrow> cb_inv (cb_new len)"
  by (simp add: cb_new_def cb_inv_def)

lemma cb_new_list [simp]: "cb_list (cb_new len) = []"
  by (simp add: cb_new_def cb_list_def)

lemma cb_new_cap [simp]: "cb_cap (cb_new len) = unat len"
  by (simp add: cb_new_def cb_cap_def)

text \<open>A full buffer with given content.\<close>

definition cb_of :: "bytes \<Rightarrow> CircleBufferMngr" where
  "cb_of xs = \<lparr>bufptr = Some xs, buflen = of_nat (length xs), datalen = of_nat (length xs),
               readpos = 0, writepos = 0\<rparr>"

lemma cb_of_facts [simp]:
  assumes "xs \<noteq> []" "length xs < 2 ^ 31"
  shows "cb_inv (cb_of xs)" "cb_list (cb_of xs) = xs" "cb_cap (cb_of xs) = length xs"
proof -
  have u: "unat (of_nat (length xs) :: s32) = length xs" using assms(2) by (simp add: unat_of_nat_small)
  then show "cb_inv (cb_of xs)" "cb_cap (cb_of xs) = length xs"
    using assms by (simp_all add: cb_of_def cb_inv_def cb_cap_def)
  show "cb_list (cb_of xs) = xs"
    using u by (intro nth_equalityI) (simp_all add: cb_of_def cb_list_def)
qed

text \<open>
  C1. FIFO order over any interleaving of operations. Starting from a buffer in a valid state, any
  sequence of writes, reads and peek-then-skip steps runs without a fault, keeps the invariant, and
  the bytes delivered followed by the bytes still held are the bytes held at first followed by the
  bytes accepted: nothing is lost, duplicated or reordered, across every wrap-around of the ring.
\<close>

theorem cb_run_fifo:
  assumes "cb_inv m" "list_all op_small ops"
  shows "\<exists>m' acc del.
    fifo_run cb_write cb_read cb_read_no_offset cb_read_move_offset m ops = Inr (m', acc, del) \<and>
    cb_inv m' \<and> del @ cb_list m' = cb_list m @ acc \<and> cb_cap m' = cb_cap m"
  using assms by (rule cb.run_ok)

theorem cb_run_fifo_witness:
  "\<exists>m' acc del.
    fifo_run cb_write cb_read cb_read_no_offset cb_read_move_offset (cb_new 4)
      [Put [1, 2, 3], Consume 2 1, Put [4, 5, 6], Get 3] = Inr (m', acc, del) \<and>
    cb_inv m' \<and> del @ cb_list m' = cb_list (cb_new 4) @ acc \<and> cb_cap m' = cb_cap (cb_new 4)"
  by (rule cb_run_fifo) simp_all

text \<open>
  \<open>cb_write\<close> accepts exactly the bytes that fit: the result is the smaller of the requested
  length and the free space, those bytes are appended to the queue, and no access leaves the
  storage block.
\<close>

lemma cb_write_correct:
  assumes "cb_inv m" "unat len < 2 ^ 31" "unat len \<le> length xs"
    and "k = min (unat len) (cb_cap m - length (cb_list m))"
  shows "\<exists>m'. cb_write m xs len = Inr (m', of_nat k) \<and> cb_inv m' \<and>
           cb_list m' = cb_list m @ take k xs \<and> buflen m' = buflen m"
  using assms by (rule cb_write_refines)

lemma cb_write_correct_example:
  "\<exists>m'. cb_write (cb_new 2) [7, 8, 9] 3 = Inr (m', of_nat 2) \<and> cb_inv m' \<and>
     cb_list m' = cb_list (cb_new 2) @ take 2 [7, 8, 9] \<and> buflen m' = buflen (cb_new 2)"
  by (rule cb_write_correct) simp_all

text \<open>
  \<open>cb_read\<close> delivers the oldest bytes: as many as asked for and held, copied to the front of
  the caller's buffer (when one is given) and removed from the queue.
\<close>

lemma cb_read_correct:
  assumes "cb_inv m" "unat len < 2 ^ 31"
    and "k = min (unat len) (length (cb_list m))" "fits out k"
  shows "\<exists>m'. cb_read m out len = Inr (m', fill out (take k (cb_list m)), of_nat k) \<and>
           cb_inv m' \<and> cb_list m' = drop k (cb_list m) \<and> buflen m' = buflen m"
  using assms by (rule cb_read_refines)

definition cb_example :: CircleBufferMngr where
  "cb_example = \<lparr>bufptr = Some [3, 4, 1, 2], buflen = 4, datalen = 3, readpos = 2, writepos = 1\<rparr>"

lemma cb_example_facts [simp]:
  "cb_inv cb_example" "cb_list cb_example = [1, 2, 3]" "cb_cap cb_example = 4"
  by (simp_all add: cb_example_def cb_inv_def cb_list_def cb_cap_def upt_rec)

lemma cb_read_correct_example:
  "\<exists>m'. cb_read cb_example (Some [0, 0, 0]) 2 =
          Inr (m', fill (Some [0, 0, 0]) (take 2 (cb_list cb_example)), of_nat 2) \<and>
     cb_inv m' \<and> cb_list m' = drop 2 (cb_list cb_example) \<and> buflen m' = buflen cb_example"
  by (rule cb_read_correct) simp_all

text \<open>
  Looking and then skipping is reading: \<open>cb_read_no_offset\<close> followed by
  \<open>cb_read_move_offset\<close> with the length it returned gives the caller the same bytes and leaves
  the same queue as \<open>cb_read\<close>.
\<close>

lemma cb_peek_skip_is_read:
  assumes "cb_inv m" "unat len < 2 ^ 31" "k = min (unat len) (length (cb_list m))" "k \<le> length b"
  shows "\<exists>m1 m2 n. cb_read m (Some b) len = Inr (m1, Some (overwrite b 0 (take k (cb_list m))), n) \<and>
    cb_read_no_offset m (Some b) len = Inr (Some (overwrite b 0 (take k (cb_list m))), n) \<and>
    cb_read_move_offset m n = Inr m2 \<and> cb_list m1 = cb_list m2 \<and> unat n = k"
  using assms by (rule cb.peek_then_skip_is_read)

lemma cb_peek_skip_is_read_example:
  "\<exists>m1 m2 n. cb_read cb_example (Some [0, 0, 0, 0]) 9 =
      Inr (m1, Some (overwrite [0, 0, 0, 0] 0 (take 3 (cb_list cb_example))), n) \<and>
    cb_read_no_offset cb_example (Some [0, 0, 0, 0]) 9 =
      Inr (Some (overwrite [0, 0, 0, 0] 0 (take 3 (cb_list cb_example))), n) \<and>
    cb_read_move_offset cb_example n = Inr m2 \<and> cb_list m1 = cb_list m2 \<and> unat n = 3"
  by (rule cb_peek_skip_is_read) simp_all

end
