(* ===== verification/Scorpion_Misc.thy ===== *)
theory Scorpion_Misc
  imports X300_Prelude
begin

text \<open>
  The helper routines of \<open>external/scorpion/scorpion_misc.c\<close>: the table-free CRC-16, the
  XOR checksum that both wire protocols use, the power function and the BCD decoder. The
  CRC is shown equal to the bit-serial CRC-CCITT division, the checksum to the XOR of the
  bytes, and the BCD decoder to the inverse of BCD encoding.
\<close>

section \<open>CRC-16\<close>

text \<open>The body of the loop of \<open>crc16_compute\<close>, one assignment per line.\<close>

definition crc16_byte :: "u16 \<Rightarrow> u8 \<Rightarrow> u16" where
  "crc16_byte crc d =
     (let crc = ucast (ucast (drop_bit 8 crc) :: u8) OR push_bit 8 crc;
          crc = crc XOR ucast d;
          crc = crc XOR ucast (drop_bit 4 (ucast (crc AND 0xff) :: u8));
          crc = crc XOR push_bit 4 (push_bit 8 crc);
          crc = crc XOR push_bit 1 (push_bit 4 (crc AND 0xff))
      in crc)"

function crc16_loop :: "bytes \<Rightarrow> nat \<Rightarrow> nat \<Rightarrow> u16 \<Rightarrow> u16 res" where
  "crc16_loop p_data sz i crc =
     (if i < sz then bnd (mem_get p_data (int i)) (\<lambda>d.
        crc16_loop p_data sz (Suc i) (crc16_byte crc d))
      else Inr crc)"
  by pat_completeness auto
termination
  by (relation "measure (\<lambda>(p_data, sz, i, crc). sz - i)") auto

declare crc16_loop.simps [simp del]

definition crc16_compute :: "bytes \<Rightarrow> u32 \<Rightarrow> u16 option \<Rightarrow> u16 res" where
  "crc16_compute p_data sz p_crc =
     crc16_loop p_data (unat sz) 0 (case p_crc of None \<Rightarrow> 0xffff | Some crc \<Rightarrow> crc)"

text \<open>The bit-serial reference: division by the CCITT polynomial, most significant bit first.\<close>

definition ccitt_bit :: "u16 \<Rightarrow> u16" where
  "ccitt_bit crc = push_bit 1 crc XOR (if bit crc 15 then 0x1021 else 0)"

definition ccitt_byte :: "u16 \<Rightarrow> u8 \<Rightarrow> u16" where
  "ccitt_byte crc d = (ccitt_bit ^^ 8) (crc XOR push_bit 8 (ucast d))"

section \<open>The XOR checksum\<close>

text \<open>
  \<open>p_data\<close> is the address \<open>off\<close> inside the object \<open>b\<close>; \<open>len\<close> is the value of the
  \<open>unsigned int\<close> parameter.
\<close>

function xor8_loop :: "bytes \<Rightarrow> int \<Rightarrow> int \<Rightarrow> int \<Rightarrow> u8 \<Rightarrow> u8 res" where
  "xor8_loop b off len i x =
     (if i < len then bnd (mem_get b (off + i)) (\<lambda>d. xor8_loop b off len (i + 1) (x XOR d))
      else Inr x)"
  by pat_completeness auto
termination
  by (relation "measure (\<lambda>(b, off, len, i, x). nat (len - i))") auto

declare xor8_loop.simps [simp del]

definition xor8_computer :: "bytes \<Rightarrow> int \<Rightarrow> int \<Rightarrow> u8 res" where
  "xor8_computer b off len = xor8_loop b off (to_unsigned len) 0 0"

definition xor8 :: "bytes \<Rightarrow> u8" where
  "xor8 xs = foldl (XOR) 0 xs"

section \<open>Powers and BCD\<close>

function power_loop :: "int \<Rightarrow> int \<Rightarrow> int \<Rightarrow> u32 \<Rightarrow> u32" where
  "power_loop base tms i rusult =
     (if i < tms then power_loop base tms (i + 1) (rusult * of_int base) else rusult)"
  by pat_completeness auto
termination
  by (relation "measure (\<lambda>(base, tms, i, rusult). nat (tms - i))") auto

declare power_loop.simps [simp del]

definition power_u32 :: "int \<Rightarrow> int \<Rightarrow> u32" where
  "power_u32 base tms = power_loop base tms 0 1"

definition bcd_byte :: "u8 \<Rightarrow> u32" where
  "bcd_byte b = ucast (drop_bit 4 b AND 0x0F) * 10 + ucast (b AND 0x0F)"

function bcd_loop :: "bytes \<Rightarrow> int \<Rightarrow> int \<Rightarrow> u32 \<Rightarrow> u32 res" where
  "bcd_loop buf len i dec =
     (if i < len then bnd (mem_get buf i) (\<lambda>b.
        bcd_loop buf len (i + 1) (dec + bcd_byte b * power_u32 100 (len - 1 - i)))
      else Inr dec)"
  by pat_completeness auto
termination
  by (relation "measure (\<lambda>(buf, len, i, dec). nat (len - i))") auto

declare bcd_loop.simps [simp del]

definition bcd2decimal :: "bytes \<Rightarrow> int \<Rightarrow> u32 res" where
  "bcd2decimal buf len = bcd_loop buf len 0 0"

text \<open>The reference encoder: two decimal digits per byte, most significant pair first.\<close>

definition bcd_digits :: "nat \<Rightarrow> u8" where
  "bcd_digits n = of_nat (16 * (n div 10 mod 10) + n mod 10)"

fun to_bcd :: "nat \<Rightarrow> nat \<Rightarrow> bytes" where
  "to_bcd 0 n = []"
| "to_bcd (Suc k) n = to_bcd k (n div 100) @ [bcd_digits (n mod 100)]"

section \<open>The checksum is the XOR of the bytes\<close>

lemma xor8_loop_ok:
  "0 \<le> off \<Longrightarrow> 0 \<le> i \<Longrightarrow> i \<le> len \<Longrightarrow> off + len \<le> int (length b) \<Longrightarrow>
   xor8_loop b off len i x = Inr (foldl (XOR) x (take (nat (len - i)) (drop (nat (off + i)) b)))"
proof (induction b off len i x rule: xor8_loop.induct)
  case (1 b off len i x)
  show ?case
  proof (cases "i < len")
    case True
    let ?k = "nat (off + i)" and ?n = "nat (len - (i + 1))"
    have k: "?k < length b" "nat (off + (i + 1)) = Suc ?k" "nat (len - i) = Suc ?n"
      using True "1.prems" by linarith+
    have "drop ?k b = b ! ?k # drop (Suc ?k) b"
      using k by (simp add: Cons_nth_drop_Suc)
    then show ?thesis
      using True "1.prems" "1.IH" [of "b ! ?k"] k
      by (simp add: xor8_loop.simps [of b off len i x])
  next
    case False
    then show ?thesis using "1.prems" by (subst xor8_loop.simps) simp
  qed
qed

lemma xor8_loop_oob:
  "0 \<le> off \<Longrightarrow> 0 \<le> i \<Longrightarrow> i < len \<Longrightarrow> int (length b) < off + len \<Longrightarrow>
   xor8_loop b off len i x = Inl (Fault OutOfBounds)"
proof (induction b off len i x rule: xor8_loop.induct)
  case (1 b off len i x)
  show ?case
  proof (cases "off + i < int (length b)")
    case True
    then have "i + 1 < len" using "1.prems" by linarith
    then show ?thesis using "1.IH" [of "b ! nat (off + i)"] "1.prems" True
      by (simp add: xor8_loop.simps [of b off len i x])
  next
    case False
    then show ?thesis using "1.prems"
      by (simp add: xor8_loop.simps [of b off len i x] mem_get_def)
  qed
qed

lemma xor8_computer_ok:
  "0 \<le> off \<Longrightarrow> 0 \<le> len \<Longrightarrow> len < 2 ^ 32 \<Longrightarrow> off + len \<le> int (length b) \<Longrightarrow>
   xor8_computer b off len = Inr (xor8 (take (nat len) (drop (nat off) b)))"
  by (simp add: xor8_computer_def xor8_loop_ok xor8_def)

lemma xor8_computer_oob:
  "0 \<le> off \<Longrightarrow> 0 < to_unsigned len \<Longrightarrow> int (length b) < off + to_unsigned len \<Longrightarrow>
   xor8_computer b off len = Inl (Fault OutOfBounds)"
  by (simp add: xor8_computer_def xor8_loop_oob)

lemma foldl_xor: "foldl (XOR) (x :: u8) ys = x XOR foldl (XOR) 0 ys"
proof (induction ys arbitrary: x)
  case (Cons y ys)
  show ?case using Cons [of "x XOR y"] Cons [of y] by (simp add: xor.assoc)
qed simp

lemma xor8_Nil [simp]: "xor8 [] = 0"
  by (simp add: xor8_def)

lemma xor8_Cons [simp]: "xor8 (x # xs) = x XOR xor8 xs"
  using foldl_xor [of x xs] by (simp add: xor8_def)

lemma xor8_append [simp]: "xor8 (xs @ ys) = xor8 xs XOR xor8 ys"
  by (induction xs) (simp_all add: xor.assoc)

section \<open>The CRC is CRC-CCITT\<close>

lemma crc16_loop_ok:
  "sz \<le> length p \<Longrightarrow> i \<le> sz \<Longrightarrow>
   crc16_loop p sz i crc = Inr (foldl crc16_byte crc (drop i (take sz p)))"
proof (induction p sz i crc rule: crc16_loop.induct)
  case (1 p sz i crc)
  show ?case
  proof (cases "i < sz")
    case True
    then have "drop i (take sz p) = p ! i # drop (Suc i) (take sz p)"
      using "1.prems" by (simp flip: Cons_nth_drop_Suc)
    then show ?thesis using True "1.prems" "1.IH" [of "p ! i"]
      by (simp add: crc16_loop.simps [of p sz i crc])
  next
    case False
    then show ?thesis using "1.prems" by (subst crc16_loop.simps) simp
  qed
qed

lemma ccitt_bit_bits [simp]:
  "bit (ccitt_bit c) 0 = bit c 15"
  "bit (ccitt_bit c) (Suc 0) = bit c 0"
  "bit (ccitt_bit c) 2 = bit c 1"
  "bit (ccitt_bit c) 3 = bit c 2"
  "bit (ccitt_bit c) 4 = bit c 3"
  "bit (ccitt_bit c) 5 = (bit c 4 \<noteq> bit c 15)"
  "bit (ccitt_bit c) 6 = bit c 5"
  "bit (ccitt_bit c) 7 = bit c 6"
  "bit (ccitt_bit c) 8 = bit c 7"
  "bit (ccitt_bit c) 9 = bit c 8"
  "bit (ccitt_bit c) 10 = bit c 9"
  "bit (ccitt_bit c) 11 = bit c 10"
  "bit (ccitt_bit c) 12 = (bit c 11 \<noteq> bit c 15)"
  "bit (ccitt_bit c) 13 = bit c 12"
  "bit (ccitt_bit c) 14 = bit c 13"
  "bit (ccitt_bit c) 15 = bit c 14"
  unfolding ccitt_bit_def bit_xor_iff bit_push_bit_iff by (auto simp: bit_simps)

lemma ccitt_bit_8:
  "(ccitt_bit ^^ 8) c =
   ccitt_bit (ccitt_bit (ccitt_bit (ccitt_bit (ccitt_bit (ccitt_bit (ccitt_bit (ccitt_bit c)))))))"
  by (simp add: numeral_eq_Suc)

lemma u8_high_bits: "8 \<le> n \<Longrightarrow> \<not> bit (d :: u8) n"
  by (auto dest: bit_imp_le_length)

lemma crc16_byte_ccitt: "crc16_byte crc d = ccitt_byte crc d"
proof (rule bit_word_eqI)
  fix n assume "n < LENGTH(16)"
  then have "n \<in> {0,1,2,3,4,5,6,7,8,9,10,11,12,13,14,15}" by simp presburger
  then show "bit (crc16_byte crc d) n = bit (ccitt_byte crc d) n"
    by (elim insertE emptyE;
        simp add: ccitt_byte_def ccitt_bit_8 crc16_byte_def Let_def bit_simps u8_high_bits; argo?)
qed

text \<open>
  C35. The table-free CRC of \<open>crc16_compute\<close> is the bit-serial CRC-CCITT (polynomial
  0x1021) over the first \<open>size\<close> bytes, started from 0xffff or from the CRC passed in.
\<close>

theorem crc16_compute_is_ccitt:
  assumes "unat sz \<le> length p"
  shows "crc16_compute p sz p_crc =
         Inr (foldl ccitt_byte (case p_crc of None \<Rightarrow> 0xffff | Some c \<Rightarrow> c) (take (unat sz) p))"
proof -
  have "crc16_byte = ccitt_byte" by (intro ext crc16_byte_ccitt)
  then show ?thesis using assms by (simp add: crc16_compute_def crc16_loop_ok)
qed

theorem crc16_compute_is_ccitt_witness:
  "crc16_compute [0x31, 0x32, 0x33] 3 None = Inr (foldl ccitt_byte 0xffff [0x31, 0x32, 0x33])"
  using crc16_compute_is_ccitt [of 3 "[0x31, 0x32, 0x33]" None] by simp

section \<open>BCD decoding inverts BCD encoding\<close>

lemma power_loop_ok:
  "i \<le> t \<Longrightarrow> power_loop base t i r = r * of_int base ^ nat (t - i)"
proof (induction base t i r rule: power_loop.induct)
  case (1 base t i r)
  show ?case
  proof (cases "i < t")
    case True
    then have "nat (t - i) = Suc (nat (t - (i + 1)))" by linarith
    then show ?thesis using True "1.IH" by (simp add: power_loop.simps [of base t i r] mult.assoc)
  next
    case False
    then show ?thesis using "1.prems" by (subst power_loop.simps) simp
  qed
qed

lemma power_u32_ok: "0 \<le> t \<Longrightarrow> power_u32 base t = of_int base ^ nat t"
  by (simp add: power_u32_def power_loop_ok)

definition bcd_value :: "bytes \<Rightarrow> u32" where
  "bcd_value xs = foldl (\<lambda>a b. 100 * a + bcd_byte b) 0 xs"

lemma foldl_bcd: "foldl (\<lambda>a b. 100 * a + bcd_byte b) a xs = a * 100 ^ length xs + bcd_value xs"
proof (induction xs arbitrary: a)
  case (Cons x xs)
  show ?case using Cons [of "100 * a + bcd_byte x"] Cons [of "bcd_byte x"]
    by (simp add: bcd_value_def algebra_simps)
qed (simp add: bcd_value_def)

lemma bcd_value_Cons: "bcd_value (x # xs) = bcd_byte x * 100 ^ length xs + bcd_value xs"
  using foldl_bcd [of "bcd_byte x" xs] by (simp add: bcd_value_def)

lemma bcd_value_snoc [simp]: "bcd_value (xs @ [x]) = 100 * bcd_value xs + bcd_byte x"
  by (simp add: bcd_value_def)

lemma bcd_loop_ok:
  "n \<le> length buf \<Longrightarrow> 0 \<le> i \<Longrightarrow> i \<le> int n \<Longrightarrow>
   bcd_loop buf (int n) i dec = Inr (dec + bcd_value (drop (nat i) (take n buf)))"
proof (induction buf "int n" i dec rule: bcd_loop.induct)
  case (1 buf i dec)
  show ?case
  proof (cases "i < int n")
    case True
    have "drop (nat i) (take n buf) = buf ! nat i # drop (nat (i + 1)) (take n buf)"
      using True "1.prems" by (simp add: nat_add_distrib flip: Cons_nth_drop_Suc)
    moreover have "length (drop (nat (i + 1)) (take n buf)) = nat (int n - 1 - i)"
      using True "1.prems" by auto
    ultimately show ?thesis using True "1.prems" "1.hyps" [of "buf ! nat i"]
      by (simp add: bcd_loop.simps [of buf "int n" i dec] bcd_value_Cons power_u32_ok)
  next
    case False
    then show ?thesis using "1.prems" by (subst bcd_loop.simps) (simp add: bcd_value_def)
  qed
qed

lemma bcd_byte_digits: "n < 100 \<Longrightarrow> bcd_byte (bcd_digits n) = of_nat n"
proof -
  have "\<forall>n\<in>set [0..<100]. bcd_byte (bcd_digits n) = of_nat n" by code_simp
  then show "n < 100 \<Longrightarrow> bcd_byte (bcd_digits n) = of_nat n" by simp
qed

lemma length_to_bcd [simp]: "length (to_bcd k n) = k"
  by (induction k arbitrary: n) auto

lemma bcd_value_to_bcd: "n < 100 ^ k \<Longrightarrow> bcd_value (to_bcd k n) = of_nat n"
proof (induction k arbitrary: n)
  case (Suc k)
  then have "n div 100 < 100 ^ k" by (simp add: less_mult_imp_div_less mult.commute)
  moreover have "(of_nat n :: u32) = 100 * of_nat (n div 100) + of_nat (n mod 100)"
    by (metis mult_div_mod_eq of_nat_add of_nat_mult of_nat_numeral)
  ultimately show ?case using Suc.IH by (simp add: bcd_byte_digits)
qed (simp add: bcd_value_def)

text \<open>
  \<open>bcd2decimal\<close> inverts BCD encoding: the \<open>k\<close>-byte BCD encoding of \<open>n\<close>, followed by
  any bytes, decodes to \<open>n\<close>, modulo 2 to the 32 as the accumulator is an \<open>unsigned int\<close>.
\<close>

lemma bcd2decimal_to_bcd:
  assumes "n < 100 ^ k"
  shows "bcd2decimal (to_bcd k n @ rest) (int k) = Inr (of_nat n)"
  using assms by (simp add: bcd2decimal_def bcd_loop_ok bcd_value_to_bcd)

lemma bcd2decimal_to_bcd_example: "bcd2decimal (to_bcd 4 20161115 @ [0xff]) (int 4) = Inr (of_nat 20161115)"
  by (rule bcd2decimal_to_bcd) simp

end
