(* ===== verification/Scorpion_Framing.thy ===== *)
theory Scorpion_Framing
  imports Scorpion_Misc
begin

text \<open>
  The frame format that both links of the daemon use (the UART to the STM32 and the local
  socket to the application): \<open>0x7E\<close> delimits a frame, and inside a frame \<open>0x7D\<close> and
  \<open>0x7E\<close> are written as \<open>0x7D 0x01\<close> and \<open>0x7D 0x02\<close>. This theory has the
  specification of the byte stuffing and of a frame, and the interfaces \<open>wire_codec\<close> and
  \<open>frame_parser\<close>: what the escape, unescape and search routines of a link promise, and
  what its receive loop then does with a stream of frames. Both copies of the C code,
  \<open>scorpion_stm32.c\<close> and \<open>scorpion_protocol.c\<close>, are interpretations.
\<close>

section \<open>Byte stuffing\<close>

definition ESCAPE_CHAR :: u8 where
  "ESCAPE_CHAR = 0x7D"

definition MAGIC_CHAR :: u8 where
  "MAGIC_CHAR = 0x7E"

lemma magic_not_escape [simp]:
  "MAGIC_CHAR \<noteq> ESCAPE_CHAR" "ESCAPE_CHAR \<noteq> MAGIC_CHAR" "MAGIC_CHAR \<noteq> 1" "MAGIC_CHAR \<noteq> 2"
  "ESCAPE_CHAR \<noteq> 1" "ESCAPE_CHAR \<noteq> 2" "1 \<noteq> MAGIC_CHAR" "2 \<noteq> MAGIC_CHAR"
  "1 \<noteq> ESCAPE_CHAR" "2 \<noteq> ESCAPE_CHAR"
  by (simp_all add: MAGIC_CHAR_def ESCAPE_CHAR_def)

fun stuff :: "bytes \<Rightarrow> bytes" where
  "stuff [] = []"
| "stuff (x # xs) =
     (if x = ESCAPE_CHAR then [ESCAPE_CHAR, 1]
      else if x = MAGIC_CHAR then [ESCAPE_CHAR, 2] else [x]) @ stuff xs"

fun unstuff :: "bytes \<Rightarrow> bytes option" where
  "unstuff [] = Some []"
| "unstuff [x] = (if x = ESCAPE_CHAR then None else Some [x])"
| "unstuff (x # d # ys) =
     (if x = ESCAPE_CHAR
      then if d = 1 then map_option (Cons ESCAPE_CHAR) (unstuff ys)
           else if d = 2 then map_option (Cons MAGIC_CHAR) (unstuff ys) else None
      else map_option (Cons x) (unstuff (d # ys)))"

lemma unstuff_plain: "x \<noteq> ESCAPE_CHAR \<Longrightarrow> unstuff (x # ys) = map_option (Cons x) (unstuff ys)"
  by (cases ys) auto

lemma unstuff_stuff_append: "unstuff (stuff xs @ ys) = map_option ((@) xs) (unstuff ys)"
  by (induction xs) (auto simp: unstuff_plain option.map_comp comp_def option.map_ident)

lemma unstuff_stuff [simp]: "unstuff (stuff xs) = Some xs"
  using unstuff_stuff_append [of xs "[]"] by simp

lemma stuff_unstuff: "unstuff ys = Some xs \<Longrightarrow> MAGIC_CHAR \<notin> set ys \<Longrightarrow> stuff xs = ys"
proof (induction ys arbitrary: xs rule: unstuff.induct)
  case (3 x d ys)
  then show ?case
    by (cases "x = ESCAPE_CHAR"; cases "d = 1"; cases "d = 2") auto
qed (auto split: if_splits)

lemma stuff_no_magic [simp]: "MAGIC_CHAR \<notin> set (stuff xs)"
  by (induction xs) auto

lemma stuff_length: "length xs \<le> length (stuff xs) \<and> length (stuff xs) \<le> 2 * length xs"
  by (induction xs) auto

lemma stuff_append [simp]: "stuff (xs @ ys) = stuff xs @ stuff ys"
  by (induction xs) auto

lemma unstuff_length: "unstuff ys = Some xs \<Longrightarrow> length xs \<le> length ys"
  by (induction ys arbitrary: xs rule: unstuff.induct) (fastforce split: if_splits)+

section \<open>Frames\<close>

text \<open>
  A message before stuffing: delimiter, payload (header and body), checksum, delimiter; and
  its frame on the wire. The smallest message has a header of eight bytes and no body.
\<close>

definition message :: "bytes \<Rightarrow> bytes" where
  "message p = MAGIC_CHAR # p @ [xor8 p, MAGIC_CHAR]"

definition frame :: "bytes \<Rightarrow> bytes" where
  "frame p = MAGIC_CHAR # stuff (p @ [xor8 p]) @ [MAGIC_CHAR]"

lemma length_message [simp]: "length (message p) = length p + 3"
  by (simp add: message_def)

lemma unstuff_frame: "unstuff (frame p) = Some (message p)"
  using unstuff_stuff_append [of "p @ [xor8 p]" "[MAGIC_CHAR]"]
  by (simp add: frame_def message_def unstuff_plain)

lemma frame_length: "length p + 3 \<le> length (frame p) \<and> length (frame p) \<le> 2 * length p + 4"
  using stuff_length [of "p @ [xor8 p]"] by (simp add: frame_def)

lemma frame_inj: "frame p = frame q \<Longrightarrow> p = q"
  by (drule arg_cong [of _ _ unstuff]) (simp add: unstuff_frame message_def)

section \<open>The codec interface\<close>

text \<open>The \<open>buff_mgr_t\<close> of \<open>scorpion_misc.h\<close>: a pointer and a length.\<close>

record buff_mgr_t =
  mgr_buf :: "bytes option"
  mgr_len :: int

text \<open>
  The routines of a link. A pointer into an object is the list of the object's bytes from
  there on, so that an index is checked against the end of the object; a NULL pointer is
  \<open>None\<close>. \<open>esc\<close> and \<open>unesc\<close> take the destination, the source and the source length,
  and give the destination's new content and the length written, or -1.
\<close>

locale wire_codec =
  fixes esc unesc :: "bytes option \<Rightarrow> bytes option \<Rightarrow> int \<Rightarrow> (bytes option \<times> int) res"
    and full_msg :: "bytes \<Rightarrow> int \<Rightarrow> buff_mgr_t \<Rightarrow> (int \<times> buff_mgr_t) res"
  assumes esc_law: "xs \<noteq> [] \<Longrightarrow> 2 * length xs \<le> length dest \<Longrightarrow>
      esc (Some dest) (Some (xs @ zs)) (int (length xs)) =
        Inr (Some (overwrite dest 0 (stuff xs)), int (length (stuff xs)))"
    and unesc_law: "ys \<noteq> [] \<Longrightarrow> length ys \<le> length dest \<Longrightarrow> unstuff ys = Some xs \<Longrightarrow>
      unesc (Some dest) (Some (ys @ zs)) (int (length ys)) =
        Inr (Some (overwrite dest 0 xs), int (length xs))"
    and unesc_error: "ys \<noteq> [] \<Longrightarrow> length ys \<le> length dest \<Longrightarrow> unstuff ys = None \<Longrightarrow>
      \<exists>d. unesc (Some dest) (Some (ys @ zs)) (int (length ys)) = Inr (Some d, - 1) \<and>
        length d = length dest"
    and full_none: "MAGIC_CHAR \<notin> set xs \<Longrightarrow> full_msg (xs @ zs) (int (length xs)) m = Inr (0, m)"
    and full_partial: "MAGIC_CHAR \<notin> set gs \<Longrightarrow> length ys < 10 \<or> MAGIC_CHAR \<notin> set ys \<Longrightarrow>
      length ys < 2 ^ 31 \<Longrightarrow>
      full_msg (gs @ MAGIC_CHAR # ys @ zs) (int (length gs + 1 + length ys)) m =
        Inr (int (length gs), m)"
    and full_found: "MAGIC_CHAR \<notin> set gs \<Longrightarrow> MAGIC_CHAR \<notin> set ys \<Longrightarrow> 9 \<le> length ys + length zs \<Longrightarrow>
      length ys + length zs < 2 ^ 31 \<Longrightarrow>
      full_msg (gs @ MAGIC_CHAR # ys @ MAGIC_CHAR # zs @ rs)
        (int (length gs + length ys + length zs + 2)) m =
        Inr (int (length gs + length ys + 2),
             \<lparr>mgr_buf = Some (MAGIC_CHAR # ys @ MAGIC_CHAR # zs @ rs), mgr_len = int (length ys + 2)\<rparr>)"

context wire_codec
begin

lemma frame_found:
  assumes "8 \<le> length p" "MAGIC_CHAR \<notin> set gs" "length (frame p) + length zs < 2 ^ 31"
  shows "full_msg (gs @ frame p @ zs @ rs) (int (length gs + length (frame p) + length zs)) m =
    Inr (int (length gs + length (frame p)),
         \<lparr>mgr_buf = Some (frame p @ zs @ rs), mgr_len = int (length (frame p))\<rparr>)"
proof -
  let ?ys = "stuff (p @ [xor8 p])"
  have "9 \<le> length ?ys + length zs" using stuff_length [of "p @ [xor8 p]"] assms(1) by simp
  moreover have "length ?ys + length zs < 2 ^ 31" using assms(3) by (simp add: frame_def)
  ultimately have "full_msg (gs @ MAGIC_CHAR # ?ys @ MAGIC_CHAR # zs @ rs)
      (int (length gs + length ?ys + length zs + 2)) m =
    Inr (int (length gs + length ?ys + 2),
      \<lparr>mgr_buf = Some (MAGIC_CHAR # ?ys @ MAGIC_CHAR # zs @ rs), mgr_len = int (length ?ys + 2)\<rparr>)"
    by (rule full_found [OF assms(2) stuff_no_magic])
  then show ?thesis by (simp add: frame_def add.commute add.left_commute)
qed

lemma frame_decoded:
  assumes "length (frame p) = length dest"
  shows "unesc (Some dest) (Some (frame p @ zs)) (int (length (frame p))) =
    Inr (Some (overwrite dest 0 (message p)), int (length p + 3))"
proof -
  have "frame p \<noteq> []" by (simp add: frame_def)
  from unesc_law [OF this _ unstuff_frame, of dest zs] show ?thesis using assms by simp
qed

text \<open>Every buffer is of one of the three shapes that the search distinguishes.\<close>

lemma full_cases:
  assumes "0 \<le> len" "len \<le> int (length buf)" "len < 2 ^ 31"
  obtains "full_msg buf len m = Inr (0, m)"
  | n where "0 \<le> n" "n < len" "full_msg buf len m = Inr (n, m)"
  | gs ys zs where "MAGIC_CHAR \<notin> set gs" "MAGIC_CHAR \<notin> set ys"
      "buf = gs @ MAGIC_CHAR # ys @ MAGIC_CHAR # zs" "int (length gs + length ys + 2) \<le> len"
      "full_msg buf len m = Inr (int (length gs + length ys + 2),
         \<lparr>mgr_buf = Some (MAGIC_CHAR # ys @ MAGIC_CHAR # zs), mgr_len = int (length ys + 2)\<rparr>)"
proof -
  define xs rs where "xs = take (nat len) buf" and "rs = drop (nat len) buf"
  then have b: "buf = xs @ rs" "len = int (length xs)" using assms by auto
  show ?thesis
  proof (cases "MAGIC_CHAR \<in> set xs")
    case False
    then show ?thesis using full_none [of xs rs m] b that(1) by simp
  next
    case True
    then obtain gs ts where g: "xs = gs @ MAGIC_CHAR # ts" "MAGIC_CHAR \<notin> set gs"
      using split_list_first by metis
    show ?thesis
    proof (cases "length ts < 10 \<or> MAGIC_CHAR \<notin> set ts")
      case True
      then show ?thesis
        using full_partial [OF g(2) True, of rs m] b g assms(3) that(2) [of "int (length gs)"] by simp
    next
      case False
      then obtain ys zs where y: "ts = ys @ MAGIC_CHAR # zs" "MAGIC_CHAR \<notin> set ys"
        using split_list_first by metis
      then show ?thesis
        using full_found [OF g(2) y(2), of zs rs m] b g False assms(3) that(3) [of gs ys "zs @ rs"]
        by simp
    qed
  qed
qed

end

section \<open>Sending\<close>

text \<open>
  A link with its sending routine: the caller's buffer has room for the delimiters and the
  checksum around the payload; the routine fills them in, escapes into a fresh block twice as
  long and passes that block to \<open>out\<close>.
\<close>

locale frame_sender = wire_codec +
  fixes alloc :: "'w \<Rightarrow> nat \<Rightarrow> bytes option \<times> 'w"
    and out :: "'w \<Rightarrow> bytes \<Rightarrow> int \<Rightarrow> ('w \<times> int) res"
    and send :: "'w \<Rightarrow> bytes \<Rightarrow> int \<Rightarrow> ('w \<times> int) res"
  assumes send_alloc_length: "alloc w k = (Some b, w') \<Longrightarrow> length b = k"
    and send_unfold: "send w buf len =
      bnd (mem_put buf (len - 1) MAGIC_CHAR) (\<lambda>buf.
      bnd (mem_put buf 0 MAGIC_CHAR) (\<lambda>buf.
      bnd (xor8_computer buf 1 (len - 3)) (\<lambda>val.
      bnd (mem_put buf (len - 2) val) (\<lambda>buf.
      case alloc w (nat (len * 2)) of
        (None, w) \<Rightarrow> Inr (w, - 1)
      | (Some nb, w) \<Rightarrow>
          bnd (mem_get buf 0) (\<lambda>c. bnd (mem_put nb 0 c) (\<lambda>nb.
          bnd (esc (Some (drop 1 nb)) (Some (drop 1 buf)) (len - 2)) (\<lambda>(dest, n).
          bnd (deref dest) (\<lambda>dest.
          bnd (mem_get buf (len - 1)) (\<lambda>c. bnd (mem_put (take 1 nb @ dest) (n + 1) c) (\<lambda>nb.
          bnd (out w nb (n + 1 + 1)) (\<lambda>(w, _). Inr (w, n + 1 + 1))))))))))))"

context frame_sender
begin

lemma message_completed:
  assumes "length p < 2 ^ 32"
  shows "mem_put (a # p @ [x, y]) (int (length p + 3) - 1) MAGIC_CHAR = Inr (a # p @ [x, MAGIC_CHAR])"
    and "mem_put (a # p @ [x, MAGIC_CHAR]) 0 MAGIC_CHAR = Inr (MAGIC_CHAR # p @ [x, MAGIC_CHAR])"
    and "xor8_computer (MAGIC_CHAR # p @ [x, MAGIC_CHAR]) 1 (int (length p + 3) - 3) = Inr (xor8 p)"
    and "mem_put (MAGIC_CHAR # p @ [x, MAGIC_CHAR]) (int (length p + 3) - 2) (xor8 p) = Inr (message p)"
proof -
  show "xor8_computer (MAGIC_CHAR # p @ [x, MAGIC_CHAR]) 1 (int (length p + 3) - 3) = Inr (xor8 p)"
    using assms by (simp add: xor8_computer_ok)
qed (simp_all add: mem_put_def message_def nat_add_distrib list_update_append numeral_2_eq_2
      split: nat.splits)

lemma send_no_memory:
  assumes "alloc w (2 * (length p + 3)) = (None, w1)" "length p < 2 ^ 32"
  shows "send w (a # p @ [x, y]) (int (length p + 3)) = Inr (w1, - 1)"
proof -
  have "nat (int (length p + 3) * 2) = 2 * (length p + 3)" by (simp add: nat_mult_distrib)
  then show ?thesis using assms message_completed [OF assms(2)]
    by (subst send_unfold) simp
qed

lemma escaped_frame:
  assumes nb: "length nb = 2 * (length p + 3)"
  shows "\<exists>dest n js. esc (Some (drop 1 (nb[0 := MAGIC_CHAR]))) (Some (drop 1 (message p)))
      (int (length p + 3) - 2) = Inr (Some dest, n) \<and>
    mem_put (take 1 (nb[0 := MAGIC_CHAR]) @ dest) (n + 1) MAGIC_CHAR = Inr (frame p @ js) \<and>
    n + 1 + 1 = int (length (frame p))"
proof -
  let ?st = "stuff (p @ [xor8 p])"
  obtain c cs where c: "nb = c # cs" "length cs = 2 * length p + 5" using nb by (cases nb) auto
  have l: "length ?st \<le> 2 * length p + 2" using stuff_length [of "p @ [xor8 p]"] by simp
  have "esc (Some cs) (Some ((p @ [xor8 p]) @ [MAGIC_CHAR])) (int (length (p @ [xor8 p]))) =
      Inr (Some (overwrite cs 0 ?st), int (length ?st))"
    by (rule esc_law) (use c in auto)
  moreover have "mem_put (MAGIC_CHAR # overwrite cs 0 ?st) (int (length ?st) + 1) MAGIC_CHAR =
      Inr (frame p @ drop (Suc (length ?st)) cs)"
  proof -
    have "drop (length ?st) cs = cs ! length ?st # drop (Suc (length ?st)) cs"
      using c l by (simp only: Cons_nth_drop_Suc)
    then show ?thesis using c l
      by (simp only: overwrite_def frame_def mem_put_def)
         (simp add: nat_add_distrib list_update_append del: stuff_append)
  qed
  ultimately show ?thesis
    using c by (intro exI [of _ "overwrite cs 0 ?st"] exI [of _ "int (length ?st)"]
        exI [of _ "drop (Suc (length ?st)) cs"]) (simp add: message_def frame_def add.commute del: stuff_append)
qed

lemma send_frame:
  assumes a: "alloc w (2 * (length p + 3)) = (Some nb, w1)" and s: "length p < 2 ^ 32"
  shows "\<exists>js. send w (a # p @ [x, y]) (int (length p + 3)) =
    bnd (out w1 (frame p @ js) (int (length (frame p)))) (\<lambda>(w2, _). Inr (w2, int (length (frame p))))"
proof -
  have nb: "length nb = 2 * (length p + 3)" using send_alloc_length [OF a] .
  obtain dest n js where e: "esc (Some (drop 1 (nb[0 := MAGIC_CHAR]))) (Some (drop 1 (message p)))
      (int (length p + 3) - 2) = Inr (Some dest, n)"
    "mem_put (take 1 (nb[0 := MAGIC_CHAR]) @ dest) (n + 1) MAGIC_CHAR = Inr (frame p @ js)"
    "n + 1 + 1 = int (length (frame p))"
    using escaped_frame [OF nb] by blast
  have g: "mem_get (message p) 0 = Inr MAGIC_CHAR" "mem_put nb 0 MAGIC_CHAR = Inr (nb[0 := MAGIC_CHAR])"
    "mem_get (message p) (int (length p + 3) - 1) = Inr MAGIC_CHAR"
    using nb by (simp_all add: message_def mem_get_def mem_put_def nth_append nat_add_distrib)
  have "nat (int (length p + 3) * 2) = 2 * (length p + 3)" by (simp add: nat_mult_distrib)
  then have k: "alloc w (nat (int (length p + 3) * 2)) = (Some nb, w1)" using a by simp
  show ?thesis
    by (rule exI [of _ js], subst send_unfold)
       (simp only: message_completed [OF s] bnd_Inr k prod.case option.case g e deref_simps)
qed

end

section \<open>The receive loop\<close>

text \<open>
  A link with its receive loop: \<open>alloc\<close> is \<open>malloc\<close> in the link's state, \<open>parse\<close> the
  dispatcher, \<open>proc\<close> the treatment of one raw frame (False if \<open>malloc\<close> failed), and
  \<open>loop\<close> the do-while loop, which gives the number of bytes left over, or \<open>None\<close> if
  \<open>malloc\<close> failed.
\<close>

definition empty_mgr :: buff_mgr_t where
  "empty_mgr = \<lparr>mgr_buf = None, mgr_len = 0\<rparr>"

locale frame_parser = wire_codec +
  fixes alloc :: "'w \<Rightarrow> nat \<Rightarrow> bytes option \<times> 'w"
    and parse :: "'w \<Rightarrow> buff_mgr_t \<Rightarrow> ('w \<times> int) res"
    and proc :: "'w \<Rightarrow> buff_mgr_t \<Rightarrow> ('w \<times> bool) res"
    and loop :: "'w \<Rightarrow> bytes \<Rightarrow> int \<Rightarrow> ('w \<times> int option) res"
  assumes alloc_length: "alloc w k = (Some b, w') \<Longrightarrow> length b = k"
    and proc_failed: "alloc w (nat (mgr_len raw)) = (None, w') \<Longrightarrow> proc w raw = Inr (w', False)"
    and proc_unfold: "alloc w (nat (mgr_len raw)) = (Some nb, w') \<Longrightarrow>
      proc w raw = bnd (unesc (Some nb) (mgr_buf raw) (mgr_len raw)) (\<lambda>(now, n).
        bnd (deref now) (\<lambda>now. bnd (mem_get now (n - 2)) (\<lambda>x.
        bnd (xor8_computer now 1 (n - 3)) (\<lambda>y.
        if x \<noteq> y then Inr (w', True)
        else bnd (parse w' \<lparr>mgr_buf = Some now, mgr_len = n\<rparr>) (\<lambda>(w'', _). Inr (w'', True))))))"
    and loop_unfold: "loop w buf n =
      bnd (full_msg buf n empty_mgr) (\<lambda>(offset, raw).
      if offset \<noteq> 0 \<and> mgr_len raw \<noteq> 0
      then bnd (proc w raw) (\<lambda>(w', ok).
           if \<not> ok then Inr (w', None)
           else if 0 < n - offset then loop w' (drop (nat offset) buf) (n - offset)
           else Inr (w', Some (n - offset)))
      else Inr (w, Some (n - offset)))"

text \<open>What a stream of frames should do: hand the messages to the dispatcher in order.\<close>

fun deliver where
  "deliver alloc parse w [] n = Inr (w, Some n)"
| "deliver alloc parse w (p # ps) n =
     (case alloc w (length (frame p)) of
        (None, w1) \<Rightarrow> Inr (w1, None)
      | (Some nb, w1) \<Rightarrow>
          bnd (parse w1 \<lparr>mgr_buf = Some (overwrite nb 0 (message p)), mgr_len = int (length p + 3)\<rparr>)
            (\<lambda>(w2, _ :: int). deliver alloc parse w2 ps n))"

text \<open>
  The end of a stream that holds no complete frame: bytes without a delimiter, or such bytes and the beginning of a
  frame, that is a delimiter that no other one follows, or only within the nine bytes after it. What is left of
  it for the next time starts at the delimiter, if there is one.
\<close>

definition left_over :: "bytes \<Rightarrow> bytes" where
  "left_over ts = (if MAGIC_CHAR \<in> set ts then dropWhile (\<lambda>c. c \<noteq> MAGIC_CHAR) ts else ts)"

definition incomplete :: "bytes \<Rightarrow> bool" where
  "incomplete ts \<longleftrightarrow> MAGIC_CHAR \<notin> set (tl (left_over ts)) \<or> length (tl (left_over ts)) < 10"

lemma left_over_suffix: "ts = takeWhile (\<lambda>c. c \<noteq> MAGIC_CHAR) ts @ left_over ts \<or> left_over ts = ts"
  by (simp add: left_over_def)

lemma length_left_over: "length (left_over ts) \<le> length ts"
  by (simp add: left_over_def length_dropWhile_le)

lemma left_over_drop: "drop (length ts - length (left_over ts)) ts = left_over ts"
proof (cases "left_over ts = ts")
  case False
  then obtain gs where "ts = gs @ left_over ts" using left_over_suffix [of ts] by blast
  then have "length ts = length gs + length (left_over ts)" "drop (length gs) ts = left_over ts"
    by (metis length_append, metis append_eq_conv_conj)
  then show ?thesis by simp
qed simp

lemma incomplete_cases:
  assumes "incomplete ts"
  obtains "MAGIC_CHAR \<notin> set ts" "left_over ts = ts"
  | gs ys where "ts = gs @ MAGIC_CHAR # ys" "MAGIC_CHAR \<notin> set gs" "length ys < 10 \<or> MAGIC_CHAR \<notin> set ys"
    "left_over ts = MAGIC_CHAR # ys"
proof (cases "MAGIC_CHAR \<in> set ts")
  case True
  then obtain gs ys where t: "ts = gs @ MAGIC_CHAR # ys" "MAGIC_CHAR \<notin> set gs" by (meson split_list_first)
  then have "left_over ts = MAGIC_CHAR # ys" by (auto simp: left_over_def dropWhile_append3)
  then show thesis using that(2) [OF t] assms by (auto simp: incomplete_def)
qed (use that(1) in \<open>simp add: left_over_def\<close>)

text \<open>Every beginning of a frame is incomplete and is left over as a whole.\<close>

lemma frame_prefix_incomplete:
  assumes "frame p = xs @ ys" "ys \<noteq> []"
  shows "incomplete xs" "left_over xs = xs"
proof -
  have "butlast (frame p) = xs @ butlast ys" using assms by (simp add: butlast_append)
  then have b: "xs @ butlast ys = MAGIC_CHAR # stuff (p @ [xor8 p])" by (simp add: frame_def butlast_append)
  then show "left_over xs = xs" by (cases xs) (simp_all add: left_over_def)
  moreover have "MAGIC_CHAR \<notin> set (tl xs)"
  proof (cases xs)
    case (Cons c zs)
    then have "set zs \<subseteq> set (stuff (p @ [xor8 p]))" using b by (metis append_Cons list.inject set_append sup_ge1)
    then have "MAGIC_CHAR \<notin> set zs" using stuff_no_magic by blast
    then show ?thesis using Cons by simp
  qed simp
  ultimately show "incomplete xs" by (simp add: incomplete_def)
qed

context frame_parser
begin

lemma message_checked:
  assumes "length (frame p) = length nb" and small: "length p < 2 ^ 32"
  shows "mem_get (overwrite nb 0 (message p)) (int (length p + 1)) = Inr (xor8 p)"
    and "xor8_computer (overwrite nb 0 (message p)) 1 (int (length p)) = Inr (xor8 p)"
proof -
  have e: "overwrite nb 0 (message p) = message p @ drop (length p + 3) nb"
    by (simp add: overwrite_def)
  then show "mem_get (overwrite nb 0 (message p)) (int (length p + 1)) = Inr (xor8 p)"
    by (simp add: mem_get_def message_def nth_append nat_add_distrib)
  show "xor8_computer (overwrite nb 0 (message p)) 1 (int (length p)) = Inr (xor8 p)"
    using e small by (simp add: xor8_computer_ok message_def)
qed

lemma proc_frame:
  assumes "alloc w (length (frame p)) = (Some nb, w')" and small: "length p < 2 ^ 32"
  shows "proc w \<lparr>mgr_buf = Some (frame p @ zs), mgr_len = int (length (frame p))\<rparr> =
    bnd (parse w' \<lparr>mgr_buf = Some (overwrite nb 0 (message p)), mgr_len = int (length p + 3)\<rparr>)
      (\<lambda>(w'', _). Inr (w'', True))"
proof -
  have l: "length (frame p) = length nb" using alloc_length [OF assms(1)] by simp
  then show ?thesis
    using assms(1) frame_decoded [OF l, of zs] message_checked [OF l small]
    by (simp add: proc_unfold add.commute)
qed

text \<open>One frame at the front of the stream, after bytes that are not part of a frame.\<close>

lemma loop_frame:
  assumes p: "8 \<le> length p" and g: "MAGIC_CHAR \<notin> set gs"
    and s: "length (frame p) + length zs < 2 ^ 31"
    and a: "alloc w (length (frame p)) = (Some nb, w1)"
  shows "loop w (gs @ frame p @ zs @ rs) (int (length gs + length (frame p) + length zs)) =
    bnd (parse w1 \<lparr>mgr_buf = Some (overwrite nb 0 (message p)), mgr_len = int (length p + 3)\<rparr>)
      (\<lambda>(w2, _). if zs = [] then Inr (w2, Some 0) else loop w2 (zs @ rs) (int (length zs)))"
proof -
  have n: "int (length gs) + int (length (frame p)) \<noteq> 0" "frame p \<noteq> []"
    by (simp_all add: frame_def)
  have l: "length p < 2 ^ 32" using s frame_length [of p] by simp
  show ?thesis
    by (subst loop_unfold, simp only: frame_found [OF p g s] bnd_Inr split_conv)
       (use n in \<open>auto simp: proc_frame [OF a l] bnd_assoc case_prod_beta nat_add_distrib
          intro!: arg_cong2 [of _ _ _ _ bnd]\<close>)
qed

lemma loop_no_memory:
  assumes p: "8 \<le> length p" and g: "MAGIC_CHAR \<notin> set gs"
    and s: "length (frame p) + length zs < 2 ^ 31"
    and a: "alloc w (length (frame p)) = (None, w1)"
  shows "loop w (gs @ frame p @ zs @ rs) (int (length gs + length (frame p) + length zs)) =
    Inr (w1, None)"
proof -
  have n: "int (length gs) + int (length (frame p)) \<noteq> 0" "frame p \<noteq> []"
    by (simp_all add: frame_def)
  have "proc w \<lparr>mgr_buf = Some (frame p @ zs @ rs), mgr_len = int (length (frame p))\<rparr> =
    Inr (w1, False)" by (rule proc_failed) (simp add: a)
  then show ?thesis
    using n by (subst loop_unfold, simp only: frame_found [OF p g s] bnd_Inr split_conv) simp
qed

lemma loop_idle:
  assumes "MAGIC_CHAR \<notin> set xs"
  shows "loop w (xs @ zs) (int (length xs)) = Inr (w, Some (int (length xs)))"
  by (subst loop_unfold) (simp add: full_none [OF assms])

lemma loop_partial:
  assumes "MAGIC_CHAR \<notin> set gs" "length ys < 10 \<or> MAGIC_CHAR \<notin> set ys" "length ys < 2 ^ 31"
  shows "loop w (gs @ MAGIC_CHAR # ys @ zs) (int (length gs + 1 + length ys)) =
    Inr (w, Some (int (1 + length ys)))"
  by (subst loop_unfold) (simp add: full_partial [OF assms, simplified] empty_mgr_def)

lemma loop_incomplete:
  assumes "incomplete ts" "length ts < 2 ^ 31"
  shows "loop w ts (int (length ts)) = Inr (w, Some (int (length (left_over ts))))"
  using assms(1)
proof (cases rule: incomplete_cases)
  case 1
  then show ?thesis using loop_idle [of ts w "[]"] by simp
next
  case (2 gs ys)
  then show ?thesis using loop_partial [of gs ys w "[]"] assms(2) by simp
qed

lemma loop_frames_tail:
  assumes "list_all (\<lambda>p. 8 \<le> length p) ps" "incomplete ts"
    "length (concat (map frame ps)) + length ts < 2 ^ 31"
  shows "loop w (concat (map frame ps) @ ts) (int (length (concat (map frame ps)) + length ts)) =
    deliver alloc parse w ps (int (length (left_over ts)))"
  using assms(1,3)
proof (induction ps arbitrary: w)
  case Nil
  then show ?case using loop_incomplete [OF assms(2), of w] by simp
next
  case (Cons p ps)
  let ?zs = "concat (map frame ps) @ ts"
  obtain nb w1 where a: "alloc w (length (frame p)) = (nb, w1)" by (cases "alloc w (length (frame p))")
  have z: "deliver alloc parse w2 ps (int (length (left_over ts))) = Inr (w2, Some 0)" if "?zs = []" for w2
    using that Cons.prems by (cases ps) (auto simp: frame_def left_over_def)
  show ?case
  proof (cases nb)
    case None
    then show ?thesis
      using loop_no_memory [where p = p and gs = "[]" and w = w and ?w1.0 = w1 and zs = ?zs and rs = "[]"] Cons.prems a by (simp add: add.assoc)
  next
    case (Some b)
    then show ?thesis
      using loop_frame [where p = p and gs = "[]" and w = w and nb = b and ?w1.0 = w1 and zs = ?zs and rs = "[]"] Cons a z
      by (auto simp: add.assoc case_prod_beta intro!: arg_cong2 [of _ _ _ _ bnd])
  qed
qed

lemma loop_frames:
  assumes "list_all (\<lambda>p. 8 \<le> length p) ps" "MAGIC_CHAR \<notin> set ts"
    "length (concat (map frame ps)) + length ts < 2 ^ 31"
  shows "loop w (concat (map frame ps) @ ts) (int (length (concat (map frame ps)) + length ts)) =
    deliver alloc parse w ps (int (length ts))"
proof -
  have "left_over ts = ts" using assms(2) by (simp add: left_over_def)
  moreover from this have "incomplete ts" using assms(2) by (cases ts) (auto simp: incomplete_def)
  ultimately show ?thesis using loop_frames_tail [OF assms(1) _ assms(3)] by simp
qed

text \<open>The loop never reports more bytes left over than it was given.\<close>

lemma loop_bounds:
  assumes "0 \<le> len" "len \<le> int (length buf)" "len < 2 ^ 31" "loop w buf len = Inr (w', Some n)"
  shows "0 \<le> n \<and> n \<le> len"
  using assms
proof (induction "nat len" arbitrary: w buf len rule: less_induct)
  case less
  show ?case
  proof (cases rule: full_cases [OF less.prems(1-3), of empty_mgr])
    case (3 gs ys zs)
    define k where "k = int (length gs + length ys + 2)"
    have k: "0 < k" "k \<le> len" "int (length ys) + 2 \<noteq> 0" using 3(4) by (simp_all add: k_def)
    obtain raw where f: "full_msg buf len empty_mgr = Inr (k, raw)" "mgr_len raw \<noteq> 0"
      using 3(5) k by (simp add: k_def)
    have step: "0 \<le> n \<and> n \<le> len" if "loop w1 (drop (nat k) buf) (len - k) = Inr (w', Some n)" for w1
      using less.hyps [of "len - k" "drop (nat k) buf", OF _ _ _ _ that] k less.prems(2,3)
      by (simp add: of_nat_diff le_nat_iff)
    have "loop w buf len = bnd (proc w raw) (\<lambda>(w', ok).
        if \<not> ok then Inr (w', None)
        else if 0 < len - k then loop w' (drop (nat k) buf) (len - k)
        else Inr (w', Some (len - k)))"
      using f k by (subst loop_unfold) simp
    with less.prems(4) show ?thesis using k
      by (auto split: if_splits intro: step dest: step)
  qed (use less.prems in \<open>subst (asm) loop_unfold, auto simp: empty_mgr_def\<close>)+
qed

text \<open>
  Two streams of bytes that the receive loop does not survive. If the bytes between two delimiters
  do not decode, the length -1 is used as an index; if there are no bytes between them, the length
  of the checksummed part wraps around.
\<close>

lemma loop_undecodable:
  assumes g: "MAGIC_CHAR \<notin> set gs" "MAGIC_CHAR \<notin> set ys" "9 \<le> length ys + length zs"
      "length ys + length zs < 2 ^ 31"
    and u: "unstuff (MAGIC_CHAR # ys @ [MAGIC_CHAR]) = None"
    and a: "alloc w (length ys + 2) = (Some nb, w1)"
  shows "loop w (gs @ MAGIC_CHAR # ys @ MAGIC_CHAR # zs)
    (int (length gs + length ys + length zs + 2)) = Inl (Fault OutOfBounds)"
proof -
  let ?raw = "\<lparr>mgr_buf = Some (MAGIC_CHAR # ys @ MAGIC_CHAR # zs), mgr_len = int (length ys + 2)\<rparr>"
  have l: "length nb = length ys + 2" using alloc_length [OF a] .
  obtain d where d: "unesc (Some nb) (mgr_buf ?raw) (mgr_len ?raw) = Inr (Some d, - 1)"
    using unesc_error [OF _ _ u, of nb zs] l by (auto simp: add.commute)
  have "alloc w (nat (mgr_len ?raw)) = (Some nb, w1)" using a by (simp add: nat_add_distrib)
  from proc_unfold [OF this] have "proc w ?raw = Inl (Fault OutOfBounds)"
    using d by (simp add: mem_get_def)
  then show ?thesis
    using full_found [OF g, of "[]" empty_mgr] by (subst loop_unfold) simp
qed

lemma loop_empty_frame:
  assumes g: "MAGIC_CHAR \<notin> set gs" "9 \<le> length zs" "length zs < 2 ^ 31"
    and a: "alloc w 2 = (Some nb, w1)"
  shows "loop w (gs @ MAGIC_CHAR # MAGIC_CHAR # zs) (int (length gs + length zs + 2)) =
    Inl (Fault OutOfBounds)"
proof -
  let ?raw = "\<lparr>mgr_buf = Some (MAGIC_CHAR # MAGIC_CHAR # zs), mgr_len = 2\<rparr>"
  have l: "length nb = 2" using alloc_length [OF a] .
  have d: "unesc (Some nb) (mgr_buf ?raw) (mgr_len ?raw) = Inr (Some [MAGIC_CHAR, MAGIC_CHAR], 2)"
    using unesc_law [of "[MAGIC_CHAR, MAGIC_CHAR]" nb _ zs] l by simp
  have x: "xor8_computer [MAGIC_CHAR, MAGIC_CHAR] 1 (- 1) = Inl (Fault OutOfBounds)"
    by (rule xor8_computer_oob) (simp_all add: to_unsigned_def)
  have "proc w ?raw = Inl (Fault OutOfBounds)"
    using d x a by (subst proc_unfold [of _ _ nb w1]) simp_all
  then show ?thesis
    using full_found [OF g(1), of "[]" zs "[]" empty_mgr] g(2,3) by (subst loop_unfold) simp
qed

end

end
