(* ===== verification/Scorpion_IO.thy ===== *)
theory Scorpion_IO
  imports Scorpion_CB Scorpion_Framing
begin

text \<open>
  The daemon's state and its two outputs. The world has the static variables of the C files
  (sequence numbers, heart-beat counters, the UART's circular buffers) and a record of what
  the daemon has handed to the system: the buffers given to \<open>send\<close>, the calls of \<open>property_set\<close>.
  The environment holds the choices of the system and of uninitialised memory. Both output
  functions are here: \<open>scorpion_uart_send\<close> of \<open>scorpion_uart.c\<close> and
  \<open>scorpion_socket_send\<close> of \<open>scorpion_socket.c\<close>.
\<close>

section \<open>Environment and world\<close>

text \<open>
  \<open>stack_junk\<close> is the content of an uninitialised local structure, \<open>send_res k buf\<close> what
  the \<open>k\<close>-th call of \<open>send\<close> returns, \<open>popen_out k cmd\<close> what the \<open>k\<close>-th command
  prints (\<open>None\<close> if \<open>popen\<close> fails) and \<open>pclose_res k\<close> what \<open>pclose\<close> then returns.
\<close>

record scorpion_env = heap_env +
  stack_junk :: "nat \<Rightarrow> u8"
  send_res :: "nat \<Rightarrow> bytes \<Rightarrow> int"
  popen_out :: "nat \<Rightarrow> bytes \<Rightarrow> bytes option"
  pclose_res :: "nat \<Rightarrow> int"

text \<open>
  \<open>ppmngr_read\<close>, \<open>ppmngr_write\<close> and \<open>uart_fd\<close> are the fields of
  \<open>scorpion_uart_private_data\<close>, \<open>socket_read\<close> and \<open>socket_write\<close> those of
  \<open>scorpion_socket_mngr\<close>. \<open>uart_signals\<close> counts the signals sent to the condition variable
  of the UART send thread, \<open>uart_written\<close> has the blocks given to \<open>write\<close> on the UART, and
  \<open>threads\<close> the threads created, in order.
\<close>

datatype daemon_thread = SocketRecv | EventTreat | UartRecv | UartSend

record scorpion_world =
  nmalloc :: nat
  stm32_seq :: u32
  scorpion_seq :: u32
  scorpion_heart_beat_count :: u32
  scorpion_heart_beat_threhold :: u32
  uart_fd :: int
  ppmngr_read :: "CircleBufferMngr option"
  ppmngr_write :: "CircleBufferMngr option"
  uart_signals :: nat
  uart_written :: "bytes list"
  socket_read :: "CircleBufferMngr option"
  socket_write :: "CircleBufferMngr option"
  socket_sent :: "bytes list"
  npopen :: nat
  prop_calls :: "(string \<times> string) list"
  threads :: "daemon_thread list"

text \<open>The static initialisers: everything zero but the heart-beat threshold.\<close>

definition DEFAULT_HEART_BEAT_THREHOLD :: u32 where
  "DEFAULT_HEART_BEAT_THREHOLD = 100"

definition initial_world :: scorpion_world where
  "initial_world = \<lparr>nmalloc = 0, stm32_seq = 0, scorpion_seq = 0, scorpion_heart_beat_count = 0,
     scorpion_heart_beat_threhold = DEFAULT_HEART_BEAT_THREHOLD, uart_fd = 0,
     ppmngr_read = None, ppmngr_write = None, uart_signals = 0, uart_written = [], socket_read = None,
     socket_write = None, socket_sent = [], npopen = 0, prop_calls = [], threads = []\<rparr>"

definition alloc :: "'a scorpion_env_scheme \<Rightarrow> scorpion_world \<Rightarrow> nat \<Rightarrow> bytes option \<times> scorpion_world" where
  "alloc E w n = (malloc E (nmalloc w) n, w\<lparr>nmalloc := nmalloc w + 1\<rparr>)"

text \<open>A local structure before its fields are assigned.\<close>

definition stack_struct :: "'a scorpion_env_scheme \<Rightarrow> nat \<Rightarrow> bytes" where
  "stack_struct E n = map (stack_junk E) [0..<n]"

lemma length_stack_struct [simp]: "length (stack_struct E n) = n"
  by (simp add: stack_struct_def)

lemma alloc_block_length: "alloc E w n = (Some b, w') \<Longrightarrow> length b = n"
  by (auto simp: alloc_def)

section \<open>Output to the UART\<close>

definition scorpion_uart_send :: "scorpion_world \<Rightarrow> bytes \<Rightarrow> int \<Rightarrow> (scorpion_world \<times> int) res" where
  "scorpion_uart_send w buff len =
     (if uart_fd w < 0 then Inr (w, 0)
      else bnd (deref (ppmngr_write w)) (\<lambda>m.
        if len \<le> sint (cb_freelen m)
        then bnd (cb_write m buff (of_int len)) (\<lambda>(m, sz).
             Inr (w\<lparr>ppmngr_write := Some m, uart_signals := uart_signals w + 1\<rparr>, sint sz))
        else Inr (w, 0)))"

section \<open>Output to the application's socket\<close>

definition scorpion_socket_send ::
  "'a scorpion_env_scheme \<Rightarrow> scorpion_world \<Rightarrow> bytes \<Rightarrow> int \<Rightarrow> (scorpion_world \<times> int) res" where
  "scorpion_socket_send E w buff len =
     bnd (mem_read buff 0 (nat len)) (\<lambda>d.
     let sz = send_res E (length (socket_sent w)) d;
         w = w\<lparr>socket_sent := socket_sent w @ [d]\<rparr>
     in if sz = - 1 then Inl (Exit 0) else Inr (w, sz))"

section \<open>What the outputs do\<close>

text \<open>The UART as its users see it: the bytes that wait to be written, and the room left.\<close>

definition uart_ready :: "scorpion_world \<Rightarrow> bool" where
  "uart_ready w = (0 \<le> uart_fd w \<and> (case ppmngr_write w of None \<Rightarrow> False | Some m \<Rightarrow> cb_inv m))"

definition uart_pending :: "scorpion_world \<Rightarrow> bytes" where
  "uart_pending w = (case ppmngr_write w of None \<Rightarrow> [] | Some m \<Rightarrow> cb_list m)"

definition uart_room :: "scorpion_world \<Rightarrow> nat" where
  "uart_room w = (case ppmngr_write w of None \<Rightarrow> 0 | Some m \<Rightarrow> cb_cap m - length (cb_list m))"

lemma cb_freelen_room:
  "cb_inv m \<Longrightarrow> sint (cb_freelen m) = int (cb_cap m - length (cb_list m))"
proof -
  assume inv: "cb_inv m"
  then have b: "unat (datalen m) \<le> unat (buflen m)" "unat (buflen m) < 2 ^ 31"
    by (auto simp: cb_inv_def split: option.splits)
  then have u: "unat (cb_freelen m) = unat (buflen m) - unat (datalen m)"
    by (simp add: cb_freelen_def unat_minus_small)
  then have "unat (cb_freelen m) < 2 ^ 31" using b by simp
  from sint_small [OF this] show ?thesis using u inv by (simp add: cb_cap_def)
qed

text \<open>A block is queued whole, or not at all when it does not fit.\<close>

lemma uart_send_fits:
  assumes r: "uart_ready w" and n: "length xs \<le> uart_room w"
  shows "\<exists>m. scorpion_uart_send w (xs @ ys) (int (length xs)) =
      Inr (w\<lparr>ppmngr_write := Some m, uart_signals := uart_signals w + 1\<rparr>, int (length xs)) \<and>
    cb_inv m \<and> cb_list m = uart_pending w @ xs \<and> cb_cap m - length (cb_list m) = uart_room w - length xs"
proof -
  obtain m where m: "ppmngr_write w = Some m" "cb_inv m" "0 \<le> uart_fd w"
    using r by (auto simp: uart_ready_def split: option.splits)
  have room: "length xs \<le> cb_cap m - length (cb_list m)" using n m by (simp add: uart_room_def)
  then have s: "length xs < 2 ^ 31" using cb.capacity_small [OF m(2)] by simp
  then have u: "unat (of_nat (length xs) :: s32) = length xs" by (simp add: unat_of_nat_small)
  then have i: "sint (of_nat (length xs) :: s32) = int (length xs)"
    using sint_small [of "of_nat (length xs)"] s by simp
  obtain m' where "cb_write m (xs @ ys) (of_nat (length xs)) = Inr (m', of_nat (length xs))"
    "cb_inv m'" "cb_list m' = cb_list m @ xs" "cb_cap m' = cb_cap m"
    using cb.write_law [OF m(2), of "of_nat (length xs)" "xs @ ys" "length xs"] u s room by auto
  then show ?thesis
    using m room i by (auto simp: scorpion_uart_send_def cb_freelen_room uart_pending_def uart_room_def)
qed

lemma uart_send_full:
  assumes "uart_ready w" "uart_room w < length xs"
  shows "scorpion_uart_send w (xs @ ys) (int (length xs)) = Inr (w, 0)"
  using assms
  by (auto simp: scorpion_uart_send_def uart_ready_def uart_room_def cb_freelen_room split: option.splits)

lemma socket_send_ok:
  assumes "send_res E (length (socket_sent w)) xs \<noteq> - 1"
  shows "scorpion_socket_send E w (xs @ ys) (int (length xs)) =
    Inr (w\<lparr>socket_sent := socket_sent w @ [xs]\<rparr>, send_res E (length (socket_sent w)) xs)"
  using assms by (simp add: scorpion_socket_send_def Let_def)

lemma socket_send_failed:
  assumes "send_res E (length (socket_sent w)) xs = - 1"
  shows "scorpion_socket_send E w (xs @ ys) (int (length xs)) = Inl (Exit 0)"
  using assms by (simp add: scorpion_socket_send_def Let_def)

end
