(* ===== verification/Scorpion_STM32.thy ===== *)
theory Scorpion_STM32
  imports Scorpion_IO
begin

text \<open>
  The link to the STM32: the codec and the sending half of
  \<open>external/scorpion/scorpion_stm32.c\<close>, and the request functions of the
  \<open>scorpion_stm32_*.c\<close> files. The codec is an interpretation of \<open>wire_codec\<close>; the
  sending functions are shown to queue exactly one frame on the UART.
\<close>

section \<open>The codec\<close>

text \<open>
  \<open>dest\<close> and \<open>src\<close> are the bytes from the pointer to the end of its object. The loop
  variables \<open>i\<close> and \<open>j\<close> are those of the C loops.
\<close>

function stm32_escape_loop :: "bytes \<Rightarrow> bytes \<Rightarrow> int \<Rightarrow> int \<Rightarrow> int \<Rightarrow> (bytes \<times> int) res" where
  "stm32_escape_loop dest src len i j =
     (if i < len then bnd (mem_get src i) (\<lambda>c.
        if c = ESCAPE_CHAR
        then bnd (mem_put dest j ESCAPE_CHAR) (\<lambda>dest. bnd (mem_put dest (j + 1) 0x01) (\<lambda>dest.
             stm32_escape_loop dest src len (i + 1) (j + 2)))
        else if c = MAGIC_CHAR
        then bnd (mem_put dest j ESCAPE_CHAR) (\<lambda>dest. bnd (mem_put dest (j + 1) 0x02) (\<lambda>dest.
             stm32_escape_loop dest src len (i + 1) (j + 2)))
        else bnd (mem_put dest j c) (\<lambda>dest. stm32_escape_loop dest src len (i + 1) (j + 1)))
      else Inr (dest, j))"
  by pat_completeness auto
termination
  by (relation "measure (\<lambda>(dest, src, len, i, j). nat (len - i))") auto

declare stm32_escape_loop.simps [simp del]

definition stm32_protocol_escape ::
  "bytes option \<Rightarrow> bytes option \<Rightarrow> int \<Rightarrow> (bytes option \<times> int) res" where
  "stm32_protocol_escape dest src len =
     (case (dest, src) of
        (Some d, Some s) \<Rightarrow>
          if len = 0 then Inr (dest, - 1)
          else bnd (stm32_escape_loop d s len 0 0) (\<lambda>(d, j). Inr (Some d, j))
      | _ \<Rightarrow> Inr (dest, - 1))"

function stm32_unescape_loop :: "bytes \<Rightarrow> bytes \<Rightarrow> int \<Rightarrow> int \<Rightarrow> int \<Rightarrow> (bytes \<times> int) res" where
  "stm32_unescape_loop dest src len i j =
     (if i < len then bnd (mem_get src i) (\<lambda>c.
        if c = ESCAPE_CHAR
        then if i + 1 = len then Inr (dest, - 1)
             else bnd (mem_get src (i + 1)) (\<lambda>d.
               if d = 0x01
               then bnd (mem_put dest j ESCAPE_CHAR) (\<lambda>dest.
                    stm32_unescape_loop dest src len (i + 2) (j + 1))
               else if d = 0x02
               then bnd (mem_put dest j MAGIC_CHAR) (\<lambda>dest.
                    stm32_unescape_loop dest src len (i + 2) (j + 1))
               else Inr (dest, - 1))
        else bnd (mem_put dest j c) (\<lambda>dest. stm32_unescape_loop dest src len (i + 1) (j + 1)))
      else Inr (dest, j))"
  by pat_completeness auto
termination
  by (relation "measure (\<lambda>(dest, src, len, i, j). nat (len - i))") auto

declare stm32_unescape_loop.simps [simp del]

definition stm32_protocol_unescape ::
  "bytes option \<Rightarrow> bytes option \<Rightarrow> int \<Rightarrow> (bytes option \<times> int) res" where
  "stm32_protocol_unescape dest src len =
     (case (dest, src) of
        (Some d, Some s) \<Rightarrow>
          if len = 0 then Inr (dest, - 1)
          else bnd (stm32_unescape_loop d s len 0 0) (\<lambda>(d, j). Inr (Some d, j))
      | _ \<Rightarrow> Inr (dest, - 1))"

text \<open>The search for a delimiter: whether one was found, and the value stored in \<open>*offset\<close>.\<close>

function stm32_find_magic_loop :: "bytes \<Rightarrow> int \<Rightarrow> int \<Rightarrow> (bool \<times> int) res" where
  "stm32_find_magic_loop buf len index =
     (if index < len then bnd (mem_get buf index) (\<lambda>c.
        if c = MAGIC_CHAR then Inr (True, index) else stm32_find_magic_loop buf len (index + 1))
      else Inr (False, 0))"
  by pat_completeness auto
termination
  by (relation "measure (\<lambda>(buf, len, index). nat (len - index))") auto

declare stm32_find_magic_loop.simps [simp del]

definition stm32_find_magic_char :: "bytes \<Rightarrow> int \<Rightarrow> (bool \<times> int) res" where
  "stm32_find_magic_char buf len = stm32_find_magic_loop buf len 0"

definition sizeof_header :: int where
  "sizeof_header = 8"

definition stm32_get_a_full_msg :: "bytes \<Rightarrow> int \<Rightarrow> buff_mgr_t \<Rightarrow> (int \<times> buff_mgr_t) res" where
  "stm32_get_a_full_msg buf len msg =
     bnd (stm32_find_magic_char buf len) (\<lambda>(ret, head_offset).
     if ret \<and> to_unsigned (len - head_offset) \<ge> sizeof_header + 3
     then bnd (stm32_find_magic_char (drop (nat (head_offset + 1)) buf) (len - head_offset - 1))
            (\<lambda>(ret, tail_offset).
          let tail_offset = tail_offset + (head_offset + 1) in
          if ret
          then Inr (tail_offset + 1,
                    msg\<lparr>mgr_buf := Some (drop (nat head_offset) buf),
                        mgr_len := tail_offset - head_offset + 1\<rparr>)
          else Inr (head_offset, msg))
     else Inr (head_offset, msg))"

section \<open>The codec implements byte stuffing\<close>

lemma stm32_escape_loop_ok:
  assumes "drop i src = ys @ zs" "len = int (i + length ys)" "j + 2 * length ys \<le> length dest"
  shows "stm32_escape_loop dest src len (int i) (int j) =
    Inr (overwrite dest j (stuff ys), int (j + length (stuff ys)))"
  using assms
proof (induction ys arbitrary: i j dest)
  case Nil
  then show ?case by (subst stm32_escape_loop.simps) simp
next
  case (Cons y ys)
  have i: "int i < len" "mem_get src (int i) = Inr y" "drop (Suc i) src = ys @ zs"
    using Cons.prems(1,2) by (auto simp: mem_get_drop dest: drop_eq_ConsD)
  have s: "length (stuff ys) \<le> 2 * length ys" using stuff_length by blast
  show ?case
  proof (cases "y = ESCAPE_CHAR \<or> y = MAGIC_CHAR")
    case True
    let ?c = "if y = ESCAPE_CHAR then 1 else 2 :: u8"
    let ?d = "dest[j := ESCAPE_CHAR, Suc j := ?c]"
    have "stm32_escape_loop dest src len (int i) (int j) =
        stm32_escape_loop ?d src len (int (Suc i)) (int (Suc (Suc j)))"
      using i True Cons.prems(3) by (subst stm32_escape_loop.simps) (auto simp: nat_add_distrib add.commute)
    also have "\<dots> = Inr (overwrite ?d (Suc (Suc j)) (stuff ys), int (Suc (Suc j) + length (stuff ys)))"
      by (rule Cons.IH) (use i Cons.prems in auto)
    finally show ?thesis using True s Cons.prems(3) by (auto simp: overwrite_Cons)
  next
    case False
    have "stm32_escape_loop dest src len (int i) (int j) =
        stm32_escape_loop (dest[j := y]) src len (int (Suc i)) (int (Suc j))"
      using i False Cons.prems(3) by (subst stm32_escape_loop.simps) (simp add: add.commute)
    also have "\<dots> = Inr (overwrite (dest[j := y]) (Suc j) (stuff ys), int (Suc j + length (stuff ys)))"
      by (rule Cons.IH) (use i Cons.prems in auto)
    finally show ?thesis using False s Cons.prems(3) by (auto simp: overwrite_Cons)
  qed
qed

lemma stm32_unescape_loop_ok:
  assumes "drop i src = ys @ zs" "len = int (i + length ys)" "j + length ys \<le> length dest"
    "unstuff ys = Some xs"
  shows "stm32_unescape_loop dest src len (int i) (int j) =
    Inr (overwrite dest j xs, int (j + length xs))"
  using assms
proof (induction ys arbitrary: i j dest xs rule: unstuff.induct)
  case 1
  then show ?case by (subst stm32_unescape_loop.simps) simp
next
  case (2 x)
  then show ?case
    by (subst stm32_unescape_loop.simps)
       (auto simp: mem_get_drop overwrite_single stm32_unescape_loop.simps
          split: if_splits)
next
  case (3 x d ys)
  have i: "int i < len" "int i + 1 \<noteq> len" "mem_get src (int i) = Inr x"
    "drop (Suc i) src = d # ys @ zs"
    using 3(4,5) by (auto simp: mem_get_drop dest: drop_eq_ConsD)
  have i2: "mem_get src (int i + 1) = Inr d" "drop (Suc (Suc i)) src = ys @ zs"
    using mem_get_drop [OF i(4)] drop_eq_ConsD [OF i(4)] by (simp_all add: add.commute)
  show ?case
  proof (cases "x = ESCAPE_CHAR")
    case True
    define c where "c = (if d = 1 then ESCAPE_CHAR else MAGIC_CHAR)"
    obtain xs' where x: "unstuff ys = Some xs'" "xs = c # xs'" "d = 1 \<or> d = 2"
      using 3(7) True by (auto simp: c_def split: if_splits)
    have "stm32_unescape_loop dest src len (int i) (int j) =
        stm32_unescape_loop (dest[j := c]) src len (int (Suc (Suc i))) (int (Suc j))"
      using i i2 True x(3) 3(6)
      by (subst stm32_unescape_loop.simps) (auto simp: c_def add.commute)
    also have "\<dots> = Inr (overwrite (dest[j := c]) (Suc j) xs', int (Suc j + length xs'))"
    proof (cases "d = 1")
      case d: True
      show ?thesis by (rule 3(1) [OF True d]) (use x i2(2) 3(5,6) in auto)
    next
      case d: False
      then have "d = 2" using x(3) by simp
      then show ?thesis by (intro 3(2) [OF True d]) (use x i2(2) 3(5,6) in auto)
    qed
    finally show ?thesis using x(2) unstuff_length [OF x(1)] 3(6) by (simp add: overwrite_Cons)
  next
    case False
    obtain xs' where x: "unstuff (d # ys) = Some xs'" "xs = x # xs'"
      using 3(7) False by auto
    have "stm32_unescape_loop dest src len (int i) (int j) =
        stm32_unescape_loop (dest[j := x]) src len (int (Suc i)) (int (Suc j))"
      using i False 3(6) by (subst stm32_unescape_loop.simps) (auto simp: add.commute)
    also have "\<dots> = Inr (overwrite (dest[j := x]) (Suc j) xs', int (Suc j + length xs'))"
      by (rule 3(3) [OF False _ _ _ x(1)]) (use i(4) 3(5,6) in auto)
    finally show ?thesis using x(2) unstuff_length [OF x(1)] 3(6) by (simp add: overwrite_Cons)
  qed
qed

lemma stm32_unescape_loop_error:
  assumes "drop i src = ys @ zs" "len = int (i + length ys)" "j + length ys \<le> length dest"
    "unstuff ys = None"
  shows "\<exists>d. stm32_unescape_loop dest src len (int i) (int j) = Inr (d, - 1) \<and> length d = length dest"
  using assms
proof (induction ys arbitrary: i j dest rule: unstuff.induct)
  case 1
  then show ?case by simp
next
  case (2 x)
  then show ?case
    by (subst stm32_unescape_loop.simps) (auto simp: mem_get_drop split: if_splits)
next
  case (3 x d ys)
  have i: "int i < len" "int i + 1 \<noteq> len" "mem_get src (int i) = Inr x"
    "drop (Suc i) src = d # ys @ zs"
    using 3(4,5) by (auto simp: mem_get_drop dest: drop_eq_ConsD)
  have i2: "mem_get src (int i + 1) = Inr d" "drop (Suc (Suc i)) src = ys @ zs"
    using mem_get_drop [OF i(4)] drop_eq_ConsD [OF i(4)] by (simp_all add: add.commute)
  consider (bad) "x = ESCAPE_CHAR" "d \<noteq> 1" "d \<noteq> 2"
    | (one) "x = ESCAPE_CHAR" "d = 1" "unstuff ys = None"
    | (two) "x = ESCAPE_CHAR" "d = 2" "unstuff ys = None"
    | (plain) "x \<noteq> ESCAPE_CHAR" "unstuff (d # ys) = None"
    using 3(7) by (auto split: if_splits)
  then show ?case
  proof cases
    case bad
    then show ?thesis using i i2 by (subst stm32_unescape_loop.simps) auto
  next
    case one
    then show ?thesis
      using 3(1) [of "Suc (Suc i)" "Suc j" "dest[j := ESCAPE_CHAR]"] i i2 3(5,6)
      by (subst stm32_unescape_loop.simps) (auto simp: add.commute)
  next
    case two
    then show ?thesis
      using 3(2) [of "Suc (Suc i)" "Suc j" "dest[j := MAGIC_CHAR]"] i i2 3(5,6)
      by (subst stm32_unescape_loop.simps) (auto simp: add.commute)
  next
    case plain
    then show ?thesis
      using 3(3) [of "Suc i" "Suc j" "dest[j := x]"] i 3(5,6)
      by (subst stm32_unescape_loop.simps) (auto simp: add.commute)
  qed
qed

lemma stm32_find_magic_loop_hit:
  assumes "drop i buf = gs @ MAGIC_CHAR # ts" "MAGIC_CHAR \<notin> set gs" "int (i + length gs) < len"
  shows "stm32_find_magic_loop buf len (int i) = Inr (True, int (i + length gs))"
  using assms
proof (induction gs arbitrary: i)
  case Nil
  then show ?case by (subst stm32_find_magic_loop.simps) (simp add: mem_get_drop)
next
  case (Cons g gs)
  have "stm32_find_magic_loop buf len (int i) = stm32_find_magic_loop buf len (int (Suc i))"
    using Cons.prems by (subst stm32_find_magic_loop.simps) (auto simp: mem_get_drop add.commute)
  also have "\<dots> = Inr (True, int (Suc i + length gs))"
    using Cons.IH [of "Suc i"] Cons.prems drop_eq_ConsD [of i buf g] by simp
  finally show ?case by simp
qed

lemma stm32_find_magic_loop_miss:
  assumes "drop i buf = gs @ ts" "MAGIC_CHAR \<notin> set gs" "int (i + length gs) = len"
  shows "stm32_find_magic_loop buf len (int i) = Inr (False, 0)"
  using assms
proof (induction gs arbitrary: i)
  case Nil
  then show ?case by (subst stm32_find_magic_loop.simps) simp
next
  case (Cons g gs)
  have "stm32_find_magic_loop buf len (int i) = stm32_find_magic_loop buf len (int (Suc i))"
    using Cons.prems by (subst stm32_find_magic_loop.simps) (auto simp: mem_get_drop add.commute)
  also have "\<dots> = Inr (False, 0)"
    using Cons.IH [of "Suc i"] Cons.prems drop_eq_ConsD [of i buf g] by simp
  finally show ?case by simp
qed

lemma stm32_find_magic_char_hit:
  "MAGIC_CHAR \<notin> set gs \<Longrightarrow> int (length gs) < len \<Longrightarrow>
   stm32_find_magic_char (gs @ MAGIC_CHAR # ts) len = Inr (True, int (length gs))"
  using stm32_find_magic_loop_hit [of 0 _ gs ts len] by (simp add: stm32_find_magic_char_def)

lemma stm32_find_magic_char_miss:
  "MAGIC_CHAR \<notin> set gs \<Longrightarrow> int (length gs) = len \<Longrightarrow>
   stm32_find_magic_char (gs @ ts) len = Inr (False, 0)"
  using stm32_find_magic_loop_miss [of 0 _ gs ts len] by (simp add: stm32_find_magic_char_def)

lemma stm32_find_magic_loop_nonneg:
  "stm32_find_magic_loop buf len index = Inr (ret, off) \<Longrightarrow> 0 \<le> index \<Longrightarrow> 0 \<le> off"
proof (induction buf len index rule: stm32_find_magic_loop.induct)
  case (1 buf len index)
  from 1(2,3) show ?case
    by (subst (asm) stm32_find_magic_loop.simps) (auto split: if_splits dest: 1(1))
qed

lemma stm32_get_a_full_msg_nonneg:
  "stm32_get_a_full_msg buf len msg = Inr (off, raw) \<Longrightarrow> 0 \<le> off"
  by (auto simp: stm32_get_a_full_msg_def stm32_find_magic_char_def Let_def split: if_splits
      dest!: stm32_find_magic_loop_nonneg)

text \<open>Lengths that a C \<open>int\<close> can hold, as they occur in the messages of the links.\<close>

lemma stm32_full_partial:
  assumes g: "MAGIC_CHAR \<notin> set gs" and y: "length ys < 10 \<or> MAGIC_CHAR \<notin> set ys"
    and s: "length ys < 2 ^ 31"
  shows "stm32_get_a_full_msg (gs @ MAGIC_CHAR # ys @ zs) (int (length gs + 1 + length ys)) m =
    Inr (int (length gs), m)"
proof -
  have hit: "stm32_find_magic_char (gs @ MAGIC_CHAR # ys @ zs) (int (length gs + 1 + length ys)) =
      Inr (True, int (length gs))"
    using g by (simp add: stm32_find_magic_char_hit)
  have u: "to_unsigned (1 + int (length ys)) = 1 + int (length ys)" using s by simp
  show ?thesis
  proof (cases "length ys < 10")
    case True
    then show ?thesis using hit u by (simp add: stm32_get_a_full_msg_def sizeof_header_def)
  next
    case False
    then have "stm32_find_magic_char (ys @ zs) (int (length ys)) = Inr (False, 0)"
      using y by (simp add: stm32_find_magic_char_miss)
    then show ?thesis using hit u by (simp add: stm32_get_a_full_msg_def nat_add_distrib)
  qed
qed

lemma stm32_full_found:
  assumes g: "MAGIC_CHAR \<notin> set gs" and y: "MAGIC_CHAR \<notin> set ys"
    and l: "9 \<le> length ys + length zs" "length ys + length zs < 2 ^ 31"
  shows "stm32_get_a_full_msg (gs @ MAGIC_CHAR # ys @ MAGIC_CHAR # zs @ rs)
        (int (length gs + length ys + length zs + 2)) m =
    Inr (int (length gs + length ys + 2),
      \<lparr>mgr_buf = Some (MAGIC_CHAR # ys @ MAGIC_CHAR # zs @ rs), mgr_len = int (length ys + 2)\<rparr>)"
proof -
  have "stm32_find_magic_char (gs @ MAGIC_CHAR # ys @ MAGIC_CHAR # zs @ rs)
      (int (length gs + length ys + length zs + 2)) = Inr (True, int (length gs))"
    using g by (simp add: stm32_find_magic_char_hit)
  moreover have "stm32_find_magic_char (ys @ MAGIC_CHAR # zs @ rs)
      (1 + (int (length ys) + int (length zs))) = Inr (True, int (length ys))"
    using y by (simp add: stm32_find_magic_char_hit)
  moreover have "to_unsigned (2 + (int (length ys) + int (length zs))) =
      2 + (int (length ys) + int (length zs))" using l by simp
  ultimately show ?thesis
    using l by (simp add: stm32_get_a_full_msg_def nat_add_distrib sizeof_header_def algebra_simps)
qed

interpretation stm32: wire_codec stm32_protocol_escape stm32_protocol_unescape stm32_get_a_full_msg
proof unfold_locales
  fix xs zs dest :: bytes
  assume "xs \<noteq> []" "2 * length xs \<le> length dest"
  then show "stm32_protocol_escape (Some dest) (Some (xs @ zs)) (int (length xs)) =
      Inr (Some (overwrite dest 0 (stuff xs)), int (length (stuff xs)))"
    using stm32_escape_loop_ok [of 0 "xs @ zs" xs zs "int (length xs)" 0 dest]
    by (simp add: stm32_protocol_escape_def)
next
  fix ys xs zs dest :: bytes
  assume "ys \<noteq> []" "length ys \<le> length dest" "unstuff ys = Some xs"
  then show "stm32_protocol_unescape (Some dest) (Some (ys @ zs)) (int (length ys)) =
      Inr (Some (overwrite dest 0 xs), int (length xs))"
    using stm32_unescape_loop_ok [of 0 "ys @ zs" ys zs "int (length ys)" 0 dest xs]
    by (simp add: stm32_protocol_unescape_def)
next
  fix ys zs dest :: bytes
  assume "ys \<noteq> []" "length ys \<le> length dest" "unstuff ys = None"
  then show "\<exists>d. stm32_protocol_unescape (Some dest) (Some (ys @ zs)) (int (length ys)) =
      Inr (Some d, - 1) \<and> length d = length dest"
    using stm32_unescape_loop_error [of 0 "ys @ zs" ys zs "int (length ys)" 0 dest]
    by (auto simp: stm32_protocol_unescape_def)
next
  fix xs zs m
  assume "MAGIC_CHAR \<notin> set xs"
  then show "stm32_get_a_full_msg (xs @ zs) (int (length xs)) m = Inr (0, m)"
    by (simp add: stm32_get_a_full_msg_def stm32_find_magic_char_miss)
next
  fix gs ys zs :: bytes and m
  assume "MAGIC_CHAR \<notin> set gs" "length ys < 10 \<or> MAGIC_CHAR \<notin> set ys" "length ys < 2 ^ 31"
  then show "stm32_get_a_full_msg (gs @ MAGIC_CHAR # ys @ zs) (int (length gs + 1 + length ys)) m =
      Inr (int (length gs), m)" by (rule stm32_full_partial)
next
  fix gs ys zs rs :: bytes and m
  assume "MAGIC_CHAR \<notin> set gs" "MAGIC_CHAR \<notin> set ys" "9 \<le> length ys + length zs"
    "length ys + length zs < 2 ^ 31"
  then show "stm32_get_a_full_msg (gs @ MAGIC_CHAR # ys @ MAGIC_CHAR # zs @ rs)
        (int (length gs + length ys + length zs + 2)) m =
      Inr (int (length gs + length ys + 2),
        \<lparr>mgr_buf = Some (MAGIC_CHAR # ys @ MAGIC_CHAR # zs @ rs), mgr_len = int (length ys + 2)\<rparr>)"
    by (rule stm32_full_found)
qed

section \<open>Headers and sending\<close>

text \<open>
  The packed header of both links (\<open>stm32_protocol_header_t\<close> and
  \<open>scorpion_protocol_header_t\<close> have the same fields) and its layout in memory.
\<close>

record protocol_header_t =
  msg_id :: u16
  msg_len :: u16
  msg_serial_number :: u16
  reserved :: u16

definition header_bytes :: "protocol_header_t \<Rightarrow> bytes" where
  "header_bytes h = le16 (msg_id h) @ le16 (msg_len h) @ le16 (msg_serial_number h) @ le16 (reserved h)"

record protocol_ack_t =
  ack_seq :: u16
  ack_id :: u16
  ack_result :: u8

definition ack_bytes :: "protocol_ack_t \<Rightarrow> bytes" where
  "ack_bytes a = le16 (ack_seq a) @ le16 (ack_id a) @ [ack_result a]"

lemma length_header_bytes [simp]: "length (header_bytes h) = 8"
  by (simp add: header_bytes_def)

lemma length_ack_bytes [simp]: "length (ack_bytes a) = 5"
  by (simp add: ack_bytes_def)

definition stm32_protocol_build_header ::
  "scorpion_world \<Rightarrow> u16 \<Rightarrow> u16 \<Rightarrow> protocol_header_t \<times> scorpion_world" where
  "stm32_protocol_build_header w ident len =
     (\<lparr>msg_id = ident, msg_len = len, msg_serial_number = ucast (stm32_seq w), reserved = 0\<rparr>,
      w\<lparr>stm32_seq := stm32_seq w + 1\<rparr>)"

text \<open>\<open>header\<close> is the header inside the received message \<open>b\<close>.\<close>

definition stm32_protocol_build_ack :: "bytes \<Rightarrow> int \<Rightarrow> u8 \<Rightarrow> protocol_ack_t res" where
  "stm32_protocol_build_ack b header result =
     bnd (get16 b (header + 4)) (\<lambda>seq. bnd (get16 b header) (\<lambda>ident.
     Inr \<lparr>ack_seq = seq, ack_id = ident, ack_result = result\<rparr>))"

definition stm32_protocol_send_data ::
  "'a scorpion_env_scheme \<Rightarrow> scorpion_world \<Rightarrow> bytes \<Rightarrow> int \<Rightarrow> (scorpion_world \<times> int) res" where
  "stm32_protocol_send_data E w buf len =
     bnd (mem_put buf (len - 1) MAGIC_CHAR) (\<lambda>buf.
     bnd (mem_put buf 0 MAGIC_CHAR) (\<lambda>buf.
     bnd (xor8_computer buf 1 (len - 3)) (\<lambda>val.
     bnd (mem_put buf (len - 2) val) (\<lambda>buf.
     case alloc E w (nat (len * 2)) of
       (None, w) \<Rightarrow> Inr (w, - 1)
     | (Some new_buf, w) \<Rightarrow>
         bnd (mem_get buf 0) (\<lambda>c. bnd (mem_put new_buf 0 c) (\<lambda>new_buf.
         bnd (stm32_protocol_escape (Some (drop 1 new_buf)) (Some (drop 1 buf)) (len - 2))
           (\<lambda>(dest, new_len). bnd (deref dest) (\<lambda>dest.
         let new_buf = take 1 new_buf @ dest; new_len = new_len + 1 in
         bnd (mem_get buf (len - 1)) (\<lambda>c. bnd (mem_put new_buf new_len c) (\<lambda>new_buf.
         let new_len = new_len + 1 in
         bnd (scorpion_uart_send w new_buf new_len) (\<lambda>(w, _). Inr (w, new_len))))))))))))"

section \<open>The messages to the STM32\<close>

text \<open>
  The message identifiers of \<open>scorpion_stm32.h\<close>, and one function per message. Each builds the
  packed structure in a local variable: the header at offset 1, the body at offset 9.
\<close>

abbreviation (input) SYSTEM2MCU_GENERAL_ACK :: u16 where "SYSTEM2MCU_GENERAL_ACK \<equiv> 0x0001"
abbreviation (input) SYSTEM2MCU_HEART_BEAT :: u16 where "SYSTEM2MCU_HEART_BEAT \<equiv> 0x0002"
abbreviation (input) SYSTEM2MCU_GPIO_OUT :: u16 where "SYSTEM2MCU_GPIO_OUT \<equiv> 0x0003"
abbreviation (input) SYSTEM2MCU_ADC_REQ :: u16 where "SYSTEM2MCU_ADC_REQ \<equiv> 0x0004"
abbreviation (input) SYSTEM2MCU_GPIO_IN_REQ :: u16 where "SYSTEM2MCU_GPIO_IN_REQ \<equiv> 0x0007"
abbreviation (input) SYSTEM2MCU_DELAY_TIME :: u16 where "SYSTEM2MCU_DELAY_TIME \<equiv> 0x0009"
abbreviation (input) SYSTEM2MCU_VERSION_REQ :: u16 where "SYSTEM2MCU_VERSION_REQ \<equiv> 0x0040"
abbreviation (input) SYSTEM2MCU_REBOOT :: u16 where "SYSTEM2MCU_REBOOT \<equiv> 0x0080"

definition stm32_protocol_send_ack ::
  "'a scorpion_env_scheme \<Rightarrow> scorpion_world \<Rightarrow> bytes \<Rightarrow> int \<Rightarrow> u8 \<Rightarrow> scorpion_world res" where
  "stm32_protocol_send_ack E w buf header result =
     (let (h, w) = stm32_protocol_build_header w SYSTEM2MCU_GENERAL_ACK 5 in
     bnd (mem_write (stack_struct E 16) 1 (header_bytes h)) (\<lambda>b.
     bnd (stm32_protocol_build_ack buf header result) (\<lambda>ack.
     bnd (mem_write b 9 (ack_bytes ack)) (\<lambda>b.
     bnd (stm32_protocol_send_data E w b 16) (\<lambda>(w, _). Inr w)))))"

definition stm32_send_adc_req ::
  "'a scorpion_env_scheme \<Rightarrow> scorpion_world \<Rightarrow> u8 \<Rightarrow> scorpion_world res" where
  "stm32_send_adc_req E w channel =
     (let (h, w) = stm32_protocol_build_header w SYSTEM2MCU_ADC_REQ 1 in
     bnd (mem_write (stack_struct E 12) 1 (header_bytes h)) (\<lambda>b.
     bnd (mem_write b 9 [channel]) (\<lambda>b.
     bnd (stm32_protocol_send_data E w b 12) (\<lambda>(w, _). Inr w))))"

definition stm32_send_delay_time ::
  "'a scorpion_env_scheme \<Rightarrow> scorpion_world \<Rightarrow> u32 \<Rightarrow> scorpion_world res" where
  "stm32_send_delay_time E w delay =
     (let (h, w) = stm32_protocol_build_header w SYSTEM2MCU_DELAY_TIME 4 in
     bnd (mem_write (stack_struct E 15) 1 (header_bytes h)) (\<lambda>b.
     bnd (mem_write b 9 (le32 delay)) (\<lambda>b.
     bnd (stm32_protocol_send_data E w b 15) (\<lambda>(w, _). Inr w))))"

definition stm32_send_gpio_out ::
  "'a scorpion_env_scheme \<Rightarrow> scorpion_world \<Rightarrow> u32 \<Rightarrow> scorpion_world res" where
  "stm32_send_gpio_out E w out =
     (let (h, w) = stm32_protocol_build_header w SYSTEM2MCU_GPIO_OUT 4 in
     bnd (mem_write (stack_struct E 15) 1 (header_bytes h)) (\<lambda>b.
     bnd (mem_write b 9 (le32 out)) (\<lambda>b.
     bnd (stm32_protocol_send_data E w b 15) (\<lambda>(w, _). Inr w))))"

definition stm32_send_gpio_in_req ::
  "'a scorpion_env_scheme \<Rightarrow> scorpion_world \<Rightarrow> scorpion_world res" where
  "stm32_send_gpio_in_req E w =
     (let (h, w) = stm32_protocol_build_header w SYSTEM2MCU_GPIO_IN_REQ 0 in
     bnd (mem_write (stack_struct E 11) 1 (header_bytes h)) (\<lambda>b.
     bnd (stm32_protocol_send_data E w b 11) (\<lambda>(w, _). Inr w)))"

definition stm32_send_heart_beat ::
  "'a scorpion_env_scheme \<Rightarrow> scorpion_world \<Rightarrow> scorpion_world res" where
  "stm32_send_heart_beat E w =
     (let (h, w) = stm32_protocol_build_header w SYSTEM2MCU_HEART_BEAT 0 in
     bnd (mem_write (stack_struct E 11) 1 (header_bytes h)) (\<lambda>b.
     bnd (stm32_protocol_send_data E w b 11) (\<lambda>(w, _). Inr w)))"

definition stm32_send_reboot ::
  "'a scorpion_env_scheme \<Rightarrow> scorpion_world \<Rightarrow> scorpion_world res" where
  "stm32_send_reboot E w =
     (let (h, w) = stm32_protocol_build_header w SYSTEM2MCU_REBOOT 0 in
     bnd (mem_write (stack_struct E 11) 1 (header_bytes h)) (\<lambda>b.
     bnd (stm32_protocol_send_data E w b 11) (\<lambda>(w, _). Inr w)))"

definition stm32_send_version_req ::
  "'a scorpion_env_scheme \<Rightarrow> scorpion_world \<Rightarrow> scorpion_world res" where
  "stm32_send_version_req E w =
     (let (h, w) = stm32_protocol_build_header w SYSTEM2MCU_VERSION_REQ 0 in
     bnd (mem_write (stack_struct E 11) 1 (header_bytes h)) (\<lambda>b.
     bnd (stm32_protocol_send_data E w b 11) (\<lambda>(w, _). Inr w)))"

section \<open>Sending queues one frame\<close>

interpretation stm32_tx: frame_sender stm32_protocol_escape stm32_protocol_unescape
  stm32_get_a_full_msg "alloc E" scorpion_uart_send "stm32_protocol_send_data E" for E
  by unfold_locales
     (erule alloc_block_length, unfold stm32_protocol_send_data_def Let_def, rule refl)

text \<open>
  The effect of sending payload \<open>p\<close> from state \<open>w\<close>: its frame is appended to the bytes that
  wait for the UART if the escape buffer can be allocated and the frame fits, and nothing else is
  sent.
\<close>

definition uart_frame_sent ::
  "'a scorpion_env_scheme \<Rightarrow> scorpion_world \<Rightarrow> bytes \<Rightarrow> scorpion_world \<Rightarrow> bool" where
  "uart_frame_sent E w p w' =
     (uart_ready w' \<and>
      w' = w\<lparr>nmalloc := nmalloc w + 1, ppmngr_write := ppmngr_write w', uart_signals := uart_signals w'\<rparr> \<and>
      (if malloc E (nmalloc w) (2 * (length p + 3)) \<noteq> None \<and> length (frame p) \<le> uart_room w
       then uart_pending w' = uart_pending w @ frame p \<and> uart_room w' = uart_room w - length (frame p)
       else uart_pending w' = uart_pending w \<and> uart_room w' = uart_room w))"

lemma uart_ready_update [simp]:
  "uart_ready (w\<lparr>nmalloc := n\<rparr>) = uart_ready w" "uart_pending (w\<lparr>nmalloc := n\<rparr>) = uart_pending w"
  "uart_room (w\<lparr>nmalloc := n\<rparr>) = uart_room w"
  "uart_ready (w\<lparr>stm32_seq := q\<rparr>) = uart_ready w" "uart_pending (w\<lparr>stm32_seq := q\<rparr>) = uart_pending w"
  "uart_room (w\<lparr>stm32_seq := q\<rparr>) = uart_room w"
  by (simp_all add: uart_ready_def uart_pending_def uart_room_def)

lemma stm32_send_data_frame:
  assumes r: "uart_ready w" and l: "length p < 2 ^ 31"
  shows "\<exists>w' n. stm32_protocol_send_data E w (a # p @ [x, y]) (int (length p + 3)) = Inr (w', n) \<and>
    uart_frame_sent E w p w'"
proof (cases "malloc E (nmalloc w) (2 * (length p + 3))")
  case None
  let ?w = "w\<lparr>nmalloc := nmalloc w + 1\<rparr>"
  have "alloc E w (2 * (length p + 3)) = (None, ?w)" using None by (simp add: alloc_def)
  from stm32_tx.send_no_memory [OF this] l r None show ?thesis
    by (auto simp: uart_frame_sent_def)
next
  case (Some nb)
  let ?w = "w\<lparr>nmalloc := nmalloc w + 1\<rparr>"
  have "alloc E w (2 * (length p + 3)) = (Some nb, ?w)" using Some by (simp add: alloc_def)
  from stm32_tx.send_frame [OF this] l obtain js where
    s: "stm32_protocol_send_data E w (a # p @ [x, y]) (int (length p + 3)) =
      bnd (scorpion_uart_send ?w (frame p @ js) (int (length (frame p))))
        (\<lambda>(w2, _). Inr (w2, int (length (frame p))))" by force
  have r': "uart_ready ?w" using r by simp
  show ?thesis
  proof (cases "length (frame p) \<le> uart_room w")
    case True
    then obtain m where "scorpion_uart_send ?w (frame p @ js) (int (length (frame p))) =
        Inr (?w\<lparr>ppmngr_write := Some m, uart_signals := uart_signals w + 1\<rparr>, int (length (frame p)))"
      "cb_inv m" "cb_list m = uart_pending w @ frame p"
      "cb_cap m - length (cb_list m) = uart_room w - length (frame p)"
      using uart_send_fits [OF r', of "frame p" js] by auto
    moreover have "uart_fd w \<ge> 0" using r by (simp add: uart_ready_def)
    ultimately show ?thesis using s Some True
      by (auto simp: uart_frame_sent_def uart_ready_def uart_pending_def uart_room_def)
  next
    case False
    then show ?thesis using s Some r uart_send_full [OF r', of "frame p" js]
      by (auto simp: uart_frame_sent_def)
  qed
qed

text \<open>A message structure once its header and its body have been written.\<close>

lemma length_two: "length xs = 2 \<Longrightarrow> \<exists>x y. xs = [x, y]"
  by (cases xs; cases "tl xs") auto

lemma struct_header:
  assumes "length b = length h + 3"
  shows "\<exists>a x y. mem_write b 1 h = Inr (a # h @ [x, y])"
proof -
  obtain a c where b: "b = a # c" "length c = length h + 2" using assms by (cases b) auto
  then have "length (drop (length h) c) = 2" by simp
  then obtain x y where "drop (length h) c = [x, y]"
    using length_two by blast
  then show ?thesis using b by (simp add: overwrite_def)
qed

lemma struct_body:
  assumes "length b = length h + length d + 3" "k = Suc (length h)"
  shows "\<exists>a x y b'. mem_write b 1 h = Inr b' \<and> mem_write b' k d = Inr (a # h @ d @ [x, y])"
proof -
  obtain a x y where w: "mem_write b 1 (h @ d) = Inr (a # (h @ d) @ [x, y])"
    using struct_header [of b "h @ d"] assms(1) by auto
  then have e: "overwrite b 1 (h @ d) = a # (h @ d) @ [x, y]" using assms by simp
  have "overwrite (overwrite b 1 h) k d = overwrite b 1 (h @ d)"
    using assms by (cases b) (simp_all add: overwrite_def add.commute)
  then show ?thesis using e assms by auto
qed

lemma stm32_send_bare:
  assumes "uart_ready w" "length b = 11"
  shows "\<exists>w'. bnd (mem_write b 1 (header_bytes h)) (\<lambda>b.
      bnd (stm32_protocol_send_data E w b 11) (\<lambda>(w, _). Inr w)) = Inr w' \<and>
    uart_frame_sent E w (header_bytes h) w'"
proof -
  obtain a x y where "mem_write b 1 (header_bytes h) = Inr (a # header_bytes h @ [x, y])"
    using struct_header [of b "header_bytes h"] assms(2) by auto
  then show ?thesis using stm32_send_data_frame [OF assms(1), of "header_bytes h" E a x y] by auto
qed

lemma stm32_send_struct:
  assumes "uart_ready w" "length b = length d + 11" "length d < 2 ^ 30" "n = int (length d + 11)"
  shows "\<exists>w'. bnd (mem_write b 1 (header_bytes h)) (\<lambda>b. bnd (mem_write b 9 d) (\<lambda>b.
      bnd (stm32_protocol_send_data E w b n) (\<lambda>(w, _). Inr w))) = Inr w' \<and>
    uart_frame_sent E w (header_bytes h @ d) w'"
proof -
  obtain a x y b' where "mem_write b 1 (header_bytes h) = Inr b'"
    "mem_write b' 9 d = Inr (a # (header_bytes h @ d) @ [x, y])"
    using struct_body [of b "header_bytes h" d 9] assms(2) by auto
  then show ?thesis
    using stm32_send_data_frame [OF assms(1), of "header_bytes h @ d" E a x y] assms(3,4)
    by (auto simp: add.commute)
qed

text \<open>The header that the next message to the STM32 carries, and the state after it is taken.\<close>

definition stm32_header :: "scorpion_world \<Rightarrow> u16 \<Rightarrow> u16 \<Rightarrow> protocol_header_t" where
  "stm32_header w ident len =
     \<lparr>msg_id = ident, msg_len = len, msg_serial_number = ucast (stm32_seq w), reserved = 0\<rparr>"

definition stm32_next :: "scorpion_world \<Rightarrow> scorpion_world" where
  "stm32_next w = w\<lparr>stm32_seq := stm32_seq w + 1\<rparr>"

lemma stm32_next_ready [simp]: "uart_ready (stm32_next w) = uart_ready w"
  by (simp add: stm32_next_def)

lemma stm32_build_header [simp]:
  "stm32_protocol_build_header w ident len = (stm32_header w ident len, stm32_next w)"
  by (simp add: stm32_protocol_build_header_def stm32_header_def stm32_next_def)

lemma stm32_send_heart_beat_ok:
  "uart_ready w \<Longrightarrow> \<exists>w'. stm32_send_heart_beat E w = Inr w' \<and>
    uart_frame_sent E (stm32_next w) (header_bytes (stm32_header w SYSTEM2MCU_HEART_BEAT 0)) w'"
  unfolding stm32_send_heart_beat_def Let_def stm32_build_header split_conv by (rule stm32_send_bare) simp_all

lemma stm32_send_reboot_ok:
  "uart_ready w \<Longrightarrow> \<exists>w'. stm32_send_reboot E w = Inr w' \<and>
    uart_frame_sent E (stm32_next w) (header_bytes (stm32_header w SYSTEM2MCU_REBOOT 0)) w'"
  unfolding stm32_send_reboot_def Let_def stm32_build_header split_conv by (rule stm32_send_bare) simp_all

lemma stm32_send_version_req_ok:
  "uart_ready w \<Longrightarrow> \<exists>w'. stm32_send_version_req E w = Inr w' \<and>
    uart_frame_sent E (stm32_next w) (header_bytes (stm32_header w SYSTEM2MCU_VERSION_REQ 0)) w'"
  unfolding stm32_send_version_req_def Let_def stm32_build_header split_conv by (rule stm32_send_bare) simp_all

lemma stm32_send_gpio_in_req_ok:
  "uart_ready w \<Longrightarrow> \<exists>w'. stm32_send_gpio_in_req E w = Inr w' \<and>
    uart_frame_sent E (stm32_next w) (header_bytes (stm32_header w SYSTEM2MCU_GPIO_IN_REQ 0)) w'"
  unfolding stm32_send_gpio_in_req_def Let_def stm32_build_header split_conv by (rule stm32_send_bare) simp_all

lemma stm32_send_adc_req_ok:
  "uart_ready w \<Longrightarrow> \<exists>w'. stm32_send_adc_req E w channel = Inr w' \<and>
    uart_frame_sent E (stm32_next w)
      (header_bytes (stm32_header w SYSTEM2MCU_ADC_REQ 1) @ [channel]) w'"
  unfolding stm32_send_adc_req_def Let_def stm32_build_header split_conv by (rule stm32_send_struct) simp_all

lemma stm32_send_delay_time_ok:
  "uart_ready w \<Longrightarrow> \<exists>w'. stm32_send_delay_time E w delay = Inr w' \<and>
    uart_frame_sent E (stm32_next w)
      (header_bytes (stm32_header w SYSTEM2MCU_DELAY_TIME 4) @ le32 delay) w'"
  unfolding stm32_send_delay_time_def Let_def stm32_build_header split_conv by (rule stm32_send_struct) simp_all

lemma stm32_send_gpio_out_ok:
  "uart_ready w \<Longrightarrow> \<exists>w'. stm32_send_gpio_out E w out = Inr w' \<and>
    uart_frame_sent E (stm32_next w)
      (header_bytes (stm32_header w SYSTEM2MCU_GPIO_OUT 4) @ le32 out) w'"
  unfolding stm32_send_gpio_out_def Let_def stm32_build_header split_conv by (rule stm32_send_struct) simp_all

text \<open>An acknowledgement echoes the serial number and the identifier of the message it is for.\<close>

lemma header_fields:
  "get16 (a # header_bytes h @ ys) 1 = Inr (msg_id h)"
  "get16 (a # header_bytes h @ ys) 3 = Inr (msg_len h)"
  "get16 (a # header_bytes h @ ys) 5 = Inr (msg_serial_number h)"
  using get16_le16 [of "[a]" 1 "msg_id h"] get16_le16 [of "[a] @ le16 (msg_id h)" 3 "msg_len h"]
    get16_le16 [of "[a] @ le16 (msg_id h) @ le16 (msg_len h)" 5 "msg_serial_number h"]
  by (simp_all add: header_bytes_def)

lemma stm32_send_ack_ok:
  assumes "uart_ready w"
  shows "\<exists>w'. stm32_protocol_send_ack E w (a # header_bytes h @ ys) 1 result = Inr w' \<and>
    uart_frame_sent E (stm32_next w)
      (header_bytes (stm32_header w SYSTEM2MCU_GENERAL_ACK 5) @
       ack_bytes \<lparr>ack_seq = msg_serial_number h, ack_id = msg_id h, ack_result = result\<rparr>) w'"
proof -
  let ?ack = "\<lparr>ack_seq = msg_serial_number h, ack_id = msg_id h, ack_result = result\<rparr>"
  have "stm32_protocol_build_ack (a # header_bytes h @ ys) 1 result = Inr ?ack"
    by (simp add: stm32_protocol_build_ack_def header_fields)
  then have "stm32_protocol_send_ack E w (a # header_bytes h @ ys) 1 result =
      bnd (mem_write (stack_struct E 16) 1 (header_bytes (stm32_header w SYSTEM2MCU_GENERAL_ACK 5)))
        (\<lambda>b. bnd (mem_write b 9 (ack_bytes ?ack)) (\<lambda>b.
         bnd (stm32_protocol_send_data E (stm32_next w) b 16) (\<lambda>(w, _). Inr w)))"
    unfolding stm32_protocol_send_ack_def Let_def stm32_build_header split_conv by simp
  also have "\<exists>w'. \<dots> = Inr w' \<and> uart_frame_sent E (stm32_next w)
      (header_bytes (stm32_header w SYSTEM2MCU_GENERAL_ACK 5) @ ack_bytes ?ack) w'"
    using assms by (intro stm32_send_struct) simp_all
  finally show ?thesis .
qed

end
