(* ===== verification/Scorpion_Protocol.thy ===== *)
theory Scorpion_Protocol
  imports Scorpion_STM32
begin

text \<open>
  The link to the application: the codec and the sending half of
  \<open>external/scorpion/scorpion_protocol.c\<close>, and the report functions of the
  \<open>scorpion_protocol_*.c\<close> files. The codec is a second copy of the STM32 codec; it is shown
  equal to the first copy, and so an interpretation of \<open>wire_codec\<close> too. The report functions
  are shown to give exactly one frame to the socket.
\<close>

section \<open>The codec\<close>

function scorpion_escape_loop :: "bytes \<Rightarrow> bytes \<Rightarrow> int \<Rightarrow> int \<Rightarrow> int \<Rightarrow> (bytes \<times> int) res" where
  "scorpion_escape_loop dest src len i j =
     (if i < len then bnd (mem_get src i) (\<lambda>c.
        if c = ESCAPE_CHAR
        then bnd (mem_put dest j ESCAPE_CHAR) (\<lambda>dest. bnd (mem_put dest (j + 1) 0x01) (\<lambda>dest.
             scorpion_escape_loop dest src len (i + 1) (j + 2)))
        else if c = MAGIC_CHAR
        then bnd (mem_put dest j ESCAPE_CHAR) (\<lambda>dest. bnd (mem_put dest (j + 1) 0x02) (\<lambda>dest.
             scorpion_escape_loop dest src len (i + 1) (j + 2)))
        else bnd (mem_put dest j c) (\<lambda>dest. scorpion_escape_loop dest src len (i + 1) (j + 1)))
      else Inr (dest, j))"
  by pat_completeness auto
termination
  by (relation "measure (\<lambda>(dest, src, len, i, j). nat (len - i))") auto

declare scorpion_escape_loop.simps [simp del]

definition scorpion_protocol_escape ::
  "bytes option \<Rightarrow> bytes option \<Rightarrow> int \<Rightarrow> (bytes option \<times> int) res" where
  "scorpion_protocol_escape dest src len =
     (case (dest, src) of
        (Some d, Some s) \<Rightarrow>
          if len = 0 then Inr (dest, - 1)
          else bnd (scorpion_escape_loop d s len 0 0) (\<lambda>(d, j). Inr (Some d, j))
      | _ \<Rightarrow> Inr (dest, - 1))"

function scorpion_unescape_loop :: "bytes \<Rightarrow> bytes \<Rightarrow> int \<Rightarrow> int \<Rightarrow> int \<Rightarrow> (bytes \<times> int) res" where
  "scorpion_unescape_loop dest src len i j =
     (if i < len then bnd (mem_get src i) (\<lambda>c.
        if c = ESCAPE_CHAR
        then if i + 1 = len then Inr (dest, - 1)
             else bnd (mem_get src (i + 1)) (\<lambda>d.
               if d = 0x01
               then bnd (mem_put dest j ESCAPE_CHAR) (\<lambda>dest.
                    scorpion_unescape_loop dest src len (i + 2) (j + 1))
               else if d = 0x02
               then bnd (mem_put dest j MAGIC_CHAR) (\<lambda>dest.
                    scorpion_unescape_loop dest src len (i + 2) (j + 1))
               else Inr (dest, - 1))
        else bnd (mem_put dest j c) (\<lambda>dest. scorpion_unescape_loop dest src len (i + 1) (j + 1)))
      else Inr (dest, j))"
  by pat_completeness auto
termination
  by (relation "measure (\<lambda>(dest, src, len, i, j). nat (len - i))") auto

declare scorpion_unescape_loop.simps [simp del]

definition scorpion_protocol_unescape ::
  "bytes option \<Rightarrow> bytes option \<Rightarrow> int \<Rightarrow> (bytes option \<times> int) res" where
  "scorpion_protocol_unescape dest src len =
     (case (dest, src) of
        (Some d, Some s) \<Rightarrow>
          if len = 0 then Inr (dest, - 1)
          else bnd (scorpion_unescape_loop d s len 0 0) (\<lambda>(d, j). Inr (Some d, j))
      | _ \<Rightarrow> Inr (dest, - 1))"

text \<open>The search for a delimiter: whether one was found, and the value stored in \<open>*offset\<close>.\<close>

function scorpion_find_magic_loop :: "bytes \<Rightarrow> int \<Rightarrow> int \<Rightarrow> (bool \<times> int) res" where
  "scorpion_find_magic_loop buf len index =
     (if index < len then bnd (mem_get buf index) (\<lambda>c.
        if c = MAGIC_CHAR then Inr (True, index) else scorpion_find_magic_loop buf len (index + 1))
      else Inr (False, 0))"
  by pat_completeness auto
termination
  by (relation "measure (\<lambda>(buf, len, index). nat (len - index))") auto

declare scorpion_find_magic_loop.simps [simp del]

definition scorpion_find_magic_char :: "bytes \<Rightarrow> int \<Rightarrow> (bool \<times> int) res" where
  "scorpion_find_magic_char buf len = scorpion_find_magic_loop buf len 0"

definition scorpion_get_a_full_msg :: "bytes \<Rightarrow> int \<Rightarrow> buff_mgr_t \<Rightarrow> (int \<times> buff_mgr_t) res" where
  "scorpion_get_a_full_msg buf len msg =
     bnd (scorpion_find_magic_char buf len) (\<lambda>(ret, head_offset).
     if ret \<and> to_unsigned (len - head_offset) \<ge> sizeof_header + 3
     then bnd (scorpion_find_magic_char (drop (nat (head_offset + 1)) buf) (len - head_offset - 1))
            (\<lambda>(ret, tail_offset).
          let tail_offset = tail_offset + (head_offset + 1) in
          if ret
          then Inr (tail_offset + 1,
                    msg\<lparr>mgr_buf := Some (drop (nat head_offset) buf),
                        mgr_len := tail_offset - head_offset + 1\<rparr>)
          else Inr (head_offset, msg))
     else Inr (head_offset, msg))"

section \<open>The codec is the STM32 codec\<close>

lemma scorpion_escape_loop_eq [simp]:
  "scorpion_escape_loop dest src len i j = stm32_escape_loop dest src len i j"
proof (induction dest src len i j rule: scorpion_escape_loop.induct)
  case (1 dest src len i j)
  show ?case
    by (subst scorpion_escape_loop.simps, subst stm32_escape_loop.simps)
       (intro if_cong bnd_cong refl 1; assumption)
qed

lemma scorpion_unescape_loop_eq [simp]:
  "scorpion_unescape_loop dest src len i j = stm32_unescape_loop dest src len i j"
proof (induction dest src len i j rule: scorpion_unescape_loop.induct)
  case (1 dest src len i j)
  show ?case
    by (subst scorpion_unescape_loop.simps, subst stm32_unescape_loop.simps)
       (intro if_cong bnd_cong refl 1; assumption)
qed

lemma scorpion_find_magic_loop_eq [simp]:
  "scorpion_find_magic_loop buf len index = stm32_find_magic_loop buf len index"
proof (induction buf len index rule: scorpion_find_magic_loop.induct)
  case (1 buf len index)
  show ?case
    by (subst scorpion_find_magic_loop.simps, subst stm32_find_magic_loop.simps)
       (intro if_cong bnd_cong refl 1; assumption)
qed

lemma scorpion_codec_eq:
  "scorpion_protocol_escape = stm32_protocol_escape"
  "scorpion_protocol_unescape = stm32_protocol_unescape"
  "scorpion_find_magic_char = stm32_find_magic_char"
  "scorpion_get_a_full_msg = stm32_get_a_full_msg"
  by (unfold scorpion_protocol_escape_def stm32_protocol_escape_def
      scorpion_protocol_unescape_def stm32_protocol_unescape_def
      scorpion_find_magic_char_def stm32_find_magic_char_def
      scorpion_get_a_full_msg_def stm32_get_a_full_msg_def
      scorpion_escape_loop_eq scorpion_unescape_loop_eq scorpion_find_magic_loop_eq) (rule refl)+

interpretation scorpion: wire_codec scorpion_protocol_escape scorpion_protocol_unescape
  scorpion_get_a_full_msg
  unfolding scorpion_codec_eq by (rule stm32.wire_codec_axioms)

section \<open>Headers and sending\<close>

definition scorpion_protocol_build_header ::
  "scorpion_world \<Rightarrow> u16 \<Rightarrow> u16 \<Rightarrow> protocol_header_t \<times> scorpion_world" where
  "scorpion_protocol_build_header w ident len =
     (\<lparr>msg_id = ident, msg_len = len, msg_serial_number = ucast (scorpion_seq w), reserved = 0\<rparr>,
      w\<lparr>scorpion_seq := scorpion_seq w + 1\<rparr>)"

text \<open>\<open>header\<close> is the header inside the received message \<open>b\<close>.\<close>

definition scorpion_protocol_build_ack :: "bytes \<Rightarrow> int \<Rightarrow> u8 \<Rightarrow> protocol_ack_t res" where
  "scorpion_protocol_build_ack b header result =
     bnd (get16 b (header + 4)) (\<lambda>seq. bnd (get16 b header) (\<lambda>ident.
     Inr \<lparr>ack_seq = seq, ack_id = ident, ack_result = result\<rparr>))"

definition scorpion_protocol_send_data ::
  "'a scorpion_env_scheme \<Rightarrow> scorpion_world \<Rightarrow> bytes \<Rightarrow> int \<Rightarrow> (scorpion_world \<times> int) res" where
  "scorpion_protocol_send_data E w buf len =
     bnd (mem_put buf (len - 1) MAGIC_CHAR) (\<lambda>buf.
     bnd (mem_put buf 0 MAGIC_CHAR) (\<lambda>buf.
     bnd (xor8_computer buf 1 (len - 3)) (\<lambda>val.
     bnd (mem_put buf (len - 2) val) (\<lambda>buf.
     case alloc E w (nat (len * 2)) of
       (None, w) \<Rightarrow> Inr (w, - 1)
     | (Some new_buf, w) \<Rightarrow>
         bnd (mem_get buf 0) (\<lambda>c. bnd (mem_put new_buf 0 c) (\<lambda>new_buf.
         bnd (scorpion_protocol_escape (Some (drop 1 new_buf)) (Some (drop 1 buf)) (len - 2))
           (\<lambda>(dest, new_len). bnd (deref dest) (\<lambda>dest.
         let new_buf = take 1 new_buf @ dest; new_len = new_len + 1 in
         bnd (mem_get buf (len - 1)) (\<lambda>c. bnd (mem_put new_buf new_len c) (\<lambda>new_buf.
         let new_len = new_len + 1 in
         bnd (scorpion_socket_send E w new_buf new_len) (\<lambda>(w, _). Inr (w, new_len))))))))))))"

section \<open>The messages to the application\<close>

text \<open>
  The message identifiers of \<open>scorpion_protocol.h\<close> and one function per report. The channel and
  the level of an input are 16-bit fields of \<open>msg_gpio_in_t\<close> that take the low half of a 32-bit
  shift.
\<close>

abbreviation (input) SCORPION2APK_GENERAL_ACK :: u16 where "SCORPION2APK_GENERAL_ACK \<equiv> 0x8001"
abbreviation (input) SCORPION2APK_EVENT_IN :: u16 where "SCORPION2APK_EVENT_IN \<equiv> 0x8002"
abbreviation (input) SCORPION2APK_GPIO_IN :: u16 where "SCORPION2APK_GPIO_IN \<equiv> 0x8003"
abbreviation (input) SCORPION2APK_ADC_REP :: u16 where "SCORPION2APK_ADC_REP \<equiv> 0x8004"
abbreviation (input) SCORPION2APK_EVAL_IN :: u16 where "SCORPION2APK_EVAL_IN \<equiv> 0x8005"
abbreviation (input) SCORPION2APK_VOLUMN_IN :: u16 where "SCORPION2APK_VOLUMN_IN \<equiv> 0x8006"
abbreviation (input) SCORPION2APK_SHELL_REP :: u16 where "SCORPION2APK_SHELL_REP \<equiv> 0x8010"

definition scorpion_protocol_send_ack ::
  "'a scorpion_env_scheme \<Rightarrow> scorpion_world \<Rightarrow> bytes \<Rightarrow> int \<Rightarrow> u8 \<Rightarrow> scorpion_world res" where
  "scorpion_protocol_send_ack E w buf header result =
     (let (h, w) = scorpion_protocol_build_header w SCORPION2APK_GENERAL_ACK 5 in
     bnd (mem_write (stack_struct E 16) 1 (header_bytes h)) (\<lambda>b.
     bnd (scorpion_protocol_build_ack buf header result) (\<lambda>ack.
     bnd (mem_write b 9 (ack_bytes ack)) (\<lambda>b.
     bnd (scorpion_protocol_send_data E w b 16) (\<lambda>(w, _). Inr w)))))"

definition protocol_build_gpio_in :: "u32 \<Rightarrow> u32 \<Rightarrow> (u16 \<times> u16) res" where
  "protocol_build_gpio_in index level =
     bnd (shl32 0x01 index) (\<lambda>c. bnd (shl32 level index) (\<lambda>l. Inr (ucast c, ucast l)))"

definition scorpion_report_event_in ::
  "'a scorpion_env_scheme \<Rightarrow> scorpion_world \<Rightarrow> u32 \<Rightarrow> u32 \<Rightarrow> scorpion_world res" where
  "scorpion_report_event_in E w index level =
     (let (h, w) = scorpion_protocol_build_header w SCORPION2APK_EVENT_IN 4 in
     bnd (mem_write (stack_struct E 15) 1 (header_bytes h)) (\<lambda>b.
     bnd (protocol_build_gpio_in index level) (\<lambda>(channel, lev).
     bnd (mem_write b 9 (le16 channel @ le16 lev)) (\<lambda>b.
     bnd (scorpion_protocol_send_data E w b 15) (\<lambda>(w, _). Inr w)))))"

definition scorpion_report_gpio_in ::
  "'a scorpion_env_scheme \<Rightarrow> scorpion_world \<Rightarrow> u32 \<Rightarrow> scorpion_world res" where
  "scorpion_report_gpio_in E w gpio_in =
     (let (h, w) = scorpion_protocol_build_header w SCORPION2APK_GPIO_IN 4 in
     bnd (mem_write (stack_struct E 15) 1 (header_bytes h)) (\<lambda>b.
     bnd (mem_write b 9 (le32 gpio_in)) (\<lambda>b.
     bnd (scorpion_protocol_send_data E w b 15) (\<lambda>(w, _). Inr w))))"

definition scorpion_report_eval_in ::
  "'a scorpion_env_scheme \<Rightarrow> scorpion_world \<Rightarrow> u8 \<Rightarrow> scorpion_world res" where
  "scorpion_report_eval_in E w eval =
     (let (h, w) = scorpion_protocol_build_header w SCORPION2APK_EVAL_IN 1 in
     bnd (mem_write (stack_struct E 12) 1 (header_bytes h)) (\<lambda>b.
     bnd (mem_write b 9 [eval]) (\<lambda>b.
     bnd (scorpion_protocol_send_data E w b 12) (\<lambda>(w, _). Inr w))))"

definition scorpion_report_volumn_in ::
  "'a scorpion_env_scheme \<Rightarrow> scorpion_world \<Rightarrow> u8 \<Rightarrow> scorpion_world res" where
  "scorpion_report_volumn_in E w volumn =
     (let (h, w) = scorpion_protocol_build_header w SCORPION2APK_VOLUMN_IN 1 in
     bnd (mem_write (stack_struct E 12) 1 (header_bytes h)) (\<lambda>b.
     bnd (mem_write b 9 [volumn]) (\<lambda>b.
     bnd (scorpion_protocol_send_data E w b 12) (\<lambda>(w, _). Inr w))))"

section \<open>Sending gives one frame to the socket\<close>

interpretation scorpion_tx: frame_sender scorpion_protocol_escape scorpion_protocol_unescape
  scorpion_get_a_full_msg "alloc E" "scorpion_socket_send E" "scorpion_protocol_send_data E" for E
  by unfold_locales
     (erule alloc_block_length, unfold scorpion_protocol_send_data_def Let_def, rule refl)

text \<open>
  The effect of sending payload \<open>p\<close> to the application: nothing if the escape buffer cannot be
  allocated, the end of the daemon if \<open>send\<close> fails, and otherwise one more buffer given to
  \<open>send\<close>, the frame of \<open>p\<close>.
\<close>

definition socket_frame ::
  "'a scorpion_env_scheme \<Rightarrow> scorpion_world \<Rightarrow> bytes \<Rightarrow> scorpion_world res" where
  "socket_frame E w p =
     (if malloc E (nmalloc w) (2 * (length p + 3)) = None then Inr (w\<lparr>nmalloc := nmalloc w + 1\<rparr>)
      else if send_res E (length (socket_sent w)) (frame p) = - 1 then Inl (Exit 0)
      else Inr (w\<lparr>nmalloc := nmalloc w + 1, socket_sent := socket_sent w @ [frame p]\<rparr>))"

lemma scorpion_send_data_frame:
  assumes l: "length p < 2 ^ 31"
  shows "bnd (scorpion_protocol_send_data E w (a # p @ [x, y]) (int (length p + 3))) (\<lambda>(w, _). Inr w) =
    socket_frame E w p"
proof (cases "malloc E (nmalloc w) (2 * (length p + 3))")
  case None
  then have "alloc E w (2 * (length p + 3)) = (None, w\<lparr>nmalloc := nmalloc w + 1\<rparr>)"
    by (simp add: alloc_def)
  from scorpion_tx.send_no_memory [OF this] l None show ?thesis by (simp add: socket_frame_def)
next
  case (Some nb)
  let ?w = "w\<lparr>nmalloc := nmalloc w + 1\<rparr>"
  have "alloc E w (2 * (length p + 3)) = (Some nb, ?w)" using Some by (simp add: alloc_def)
  from scorpion_tx.send_frame [OF this] l obtain js where
    s: "scorpion_protocol_send_data E w (a # p @ [x, y]) (int (length p + 3)) =
      bnd (scorpion_socket_send E ?w (frame p @ js) (int (length (frame p))))
        (\<lambda>(w2, _). Inr (w2, int (length (frame p))))" by force
  then show ?thesis using Some socket_send_ok [of E ?w "frame p" js] socket_send_failed [of E ?w "frame p" js]
    by (cases "send_res E (length (socket_sent w)) (frame p) = - 1")
       (simp_all add: socket_frame_def)
qed

lemma scorpion_send_struct:
  assumes "length b = length d + 11" "length d < 2 ^ 30" "n = int (length d + 11)"
  shows "bnd (mem_write b 1 (header_bytes h)) (\<lambda>b. bnd (mem_write b 9 d) (\<lambda>b.
      bnd (scorpion_protocol_send_data E w b n) (\<lambda>(w, _). Inr w))) =
    socket_frame E w (header_bytes h @ d)"
proof -
  obtain a x y b' where "mem_write b 1 (header_bytes h) = Inr b'"
    "mem_write b' 9 d = Inr (a # (header_bytes h @ d) @ [x, y])"
    using struct_body [of b "header_bytes h" d 9] assms(1) by auto
  then show ?thesis
    using scorpion_send_data_frame [of "header_bytes h @ d" E w a x y] assms(2,3)
    by (simp add: add.commute)
qed

definition scorpion_header :: "scorpion_world \<Rightarrow> u16 \<Rightarrow> u16 \<Rightarrow> protocol_header_t" where
  "scorpion_header w ident len =
     \<lparr>msg_id = ident, msg_len = len, msg_serial_number = ucast (scorpion_seq w), reserved = 0\<rparr>"

definition scorpion_next :: "scorpion_world \<Rightarrow> scorpion_world" where
  "scorpion_next w = w\<lparr>scorpion_seq := scorpion_seq w + 1\<rparr>"

lemma scorpion_build_header [simp]:
  "scorpion_protocol_build_header w ident len = (scorpion_header w ident len, scorpion_next w)"
  by (simp add: scorpion_protocol_build_header_def scorpion_header_def scorpion_next_def)

lemma report_gpio_in_frame:
  "scorpion_report_gpio_in E w gpio_in =
   socket_frame E (scorpion_next w) (header_bytes (scorpion_header w SCORPION2APK_GPIO_IN 4) @ le32 gpio_in)"
  unfolding scorpion_report_gpio_in_def Let_def scorpion_build_header split_conv
  by (rule scorpion_send_struct) simp_all

lemma report_eval_in_frame:
  "scorpion_report_eval_in E w eval =
   socket_frame E (scorpion_next w) (header_bytes (scorpion_header w SCORPION2APK_EVAL_IN 1) @ [eval])"
  unfolding scorpion_report_eval_in_def Let_def scorpion_build_header split_conv
  by (rule scorpion_send_struct) simp_all

lemma report_volumn_in_frame:
  "scorpion_report_volumn_in E w volumn =
   socket_frame E (scorpion_next w) (header_bytes (scorpion_header w SCORPION2APK_VOLUMN_IN 1) @ [volumn])"
  unfolding scorpion_report_volumn_in_def Let_def scorpion_build_header split_conv
  by (rule scorpion_send_struct) simp_all

lemma report_event_in_frame:
  assumes "unat index < 32"
  shows "scorpion_report_event_in E w index level =
    socket_frame E (scorpion_next w) (header_bytes (scorpion_header w SCORPION2APK_EVENT_IN 4) @
      le16 (ucast (push_bit (unat index) 1 :: u32)) @ le16 (ucast (push_bit (unat index) level)))"
proof -
  have g: "protocol_build_gpio_in index level =
      Inr (ucast (push_bit (unat index) 1 :: u32), ucast (push_bit (unat index) level))"
    using assms by (simp add: protocol_build_gpio_in_def shl32_def)
  show ?thesis
    unfolding scorpion_report_event_in_def Let_def scorpion_build_header split_conv g bnd_Inr
    by (rule scorpion_send_struct) simp_all
qed

lemma report_event_in_shift:
  "32 \<le> unat index \<Longrightarrow> scorpion_report_event_in E w index level = Inl (Fault ShiftRange)"
  by (simp add: scorpion_report_event_in_def protocol_build_gpio_in_def shl32_def)

section \<open>The codec's round trip\<close>

text \<open>
  C30. Escaping and unescaping. Into a destination of twice the source's length, \<open>escape\<close> writes a
  string without delimiters, inside the destination; from that string \<open>unescape\<close> recovers the source
  exactly. This holds between the two links as well: what one encodes the other decodes.
\<close>

theorem escape_roundtrip:
  assumes "xs \<noteq> []" "2 * length xs \<le> length d1" "2 * length xs \<le> length d2"
  shows "\<exists>ys. stm32_protocol_escape (Some d1) (Some xs) (int (length xs)) =
      Inr (Some (ys @ drop (length ys) d1), int (length ys)) \<and>
    MAGIC_CHAR \<notin> set ys \<and> length ys \<le> 2 * length xs \<and>
    scorpion_protocol_escape (Some d1) (Some xs) (int (length xs)) =
      stm32_protocol_escape (Some d1) (Some xs) (int (length xs)) \<and>
    stm32_protocol_unescape (Some d2) (Some ys) (int (length ys)) =
      Inr (Some (xs @ drop (length xs) d2), int (length xs)) \<and>
    scorpion_protocol_unescape (Some d2) (Some ys) (int (length ys)) =
      stm32_protocol_unescape (Some d2) (Some ys) (int (length ys))"
proof (intro exI conjI)
  have l: "length (stuff xs) \<le> 2 * length xs" "stuff xs \<noteq> []"
    using stuff_length [of xs] assms(1) by auto
  then show "length (stuff xs) \<le> 2 * length xs" by simp
  show "stm32_protocol_escape (Some d1) (Some xs) (int (length xs)) =
      Inr (Some (stuff xs @ drop (length (stuff xs)) d1), int (length (stuff xs)))"
    using stm32.esc_law [OF assms(1,2), of "[]"] by (simp add: overwrite_def)
  show "stm32_protocol_unescape (Some d2) (Some (stuff xs)) (int (length (stuff xs))) =
      Inr (Some (xs @ drop (length xs) d2), int (length xs))"
    using stm32.unesc_law [OF l(2) _ unstuff_stuff, of d2 "[]"] l(1) assms(3)
    by (simp add: overwrite_def)
qed (simp_all add: scorpion_codec_eq)

theorem escape_roundtrip_witness:
  "\<exists>ys. stm32_protocol_escape (Some [0, 0, 0, 0]) (Some [0x7E, 0x7D]) (int (length [0x7E :: u8, 0x7D])) =
      Inr (Some (ys @ drop (length ys) [0, 0, 0, 0]), int (length ys)) \<and>
    MAGIC_CHAR \<notin> set ys \<and> length ys \<le> 2 * length [0x7E :: u8, 0x7D] \<and>
    scorpion_protocol_escape (Some [0, 0, 0, 0]) (Some [0x7E, 0x7D]) (int (length [0x7E :: u8, 0x7D])) =
      stm32_protocol_escape (Some [0, 0, 0, 0]) (Some [0x7E, 0x7D]) (int (length [0x7E :: u8, 0x7D])) \<and>
    stm32_protocol_unescape (Some [9, 9, 9, 9]) (Some ys) (int (length ys)) =
      Inr (Some ([0x7E, 0x7D] @ drop (length [0x7E :: u8, 0x7D]) [9, 9, 9, 9]), int (length [0x7E :: u8, 0x7D])) \<and>
    scorpion_protocol_unescape (Some [9, 9, 9, 9]) (Some ys) (int (length ys)) =
      stm32_protocol_unescape (Some [9, 9, 9, 9]) (Some ys) (int (length ys))"
  by (rule escape_roundtrip) simp_all

end
