(* ===== verification/C_Strings.thy ===== *)
theory C_Strings
  imports X300_Prelude
begin

text \<open>
  The functions of the C library on strings and streams that the programs use, on byte lists: strings end
  at their first zero byte, and a string function that finds none in its object runs out of it.
\<close>

section \<open>Strings and streams\<close>

text \<open>The characters of a C string before its terminator, and the string at the start of an object.\<close>

definition cstr :: "bytes \<Rightarrow> bytes" where
  "cstr b = takeWhile (\<lambda>c. c \<noteq> 0) b"

definition c_string :: "bytes \<Rightarrow> bytes res" where
  "c_string b = (if 0 \<in> set b then Inr (cstr b) else Inl (Fault OutOfBounds))"

text \<open>\<open>strncat(dst, src, n)\<close>, where \<open>src\<close> is a string.\<close>

definition strncat :: "bytes \<Rightarrow> bytes \<Rightarrow> nat \<Rightarrow> bytes res" where
  "strncat dst src n = bnd (c_string dst) (\<lambda>s. mem_write dst (length s) (take n src @ [0]))"

text \<open>At most \<open>n\<close> characters of a stream, up to and with the first newline.\<close>

fun fgets_line :: "nat \<Rightarrow> bytes \<Rightarrow> bytes \<times> bytes" where
  "fgets_line 0 s = ([], s)"
| "fgets_line (Suc n) [] = ([], [])"
| "fgets_line (Suc n) (c # s) =
     (if c = 10 then ([c], s) else (let (l, r) = fgets_line n s in (c # l, r)))"

definition fgets :: "nat \<Rightarrow> bytes \<Rightarrow> (bytes \<times> bytes) option" where
  "fgets sz s = (if s = [] then None else Some (fgets_line (sz - 1) s))"

lemma fgets_line_split: "fgets_line n s = (l, r) \<Longrightarrow> s = l @ r"
  by (induction n s arbitrary: l r rule: fgets_line.induct) (auto split: if_splits prod.splits)

lemma fgets_line_length: "fgets_line n s = (l, r) \<Longrightarrow> length l \<le> n"
  by (induction n s arbitrary: l r rule: fgets_line.induct) (auto split: if_splits prod.splits)

lemma fgets_shorter: "fgets sz s = Some (l, r) \<Longrightarrow> 1 < sz \<Longrightarrow> length r < length s"
proof -
  assume a: "fgets sz s = Some (l, r)" "1 < sz"
  then obtain c t where s: "s = c # t" by (cases s) (auto simp: fgets_def)
  obtain k where "sz - 1 = Suc k" using a(2) by (cases "sz - 1") auto
  then have "fgets_line (Suc k) (c # t) = (l, r)" using a s by (simp add: fgets_def)
  then have "l \<noteq> []" by (auto split: if_splits prod.splits)
  then show ?thesis using a s fgets_line_split [of "sz - 1" s l r] by (auto simp: fgets_def)
qed

text \<open>The bytes of the literals \<open>"popen failed!"\<close> and \<open>"pclose failed!"\<close>.\<close>

definition popen_failed :: bytes where
  "popen_failed = [112, 111, 112, 101, 110, 32, 102, 97, 105, 108, 101, 100, 33]"

definition pclose_failed :: bytes where
  "pclose_failed = [112, 99, 108, 111, 115, 101, 32, 102, 97, 105, 108, 101, 100, 33]"

section \<open>Lemmas\<close>

lemma cstr_zero: "0 \<notin> set t \<Longrightarrow> 0 < k \<Longrightarrow> c_string (t @ replicate k 0) = Inr t"
proof (cases k)
  case (Suc n)
  assume "0 \<notin> set t"
  then have "takeWhile (\<lambda>c. c \<noteq> 0) (t @ 0 # replicate n 0) = t"
    by (subst takeWhile_append2) auto
  then show ?thesis using Suc by (simp add: c_string_def cstr_def)
qed simp

lemma strncat_ok:
  assumes "0 \<notin> set t" "length t + length (take n l) < N"
  shows "strncat (t @ replicate (N - length t) 0) l n =
    Inr ((t @ take n l) @ replicate (N - length (t @ take n l)) 0)"
proof -
  have "c_string (t @ replicate (N - length t) 0) = Inr t" using assms by (intro cstr_zero) auto
  then show ?thesis using assms
    by (simp add: strncat_def overwrite_def replicate_Suc [symmetric] del: replicate_Suc)
qed

lemma cstr_set: "0 \<notin> set (cstr l)"
  by (auto simp: cstr_def dest: set_takeWhileD)

text \<open>A buffer of \<open>N\<close> bytes that holds the string \<open>t\<close> and zeros after it.\<close>

definition padded :: "nat \<Rightarrow> bytes \<Rightarrow> bytes" where
  "padded N t = t @ replicate (N - length t) 0"

lemma c_string_padded [simp]: "0 \<notin> set t \<Longrightarrow> length t < N \<Longrightarrow> c_string (padded N t) = Inr t"
  unfolding padded_def by (rule cstr_zero) simp_all

lemma padded_Nil: "padded N [] = replicate N 0"
  by (simp add: padded_def)

lemma length_padded [simp]: "length t \<le> N \<Longrightarrow> length (padded N t) = N"
  by (simp add: padded_def)

text \<open>Induction over the lines of a stream, and the text that they contribute.\<close>

lemma fgets_induct [consumes 1, case_names 1]:
  assumes "1 < sz" "\<And>stream. (\<And>line rest. fgets sz stream = Some (line, rest) \<Longrightarrow> P rest) \<Longrightarrow> P stream"
  shows "P stream"
proof (induction stream rule: measure_induct_rule [of length])
  case (less stream)
  then show ?case using assms(2) fgets_shorter [OF _ assms(1)] by blast
qed

function stream_text :: "nat \<Rightarrow> bytes \<Rightarrow> bytes" where
  "stream_text sz stream =
     (if sz \<le> 1 then []
      else case fgets sz stream of None \<Rightarrow> [] | Some (line, rest) \<Rightarrow> cstr line @ stream_text sz rest)"
  by pat_completeness auto
termination
  by (relation "measure (\<lambda>(sz, stream). length stream)") (auto dest: fgets_shorter)

declare stream_text.simps [simp del]

lemma stream_text_step:
  "1 < sz \<Longrightarrow> stream_text sz stream =
     (case fgets sz stream of None \<Rightarrow> [] | Some (line, rest) \<Rightarrow> cstr line @ stream_text sz rest)"
  by (subst stream_text.simps) simp

lemma stream_text_plain:
  assumes "1 < sz" "0 \<notin> set stream"
  shows "stream_text sz stream = stream"
  using assms(2)
proof (induction stream rule: fgets_induct [OF assms(1)])
  case (1 stream)
  show ?case
  proof (cases "fgets sz stream")
    case None
    then show ?thesis using assms(1) by (simp add: stream_text_step fgets_def split: if_splits)
  next
    case (Some lr)
    obtain l r where lr: "lr = (l, r)" by fastforce
    then have s: "stream = l @ r"
      using Some by (auto simp: fgets_def split: if_splits dest: fgets_line_split)
    then have "stream_text sz r = r" "0 \<notin> set l" using 1 Some lr by auto
    then have "cstr l = l" by (auto simp: cstr_def takeWhile_eq_all_conv)
    then show ?thesis using Some lr s \<open>stream_text sz r = r\<close> assms(1) by (subst stream_text_step) simp_all
  qed
qed

end
