(* ===== verification/Scorpion_Shell.thy ===== *)
theory Scorpion_Shell
  imports Scorpion_Protocol C_Strings
begin

text \<open>
  The remote shell of \<open>external/scorpion/scorpion_protocol_shell.c\<close>: a command from the
  application is run with \<open>popen\<close> and its output is sent back in one message. The command's output is the
  environment's. The main result is that the fixed output buffer always ends up with the longest
  prefix of the output that fits, terminated, without a write outside the buffer.
\<close>

section \<open>Running a command\<close>

definition LINE_SIZE :: nat where
  "LINE_SIZE = 80"

definition MAX_LINE :: nat where
  "MAX_LINE = 512"

text \<open>The loop over the lines. \<open>sz\<close> is the variable \<open>size\<close>.\<close>

function shell_loop :: "bytes \<Rightarrow> u16 \<Rightarrow> u16 \<Rightarrow> bytes \<Rightarrow> (bytes \<times> u16) res" where
  "shell_loop out_buf sz out_size stream =
     (case fgets LINE_SIZE stream of None \<Rightarrow> Inr (out_buf, sz)
      | Some (line, rest) \<Rightarrow>
          let line_buf = cstr line; n = (of_nat (length line_buf) :: u16) in
          if int (unat sz) + int (unat n) \<ge> int (unat out_size) - 1
          then bnd (strncat out_buf line_buf
                      (nat (to_unsigned (int (unat out_size) - 1 - int (unat sz))))) (\<lambda>out_buf.
               bnd (mem_put out_buf (int (unat out_size) - 1) 0) (\<lambda>out_buf.
               shell_loop out_buf (out_size - 1) out_size rest))
          else bnd (strncat out_buf line_buf (length line_buf)) (\<lambda>out_buf.
               shell_loop out_buf (sz + n) out_size rest))"
  by pat_completeness auto
termination
  by (relation "measure (\<lambda>(out_buf, sz, out_size, stream). length stream)")
     (auto simp: LINE_SIZE_def dest: fgets_shorter)

declare shell_loop.simps [simp del]

text \<open>\<open>memset\<close> to zero and \<open>strcpy\<close> of a literal into the output buffer.\<close>

definition shell_message :: "bytes \<Rightarrow> u16 \<Rightarrow> bytes \<Rightarrow> (bytes \<times> u16) res" where
  "shell_message out_buf out_size msg =
     bnd (mem_write out_buf 0 (replicate (unat out_size) 0)) (\<lambda>b.
     bnd (mem_write b 0 (msg @ [0])) (\<lambda>b. Inr (b, of_nat (length msg))))"

definition shell_run ::
  "'a scorpion_env_scheme \<Rightarrow> scorpion_world \<Rightarrow> bytes \<Rightarrow> bytes option \<Rightarrow> u16 \<Rightarrow>
   (scorpion_world \<times> bytes \<times> u16) res" where
  "shell_run E w in_buf out_buf out_size =
     bnd (c_string in_buf) (\<lambda>cmd.
     let k = npopen w; w = w\<lparr>npopen := npopen w + 1\<rparr> in
     bnd (deref out_buf) (\<lambda>out_buf.
     case popen_out E k cmd of
       None \<Rightarrow> bnd (shell_message out_buf out_size popen_failed) (\<lambda>(b, n). Inr (w, b, n))
     | Some stream \<Rightarrow>
         bnd (mem_write out_buf 0 (replicate (unat out_size) 0)) (\<lambda>out_buf.
         bnd (shell_loop out_buf 0 out_size stream) (\<lambda>(out_buf, sz).
         if pclose_res E k = - 1
         then bnd (shell_message out_buf out_size pclose_failed) (\<lambda>(b, n). Inr (w, b, n))
         else Inr (w, out_buf, sz + 1)))))"

text \<open>
  The reply: \<open>buf\<close> is the body of the request, up to the end of the block that holds the message.
\<close>

definition scorpion_shell_respond ::
  "'a scorpion_env_scheme \<Rightarrow> scorpion_world \<Rightarrow> bytes \<Rightarrow> u16 \<Rightarrow> (scorpion_world \<times> u8) res" where
  "scorpion_shell_respond E w buf len =
     bnd (c_string buf) (\<lambda>_.
     let (new_buf, w) = alloc E w (MAX_LINE * LINE_SIZE) in
     bnd (shell_run E w buf new_buf (of_nat (MAX_LINE * LINE_SIZE))) (\<lambda>(w, new_buf, new_len).
     let shell_rep_len = new_len + 8 + 3;
         (shell_rep_buf, w) = alloc E w (unat shell_rep_len) in
     bnd (deref shell_rep_buf) (\<lambda>b.
     let (h, w) = scorpion_protocol_build_header w SCORPION2APK_SHELL_REP new_len in
     bnd (mem_write b 1 (header_bytes h)) (\<lambda>b.
     bnd (mem_copy b 9 new_buf 0 (unat new_len)) (\<lambda>b.
     bnd (scorpion_protocol_send_data E w b (int (unat shell_rep_len))) (\<lambda>(w, _). Inr (w, 0)))))))"

section \<open>The output buffer\<close>

text \<open>The text that the lines of a stream contribute.\<close>

definition shell_text :: "bytes \<Rightarrow> bytes" where
  "shell_text = stream_text LINE_SIZE"

lemma LINE_SIZE_pos: "1 < LINE_SIZE"
  by (simp add: LINE_SIZE_def)

lemma shell_text_simps:
  "shell_text stream =
     (case fgets LINE_SIZE stream of None \<Rightarrow> [] | Some (line, rest) \<Rightarrow> cstr line @ shell_text rest)"
  unfolding shell_text_def by (rule stream_text_step [OF LINE_SIZE_pos])

lemma shell_text_plain: "0 \<notin> set stream \<Longrightarrow> shell_text stream = stream"
  unfolding shell_text_def by (rule stream_text_plain [OF LINE_SIZE_pos])

lemma unat_of_nat_16: "n < 2 ^ 16 \<Longrightarrow> unat (of_nat n :: u16) = n"
  by (rule of_nat_inverse [OF refl]) simp

lemma shell_line_length: "fgets LINE_SIZE stream = Some (l, r) \<Longrightarrow> length (cstr l) \<le> 79"
proof -
  assume "fgets LINE_SIZE stream = Some (l, r)"
  then have "length l \<le> 79"
    by (auto simp: fgets_def LINE_SIZE_def split: if_splits dest: fgets_line_length)
  then show ?thesis unfolding cstr_def by (rule order_trans [OF length_takeWhile_le])
qed

text \<open>How one line changes the buffer.\<close>

lemma shell_loop_step:
  assumes N: "unat out_size = N" "1 \<le> N" and t: "0 \<notin> set t" "length t \<le> N - 1"
    and f: "fgets LINE_SIZE stream = Some (l, r)"
    and u: "u = t @ take (N - 1 - length t) (cstr l)"
  shows "shell_loop (padded N t) (of_nat (length t)) out_size stream =
    shell_loop (padded N u) (of_nat (length u)) out_size r"
proof -
  have "unat out_size < 2 ^ LENGTH(16)" by (rule unsigned_less)
  then have N16: "N < 2 ^ 16" using N(1) by simp
  have n: "unat (of_nat (length (cstr l)) :: u16) = length (cstr l)"
    using shell_line_length [OF f] by (intro unat_of_nat_16) simp
  have z: "unat (of_nat (length t) :: u16) = length t" using t N16 by (intro unat_of_nat_16) simp
  show ?thesis
  proof (cases "N - 1 \<le> length t + length (cstr l)")
    case True
    have m: "nat (to_unsigned (int N - 1 - int (length t))) = N - 1 - length t"
      using t N16 N by (simp add: nat_diff_distrib' of_nat_diff)
    have lu: "length u = N - 1" using u True t by simp
    have "strncat (padded N t) (cstr l) (N - 1 - length t) = Inr (padded N u)"
      using strncat_ok [of t "N - 1 - length t" "cstr l" N] t N u True by (simp add: padded_def)
    moreover have "mem_put (padded N u) (int N - 1) 0 = Inr (padded N u)"
      using lu N(2) by (simp add: padded_def mem_put_def nat_diff_distrib' list_update_append)
    moreover have "out_size - 1 = of_nat (length u)"
      using lu N(2) by (simp add: of_nat_diff flip: N(1))
    ultimately show ?thesis using f n z m N True
      by (subst shell_loop.simps) (simp add: Let_def of_nat_diff le_diff_conv del: of_nat_unat)
  next
    case False
    then have u': "u = t @ cstr l" using u by simp
    have "strncat (padded N t) (cstr l) (length (cstr l)) = Inr (padded N u)"
      using strncat_ok [of t "length (cstr l)" "cstr l" N] t u' False by (simp add: padded_def)
    then show ?thesis using f n z N u' False
      by (subst shell_loop.simps) (auto simp: Let_def simp del: of_nat_unat)
  qed
qed

lemma shell_loop_ok:
  assumes N: "unat out_size = N" "1 \<le> N" and t: "0 \<notin> set t" "length t \<le> N - 1"
  shows "shell_loop (padded N t) (of_nat (length t)) out_size stream =
    (let u = t @ take (N - 1 - length t) (shell_text stream) in
     Inr (padded N u, of_nat (length u)))"
  using t
proof (induction stream arbitrary: t rule: fgets_induct [OF LINE_SIZE_pos])
  case (1 stream)
  show ?case
  proof (cases "fgets LINE_SIZE stream")
    case None
    then show ?thesis by (subst shell_loop.simps, subst shell_text_simps) simp
  next
    case (Some lr)
    obtain l r where f: "fgets LINE_SIZE stream = Some (l, r)" using Some by (cases lr) auto
    define u where "u = t @ take (N - 1 - length t) (cstr l)"
    have u: "0 \<notin> set u" "length u \<le> N - 1"
      using 1(2,3) cstr_set [of l] set_take_subset [of _ "cstr l"] by (auto simp: u_def)
    have "t @ take (N - 1 - length t) (cstr l @ shell_text r) =
        u @ take (N - 1 - length u) (shell_text r)"
      by (simp add: u_def min_def)
    then show ?thesis
      using shell_loop_step [OF N 1(2,3) f u_def] 1(1) [OF f u] f
      by (subst shell_text_simps) simp
  qed
qed

section \<open>Results\<close>

lemma shell_run_ok:
  assumes "0 \<in> set in_buf" "popen_out E (npopen w) (cstr in_buf) = Some stream"
    "pclose_res E (npopen w) \<noteq> - 1" "unat out_size = length out" "1 \<le> length out"
  shows "shell_run E w in_buf (Some out) out_size =
    Inr (w\<lparr>npopen := npopen w + 1\<rparr>,
         padded (length out) (take (length out - 1) (shell_text stream)),
         of_nat (min (length (shell_text stream)) (length out - 1) + 1))"
proof -
  have e: "padded (length out) [] = replicate (length out) 0" by (simp add: padded_def)
  from shell_loop_ok [OF assms(4,5), of "[]" stream]
  have "shell_loop (replicate (length out) 0) 0 out_size stream =
      Inr (padded (length out) (take (length out - 1) (shell_text stream)),
           of_nat (min (length (shell_text stream)) (length out - 1)))"
    by (simp add: e)
  then show ?thesis using assms by (simp add: shell_run_def c_string_def add.commute)
qed

text \<open>
  The output buffer of the remote shell. When the command runs, the buffer holds the
  longest prefix of its output that leaves room for the terminator, followed by zeros, and the
  result is the length of that prefix plus one; no line length and no output length makes the code
  write outside the buffer. (The output has no NUL character; \<open>shell_run_ok\<close> is the general case.)
\<close>

lemma shell_run_output:
  assumes "0 \<in> set in_buf" "popen_out E (npopen w) (cstr in_buf) = Some stream" "0 \<notin> set stream"
    "pclose_res E (npopen w) \<noteq> - 1" "unat out_size = length out" "1 \<le> length out"
  shows "shell_run E w in_buf (Some out) out_size =
    Inr (w\<lparr>npopen := npopen w + 1\<rparr>, padded (length out) (take (length out - 1) stream),
         of_nat (min (length stream) (length out - 1) + 1))"
  using shell_run_ok [OF assms(1,2,4-6)] shell_text_plain [OF assms(3)] by simp

definition example_env :: scorpion_env where
  "example_env = \<lparr>heap_ok = (\<lambda>_ _. True), heap_junk = (\<lambda>_ _. 0xAA), stack_junk = (\<lambda>_. 0xBB),
     send_res = (\<lambda>_ b. int (length b)), popen_out = (\<lambda>_ cmd. Some (cmd @ [10])),
     pclose_res = (\<lambda>_. 0)\<rparr>"

lemma malloc_example [simp]: "malloc example_env k n = Some (replicate n 0xAA)"
  by (simp add: malloc_def example_env_def map_replicate_const)

lemma shell_run_output_example:
  "shell_run example_env initial_world [108, 115, 0] (Some [9, 9]) 2 =
    Inr (initial_world\<lparr>npopen := npopen initial_world + 1\<rparr>,
         padded (length [9 :: u8, 9]) (take (length [9 :: u8, 9] - 1) [108, 115, 10]),
         of_nat (min (length [108 :: u8, 115, 10]) (length [9 :: u8, 9] - 1) + 1))"
  by (rule shell_run_output) (simp_all add: example_env_def cstr_def)

text \<open>The reply to a request: one frame whose body is the terminated text.\<close>

definition shell_reply :: "bytes \<Rightarrow> bytes" where
  "shell_reply stream = take (MAX_LINE * LINE_SIZE - 1) (shell_text stream) @ [0]"

lemma length_shell_reply: "length (shell_reply stream) \<le> 40960"
  by (simp add: shell_reply_def MAX_LINE_def LINE_SIZE_def)

lemma shell_respond_ok:
  assumes "0 \<in> set buf" "popen_out E (npopen w) (cstr buf) = Some stream"
    "pclose_res E (npopen w) \<noteq> - 1"
    and m: "malloc E (nmalloc w) 40960 = Some b1"
      "malloc E (nmalloc w + 1) (length (shell_reply stream) + 11) = Some b2"
    and w': "w' = w\<lparr>npopen := npopen w + 1, nmalloc := nmalloc w + 2\<rparr>"
  shows "scorpion_shell_respond E w buf len =
    bnd (socket_frame E (scorpion_next w')
           (header_bytes (scorpion_header w' SCORPION2APK_SHELL_REP (of_nat (length (shell_reply stream)))) @
            shell_reply stream)) (\<lambda>w. Inr (w, 0))"
proof -
  define t where "t = take 40959 (shell_text stream)"
  define n where "n = length (shell_reply stream)"
  have r: "shell_reply stream = t @ [0]" by (simp add: shell_reply_def t_def MAX_LINE_def LINE_SIZE_def)
  have n: "n = length t + 1" "n \<le> 40960" by (simp_all add: n_def r t_def)
  have b1: "length b1 = 40960" using malloc_length [OF m(1)] .
  have u: "unat (of_nat n :: u16) = n" "unat (of_nat n + 8 + 3 :: u16) = n + 11"
    using n(2) unat_of_nat_16 [of n] unat_of_nat_16 [of "n + 11"] by (simp_all add: add.commute)
  have run: "shell_run E (w\<lparr>nmalloc := nmalloc w + 1\<rparr>) buf (Some b1) 40960 =
      Inr (w\<lparr>nmalloc := nmalloc w + 1, npopen := npopen w + 1\<rparr>, padded 40960 t, of_nat n)"
    using shell_run_ok [of buf E "w\<lparr>nmalloc := nmalloc w + 1\<rparr>" stream 40960 b1] assms(1-3) b1
    by (simp add: t_def [symmetric] n(1)) (simp add: t_def min_def)
  have cp: "mem_copy b 9 (padded 40960 t) 0 n = mem_write b 9 (shell_reply stream)" for b
  proof -
    have "take n (padded 40960 t) = shell_reply stream"
      using n by (simp add: padded_def r Suc_diff_le take_Cons')
    then show ?thesis using n(2) by (simp add: mem_copy_def padded_def)
  qed
  have "length b2 = n + 11" using malloc_length [OF m(2)] n_def by simp
  then have s: "bnd (mem_write b2 1 (header_bytes h)) (\<lambda>b. bnd (mem_write b 9 (shell_reply stream)) (\<lambda>b.
      bnd (scorpion_protocol_send_data E w0 b (int (n + 11))) (\<lambda>(w, _). Inr w))) =
    socket_frame E w0 (header_bytes h @ shell_reply stream)" for h w0
    using n(2) by (intro scorpion_send_struct) (simp_all add: n_def)
  show ?thesis
    unfolding scorpion_shell_respond_def s [symmetric]
    using assms(1) m run u
    by (simp add: c_string_def alloc_def MAX_LINE_def LINE_SIZE_def cp w' n_def [symmetric] bnd_assoc case_prod_unfold
        del: of_nat_unat)
qed

end
