(* ===== verification/Scorpion_Dispatch.thy ===== *)
theory Scorpion_Dispatch
  imports Scorpion_Shell
begin

text \<open>
  The receiving half of both links: the handlers of the \<open>scorpion_stm32_*.c\<close> and
  \<open>scorpion_protocol_*.c\<close> files, the dispatchers and the receive loops
  \<open>stm32_protocol_ayalyze\<close> and \<open>scorpion_protocol_ayalyze\<close>, each an interpretation of
  \<open>frame_parser\<close>. A handler gets the unescaped message as the bytes of its heap block, and
  reads its fields with checked accesses: a body shorter than the handler expects is read up to the
  end of the block and faults beyond it.
\<close>

section \<open>Messages from the STM32\<close>

abbreviation (input) MCU2SYSTEM_GENERAL_ACK :: u16 where "MCU2SYSTEM_GENERAL_ACK \<equiv> 0x8001"
abbreviation (input) MCU2SYSTEM_GPIO_IN :: u16 where "MCU2SYSTEM_GPIO_IN \<equiv> 0x8003"
abbreviation (input) MCU2SYSTEM_ADC_REP :: u16 where "MCU2SYSTEM_ADC_REP \<equiv> 0x8004"
abbreviation (input) MCU2SYSTEM_EVAL_IN :: u16 where "MCU2SYSTEM_EVAL_IN \<equiv> 0x8005"
abbreviation (input) MCU2SYSTEM_VOLUMN_IN :: u16 where "MCU2SYSTEM_VOLUMN_IN \<equiv> 0x8006"
abbreviation (input) MCU2SYSTEM_GPIO_IN_REP :: u16 where "MCU2SYSTEM_GPIO_IN_REP \<equiv> 0x8007"
abbreviation (input) MCU2SYSTEM_VERSION_REP :: u16 where "MCU2SYSTEM_VERSION_REP \<equiv> 0x8040"

definition stm32_protocol_debug_header :: "bytes \<Rightarrow> int \<Rightarrow> unit res" where
  "stm32_protocol_debug_header buf header =
     bnd (get16 buf header) (\<lambda>_. bnd (get16 buf (header + 2)) (\<lambda>_.
     bnd (get16 buf (header + 4)) (\<lambda>_. Inr ())))"

definition stm32_protocol_debug_ack :: "bytes \<Rightarrow> int \<Rightarrow> unit res" where
  "stm32_protocol_debug_ack buf ack =
     bnd (get16 buf ack) (\<lambda>_. bnd (get16 buf (ack + 2)) (\<lambda>_.
     bnd (mem_get buf (ack + 4)) (\<lambda>_. Inr ())))"

definition stm32_protocol_common_ack_treat :: "bytes \<Rightarrow> int \<Rightarrow> unit res" where
  "stm32_protocol_common_ack_treat buf len = stm32_protocol_debug_ack buf (1 + sizeof_header)"

definition stm32_parse_header :: "buff_mgr_t \<Rightarrow> bool res" where
  "stm32_parse_header msg =
     bnd (deref (mgr_buf msg)) (\<lambda>buf.
     bnd (stm32_protocol_debug_header buf 1) (\<lambda>_.
     bnd (get16 buf 3) (\<lambda>len.
     Inr (int (unat len) = to_unsigned (mgr_len msg - sizeof_header - 3)))))"

text \<open>The result of every handler is \<open>STM32_PROTOCOL_RESULT_OK\<close>.\<close>

definition stm32_gpio_in_treat ::
  "'a scorpion_env_scheme \<Rightarrow> scorpion_world \<Rightarrow> bytes \<Rightarrow> int \<Rightarrow> (scorpion_world \<times> u8) res" where
  "stm32_gpio_in_treat E w buf len =
     bnd (get32 buf (1 + sizeof_header)) (\<lambda>gpio_in.
     bnd (scorpion_report_gpio_in E w gpio_in) (\<lambda>w. Inr (w, 0)))"

definition stm32_gpio_in_rep_treat :: "bytes \<Rightarrow> int \<Rightarrow> u8 res" where
  "stm32_gpio_in_rep_treat buf len = bnd (get16 buf (1 + sizeof_header)) (\<lambda>gpio_in. Inr 0)"

definition stm32_get_adc_treat :: "bytes \<Rightarrow> int \<Rightarrow> unit res" where
  "stm32_get_adc_treat buf len = bnd (get16 buf (1 + sizeof_header)) (\<lambda>adc_in. Inr ())"

definition stm32_eval_treat ::
  "'a scorpion_env_scheme \<Rightarrow> scorpion_world \<Rightarrow> bytes \<Rightarrow> int \<Rightarrow> (scorpion_world \<times> u8) res" where
  "stm32_eval_treat E w buf len =
     bnd (mem_get buf (1 + sizeof_header)) (\<lambda>eval.
     bnd (scorpion_report_eval_in E w eval) (\<lambda>w. Inr (w, 0)))"

definition stm32_volumn_treat ::
  "'a scorpion_env_scheme \<Rightarrow> scorpion_world \<Rightarrow> bytes \<Rightarrow> int \<Rightarrow> (scorpion_world \<times> u8) res" where
  "stm32_volumn_treat E w buf len =
     bnd (mem_get buf (1 + sizeof_header)) (\<lambda>volumn.
     bnd (scorpion_report_volumn_in E w volumn) (\<lambda>w. Inr (w, 0)))"

text \<open>\<open>snprintf\<close> with \<open>MSM742.%04d\<close>, for a number that is not negative.\<close>

definition version_value :: "nat \<Rightarrow> string" where
  "version_value ver = ''MSM742.'' @ replicate (4 - length (decimal ver)) (CHR ''0'') @ decimal ver"

definition version_number :: "u8 \<Rightarrow> u8 \<Rightarrow> nat" where
  "version_number v0 v1 = unat (ucast v1 OR push_bit 8 (ucast v0) :: u32)"

definition stm32_get_version_treat :: "scorpion_world \<Rightarrow> bytes \<Rightarrow> int \<Rightarrow> (scorpion_world \<times> u8) res" where
  "stm32_get_version_treat w buf len =
     (let version = 1 + sizeof_header in
     bnd (mem_get buf version) (\<lambda>hw0. bnd (mem_get buf (version + 1)) (\<lambda>hw1.
     bnd (mem_get buf (version + 2)) (\<lambda>sw0. bnd (mem_get buf (version + 3)) (\<lambda>sw1.
     bnd (get32 buf (version + 4)) (\<lambda>_. bnd (get32 buf (version + 8)) (\<lambda>_.
     bnd (get32 buf (version + 12)) (\<lambda>_.
     Inr (w\<lparr>prop_calls := prop_calls w @
            [(''sys.stm32.sw.version'', version_value (version_number sw0 sw1)),
             (''sys.stm32.hw.version'', version_value (version_number hw0 hw1))]\<rparr>, 0)))))))))"

definition stm32_parse_protocol ::
  "'a scorpion_env_scheme \<Rightarrow> scorpion_world \<Rightarrow> buff_mgr_t \<Rightarrow> (scorpion_world \<times> bool) res" where
  "stm32_parse_protocol E w msg =
     bnd (deref (mgr_buf msg)) (\<lambda>buf.
     bnd (get16 buf 1) (\<lambda>msg_no.
     bnd (if msg_no = MCU2SYSTEM_GENERAL_ACK
          then bnd (stm32_protocol_common_ack_treat buf (mgr_len msg)) (\<lambda>_. Inr w)
          else if msg_no = MCU2SYSTEM_GPIO_IN
          then bnd (stm32_gpio_in_treat E w buf (mgr_len msg)) (\<lambda>(w, result).
               stm32_protocol_send_ack E w buf 1 result)
          else if msg_no = MCU2SYSTEM_ADC_REP
          then bnd (stm32_get_adc_treat buf (mgr_len msg)) (\<lambda>_. Inr w)
          else if msg_no = MCU2SYSTEM_EVAL_IN
          then bnd (stm32_eval_treat E w buf (mgr_len msg)) (\<lambda>(w, result).
               stm32_protocol_send_ack E w buf 1 result)
          else if msg_no = MCU2SYSTEM_VOLUMN_IN
          then bnd (stm32_volumn_treat E w buf (mgr_len msg)) (\<lambda>(w, result).
               stm32_protocol_send_ack E w buf 1 result)
          else if msg_no = MCU2SYSTEM_GPIO_IN_REP
          then bnd (stm32_gpio_in_rep_treat buf (mgr_len msg)) (\<lambda>result.
               stm32_protocol_send_ack E w buf 1 result)
          else if msg_no = MCU2SYSTEM_VERSION_REP
          then bnd (stm32_get_version_treat w buf (mgr_len msg)) (\<lambda>(w, result).
               stm32_protocol_send_ack E w buf 1 result)
          else Inr w) (\<lambda>w. Inr (w, True))))"

definition stm32_parse_a_full_msg ::
  "'a scorpion_env_scheme \<Rightarrow> scorpion_world \<Rightarrow> buff_mgr_t \<Rightarrow> (scorpion_world \<times> int) res" where
  "stm32_parse_a_full_msg E w msg =
     bnd (stm32_parse_header msg) (\<lambda>ret.
     if (if ret then 1 else 0 :: int) < 0 then Inr (w, if ret then 1 else 0)
     else bnd (stm32_parse_protocol E w msg) (\<lambda>(w, ret). Inr (w, if ret then 1 else 0)))"

text \<open>
  One raw frame: copy it unescaped into a fresh block, verify the checksum, dispatch. The flag is
  False if the block could not be allocated.
\<close>

definition stm32_treat_raw ::
  "'a scorpion_env_scheme \<Rightarrow> scorpion_world \<Rightarrow> buff_mgr_t \<Rightarrow> (scorpion_world \<times> bool) res" where
  "stm32_treat_raw E w raw =
     (case alloc E w (nat (mgr_len raw)) of
        (None, w) \<Rightarrow> Inr (w, False)
      | (Some now, w) \<Rightarrow>
          bnd (stm32_protocol_unescape (Some now) (mgr_buf raw) (mgr_len raw)) (\<lambda>(now, n).
          bnd (deref now) (\<lambda>now.
          bnd (mem_get now (n - 2)) (\<lambda>x.
          bnd (xor8_computer now 1 (n - 3)) (\<lambda>y.
          if x \<noteq> y then Inr (w, True)
          else bnd (stm32_parse_a_full_msg E w \<lparr>mgr_buf = Some now, mgr_len = n\<rparr>)
                 (\<lambda>(w, _). Inr (w, True)))))))"

function stm32_ayalyze_loop ::
  "'a scorpion_env_scheme \<Rightarrow> scorpion_world \<Rightarrow> bytes \<Rightarrow> int \<Rightarrow> (scorpion_world \<times> int option) res" where
  "stm32_ayalyze_loop E w msg_buf msglen =
     bnd (stm32_get_a_full_msg msg_buf msglen empty_mgr) (\<lambda>(offset, raw).
     if offset \<noteq> 0 \<and> mgr_len raw \<noteq> 0
     then bnd (stm32_treat_raw E w raw) (\<lambda>(w, ok).
          if \<not> ok then Inr (w, None)
          else if 0 < msglen - offset
          then stm32_ayalyze_loop E w (drop (nat offset) msg_buf) (msglen - offset)
          else Inr (w, Some (msglen - offset)))
     else Inr (w, Some (msglen - offset)))"
  by pat_completeness auto
termination
  by (relation "measure (\<lambda>(E, w, msg_buf, msglen). nat msglen)")
     (auto dest!: stm32_get_a_full_msg_nonneg)

declare stm32_ayalyze_loop.simps [simp del]

definition stm32_protocol_ayalyze ::
  "'a scorpion_env_scheme \<Rightarrow> scorpion_world \<Rightarrow> bytes \<Rightarrow> int \<Rightarrow> (scorpion_world \<times> int) res" where
  "stm32_protocol_ayalyze E w buf len =
     bnd (mem_read buf 0 (nat len)) (\<lambda>_.
     bnd (stm32_ayalyze_loop E w buf len) (\<lambda>(w, r).
     case r of None \<Rightarrow> Inr (w, - 1) | Some msglen \<Rightarrow> Inr (w, len - msglen)))"

interpretation stm32_rx: frame_parser stm32_protocol_escape stm32_protocol_unescape
  stm32_get_a_full_msg "alloc E" "stm32_parse_a_full_msg E" "stm32_treat_raw E"
  "stm32_ayalyze_loop E" for E
proof unfold_locales
  fix w k b w'
  assume "alloc E w k = (Some b, w')"
  then show "length b = k" by (rule alloc_block_length)
next
  fix w w' and raw :: buff_mgr_t
  assume "alloc E w (nat (mgr_len raw)) = (None, w')"
  then show "stm32_treat_raw E w raw = Inr (w', False)" by (simp add: stm32_treat_raw_def)
next
  fix w w' nb and raw :: buff_mgr_t
  assume "alloc E w (nat (mgr_len raw)) = (Some nb, w')"
  then show "stm32_treat_raw E w raw =
      bnd (stm32_protocol_unescape (Some nb) (mgr_buf raw) (mgr_len raw)) (\<lambda>(now, n).
      bnd (deref now) (\<lambda>now. bnd (mem_get now (n - 2)) (\<lambda>x.
      bnd (xor8_computer now 1 (n - 3)) (\<lambda>y.
      if x \<noteq> y then Inr (w', True)
      else bnd (stm32_parse_a_full_msg E w' \<lparr>mgr_buf = Some now, mgr_len = n\<rparr>)
             (\<lambda>(w'', _). Inr (w'', True))))))"
    by (simp add: stm32_treat_raw_def)
qed (rule stm32_ayalyze_loop.simps)

section \<open>Messages from the application\<close>

abbreviation (input) APK2SCORPION_GENERAL_ACK :: u16 where "APK2SCORPION_GENERAL_ACK \<equiv> 0x0001"
abbreviation (input) APK2SCORPION_HEART_BEAT :: u16 where "APK2SCORPION_HEART_BEAT \<equiv> 0x0002"
abbreviation (input) APK2SCORPION_DELAY_TIME :: u16 where "APK2SCORPION_DELAY_TIME \<equiv> 0x0009"
abbreviation (input) APK2SCORPION_SHELL_REQ :: u16 where "APK2SCORPION_SHELL_REQ \<equiv> 0x0010"
abbreviation (input) APK2SCORPION_EX_REBOOT :: u16 where "APK2SCORPION_EX_REBOOT \<equiv> 0x0080"

definition scorpion_protocol_debug_header :: "bytes \<Rightarrow> int \<Rightarrow> unit res" where
  "scorpion_protocol_debug_header buf header =
     bnd (get16 buf header) (\<lambda>_. bnd (get16 buf (header + 2)) (\<lambda>_.
     bnd (get16 buf (header + 4)) (\<lambda>_. Inr ())))"

definition scorpion_protocol_debug_ack :: "bytes \<Rightarrow> int \<Rightarrow> unit res" where
  "scorpion_protocol_debug_ack buf ack =
     bnd (get16 buf ack) (\<lambda>_. bnd (get16 buf (ack + 2)) (\<lambda>_.
     bnd (mem_get buf (ack + 4)) (\<lambda>_. Inr ())))"

definition scorpion_protocol_common_ack_treat :: "bytes \<Rightarrow> int \<Rightarrow> unit res" where
  "scorpion_protocol_common_ack_treat buf len = scorpion_protocol_debug_ack buf (1 + sizeof_header)"

definition scorpion_parse_header :: "buff_mgr_t \<Rightarrow> bool res" where
  "scorpion_parse_header msg =
     bnd (deref (mgr_buf msg)) (\<lambda>buf.
     bnd (scorpion_protocol_debug_header buf 1) (\<lambda>_.
     bnd (get16 buf 3) (\<lambda>len.
     Inr (int (unat len) = to_unsigned (mgr_len msg - sizeof_header - 3)))))"

text \<open>
  The watchdog: the application's heart beat resets the counter and may set the threshold; the
  main loop's tick advances it and reboots the board when it exceeds the threshold.
\<close>

definition scorpion_heart_beat :: "scorpion_world \<Rightarrow> bytes \<Rightarrow> int \<Rightarrow> scorpion_world res" where
  "scorpion_heart_beat w buf len =
     bnd (get32 buf 0) (\<lambda>threhold.
     let w = (if threhold \<noteq> 0 then w\<lparr>scorpion_heart_beat_threhold := threhold\<rparr> else w) in
     Inr (w\<lparr>scorpion_heart_beat_count := 0\<rparr>))"

definition scorpion_reboot :: "'a scorpion_env_scheme \<Rightarrow> scorpion_world \<Rightarrow> scorpion_world res" where
  "scorpion_reboot E w = stm32_send_reboot E w"

definition scorpion_heart_beat_treat ::
  "'a scorpion_env_scheme \<Rightarrow> scorpion_world \<Rightarrow> scorpion_world res" where
  "scorpion_heart_beat_treat E w =
     (let w = w\<lparr>scorpion_heart_beat_count := scorpion_heart_beat_count w + 1\<rparr> in
      if scorpion_heart_beat_threhold w < scorpion_heart_beat_count w then scorpion_reboot E w
      else Inr w)"

definition scorpion_delay_time_treat ::
  "'a scorpion_env_scheme \<Rightarrow> scorpion_world \<Rightarrow> bytes \<Rightarrow> int \<Rightarrow> scorpion_world res" where
  "scorpion_delay_time_treat E w buf len =
     bnd (get32 buf 0) (\<lambda>delay. stm32_send_delay_time E w delay)"

definition scorpion_parse_protocol ::
  "'a scorpion_env_scheme \<Rightarrow> scorpion_world \<Rightarrow> buff_mgr_t \<Rightarrow> (scorpion_world \<times> bool) res" where
  "scorpion_parse_protocol E w msg =
     bnd (deref (mgr_buf msg)) (\<lambda>buf.
     bnd (get16 buf 1) (\<lambda>msg_no.
     bnd (get16 buf 3) (\<lambda>len.
     let body = drop (nat (1 + sizeof_header)) buf in
     bnd (if msg_no = APK2SCORPION_GENERAL_ACK
          then bnd (scorpion_protocol_common_ack_treat buf (mgr_len msg)) (\<lambda>_. Inr w)
          else if msg_no = APK2SCORPION_HEART_BEAT
          then bnd (scorpion_heart_beat w body (int (unat len))) (\<lambda>w.
               bnd (scorpion_protocol_common_ack_treat buf (mgr_len msg)) (\<lambda>_. Inr w))
          else if msg_no = APK2SCORPION_DELAY_TIME
          then bnd (scorpion_delay_time_treat E w body (int (unat len))) (\<lambda>w.
               bnd (scorpion_protocol_common_ack_treat buf (mgr_len msg)) (\<lambda>_. Inr w))
          else if msg_no = APK2SCORPION_SHELL_REQ
          then bnd (scorpion_shell_respond E w body len) (\<lambda>(w, _). Inr w)
          else if msg_no = APK2SCORPION_EX_REBOOT
          then scorpion_reboot E w
          else Inr w) (\<lambda>w. Inr (w, True)))))"

definition scorpion_parse_a_full_msg ::
  "'a scorpion_env_scheme \<Rightarrow> scorpion_world \<Rightarrow> buff_mgr_t \<Rightarrow> (scorpion_world \<times> int) res" where
  "scorpion_parse_a_full_msg E w msg =
     bnd (scorpion_parse_header msg) (\<lambda>ret.
     if (if ret then 1 else 0 :: int) < 0 then Inr (w, if ret then 1 else 0)
     else bnd (scorpion_parse_protocol E w msg) (\<lambda>(w, ret). Inr (w, if ret then 1 else 0)))"

text \<open>
  One raw frame: copy it unescaped into a fresh block, verify the checksum, dispatch. The flag is
  False if the block could not be allocated.
\<close>

definition scorpion_treat_raw ::
  "'a scorpion_env_scheme \<Rightarrow> scorpion_world \<Rightarrow> buff_mgr_t \<Rightarrow> (scorpion_world \<times> bool) res" where
  "scorpion_treat_raw E w raw =
     (case alloc E w (nat (mgr_len raw)) of
        (None, w) \<Rightarrow> Inr (w, False)
      | (Some now, w) \<Rightarrow>
          bnd (scorpion_protocol_unescape (Some now) (mgr_buf raw) (mgr_len raw)) (\<lambda>(now, n).
          bnd (deref now) (\<lambda>now.
          bnd (mem_get now (n - 2)) (\<lambda>x.
          bnd (xor8_computer now 1 (n - 3)) (\<lambda>y.
          if x \<noteq> y then Inr (w, True)
          else bnd (scorpion_parse_a_full_msg E w \<lparr>mgr_buf = Some now, mgr_len = n\<rparr>)
                 (\<lambda>(w, _). Inr (w, True)))))))"

function scorpion_ayalyze_loop ::
  "'a scorpion_env_scheme \<Rightarrow> scorpion_world \<Rightarrow> bytes \<Rightarrow> int \<Rightarrow> (scorpion_world \<times> int option) res" where
  "scorpion_ayalyze_loop E w msg_buf msglen =
     bnd (scorpion_get_a_full_msg msg_buf msglen empty_mgr) (\<lambda>(offset, raw).
     if offset \<noteq> 0 \<and> mgr_len raw \<noteq> 0
     then bnd (scorpion_treat_raw E w raw) (\<lambda>(w, ok).
          if \<not> ok then Inr (w, None)
          else if 0 < msglen - offset
          then scorpion_ayalyze_loop E w (drop (nat offset) msg_buf) (msglen - offset)
          else Inr (w, Some (msglen - offset)))
     else Inr (w, Some (msglen - offset)))"
  by pat_completeness auto
termination
  by (relation "measure (\<lambda>(E, w, msg_buf, msglen). nat msglen)")
     (auto simp: scorpion_codec_eq dest!: stm32_get_a_full_msg_nonneg)

declare scorpion_ayalyze_loop.simps [simp del]

definition scorpion_protocol_ayalyze ::
  "'a scorpion_env_scheme \<Rightarrow> scorpion_world \<Rightarrow> bytes \<Rightarrow> int \<Rightarrow> (scorpion_world \<times> int) res" where
  "scorpion_protocol_ayalyze E w buf len =
     bnd (scorpion_ayalyze_loop E w buf len) (\<lambda>(w, r).
     case r of None \<Rightarrow> Inr (w, - 1) | Some msglen \<Rightarrow> Inr (w, len - msglen))"

interpretation scorpion_rx: frame_parser scorpion_protocol_escape scorpion_protocol_unescape
  scorpion_get_a_full_msg "alloc E" "scorpion_parse_a_full_msg E" "scorpion_treat_raw E"
  "scorpion_ayalyze_loop E" for E
proof unfold_locales
  fix w k b w'
  assume "alloc E w k = (Some b, w')"
  then show "length b = k" by (rule alloc_block_length)
next
  fix w w' and raw :: buff_mgr_t
  assume "alloc E w (nat (mgr_len raw)) = (None, w')"
  then show "scorpion_treat_raw E w raw = Inr (w', False)" by (simp add: scorpion_treat_raw_def)
next
  fix w w' nb and raw :: buff_mgr_t
  assume "alloc E w (nat (mgr_len raw)) = (Some nb, w')"
  then show "scorpion_treat_raw E w raw =
      bnd (scorpion_protocol_unescape (Some nb) (mgr_buf raw) (mgr_len raw)) (\<lambda>(now, n).
      bnd (deref now) (\<lambda>now. bnd (mem_get now (n - 2)) (\<lambda>x.
      bnd (xor8_computer now 1 (n - 3)) (\<lambda>y.
      if x \<noteq> y then Inr (w', True)
      else bnd (scorpion_parse_a_full_msg E w' \<lparr>mgr_buf = Some now, mgr_len = n\<rparr>)
             (\<lambda>(w'', _). Inr (w'', True))))))"
    by (simp add: scorpion_treat_raw_def)
qed (rule scorpion_ayalyze_loop.simps)

section \<open>One frame, one message\<close>

lemma message_block:
  "length nb = length (frame p) \<Longrightarrow>
   overwrite nb 0 (message p) = MAGIC_CHAR # p @ xor8 p # MAGIC_CHAR # drop (length p + 3) nb"
  by (simp add: overwrite_def message_def numeral_3_eq_3)

lemma stm32_ayalyze_one:
  assumes "8 \<le> length p" "length (frame p) < 2 ^ 31"
    and m: "malloc E (nmalloc w) (length (frame p)) = Some nb"
  shows "stm32_protocol_ayalyze E w (frame p) (int (length (frame p))) =
    bnd (stm32_parse_a_full_msg E (w\<lparr>nmalloc := nmalloc w + 1\<rparr>)
           \<lparr>mgr_buf = Some (MAGIC_CHAR # p @ xor8 p # MAGIC_CHAR # drop (length p + 3) nb),
            mgr_len = int (length p + 3)\<rparr>) (\<lambda>(w, _). Inr (w, int (length (frame p))))"
proof -
  have a: "alloc E w (length (frame p)) = (Some nb, w\<lparr>nmalloc := nmalloc w + 1\<rparr>)"
    using m by (simp add: alloc_def)
  have "stm32_ayalyze_loop E w (frame p) (int (length (frame p))) =
    bnd (stm32_parse_a_full_msg E (w\<lparr>nmalloc := nmalloc w + 1\<rparr>)
           \<lparr>mgr_buf = Some (MAGIC_CHAR # p @ xor8 p # MAGIC_CHAR # drop (length p + 3) nb),
            mgr_len = int (length p + 3)\<rparr>) (\<lambda>(w, _). Inr (w, Some 0))"
    using stm32_rx.loop_frame [where gs = "[]" and zs = "[]" and rs = "[]", OF assms(1) _ _ a] assms(2)
    by (simp add: message_block [OF malloc_length [OF m]])
  then show ?thesis
    by (simp add: stm32_protocol_ayalyze_def bnd_assoc case_prod_unfold)
qed

lemma scorpion_ayalyze_one:
  assumes "8 \<le> length p" "length (frame p) < 2 ^ 31"
    and m: "malloc E (nmalloc w) (length (frame p)) = Some nb"
  shows "scorpion_protocol_ayalyze E w (frame p) (int (length (frame p))) =
    bnd (scorpion_parse_a_full_msg E (w\<lparr>nmalloc := nmalloc w + 1\<rparr>)
           \<lparr>mgr_buf = Some (MAGIC_CHAR # p @ xor8 p # MAGIC_CHAR # drop (length p + 3) nb),
            mgr_len = int (length p + 3)\<rparr>) (\<lambda>(w, _). Inr (w, int (length (frame p))))"
proof -
  have a: "alloc E w (length (frame p)) = (Some nb, w\<lparr>nmalloc := nmalloc w + 1\<rparr>)"
    using m by (simp add: alloc_def)
  have "scorpion_ayalyze_loop E w (frame p) (int (length (frame p))) =
    bnd (scorpion_parse_a_full_msg E (w\<lparr>nmalloc := nmalloc w + 1\<rparr>)
           \<lparr>mgr_buf = Some (MAGIC_CHAR # p @ xor8 p # MAGIC_CHAR # drop (length p + 3) nb),
            mgr_len = int (length p + 3)\<rparr>) (\<lambda>(w, _). Inr (w, Some 0))"
    using scorpion_rx.loop_frame [where gs = "[]" and zs = "[]" and rs = "[]", OF assms(1) _ _ a] assms(2)
    by (simp add: message_block [OF malloc_length [OF m]])
  then show ?thesis
    by (simp add: scorpion_protocol_ayalyze_def bnd_assoc case_prod_unfold)
qed

text \<open>Reading the fields of a message: the header at offset 1, the body at offset 9.\<close>

lemma body_fields:
  "get32 (a # header_bytes h @ le32 x @ ys) 9 = Inr x"
  "mem_get (a # header_bytes h @ c # ys) 9 = Inr c"
  "get16 (a # header_bytes h @ le16 z @ ys) 9 = Inr z"
  using get32_le32 [of "a # header_bytes h" 9 x ys] get16_le16 [of "a # header_bytes h" 9 z ys]
  by (simp_all add: mem_get_def nth_append)

lemma debug_header_ok:
  "stm32_protocol_debug_header (a # header_bytes h @ ys) 1 = Inr ()"
  "scorpion_protocol_debug_header (a # header_bytes h @ ys) 1 = Inr ()"
  by (simp_all add: stm32_protocol_debug_header_def scorpion_protocol_debug_header_def header_fields)

text \<open>
  The dispatcher runs whatever the header's length says: \<open>parse_header\<close> compares the length, but
  its result, a \<open>bool\<close>, is tested for being negative.
\<close>

lemma stm32_parse_dispatches:
  "stm32_parse_a_full_msg E w \<lparr>mgr_buf = Some (a # header_bytes h @ ys), mgr_len = n\<rparr> =
   bnd (stm32_parse_protocol E w \<lparr>mgr_buf = Some (a # header_bytes h @ ys), mgr_len = n\<rparr>)
     (\<lambda>(w, ret). Inr (w, if ret then 1 else 0))"
  by (simp add: stm32_parse_a_full_msg_def stm32_parse_header_def debug_header_ok header_fields)

lemma scorpion_parse_dispatches:
  "scorpion_parse_a_full_msg E w \<lparr>mgr_buf = Some (a # header_bytes h @ ys), mgr_len = n\<rparr> =
   bnd (scorpion_parse_protocol E w \<lparr>mgr_buf = Some (a # header_bytes h @ ys), mgr_len = n\<rparr>)
     (\<lambda>(w, ret). Inr (w, if ret then 1 else 0))"
  by (simp add: scorpion_parse_a_full_msg_def scorpion_parse_header_def debug_header_ok header_fields)

lemma stm32_unknown_ignored:
  assumes "msg_id h \<notin> {MCU2SYSTEM_GENERAL_ACK, MCU2SYSTEM_GPIO_IN, MCU2SYSTEM_ADC_REP, MCU2SYSTEM_EVAL_IN,
    MCU2SYSTEM_VOLUMN_IN, MCU2SYSTEM_GPIO_IN_REP, MCU2SYSTEM_VERSION_REP}"
  shows "stm32_parse_a_full_msg E w \<lparr>mgr_buf = Some (a # header_bytes h @ ys), mgr_len = n\<rparr> = Inr (w, 1)"
  using assms by (simp add: stm32_parse_dispatches stm32_parse_protocol_def header_fields)

lemma deliver_rest: "deliver al pa w ps n = Inr (w', Some r) \<Longrightarrow> r = n"
  by (induction ps arbitrary: w) (auto split: prod.splits option.splits)

section \<open>Forwarding between the links\<close>

text \<open>
  A system in which \<open>malloc\<close> and \<open>send\<close> do not fail, and a UART with room for an
  acknowledgement, whose frame has at most 30 bytes.
\<close>

definition no_failures :: "'a scorpion_env_scheme \<Rightarrow> bool" where
  "no_failures E = ((\<forall>k n. heap_ok E k n) \<and> (\<forall>k b. send_res E k b \<noteq> - 1))"

lemma no_failures_example: "no_failures example_env"
  by (simp add: no_failures_def example_env_def)

lemma no_failures_malloc: "no_failures E \<Longrightarrow> \<exists>b. malloc E k n = Some b"
  by (simp add: no_failures_def malloc_def)

lemma no_failures_socket_frame:
  "no_failures E \<Longrightarrow> socket_frame E w p =
    Inr (w\<lparr>nmalloc := nmalloc w + 1, socket_sent := socket_sent w @ [frame p]\<rparr>)"
  by (simp add: no_failures_def socket_frame_def malloc_def)

lemma uart_unchanged [simp]:
  "uart_ready (w\<lparr>socket_sent := x\<rparr>) = uart_ready w" "uart_pending (w\<lparr>socket_sent := x\<rparr>) = uart_pending w"
  "uart_room (w\<lparr>socket_sent := x\<rparr>) = uart_room w"
  "uart_ready (w\<lparr>prop_calls := y\<rparr>) = uart_ready w" "uart_pending (w\<lparr>prop_calls := y\<rparr>) = uart_pending w"
  "uart_room (w\<lparr>prop_calls := y\<rparr>) = uart_room w"
  "uart_ready (scorpion_next w) = uart_ready w" "uart_pending (scorpion_next w) = uart_pending w"
  "uart_room (scorpion_next w) = uart_room w" "uart_pending (stm32_next w) = uart_pending w"
  "uart_room (stm32_next w) = uart_room w"
  by (simp_all add: uart_ready_def uart_pending_def uart_room_def scorpion_next_def stm32_next_def)

text \<open>The frame that acknowledges the message with header \<open>h\<close>, sent from state \<open>w\<close>.\<close>

definition ack_frame :: "scorpion_world \<Rightarrow> protocol_header_t \<Rightarrow> bytes" where
  "ack_frame w h = frame (header_bytes (stm32_header w SYSTEM2MCU_GENERAL_ACK 5) @
     ack_bytes \<lparr>ack_seq = msg_serial_number h, ack_id = msg_id h, ack_result = 0\<rparr>)"

lemma frame_sent_keeps:
  assumes "uart_frame_sent E w p w'"
  shows "\<exists>m n. w' = w\<lparr>nmalloc := nmalloc w + 1, ppmngr_write := m, uart_signals := n\<rparr>"
  using assms unfolding uart_frame_sent_def by blast

lemma ack_sent:
  assumes "uart_ready w" "no_failures E" "30 \<le> uart_room w"
  shows "\<exists>w'. stm32_protocol_send_ack E w (a # header_bytes h @ ys) 1 0 = Inr w' \<and>
    uart_pending w' = uart_pending w @ ack_frame w h \<and> socket_sent w' = socket_sent w \<and>
    prop_calls w' = prop_calls w \<and> uart_ready w'"
proof -
  let ?p = "header_bytes (stm32_header w SYSTEM2MCU_GENERAL_ACK 5) @
     ack_bytes \<lparr>ack_seq = msg_serial_number h, ack_id = msg_id h, ack_result = 0\<rparr>"
  obtain w' where w': "stm32_protocol_send_ack E w (a # header_bytes h @ ys) 1 0 = Inr w'"
    "uart_frame_sent E (stm32_next w) ?p w'" using stm32_send_ack_ok [OF assms(1)] by blast
  have "length (frame ?p) \<le> 30" using frame_length [of ?p] by simp
  moreover have "malloc E (nmalloc (stm32_next w)) (2 * (length ?p + 3)) \<noteq> None"
    using no_failures_malloc [OF assms(2)] by simp
  moreover have "socket_sent w' = socket_sent w \<and> prop_calls w' = prop_calls w"
    using frame_sent_keeps [OF w'(2)] by (auto simp: stm32_next_def)
  ultimately show ?thesis using w' assms(3) by (auto simp: uart_frame_sent_def ack_frame_def)
qed

text \<open>
  A report to the application followed by the acknowledgement: what the three forwarding handlers
  have in common.
\<close>

lemma forward_and_ack:
  assumes r: "uart_ready w" "no_failures E" "30 \<le> uart_room w" and e: "report = socket_frame E (scorpion_next w) q"
  shows "\<exists>w'. bnd (bnd report (\<lambda>w. Inr (w, 0))) (\<lambda>(w, result).
      stm32_protocol_send_ack E w (a # header_bytes h @ ys) 1 result) = Inr w' \<and>
    uart_pending w' = uart_pending w @ ack_frame w h \<and> socket_sent w' = socket_sent w @ [frame q]"
proof -
  let ?w = "(scorpion_next w)\<lparr>nmalloc := nmalloc w + 1, socket_sent := socket_sent w @ [frame q]\<rparr>"
  have "report = Inr ?w" using no_failures_socket_frame [OF r(2)] e by (simp add: scorpion_next_def)
  moreover have "ack_frame ?w h = ack_frame w h"
    by (simp add: ack_frame_def stm32_header_def scorpion_next_def)
  ultimately show ?thesis using ack_sent [of ?w E a h ys] r by auto
qed

lemma stm32_gpio_in_forwarded:
  assumes r: "uart_ready w" "no_failures E" "30 \<le> uart_room w" and h: "msg_id h = MCU2SYSTEM_GPIO_IN"
  shows "\<exists>w'. stm32_parse_protocol E w
      \<lparr>mgr_buf = Some (a # header_bytes h @ le32 g @ ys), mgr_len = n\<rparr> = Inr (w', True) \<and>
    uart_pending w' = uart_pending w @ ack_frame w h \<and>
    socket_sent w' = socket_sent w @
      [frame (header_bytes (scorpion_header w SCORPION2APK_GPIO_IN 4) @ le32 g)]"
  using forward_and_ack [OF r report_gpio_in_frame [of E w g], of a h "le32 g @ ys"] h
  by (auto simp: stm32_parse_protocol_def header_fields stm32_gpio_in_treat_def sizeof_header_def body_fields)

lemma stm32_eval_forwarded:
  assumes r: "uart_ready w" "no_failures E" "30 \<le> uart_room w" and h: "msg_id h = MCU2SYSTEM_EVAL_IN"
  shows "\<exists>w'. stm32_parse_protocol E w
      \<lparr>mgr_buf = Some (a # header_bytes h @ v # ys), mgr_len = n\<rparr> = Inr (w', True) \<and>
    uart_pending w' = uart_pending w @ ack_frame w h \<and>
    socket_sent w' = socket_sent w @
      [frame (header_bytes (scorpion_header w SCORPION2APK_EVAL_IN 1) @ [v])]"
  using forward_and_ack [OF r report_eval_in_frame [of E w v], of a h "v # ys"] h
  by (auto simp: stm32_parse_protocol_def header_fields stm32_eval_treat_def sizeof_header_def body_fields)

lemma stm32_volumn_forwarded:
  assumes r: "uart_ready w" "no_failures E" "30 \<le> uart_room w" and h: "msg_id h = MCU2SYSTEM_VOLUMN_IN"
  shows "\<exists>w'. stm32_parse_protocol E w
      \<lparr>mgr_buf = Some (a # header_bytes h @ v # ys), mgr_len = n\<rparr> = Inr (w', True) \<and>
    uart_pending w' = uart_pending w @ ack_frame w h \<and>
    socket_sent w' = socket_sent w @
      [frame (header_bytes (scorpion_header w SCORPION2APK_VOLUMN_IN 1) @ [v])]"
  using forward_and_ack [OF r report_volumn_in_frame [of E w v], of a h "v # ys"] h
  by (auto simp: stm32_parse_protocol_def header_fields stm32_volumn_treat_def sizeof_header_def body_fields)

section \<open>Properties of the receive loops\<close>

text \<open>A running daemon: the UART is open and both of its buffers are empty.\<close>

definition example_world :: scorpion_world where
  "example_world = initial_world\<lparr>uart_fd := 3, ppmngr_read := Some (cb_new 2048),
     ppmngr_write := Some (cb_new 2048)\<rparr>"

lemma example_world_facts [simp]:
  "uart_ready example_world" "uart_room example_world = 2048" "uart_pending example_world = []"
  by (simp_all add: example_world_def uart_ready_def uart_room_def uart_pending_def)

text \<open>
  C2. Frames arriving from the STM32 are dispatched in order, once each, whatever bytes their
  payloads of at least 8 bytes hold: a stream of frames followed by the beginning of nothing (bytes without a
  delimiter) is handed message by message to the dispatcher, and the loop reports every byte but the trailing
  ones as consumed.
\<close>

theorem stm32_ayalyze_frames:
  assumes "list_all (\<lambda>p. 8 \<le> length p) ps" "MAGIC_CHAR \<notin> set ts"
    "length (concat (map frame ps)) + length ts < 2 ^ 31"
    and "n = length (concat (map frame ps))"
  shows "stm32_protocol_ayalyze E w (concat (map frame ps) @ ts) (int (n + length ts)) =
    bnd (deliver (alloc E) (stm32_parse_a_full_msg E) w ps (int (length ts))) (\<lambda>(w', r).
      case r of None \<Rightarrow> Inr (w', - 1) | Some m \<Rightarrow> Inr (w', int (n + length ts) - m))"
proof -
  have "mem_read (concat (map frame ps) @ ts) 0 (nat (int (n + length ts))) =
      Inr (concat (map frame ps) @ ts)" using assms(4) by simp
  then show ?thesis
    unfolding stm32_protocol_ayalyze_def using stm32_rx.loop_frames [OF assms(1-3), of E w]
    by (simp only: assms(4) bnd_Inr)
qed

definition example_header :: "u16 \<Rightarrow> u16 \<Rightarrow> protocol_header_t" where
  "example_header ident len = \<lparr>msg_id = ident, msg_len = len, msg_serial_number = 0x7E7D, reserved = 0\<rparr>"

theorem stm32_ayalyze_frames_witness:
  "stm32_protocol_ayalyze example_env example_world
     (concat (map frame [header_bytes (example_header 0x8003 4) @ le32 0x7E]) @ [1, 2])
     (int (length (concat (map frame [header_bytes (example_header 0x8003 4) @ le32 0x7E])) + length [1 :: u8, 2])) =
    bnd (deliver (alloc example_env) (stm32_parse_a_full_msg example_env) example_world
           [header_bytes (example_header 0x8003 4) @ le32 0x7E] (int (length [1 :: u8, 2]))) (\<lambda>(w', r).
      case r of None \<Rightarrow> Inr (w', - 1)
      | Some m \<Rightarrow> Inr (w', int (length (concat (map frame
            [header_bytes (example_header 0x8003 4) @ le32 0x7E])) + length [1 :: u8, 2]) - m))"
proof (rule stm32_ayalyze_frames)
  show "length (concat (map frame [header_bytes (example_header 0x8003 4) @ le32 0x7E])) +
      length [1 :: u8, 2] < 2 ^ 31"
    using frame_length [of "header_bytes (example_header 0x8003 4) @ le32 0x7E"] by simp
qed (simp_all add: MAGIC_CHAR_def)

text \<open>
  The same for the application's link, whose codec and loop are a second copy of the code.
\<close>

lemma scorpion_ayalyze_frames:
  assumes "list_all (\<lambda>p. 8 \<le> length p) ps" "MAGIC_CHAR \<notin> set ts"
    "length (concat (map frame ps)) + length ts < 2 ^ 31"
    and "n = length (concat (map frame ps))"
  shows "scorpion_protocol_ayalyze E w (concat (map frame ps) @ ts) (int (n + length ts)) =
    bnd (deliver (alloc E) (scorpion_parse_a_full_msg E) w ps (int (length ts))) (\<lambda>(w', r).
      case r of None \<Rightarrow> Inr (w', - 1) | Some m \<Rightarrow> Inr (w', int (n + length ts) - m))"
  unfolding scorpion_protocol_ayalyze_def using scorpion_rx.loop_frames [OF assms(1-3), of E w]
  by (simp only: assms(4))

lemma scorpion_ayalyze_frames_example:
  "scorpion_protocol_ayalyze example_env example_world
     (concat (map frame [header_bytes (example_header 2 4) @ le32 0x7E]) @ [1, 2])
     (int (length (concat (map frame [header_bytes (example_header 2 4) @ le32 0x7E])) + length [1 :: u8, 2])) =
    bnd (deliver (alloc example_env) (scorpion_parse_a_full_msg example_env) example_world
           [header_bytes (example_header 2 4) @ le32 0x7E] (int (length [1 :: u8, 2]))) (\<lambda>(w', r).
      case r of None \<Rightarrow> Inr (w', - 1)
      | Some m \<Rightarrow> Inr (w', int (length (concat (map frame
            [header_bytes (example_header 2 4) @ le32 0x7E])) + length [1 :: u8, 2]) - m))"
proof (rule scorpion_ayalyze_frames)
  show "length (concat (map frame [header_bytes (example_header 2 4) @ le32 0x7E])) +
      length [1 :: u8, 2] < 2 ^ 31"
    using frame_length [of "header_bytes (example_header 2 4) @ le32 0x7E"] by simp
qed (simp_all add: MAGIC_CHAR_def)

lemma ayalyze_result_range:
  assumes "0 \<le> len" "len \<le> int (length buf)" "len < 2 ^ 31"
    "stm32_protocol_ayalyze E w buf len = Inr (w', n)"
  shows "n = - 1 \<or> 0 \<le> n \<and> n \<le> len"
proof -
  obtain r where l: "stm32_ayalyze_loop E w buf len = Inr (w', r)"
    and n: "n = (case r of None \<Rightarrow> - 1 | Some m \<Rightarrow> len - m)"
    using assms(4) by (auto simp: stm32_protocol_ayalyze_def split: option.splits)
  show ?thesis
  proof (cases r)
    case (Some m)
    then show ?thesis using stm32_rx.loop_bounds [OF assms(1-3), of E w w' m] l n by simp
  qed (simp add: n)
qed

text \<open>
  The loop's result is a number of bytes of its input, or -1: whatever bytes arrive on the UART,
  if the analysis returns then what it reports as consumed is between 0 and the length it was given,
  or -1, which means that memory ran out.
\<close>

lemma stm32_ayalyze_bounds:
  assumes "0 \<le> len" "len \<le> int (length buf)" "len < 2 ^ 31"
    "stm32_protocol_ayalyze E w buf len = Inr (w', n)"
  shows "n = - 1 \<or> 0 \<le> n \<and> n \<le> len"
  using assms by (rule ayalyze_result_range)

lemma stm32_ayalyze_bounds_example:
  "stm32_protocol_ayalyze example_env example_world [1, 2, 3] 3 = Inr (example_world, 0) \<and>
   ((0 :: int) = - 1 \<or> 0 \<le> (0 :: int) \<and> (0 :: int) \<le> 3)"
proof -
  have "stm32_ayalyze_loop example_env example_world [1, 2, 3] 3 = Inr (example_world, Some 3)"
    using stm32_rx.loop_idle [of "[1, 2, 3]" example_env example_world "[]"] by (simp add: MAGIC_CHAR_def)
  then have a: "stm32_protocol_ayalyze example_env example_world [1, 2, 3] 3 = Inr (example_world, 0)"
    by (simp add: stm32_protocol_ayalyze_def)
  show ?thesis using a stm32_ayalyze_bounds [OF _ _ _ a] by simp
qed

text \<open>
  C36. Frames that do not decode are fatal. If the bytes between two delimiters hold an escape
  character that is not followed by 1 or 2, the receive loops of both links index the message block
  with the result -1 of the unescape routine and read before its start.
\<close>

theorem undecodable_frame_faults:
  assumes "MAGIC_CHAR \<notin> set ys" "9 \<le> length ys + length zs" "length ys + length zs < 2 ^ 31"
    and "unstuff (MAGIC_CHAR # ys @ [MAGIC_CHAR]) = None"
    and m: "malloc E (nmalloc w) (length ys + 2) = Some nb"
    and buf: "buf = MAGIC_CHAR # ys @ MAGIC_CHAR # zs"
  shows "stm32_protocol_ayalyze E w buf (int (length buf)) = Inl (Fault OutOfBounds) \<and>
    scorpion_protocol_ayalyze E w buf (int (length buf)) = Inl (Fault OutOfBounds)"
proof -
  have a: "alloc E w (length ys + 2) = (Some nb, w\<lparr>nmalloc := nmalloc w + 1\<rparr>)"
    using m by (simp add: alloc_def)
  have n: "int (length buf) = int (length [] + length ys + length zs + 2)" by (simp add: buf)
  have "stm32_ayalyze_loop E w buf (int (length buf)) = Inl (Fault OutOfBounds)"
    unfolding n unfolding buf
    using stm32_rx.loop_undecodable [where gs = "[]", OF _ assms(1-4) a] by simp
  moreover have "scorpion_ayalyze_loop E w buf (int (length buf)) = Inl (Fault OutOfBounds)"
    unfolding n unfolding buf
    using scorpion_rx.loop_undecodable [where gs = "[]", OF _ assms(1-4) a] by simp
  ultimately show ?thesis by (simp add: stm32_protocol_ayalyze_def scorpion_protocol_ayalyze_def)
qed

theorem undecodable_frame_faults_witness:
  "stm32_protocol_ayalyze example_env example_world
     [0x7E, 0x7D, 3, 3, 4, 5, 6, 7, 8, 9, 0x7E] (int (length [0x7E :: u8, 0x7D, 3, 3, 4, 5, 6, 7, 8, 9, 0x7E])) =
   Inl (Fault OutOfBounds) \<and>
   scorpion_protocol_ayalyze example_env example_world
     [0x7E, 0x7D, 3, 3, 4, 5, 6, 7, 8, 9, 0x7E] (int (length [0x7E :: u8, 0x7D, 3, 3, 4, 5, 6, 7, 8, 9, 0x7E])) =
   Inl (Fault OutOfBounds)"
  by (rule undecodable_frame_faults [where ys = "[0x7D, 3, 3, 4, 5, 6, 7, 8, 9]" and zs = "[]"])
     (simp_all add: MAGIC_CHAR_def ESCAPE_CHAR_def)

text \<open>
  Two adjacent delimiters are fatal. When at least nine more bytes follow, the loops take the
  delimiters for a frame; the length of its checksummed part is -1 as an \<open>unsigned int\<close>, and the
  checksum runs out of the block.
\<close>

lemma empty_frame_faults:
  assumes "9 \<le> length zs" "length zs < 2 ^ 31" and m: "malloc E (nmalloc w) 2 = Some nb"
    and buf: "buf = MAGIC_CHAR # MAGIC_CHAR # zs"
  shows "stm32_protocol_ayalyze E w buf (int (length buf)) = Inl (Fault OutOfBounds) \<and>
    scorpion_protocol_ayalyze E w buf (int (length buf)) = Inl (Fault OutOfBounds)"
proof -
  have a: "alloc E w 2 = (Some nb, w\<lparr>nmalloc := nmalloc w + 1\<rparr>)" using m by (simp add: alloc_def)
  have n: "int (length buf) = int (length [] + length zs + 2)" by (simp add: buf)
  have "stm32_ayalyze_loop E w buf (int (length buf)) = Inl (Fault OutOfBounds)"
    unfolding n unfolding buf using stm32_rx.loop_empty_frame [where gs = "[]", OF _ assms(1,2) a] by simp
  moreover have "scorpion_ayalyze_loop E w buf (int (length buf)) = Inl (Fault OutOfBounds)"
    unfolding n unfolding buf using scorpion_rx.loop_empty_frame [where gs = "[]", OF _ assms(1,2) a] by simp
  ultimately show ?thesis by (simp add: stm32_protocol_ayalyze_def scorpion_protocol_ayalyze_def)
qed

lemma empty_frame_faults_example:
  "stm32_protocol_ayalyze example_env example_world [0x7E, 0x7E, 1, 2, 3, 4, 5, 6, 7, 8, 9]
     (int (length [0x7E :: u8, 0x7E, 1, 2, 3, 4, 5, 6, 7, 8, 9])) = Inl (Fault OutOfBounds) \<and>
   scorpion_protocol_ayalyze example_env example_world [0x7E, 0x7E, 1, 2, 3, 4, 5, 6, 7, 8, 9]
     (int (length [0x7E :: u8, 0x7E, 1, 2, 3, 4, 5, 6, 7, 8, 9])) = Inl (Fault OutOfBounds)"
  by (rule empty_frame_faults [where zs = "[1, 2, 3, 4, 5, 6, 7, 8, 9]"])
     (simp_all add: MAGIC_CHAR_def)

end
