(* ===== verification/Scorpion_Link.thy ===== *)
theory Scorpion_Link
  imports Scorpion_Dispatch
begin

text \<open>
  End-to-end behaviour of the two links: what one frame that arrives on one side makes the daemon
  put on the other. The statements start from the bytes on the wire and end with the bytes that wait
  for the UART, the buffers given to \<open>send\<close>, or the state of the watchdog.
\<close>

section \<open>From the STM32\<close>

lemma frame_small: "length p \<le> 1000 \<Longrightarrow> length (frame p) < 2 ^ 31"
  using frame_length [of p] by simp

lemma world_nmalloc [simp]:
  "ack_frame (w\<lparr>nmalloc := k\<rparr>) h = ack_frame w h"
  "scorpion_header (w\<lparr>nmalloc := k\<rparr>) ident len = scorpion_header w ident len"
  "stm32_header (w\<lparr>nmalloc := k\<rparr>) ident len = stm32_header w ident len"
  by (simp_all add: ack_frame_def stm32_header_def scorpion_header_def)

text \<open>A frame with a dispatcher's result: the loop consumes the frame and keeps the result.\<close>

lemma stm32_ayalyze_parsed:
  assumes "no_failures E" "length d \<le> 100"
    and "\<And>js. \<exists>w'. stm32_parse_protocol E (w\<lparr>nmalloc := nmalloc w + 1\<rparr>)
        \<lparr>mgr_buf = Some (MAGIC_CHAR # header_bytes h @ d @ js), mgr_len = int (length d + 11)\<rparr> =
      Inr (w', True) \<and> P w'"
    and p: "p = header_bytes h @ d"
  shows "\<exists>w'. stm32_protocol_ayalyze E w (frame p) (int (length (frame p))) =
    Inr (w', int (length (frame p))) \<and> P w'"
proof -
  obtain nb where nb: "malloc E (nmalloc w) (length (frame p)) = Some nb"
    using no_failures_malloc [OF assms(1)] by blast
  let ?js = "xor8 p # MAGIC_CHAR # drop (length p + 3) nb"
  obtain w' where w': "stm32_parse_protocol E (w\<lparr>nmalloc := nmalloc w + 1\<rparr>)
      \<lparr>mgr_buf = Some (MAGIC_CHAR # header_bytes h @ d @ ?js), mgr_len = int (length d + 11)\<rparr> =
      Inr (w', True)" "P w'" using assms(3) by blast
  have "8 \<le> length p" "length p \<le> 1000" using p assms(2) by simp_all
  from stm32_ayalyze_one [OF this(1) frame_small [OF this(2)] nb]
  show ?thesis using w' p stm32_parse_dispatches [of E _ MAGIC_CHAR h "d @ ?js"]
    by (auto simp: add.commute)
qed

text \<open>
  C3. GPIO inputs reach the application. A GPIO message from the STM32 with the 32-bit value \<open>g\<close> is
  passed on: exactly one frame with the same value is given to the socket, and exactly one
  acknowledgement that echoes the message's serial number and identifier is queued for the UART.
\<close>

theorem gpio_in_reaches_application:
  assumes "uart_ready w" "no_failures E" "30 \<le> uart_room w" "msg_id h = MCU2SYSTEM_GPIO_IN"
    and p: "p = header_bytes h @ le32 g"
  shows "\<exists>w'. stm32_protocol_ayalyze E w (frame p) (int (length (frame p))) =
      Inr (w', int (length (frame p))) \<and>
    socket_sent w' = socket_sent w @
      [frame (header_bytes (scorpion_header w SCORPION2APK_GPIO_IN 4) @ le32 g)] \<and>
    uart_pending w' = uart_pending w @ ack_frame w h"
proof (rule stm32_ayalyze_parsed [OF assms(2) _ _ p])
  fix js
  show "\<exists>w'. stm32_parse_protocol E (w\<lparr>nmalloc := nmalloc w + 1\<rparr>)
      \<lparr>mgr_buf = Some (MAGIC_CHAR # header_bytes h @ le32 g @ js), mgr_len = int (length (le32 g) + 11)\<rparr> =
      Inr (w', True) \<and> socket_sent w' = socket_sent w @
        [frame (header_bytes (scorpion_header w SCORPION2APK_GPIO_IN 4) @ le32 g)] \<and>
      uart_pending w' = uart_pending w @ ack_frame w h"
    using stm32_gpio_in_forwarded [where w = "w\<lparr>nmalloc := nmalloc w + 1\<rparr>" and ys = js, OF _ assms(2) _ assms(4)]
      assms(1,3) by force
qed simp

theorem gpio_in_reaches_application_witness:
  "\<exists>w'. stm32_protocol_ayalyze example_env example_world
      (frame (header_bytes (example_header 0x8003 4) @ le32 0x7D7E))
      (int (length (frame (header_bytes (example_header 0x8003 4) @ le32 0x7D7E)))) =
      Inr (w', int (length (frame (header_bytes (example_header 0x8003 4) @ le32 0x7D7E)))) \<and>
    socket_sent w' = socket_sent example_world @
      [frame (header_bytes (scorpion_header example_world SCORPION2APK_GPIO_IN 4) @ le32 0x7D7E)] \<and>
    uart_pending w' = uart_pending example_world @ ack_frame example_world (example_header 0x8003 4)"
  by (rule gpio_in_reaches_application) (simp_all add: no_failures_example example_header_def)

text \<open>
  The evaluation key and the volume key reach the application in the same way: one byte, one
  report with the same identifier, one acknowledgement.
\<close>

lemma key_reaches_application:
  assumes "uart_ready w" "no_failures E" "30 \<le> uart_room w" "msg_id h = i"
    "i = MCU2SYSTEM_EVAL_IN \<or> i = MCU2SYSTEM_VOLUMN_IN"
    and p: "p = header_bytes h @ [v]"
  shows "\<exists>w'. stm32_protocol_ayalyze E w (frame p) (int (length (frame p))) =
      Inr (w', int (length (frame p))) \<and>
    socket_sent w' = socket_sent w @ [frame (header_bytes (scorpion_header w i 1) @ [v])] \<and>
    uart_pending w' = uart_pending w @ ack_frame w h"
proof (rule stm32_ayalyze_parsed [OF assms(2) _ _ p])
  fix js
  let ?w = "w\<lparr>nmalloc := nmalloc w + 1\<rparr>"
  show "\<exists>w'. stm32_parse_protocol E ?w
      \<lparr>mgr_buf = Some (MAGIC_CHAR # header_bytes h @ [v] @ js), mgr_len = int (length [v] + 11)\<rparr> =
      Inr (w', True) \<and>
      socket_sent w' = socket_sent w @ [frame (header_bytes (scorpion_header w i 1) @ [v])] \<and>
      uart_pending w' = uart_pending w @ ack_frame w h"
    using assms(5)
  proof
    assume "i = MCU2SYSTEM_EVAL_IN"
    then show ?thesis
      using stm32_eval_forwarded [where w = ?w and ys = js and h = h and v = v, OF _ assms(2)] assms(1,3,4)
      by force
  next
    assume "i = MCU2SYSTEM_VOLUMN_IN"
    then show ?thesis
      using stm32_volumn_forwarded [where w = ?w and ys = js and h = h and v = v, OF _ assms(2)] assms(1,3,4)
      by force
  qed
qed simp

lemma key_reaches_application_example:
  "\<exists>w'. stm32_protocol_ayalyze example_env example_world
      (frame (header_bytes (example_header 0x8006 1) @ [0x7E]))
      (int (length (frame (header_bytes (example_header 0x8006 1) @ [0x7E])))) =
      Inr (w', int (length (frame (header_bytes (example_header 0x8006 1) @ [0x7E])))) \<and>
    socket_sent w' = socket_sent example_world @
      [frame (header_bytes (scorpion_header example_world 0x8006 1) @ [0x7E])] \<and>
    uart_pending w' = uart_pending example_world @ ack_frame example_world (example_header 0x8006 1)"
  by (rule key_reaches_application) (simp_all add: no_failures_example example_header_def)

text \<open>
  A version reply of the STM32 sets the two version properties of the system, software before
  hardware, each with its two version bytes as one decimal number, is acknowledged, and sends nothing
  to the application.
\<close>

lemma version_reply_sets_properties:
  assumes "uart_ready w" "no_failures E" "30 \<le> uart_room w" "msg_id h = MCU2SYSTEM_VERSION_REP"
    and p: "p = header_bytes h @ [hw0, hw1, sw0, sw1] @ le32 u0 @ le32 u1 @ le32 u2"
  shows "\<exists>w'. stm32_protocol_ayalyze E w (frame p) (int (length (frame p))) =
      Inr (w', int (length (frame p))) \<and>
    prop_calls w' = prop_calls w @
      [(''sys.stm32.sw.version'', version_value (version_number sw0 sw1)),
       (''sys.stm32.hw.version'', version_value (version_number hw0 hw1))] \<and>
    uart_pending w' = uart_pending w @ ack_frame w h \<and> socket_sent w' = socket_sent w"
proof (rule stm32_ayalyze_parsed [OF assms(2) _ _ p])
  fix js
  let ?d = "[hw0, hw1, sw0, sw1] @ le32 u0 @ le32 u1 @ le32 u2"
  let ?b = "MAGIC_CHAR # header_bytes h @ ?d @ js"
  let ?w = "w\<lparr>nmalloc := nmalloc w + 1, prop_calls := prop_calls w @
      [(''sys.stm32.sw.version'', version_value (version_number sw0 sw1)),
       (''sys.stm32.hw.version'', version_value (version_number hw0 hw1))]\<rparr>"
  have "get32 ?b 13 = Inr u0" "get32 ?b 17 = Inr u1" "get32 ?b 21 = Inr u2"
    using get32_le32 [of "MAGIC_CHAR # header_bytes h @ [hw0, hw1, sw0, sw1]" 13 u0]
      get32_le32 [of "MAGIC_CHAR # header_bytes h @ [hw0, hw1, sw0, sw1] @ le32 u0" 17 u1]
      get32_le32 [of "MAGIC_CHAR # header_bytes h @ [hw0, hw1, sw0, sw1] @ le32 u0 @ le32 u1" 21 u2]
    by simp_all
  then have "stm32_get_version_treat (w\<lparr>nmalloc := nmalloc w + 1\<rparr>) ?b n = Inr (?w, 0)" for n
    by (simp add: stm32_get_version_treat_def sizeof_header_def mem_get_def nth_append)
  moreover have "ack_frame ?w h = ack_frame w h" by (simp add: ack_frame_def stm32_header_def)
  ultimately show "\<exists>w'. stm32_parse_protocol E (w\<lparr>nmalloc := nmalloc w + 1\<rparr>)
      \<lparr>mgr_buf = Some ?b, mgr_len = int (length ?d + 11)\<rparr> = Inr (w', True) \<and>
      prop_calls w' = prop_calls w @
        [(''sys.stm32.sw.version'', version_value (version_number sw0 sw1)),
         (''sys.stm32.hw.version'', version_value (version_number hw0 hw1))] \<and>
      uart_pending w' = uart_pending w @ ack_frame w h \<and> socket_sent w' = socket_sent w"
    using ack_sent [of ?w E MAGIC_CHAR h "?d @ js"] assms(1-4)
    by (auto simp: stm32_parse_protocol_def header_fields)
qed simp

lemma version_reply_sets_properties_example:
  "\<exists>w'. stm32_protocol_ayalyze example_env example_world
      (frame (header_bytes (example_header 0x8040 16) @ [1, 2, 0, 7] @ le32 5 @ le32 6 @ le32 7))
      (int (length (frame (header_bytes (example_header 0x8040 16) @ [1, 2, 0, 7] @ le32 5 @ le32 6 @ le32 7)))) =
      Inr (w', int (length (frame (header_bytes (example_header 0x8040 16) @
        [1, 2, 0, 7] @ le32 5 @ le32 6 @ le32 7)))) \<and>
    prop_calls w' = prop_calls example_world @
      [(''sys.stm32.sw.version'', version_value (version_number 0 7)),
       (''sys.stm32.hw.version'', version_value (version_number 1 2))] \<and>
    uart_pending w' = uart_pending example_world @ ack_frame example_world (example_header 0x8040 16) \<and>
    socket_sent w' = socket_sent example_world"
  by (rule version_reply_sets_properties) (simp_all add: no_failures_example example_header_def)

section \<open>From the application\<close>

lemma scorpion_ayalyze_parsed:
  assumes "no_failures E" "length d \<le> 500"
    and "\<And>js. \<exists>w'. scorpion_parse_protocol E (w\<lparr>nmalloc := nmalloc w + 1\<rparr>)
        \<lparr>mgr_buf = Some (MAGIC_CHAR # header_bytes h @ d @ xor8 p # MAGIC_CHAR # js),
         mgr_len = int (length d + 11)\<rparr> = Inr (w', True) \<and> P w'"
    and p: "p = header_bytes h @ d"
  shows "\<exists>w'. scorpion_protocol_ayalyze E w (frame p) (int (length (frame p))) =
    Inr (w', int (length (frame p))) \<and> P w'"
proof -
  obtain nb where nb: "malloc E (nmalloc w) (length (frame p)) = Some nb"
    using no_failures_malloc [OF assms(1)] by blast
  let ?js = "xor8 p # MAGIC_CHAR # drop (length p + 3) nb"
  obtain w' where w': "scorpion_parse_protocol E (w\<lparr>nmalloc := nmalloc w + 1\<rparr>)
      \<lparr>mgr_buf = Some (MAGIC_CHAR # header_bytes h @ d @ ?js), mgr_len = int (length d + 11)\<rparr> =
      Inr (w', True)" "P w'" using assms(3) by blast
  have "8 \<le> length p" "length p \<le> 1000" using p assms(2) by simp_all
  from scorpion_ayalyze_one [OF this(1) frame_small [OF this(2)] nb]
  show ?thesis using w' p scorpion_parse_dispatches [of E _ MAGIC_CHAR h "d @ ?js"]
    by (auto simp: add.commute)
qed

lemma get16_inside: "0 \<le> i \<Longrightarrow> i + 1 < int (length b) \<Longrightarrow> \<exists>v. get16 b i = Inr v"
  by (simp add: get16_def)

lemma ack_read_ok:
  assumes "5 \<le> length ys"
  shows "scorpion_protocol_common_ack_treat (a # header_bytes h @ ys) n = Inr ()"
proof -
  let ?b = "a # header_bytes h @ ys"
  obtain s i where "get16 ?b 9 = Inr s" "get16 ?b 11 = Inr i"
    using get16_inside [of 9 ?b] get16_inside [of 11 ?b] assms by auto
  moreover have "mem_get ?b 13 = Inr (?b ! 13)" using assms by (intro mem_get_ok [of 13, simplified]) auto
  ultimately show ?thesis
    by (simp add: scorpion_protocol_common_ack_treat_def scorpion_protocol_debug_ack_def sizeof_header_def)
qed

lemma body_of: "drop (nat (1 + sizeof_header)) (a # header_bytes h @ ys) = ys"
  by (simp add: sizeof_header_def)

lemma body_le32: "get32 (le32 x @ ys) 0 = Inr x"
  using get32_le32 [of "[]" 0 x ys] by simp

text \<open>
  A heart beat of the application resets the watchdog's counter and installs the threshold it
  carries unless that is zero; nothing else of the daemon's state changes.
\<close>

lemma heart_beat_resets_watchdog:
  assumes "no_failures E" "msg_id h = APK2SCORPION_HEART_BEAT" and p: "p = header_bytes h @ le32 t"
  shows "\<exists>w'. scorpion_protocol_ayalyze E w (frame p) (int (length (frame p))) =
      Inr (w', int (length (frame p))) \<and>
    w' = w\<lparr>nmalloc := nmalloc w + 1, scorpion_heart_beat_count := 0,
           scorpion_heart_beat_threhold := (if t = 0 then scorpion_heart_beat_threhold w else t)\<rparr>"
proof (rule scorpion_ayalyze_parsed [OF assms(1) _ _ p])
  fix js
  show "\<exists>w'. scorpion_parse_protocol E (w\<lparr>nmalloc := nmalloc w + 1\<rparr>)
      \<lparr>mgr_buf = Some (MAGIC_CHAR # header_bytes h @ le32 t @ xor8 p # MAGIC_CHAR # js),
       mgr_len = int (length (le32 t) + 11)\<rparr> = Inr (w', True) \<and>
      w' = w\<lparr>nmalloc := nmalloc w + 1, scorpion_heart_beat_count := 0,
             scorpion_heart_beat_threhold := (if t = 0 then scorpion_heart_beat_threhold w else t)\<rparr>"
    using assms(2) ack_read_ok [of "le32 t @ xor8 p # MAGIC_CHAR # js" MAGIC_CHAR h]
    by (simp add: scorpion_parse_protocol_def header_fields body_of scorpion_heart_beat_def body_le32 Let_def)
qed simp

lemma heart_beat_resets_watchdog_example:
  "\<exists>w'. scorpion_protocol_ayalyze example_env example_world
      (frame (header_bytes (example_header 2 4) @ le32 5))
      (int (length (frame (header_bytes (example_header 2 4) @ le32 5)))) =
      Inr (w', int (length (frame (header_bytes (example_header 2 4) @ le32 5)))) \<and>
    w' = example_world\<lparr>nmalloc := nmalloc example_world + 1, scorpion_heart_beat_count := 0,
      scorpion_heart_beat_threhold := (if (5 :: u32) = 0 then scorpion_heart_beat_threhold example_world else 5)\<rparr>"
  by (rule heart_beat_resets_watchdog) (simp_all add: no_failures_example example_header_def)

text \<open>Requests that go on to the STM32: what \<open>uart_frame_sent\<close> says when nothing fails.\<close>

lemma frame_sent_ok:
  assumes "uart_frame_sent E (stm32_next w) p w'" "no_failures E" "length (frame p) \<le> uart_room w"
  shows "uart_pending w' = uart_pending w @ frame p \<and> uart_ready w' \<and>
    socket_sent w' = socket_sent w \<and> stm32_seq w' = stm32_seq w + 1 \<and>
    scorpion_heart_beat_count w' = scorpion_heart_beat_count w \<and>
    scorpion_heart_beat_threhold w' = scorpion_heart_beat_threhold w"
proof -
  have "malloc E (nmalloc (stm32_next w)) (2 * (length p + 3)) \<noteq> None"
    using no_failures_malloc [OF assms(2)] by simp
  then show ?thesis
    using assms frame_sent_keeps [OF assms(1)] by (auto simp: uart_frame_sent_def stm32_next_def)
qed

text \<open>
  A delay request of the application is passed on to the STM32 as one frame with the same 32-bit
  delay, and nothing is sent back to the application.
\<close>

lemma delay_time_reaches_stm32:
  assumes "uart_ready w" "no_failures E" "28 \<le> uart_room w" "msg_id h = APK2SCORPION_DELAY_TIME"
    and p: "p = header_bytes h @ le32 delay"
  shows "\<exists>w'. scorpion_protocol_ayalyze E w (frame p) (int (length (frame p))) =
      Inr (w', int (length (frame p))) \<and>
    uart_pending w' = uart_pending w @
      frame (header_bytes (stm32_header w SYSTEM2MCU_DELAY_TIME 4) @ le32 delay) \<and>
    socket_sent w' = socket_sent w"
proof (rule scorpion_ayalyze_parsed [OF assms(2) _ _ p])
  fix js
  let ?w = "w\<lparr>nmalloc := nmalloc w + 1\<rparr>"
  let ?q = "header_bytes (stm32_header w SYSTEM2MCU_DELAY_TIME 4) @ le32 delay"
  obtain w' where w': "stm32_send_delay_time E ?w delay = Inr w'"
    "uart_frame_sent E (stm32_next ?w) ?q w'"
    using stm32_send_delay_time_ok [of ?w E delay] assms(1) by auto
  have "uart_pending w' = uart_pending w @ frame ?q \<and> socket_sent w' = socket_sent w"
    using frame_sent_ok [OF w'(2) assms(2)] frame_length [of ?q] assms(3) by simp
  then show "\<exists>w'. scorpion_parse_protocol E ?w
      \<lparr>mgr_buf = Some (MAGIC_CHAR # header_bytes h @ le32 delay @ xor8 p # MAGIC_CHAR # js),
       mgr_len = int (length (le32 delay) + 11)\<rparr> = Inr (w', True) \<and>
      uart_pending w' = uart_pending w @ frame ?q \<and> socket_sent w' = socket_sent w"
    using assms(4) ack_read_ok [of "le32 delay @ xor8 p # MAGIC_CHAR # js" MAGIC_CHAR h] w'(1)
    by (simp add: scorpion_parse_protocol_def header_fields body_of scorpion_delay_time_treat_def body_le32 Let_def)
qed simp

lemma delay_time_reaches_stm32_example:
  "\<exists>w'. scorpion_protocol_ayalyze example_env example_world
      (frame (header_bytes (example_header 9 4) @ le32 5000))
      (int (length (frame (header_bytes (example_header 9 4) @ le32 5000)))) =
      Inr (w', int (length (frame (header_bytes (example_header 9 4) @ le32 5000)))) \<and>
    uart_pending w' = uart_pending example_world @
      frame (header_bytes (stm32_header example_world SYSTEM2MCU_DELAY_TIME 4) @ le32 5000) \<and>
    socket_sent w' = socket_sent example_world"
  by (rule delay_time_reaches_stm32) (simp_all add: no_failures_example example_header_def)

text \<open>
  C33. A shell request is answered. A request with command \<open>cmd\<close>, terminated in its body, is answered
  by exactly one frame, whose body is the command's output, cut to the buffer, with its terminator,
  and whose length field is the length of that body.
\<close>

theorem shell_request_answered:
  assumes "no_failures E" "msg_id h = APK2SCORPION_SHELL_REQ" "0 \<notin> set cmd" "length cmd < 500"
    "popen_out E (npopen w) cmd = Some stream" "pclose_res E (npopen w) \<noteq> - 1"
    and p: "p = header_bytes h @ cmd @ [0]"
  shows "\<exists>w'. scorpion_protocol_ayalyze E w (frame p) (int (length (frame p))) =
      Inr (w', int (length (frame p))) \<and>
    socket_sent w' = socket_sent w @
      [frame (header_bytes (scorpion_header w SCORPION2APK_SHELL_REP (of_nat (length (shell_reply stream)))) @
         shell_reply stream)] \<and> npopen w' = npopen w + 1"
proof (rule scorpion_ayalyze_parsed [OF assms(1) _ _ p])
  fix js
  let ?w = "w\<lparr>nmalloc := nmalloc w + 1\<rparr>"
  let ?body = "(cmd @ [0]) @ xor8 p # MAGIC_CHAR # js"
  let ?n = "length (shell_reply stream)"
  let ?q = "header_bytes (scorpion_header w SCORPION2APK_SHELL_REP (of_nat ?n)) @ shell_reply stream"
  obtain b1 b2 where m: "malloc E (nmalloc ?w) 40960 = Some b1"
    "malloc E (nmalloc ?w + 1) (?n + 11) = Some b2" using no_failures_malloc [OF assms(1)] by blast
  have "cstr ?body = cmd" unfolding cstr_def using assms(3)
    by (subst append_assoc, subst takeWhile_append2) auto
  then have "scorpion_shell_respond E ?w ?body len =
      Inr (w\<lparr>nmalloc := nmalloc w + 4, npopen := npopen w + 1, scorpion_seq := scorpion_seq w + 1,
             socket_sent := socket_sent w @ [frame ?q]\<rparr>, 0)" for len
    using shell_respond_ok [OF _ _ _ m, of ?body] assms(5,6) no_failures_socket_frame [OF assms(1)]
    by (simp add: scorpion_next_def scorpion_header_def)
  then show "\<exists>w'. scorpion_parse_protocol E ?w
      \<lparr>mgr_buf = Some (MAGIC_CHAR # header_bytes h @ (cmd @ [0]) @ xor8 p # MAGIC_CHAR # js),
       mgr_len = int (length (cmd @ [0]) + 11)\<rparr> = Inr (w', True) \<and>
      socket_sent w' = socket_sent w @ [frame ?q] \<and> npopen w' = npopen w + 1"
    using assms(2) by (simp add: scorpion_parse_protocol_def header_fields body_of Let_def)
qed (use assms(4) in simp)

theorem shell_request_answered_witness:
  "\<exists>w'. scorpion_protocol_ayalyze example_env example_world
      (frame (header_bytes (example_header 0x10 3) @ [108, 115] @ [0]))
      (int (length (frame (header_bytes (example_header 0x10 3) @ [108, 115] @ [0])))) =
      Inr (w', int (length (frame (header_bytes (example_header 0x10 3) @ [108, 115] @ [0])))) \<and>
    socket_sent w' = socket_sent example_world @
      [frame (header_bytes (scorpion_header example_world SCORPION2APK_SHELL_REP
          (of_nat (length (shell_reply [108, 115, 10])))) @ shell_reply [108, 115, 10])] \<and>
    npopen w' = npopen example_world + 1"
  by (rule shell_request_answered) (simp_all add: no_failures_example example_header_def, simp_all add: example_env_def)

end
