(* ===== verification/Scorpion_Uart.thy ===== *)
theory Scorpion_Uart
  imports Scorpion_Link
begin

text \<open>
  The UART side of the daemon, \<open>external/scorpion/scorpion_uart.c\<close>: opening and configuring the
  device, the gateway from the receive buffer to the STM32 parser, the body of the receive thread as
  a step on its state and one result of \<open>select\<close>, the body of the send thread, and the start-up
  sequence.
\<close>

section \<open>Opening and configuring the device\<close>

definition MAX_TEMP_BUFF_SIZE :: nat where
  "MAX_TEMP_BUFF_SIZE = 256"

definition MAX_UART_BUFF_SIZE :: u32 where
  "MAX_UART_BUFF_SIZE = 2048"

text \<open>\<open>fd\<close> is the result of \<open>open\<close>.\<close>

definition scorpion_uart_create :: "int \<Rightarrow> int" where
  "scorpion_uart_create fd = (if fd < 0 then - 1 else fd)"

text \<open>The flags of \<open>termios\<close>, with the values of the Linux headers.\<close>

abbreviation (input) CSIZE :: u32 where "CSIZE \<equiv> 0x30"
abbreviation (input) CS7 :: u32 where "CS7 \<equiv> 0x20"
abbreviation (input) CS8 :: u32 where "CS8 \<equiv> 0x30"
abbreviation (input) CSTOPB :: u32 where "CSTOPB \<equiv> 0x40"
abbreviation (input) PARENB :: u32 where "PARENB \<equiv> 0x100"
abbreviation (input) PARODD :: u32 where "PARODD \<equiv> 0x200"
abbreviation (input) INPCK :: u32 where "INPCK \<equiv> 0x10"
abbreviation (input) CBAUD :: u32 where "CBAUD \<equiv> 0x100F"
abbreviation (input) B115200 :: u32 where "B115200 \<equiv> 0x1002"

record scorpion_uart_params_t =
  bps :: u32
  databits :: int
  stopbits :: int
  parity :: char
  timeout :: u8

record termios =
  c_iflag :: u32
  c_oflag :: u32
  c_cflag :: u32
  c_lflag :: u32
  vmin :: u8
  vtime :: u8
  vintr :: u8
  vquit :: u8
  vstart :: u8
  vstop :: u8
  vsusp :: u8

definition termios_params :: scorpion_uart_params_t where
  "termios_params = \<lparr>bps = B115200, databits = 8, stopbits = 1, parity = CHR ''N'', timeout = 0\<rparr>"

text \<open>
  \<open>got\<close> is the result of \<open>tcgetattr\<close>: the current settings, or \<open>None\<close> on failure. The result
  is the settings given to \<open>tcsetattr\<close>, or \<open>None\<close> where the C function returns \<open>false\<close>.
  The speed is stored in the baud bits of \<open>c_cflag\<close>, as \<open>cfsetospeed\<close> and \<open>cfsetispeed\<close> do.
\<close>

definition uart_databits :: "int \<Rightarrow> u32 \<Rightarrow> u32 option" where
  "uart_databits n c = (if n = 7 then Some (c OR CS7) else if n = 8 then Some (c OR CS8) else None)"

definition uart_stopbits :: "int \<Rightarrow> u32 \<Rightarrow> u32 option" where
  "uart_stopbits n c =
     (if n = 1 then Some (c AND NOT CSTOPB) else if n = 2 then Some (c OR CSTOPB) else None)"

definition uart_parity :: "char \<Rightarrow> u32 \<times> u32 \<Rightarrow> (u32 \<times> u32) option" where
  "uart_parity x ci = (case ci of (c, i) \<Rightarrow>
     if x \<in> {CHR ''n'', CHR ''N''} then Some (c AND NOT PARENB, i AND NOT INPCK)
     else if x \<in> {CHR ''o'', CHR ''O''} then Some (c OR (PARODD OR PARENB), i OR INPCK)
     else if x \<in> {CHR ''e'', CHR ''E''} then Some ((c OR PARENB) AND NOT PARODD, i OR INPCK)
     else None)"

definition scorpion_uart_set_params :: "termios option \<Rightarrow> scorpion_uart_params_t \<Rightarrow> termios option" where
  "scorpion_uart_set_params got params =
     (case got of None \<Rightarrow> None
      | Some options \<Rightarrow>
          case uart_databits (databits params) (0 AND NOT CSIZE) of None \<Rightarrow> None
          | Some c \<Rightarrow> case uart_stopbits (stopbits params) c of None \<Rightarrow> None
          | Some c \<Rightarrow> case uart_parity (parity params) (c, 0) of None \<Rightarrow> None
          | Some (c, i) \<Rightarrow>
              Some (options\<lparr>c_iflag := i, c_oflag := 0, c_cflag := (c AND NOT CBAUD) OR (bps params AND CBAUD),
                            c_lflag := 0, vmin := 0, vtime := timeout params,
                            vintr := 0, vquit := 0, vstart := 0, vstop := 0, vsusp := 0\<rparr>))"

section \<open>The receive thread\<close>

definition scorpion_uart_treat_gateway ::
  "'a scorpion_env_scheme \<Rightarrow> scorpion_world \<Rightarrow> scorpion_world res" where
  "scorpion_uart_treat_gateway E w =
     bnd (deref (ppmngr_read w)) (\<lambda>m.
     let len = cb_datalen m in
     if len \<noteq> 0
     then let (buff, w) = alloc E w (unat len) in
          bnd (cb_read_no_offset m buff len) (\<lambda>(buff, _).
          bnd (deref buff) (\<lambda>buff.
          bnd (stm32_protocol_ayalyze E w buff (sint len)) (\<lambda>(w, sz).
          bnd (deref (ppmngr_read w)) (\<lambda>m.
          bnd (cb_read_move_offset m (of_int sz)) (\<lambda>m. Inr (w\<lparr>ppmngr_read := Some m\<rparr>))))))
     else Inr w)"

text \<open>
  One wake-up of the receive thread: the result of \<open>select\<close>, which descriptors are readable, and
  the result of \<open>read\<close> with the content of \<open>temp_buff\<close>. \<open>select\<close> replaces the set it is given
  by its readable members; the loop passes the same variable again.
\<close>

record select_result =
  sel_ret :: int
  dev_readable :: bool
  pipe_readable :: bool
  read_ret :: int
  read_data :: bytes

record fd_readset =
  has_dev :: bool
  has_pipe :: bool

definition select_set :: "fd_readset \<Rightarrow> select_result \<Rightarrow> fd_readset" where
  "select_set rs inp =
     (if sel_ret inp = - 1 then rs
      else if sel_ret inp = 0 then \<lparr>has_dev = False, has_pipe = False\<rparr>
      else \<lparr>has_dev = (has_dev rs \<and> dev_readable inp), has_pipe = (has_pipe rs \<and> pipe_readable inp)\<rparr>)"

definition scorpion_uart_recv_step ::
  "'a scorpion_env_scheme \<Rightarrow> scorpion_world \<times> fd_readset \<Rightarrow> select_result \<Rightarrow>
   (scorpion_world \<times> fd_readset \<times> bool) res" where
  "scorpion_uart_recv_step E st inp =
     (case st of (w, rs) \<Rightarrow>
      let rs = select_set rs inp in
      if sel_ret inp = - 1 then Inr (w, rs, True)
      else if sel_ret inp = 0 then Inr (w, rs, False)
      else if has_dev rs \<and> read_ret inp \<le> 0 then Inr (w, rs, True)
      else bnd (if has_dev rs
                then bnd (deref (ppmngr_read w)) (\<lambda>m.
                     bnd (cb_write m (read_data inp) (of_int (read_ret inp))) (\<lambda>(m, _).
                     scorpion_uart_treat_gateway E (w\<lparr>ppmngr_read := Some m\<rparr>)))
                else Inr w) (\<lambda>w. Inr (w, rs, has_pipe rs)))"

text \<open>The thread over a sequence of wake-ups; the flag says whether it has ended.\<close>

fun scorpion_uart_recv_treat ::
  "'a scorpion_env_scheme \<Rightarrow> scorpion_world \<times> fd_readset \<Rightarrow> select_result list \<Rightarrow>
   (scorpion_world \<times> fd_readset \<times> bool) res" where
  "scorpion_uart_recv_treat E (w, rs) [] = Inr (w, rs, False)"
| "scorpion_uart_recv_treat E (w, rs) (inp # inps) =
     bnd (scorpion_uart_recv_step E (w, rs) inp) (\<lambda>(w, rs, ex).
     if ex then Inr (w, rs, True) else scorpion_uart_recv_treat E (w, rs) inps)"

section \<open>The send thread\<close>

definition scorpion_uart_send_treat :: "'a scorpion_env_scheme \<Rightarrow> scorpion_world \<Rightarrow> scorpion_world res" where
  "scorpion_uart_send_treat E w =
     bnd (deref (ppmngr_write w)) (\<lambda>m.
     if cb_empty m then Inr w
     else bnd (cb_read m (Some (stack_struct E MAX_TEMP_BUFF_SIZE)) (of_nat MAX_TEMP_BUFF_SIZE))
            (\<lambda>(m, temp_buff, len). bnd (deref temp_buff) (\<lambda>temp_buff.
          bnd (mem_read temp_buff 0 (unat len)) (\<lambda>d.
          Inr (w\<lparr>ppmngr_write := Some m, uart_written := uart_written w @ [d]\<rparr>)))))"

text \<open>\<open>n\<close> wake-ups of the send thread, each one pass of its loop.\<close>

fun scorpion_uart_send_thread_proc ::
  "'a scorpion_env_scheme \<Rightarrow> nat \<Rightarrow> scorpion_world \<Rightarrow> scorpion_world res" where
  "scorpion_uart_send_thread_proc E 0 w = Inr w"
| "scorpion_uart_send_thread_proc E (Suc n) w =
     bnd (scorpion_uart_send_treat E w) (scorpion_uart_send_thread_proc E n)"

section \<open>Start-up\<close>

text \<open>The results of the system calls that the start-up makes.\<close>

record uart_start_env =
  pipe_ret :: int
  cond_ret :: int
  mutex_ret :: int
  open_ret :: int
  recv_create_ret :: int
  send_create_ret :: int

definition scorpion_uart_start_server ::
  "'a scorpion_env_scheme \<Rightarrow> uart_start_env \<Rightarrow> scorpion_world \<Rightarrow> (scorpion_world \<times> int) res" where
  "scorpion_uart_start_server E S w =
     (if pipe_ret S \<noteq> 0 then Inr (w, pipe_ret S)
      else if cond_ret S \<noteq> 0 then Inr (w, cond_ret S)
      else if mutex_ret S \<noteq> 0 then Inr (w, - 1)
      else let w = w\<lparr>uart_fd := scorpion_uart_create (open_ret S)\<rparr> in
      bnd (cb_init E (nmalloc w) (ppmngr_read w) MAX_UART_BUFF_SIZE) (\<lambda>(r, _, k).
      let w = w\<lparr>ppmngr_read := r, nmalloc := k\<rparr> in
      bnd (cb_init E (nmalloc w) (ppmngr_write w) MAX_UART_BUFF_SIZE) (\<lambda>(r, ok, k).
      let w = w\<lparr>ppmngr_write := r, nmalloc := k\<rparr>;
          w = (if ok then w else w\<lparr>ppmngr_read := fst (cb_deinit (ppmngr_read w))\<rparr>) in
      if recv_create_ret S \<noteq> 0 then Inr (w, - 1)
      else let w = w\<lparr>threads := threads w @ [UartRecv]\<rparr> in
      if send_create_ret S \<noteq> 0 then Inr (w, - 1)
      else Inr (w\<lparr>threads := threads w @ [UartSend]\<rparr>, 0))))"

section \<open>The receive buffer is left to the receive thread\<close>

text \<open>Parsing and sending never touch the receive buffer.\<close>

lemma uart_send_keeps_read: "scorpion_uart_send w b n = Inr (w', r) \<Longrightarrow> ppmngr_read w' = ppmngr_read w"
  by (auto simp: scorpion_uart_send_def split: if_splits)

lemma socket_send_keeps_read: "scorpion_socket_send E w b n = Inr (w', r) \<Longrightarrow> ppmngr_read w' = ppmngr_read w"
  by (auto simp: scorpion_socket_send_def Let_def split: if_splits)

lemma alloc_keeps_read: "alloc E w n = (b, w') \<Longrightarrow> ppmngr_read w' = ppmngr_read w"
  by (auto simp: alloc_def)

lemma stm32_send_data_keeps_read:
  "stm32_protocol_send_data E w b n = Inr (w', r) \<Longrightarrow> ppmngr_read w' = ppmngr_read w"
  by (cases "malloc E (nmalloc w) (nat (n * 2))")
     (auto simp: stm32_protocol_send_data_def Let_def alloc_def dest!: uart_send_keeps_read)

lemma scorpion_send_data_keeps_read:
  "scorpion_protocol_send_data E w b n = Inr (w', r) \<Longrightarrow> ppmngr_read w' = ppmngr_read w"
  by (cases "malloc E (nmalloc w) (nat (n * 2))")
     (auto simp: scorpion_protocol_send_data_def Let_def alloc_def dest!: socket_send_keeps_read)

lemma next_keeps_read [simp]:
  "ppmngr_read (stm32_next w) = ppmngr_read w" "ppmngr_read (scorpion_next w) = ppmngr_read w"
  by (simp_all add: stm32_next_def scorpion_next_def)

lemmas keeps_read = stm32_send_data_keeps_read scorpion_send_data_keeps_read

lemma send_ack_keeps_read:
  "stm32_protocol_send_ack E w b i x = Inr w' \<Longrightarrow> ppmngr_read w' = ppmngr_read w"
  by (auto simp: stm32_protocol_send_ack_def dest!: keeps_read)

lemma reports_keep_read:
  "scorpion_report_gpio_in E w g = Inr w' \<Longrightarrow> ppmngr_read w' = ppmngr_read w"
  "scorpion_report_eval_in E w v = Inr w' \<Longrightarrow> ppmngr_read w' = ppmngr_read w"
  "scorpion_report_volumn_in E w v = Inr w' \<Longrightarrow> ppmngr_read w' = ppmngr_read w"
  by (auto simp: scorpion_report_gpio_in_def scorpion_report_eval_in_def scorpion_report_volumn_in_def
      dest!: keeps_read)

lemma treats_keep_read:
  "stm32_gpio_in_treat E w b n = Inr (w', x) \<Longrightarrow> ppmngr_read w' = ppmngr_read w"
  "stm32_eval_treat E w b n = Inr (w', x) \<Longrightarrow> ppmngr_read w' = ppmngr_read w"
  "stm32_volumn_treat E w b n = Inr (w', x) \<Longrightarrow> ppmngr_read w' = ppmngr_read w"
  "stm32_get_version_treat w b n = Inr (w', x) \<Longrightarrow> ppmngr_read w' = ppmngr_read w"
  by (auto simp: stm32_gpio_in_treat_def stm32_eval_treat_def stm32_volumn_treat_def
      stm32_get_version_treat_def Let_def dest!: reports_keep_read)

lemma parse_keeps_read:
  "stm32_parse_protocol E w msg = Inr (w', x) \<Longrightarrow> ppmngr_read w' = ppmngr_read w"
  by (auto simp: stm32_parse_protocol_def split: if_splits
      dest!: treats_keep_read send_ack_keeps_read)

lemma treat_raw_keeps_read:
  "stm32_treat_raw E w raw = Inr (w', x) \<Longrightarrow> ppmngr_read w' = ppmngr_read w"
  by (cases "malloc E (nmalloc w) (nat (mgr_len raw))")
     (auto simp: stm32_treat_raw_def stm32_parse_a_full_msg_def alloc_def split: if_splits
        dest!: parse_keeps_read)

lemma loop_keeps_read:
  "stm32_ayalyze_loop E w b n = Inr (w', r) \<Longrightarrow> ppmngr_read w' = ppmngr_read w"
proof (induction E w b n rule: stm32_ayalyze_loop.induct)
  case (1 E w b n)
  note unf = stm32_ayalyze_loop.simps [of E w b n]
  obtain off raw where f: "stm32_get_a_full_msg b n empty_mgr = Inr (off, raw)"
    using 1(2) unf by auto
  show ?case
  proof (cases "off \<noteq> 0 \<and> mgr_len raw \<noteq> 0")
    case False
    then show ?thesis using 1(2) unf f by auto
  next
    case True
    then obtain w1 ok where t: "stm32_treat_raw E w raw = Inr (w1, ok)"
      using 1(2) unf f by auto
    have k: "ppmngr_read w1 = ppmngr_read w" using treat_raw_keeps_read [OF t] .
    show ?thesis
    proof (cases "ok \<and> 0 < n - off")
      case ok: True
      then have "stm32_ayalyze_loop E w1 (drop (nat off) b) (n - off) = Inr (w', r)"
        using 1(2) unf f t True by simp
      then show ?thesis using 1(1) [OF f refl True t refl] ok k by simp
    next
      case False
      then show ?thesis using 1(2) unf f t True k by (auto split: if_splits)
    qed
  qed
qed

lemma ayalyze_keeps_read:
  "stm32_protocol_ayalyze E w b n = Inr (w', r) \<Longrightarrow> ppmngr_read w' = ppmngr_read w"
  by (auto simp: stm32_protocol_ayalyze_def split: option.splits dest!: loop_keeps_read)

section \<open>The gateway\<close>

lemma gateway_reads_all:
  assumes m: "ppmngr_read w = Some m" "cb_inv m" "cb_list m = xs" "xs \<noteq> []"
    and k: "malloc E (nmalloc w) (length xs) = Some b"
  shows "scorpion_uart_treat_gateway E w =
    bnd (stm32_protocol_ayalyze E (w\<lparr>nmalloc := nmalloc w + 1\<rparr>) xs (int (length xs))) (\<lambda>(w, sz).
    bnd (deref (ppmngr_read w)) (\<lambda>m.
    bnd (cb_read_move_offset m (of_int sz)) (\<lambda>m. Inr (w\<lparr>ppmngr_read := Some m\<rparr>))))"
proof -
  have d: "unat (datalen m) = length xs" using length_cb_list [OF m(2)] m(3) by simp
  then have nz: "datalen m \<noteq> 0" using m(4) by auto
  have s: "unat (datalen m) < 2 ^ 31" using m(2) by (auto simp: cb_inv_def split: option.splits)
  have i: "sint (datalen m) = int (length xs)" using sint_small [OF s] d by simp
  have "length b = length xs" using malloc_length [OF k] .
  then have r: "cb_read_no_offset m (Some b) (datalen m) = Inr (Some xs, datalen m)"
    using cb.peek_law [OF m(2) s, of "length xs" "Some b"] m(3) d word_eq_of_nat [OF d]
    by (simp add: fill_def)
  show ?thesis
    using m(1) nz k d i r
    by (simp add: scorpion_uart_treat_gateway_def cb_datalen_def Let_def alloc_def)
qed

lemma gateway_consumes:
  assumes m: "ppmngr_read w = Some m" "cb_inv m" "cb_list m = xs" "xs \<noteq> []"
    and k: "malloc E (nmalloc w) (length xs) = Some b"
    and a: "stm32_protocol_ayalyze E (w\<lparr>nmalloc := nmalloc w + 1\<rparr>) xs (int (length xs)) = Inr (w', n)"
    and n: "0 \<le> n"
  shows "\<exists>m'. scorpion_uart_treat_gateway E w = Inr (w'\<lparr>ppmngr_read := Some m'\<rparr>) \<and> cb_inv m' \<and>
    cb_list m' = drop (nat n) xs \<and> cb_cap m' = cb_cap m"
proof -
  have "length xs < 2 ^ 31" using cb.bounded [OF m(2)] cb.capacity_small [OF m(2)] m(3) by simp
  then have "n \<le> int (length xs)" "n < 2 ^ 31"
    using ayalyze_result_range [OF _ _ _ a] n by auto
  then have u: "unat (of_int n :: s32) = nat n"
    using n unat_of_nat_small [of "nat n"] by (simp add: nat_less_iff)
  have r: "ppmngr_read w' = Some m" using ayalyze_keeps_read [OF a] m(1) by simp
  obtain m' where "cb_read_move_offset m (of_int n) = Inr m'" "cb_inv m'"
    "cb_list m' = drop (nat n) xs" "cb_cap m' = cb_cap m"
    using cb.skip_law [OF m(2), of "of_int n"] u \<open>n < 2 ^ 31\<close> n m(3) by (fastforce simp: nat_less_iff)
  then show ?thesis using gateway_reads_all [OF m k] a r by auto
qed

text \<open>
  C32. Reassembly on the UART. Whatever pieces the receive buffer was filled with, if it holds some
  complete frames, then bytes that are no part of a frame, and then the beginning of the next frame, the gateway
  dispatches the frames in order and leaves the beginning of the next frame in the buffer for the next wake-up.
  When no delimiter follows the frames, all trailing bytes stay.
\<close>

theorem gateway_dispatches_frames:
  assumes m: "ppmngr_read w = Some m" "cb_inv m" "cb_list m = concat (map frame ps) @ ts" "ps \<noteq> []"
    and ps: "list_all (\<lambda>p. 8 \<le> length p) ps" "incomplete ts"
    and k: "malloc E (nmalloc w) (length (cb_list m)) = Some b"
    and d: "deliver (alloc E) (stm32_parse_a_full_msg E) (w\<lparr>nmalloc := nmalloc w + 1\<rparr>) ps
      (int (length (left_over ts))) = Inr (w', Some r)"
  shows "\<exists>m'. scorpion_uart_treat_gateway E w = Inr (w'\<lparr>ppmngr_read := Some m'\<rparr>) \<and> cb_inv m' \<and>
    cb_list m' = left_over ts"
proof -
  define n where "n = length (concat (map frame ps))"
  have s: "n + length ts < 2 ^ 31"
    using cb.bounded [OF m(2)] cb.capacity_small [OF m(2)] m(3) by (simp add: n_def)
  have r: "r = int (length (left_over ts))" using d by (rule deliver_rest)
  define c where "c = n + (length ts - length (left_over ts))"
  have c: "int (n + length ts) - int (length (left_over ts)) = int c"
    using length_left_over [of ts] by (simp add: c_def)
  have l: "stm32_ayalyze_loop E (w\<lparr>nmalloc := nmalloc w + 1\<rparr>) (cb_list m) (int (length (cb_list m))) =
      Inr (w', Some (int (length (left_over ts))))"
    using stm32_rx.loop_frames_tail [OF ps, of E "w\<lparr>nmalloc := nmalloc w + 1\<rparr>"] s d r m(3)
    by (simp add: n_def)
  then have "stm32_protocol_ayalyze E (w\<lparr>nmalloc := nmalloc w + 1\<rparr>) (cb_list m)
      (int (length (cb_list m))) = Inr (w', int c)"
    using m(3) c by (simp add: stm32_protocol_ayalyze_def n_def)
  moreover have "cb_list m \<noteq> []" using m(3,4) by (cases ps) (auto simp: frame_def)
  moreover have "drop c (cb_list m) = left_over ts" using left_over_drop [of ts] by (simp add: m(3) c_def n_def)
  moreover have "int c \<le> int (length (cb_list m))" by (simp add: m(3) c_def n_def)
  ultimately show ?thesis
    using gateway_consumes [OF m(1,2) refl _ k, of w' "int c"] by auto
qed

definition example_stream :: bytes where
  "example_stream = frame (header_bytes (example_header 0x1234 0)) @ [9, 0x7E, 5]"

lemma example_stream_facts:
  "length example_stream < 2 ^ 31" "example_stream \<noteq> []"
  using frame_length [of "header_bytes (example_header 0x1234 0)"] by (simp_all add: example_stream_def)

lemma example_cb [simp]:
  "cb_inv (cb_of example_stream)" "cb_list (cb_of example_stream) = example_stream"
  "cb_full (cb_of example_stream)"
  using cb_of_facts [OF example_stream_facts(2,1)] by (simp_all add: cb_full_def cb_of_def)

theorem gateway_dispatches_frames_witness:
  "\<exists>m'. scorpion_uart_treat_gateway example_env (example_world\<lparr>ppmngr_read := Some (cb_of example_stream)\<rparr>) =
      Inr ((example_world\<lparr>ppmngr_read := Some (cb_of example_stream), nmalloc := nmalloc example_world + 1 + 1\<rparr>)\<lparr>ppmngr_read := Some m'\<rparr>) \<and>
    cb_inv m' \<and> cb_list m' = [0x7E, 5]"
proof -
  let ?h = "example_header 0x1234 0"
  have t: "left_over [9, 0x7E, 5] = [0x7E, 5]" "incomplete [9, 0x7E, 5]"
    by (simp_all add: left_over_def incomplete_def MAGIC_CHAR_def)
  have d: "deliver (alloc example_env) (stm32_parse_a_full_msg example_env)
      ((example_world\<lparr>ppmngr_read := Some (cb_of example_stream)\<rparr>)
        \<lparr>nmalloc := nmalloc (example_world\<lparr>ppmngr_read := Some (cb_of example_stream)\<rparr>) + 1\<rparr>)
      [header_bytes ?h] (int (length (left_over [9, 0x7E, 5]))) =
    Inr (example_world\<lparr>ppmngr_read := Some (cb_of example_stream), nmalloc := nmalloc example_world + 1 + 1\<rparr>, Some 2)"
  proof -
    have "msg_id ?h \<notin> {MCU2SYSTEM_GENERAL_ACK, MCU2SYSTEM_GPIO_IN, MCU2SYSTEM_ADC_REP,
        MCU2SYSTEM_EVAL_IN, MCU2SYSTEM_VOLUMN_IN, MCU2SYSTEM_GPIO_IN_REP, MCU2SYSTEM_VERSION_REP}"
      by (simp add: example_header_def)
    from stm32_unknown_ignored [OF this, of example_env] show ?thesis by (simp add: alloc_def message_block t(1))
  qed
  have "\<exists>m'. scorpion_uart_treat_gateway example_env (example_world\<lparr>ppmngr_read := Some (cb_of example_stream)\<rparr>) =
      Inr ((example_world\<lparr>ppmngr_read := Some (cb_of example_stream), nmalloc := nmalloc example_world + 1 + 1\<rparr>)\<lparr>ppmngr_read := Some m'\<rparr>) \<and>
    cb_inv m' \<and> cb_list m' = left_over [9, 0x7E, 5]"
    by (rule gateway_dispatches_frames [where m = "cb_of example_stream", OF _ _ _ _ _ t(2) _ d])
      (simp_all, simp_all add: example_stream_def)
  then show ?thesis by (simp only: t(1))
qed

text \<open>
  Bytes without a delimiter are never consumed. If the receive buffer holds no \<open>0x7E\<close>, the gateway
  changes neither its content nor anything the daemon sends; a buffer that such bytes have filled
  stays full, and every later byte from the UART is discarded.
\<close>

lemma gateway_stuck_without_delimiter:
  assumes m: "ppmngr_read w = Some m" "cb_inv m" "cb_list m \<noteq> []" "MAGIC_CHAR \<notin> set (cb_list m)"
    and k: "malloc E (nmalloc w) (length (cb_list m)) = Some b"
  shows "\<exists>m'. scorpion_uart_treat_gateway E w =
      Inr (w\<lparr>nmalloc := nmalloc w + 1, ppmngr_read := Some m'\<rparr>) \<and>
    cb_inv m' \<and> cb_list m' = cb_list m \<and> cb_cap m' = cb_cap m"
proof -
  have "stm32_protocol_ayalyze E (w\<lparr>nmalloc := nmalloc w + 1\<rparr>) (cb_list m) (int (length (cb_list m))) =
      Inr (w\<lparr>nmalloc := nmalloc w + 1\<rparr>, 0)"
    using stm32_rx.loop_idle [OF m(4), of E "w\<lparr>nmalloc := nmalloc w + 1\<rparr>" "[]"]
    by (simp add: stm32_protocol_ayalyze_def)
  from gateway_consumes [OF m(1,2) refl m(3) k this] show ?thesis by auto
qed

lemma gateway_stuck_without_delimiter_example:
  "\<exists>m'. scorpion_uart_treat_gateway example_env (example_world\<lparr>ppmngr_read := Some (cb_of [1, 2])\<rparr>) =
      Inr ((example_world\<lparr>ppmngr_read := Some (cb_of [1, 2])\<rparr>)
        \<lparr>nmalloc := nmalloc (example_world\<lparr>ppmngr_read := Some (cb_of [1, 2])\<rparr>) + 1, ppmngr_read := Some m'\<rparr>) \<and>
    cb_inv m' \<and> cb_list m' = cb_list (cb_of [1, 2]) \<and> cb_cap m' = cb_cap (cb_of [1, 2])"
  by (rule gateway_stuck_without_delimiter) (simp_all add: MAGIC_CHAR_def)

lemma move_offset_negative:
  assumes "cb_inv m" "0 < unat (datalen m)"
  shows "\<exists>m'. cb_read_move_offset m (- 1) = Inr m' \<and> unat (datalen m') = unat (datalen m) + 1 \<and>
    buflen m' = buflen m"
proof -
  have d: "unat (datalen m) < 2 ^ 31" "buflen m \<noteq> 0"
    using assms(1) by (auto simp: cb_inv_def split: option.splits)
  have "0 \<le> sint (datalen m)" using sint_small [OF d(1)] by (simp only: of_nat_0_le_iff)
  then have "\<not> datalen m \<le>s - 1" by (simp add: word_sle_eq)
  moreover have "unat (datalen m + 1) = unat (datalen m) + 1" using d(1) by (simp add: unat_plus_small)
  ultimately show ?thesis using d(2) by (simp add: cb_read_move_offset_def cb_datalen_def umod_def)
qed

text \<open>
  Running out of memory corrupts the receive buffer. If the buffer is full and starts with a
  complete frame but the block for its message cannot be allocated, the analysis returns -1, which
  the gateway passes to \<open>cb_read_move_offset\<close>: the buffer then claims more bytes than it has room for.
\<close>

lemma gateway_out_of_memory:
  assumes m: "ppmngr_read w = Some m" "cb_inv m" "cb_list m = frame p @ zs" "cb_full m" "8 \<le> length p"
    and k: "malloc E (nmalloc w) (length (cb_list m)) = Some b"
      "malloc E (nmalloc w + 1) (length (frame p)) = None"
  shows "\<exists>w' m'. scorpion_uart_treat_gateway E w = Inr w' \<and> ppmngr_read w' = Some m' \<and>
    unat (datalen m') = unat (buflen m') + 1 \<and> \<not> cb_inv m'"
proof -
  let ?w = "w\<lparr>nmalloc := nmalloc w + 1\<rparr>"
  have s: "length (frame p) + length zs < 2 ^ 31"
    using cb.bounded [OF m(2)] cb.capacity_small [OF m(2)] m(3) by simp
  have "alloc E ?w (length (frame p)) = (None, ?w\<lparr>nmalloc := nmalloc w + 2\<rparr>)"
    using k(2) by (simp add: alloc_def)
  from stm32_rx.loop_no_memory [where gs = "[]" and rs = "[]", OF m(5) _ s this]
  have a: "stm32_protocol_ayalyze E ?w (cb_list m) (int (length (cb_list m))) =
      Inr (w\<lparr>nmalloc := nmalloc w + 2\<rparr>, - 1)"
    using m(3) by (simp add: stm32_protocol_ayalyze_def)
  have ne: "cb_list m \<noteq> []" using m(3) by (simp add: frame_def)
  have d: "datalen m = buflen m" "0 < unat (datalen m)"
    using m(2,4) by (auto simp: cb_full_def cb_inv_def split: option.splits)
  obtain m' where m': "cb_read_move_offset m (- 1) = Inr m'" "unat (datalen m') = unat (datalen m) + 1"
    "buflen m' = buflen m" using move_offset_negative [OF m(2) d(2)] by blast
  then have "\<not> cb_inv m'" using d(1) by (auto simp: cb_inv_def split: option.splits)
  then show ?thesis using gateway_reads_all [OF m(1,2) refl ne k(1)] a m' d(1) m(1) by simp
qed

definition scarce_env :: scorpion_env where
  "scarce_env = example_env\<lparr>heap_ok := (\<lambda>k n. k = 0)\<rparr>"

lemma gateway_out_of_memory_example:
  "\<exists>w' m'. scorpion_uart_treat_gateway scarce_env (initial_world\<lparr>ppmngr_read := Some (cb_of example_stream)\<rparr>) =
      Inr w' \<and> ppmngr_read w' = Some m' \<and> unat (datalen m') = unat (buflen m') + 1 \<and> \<not> cb_inv m'"
proof (rule gateway_out_of_memory)
  show "malloc scarce_env (nmalloc (initial_world\<lparr>ppmngr_read := Some (cb_of example_stream)\<rparr>))
      (length (cb_list (cb_of example_stream))) = Some (replicate (length example_stream) 0xAA)"
    by (simp add: malloc_def scarce_env_def example_env_def initial_world_def map_replicate_const)
  show "cb_list (cb_of example_stream) = frame (header_bytes (example_header 0x1234 0)) @ [9, 0x7E, 5]"
    by (simp, simp add: example_stream_def)
qed (simp_all add: malloc_def scarce_env_def example_env_def initial_world_def)

section \<open>Stopping the receive thread\<close>

lemma unwatched_pipe_step:
  assumes "\<not> has_pipe rs" "sel_ret inp > 0" "read_ret inp > 0"
    "scorpion_uart_recv_step E (w, rs) inp = Inr (w', rs', ex)"
  shows "\<not> ex \<and> \<not> has_pipe rs'"
  using assms by (auto simp: scorpion_uart_recv_step_def select_set_def Let_def split: if_splits)

lemma unwatched_pipe_run:
  "\<not> has_pipe rs \<Longrightarrow> list_all (\<lambda>inp. sel_ret inp > 0 \<and> read_ret inp > 0) inps \<Longrightarrow>
   scorpion_uart_recv_treat E (w, rs) inps = Inr (w', rs', ex) \<Longrightarrow> \<not> ex"
proof (induction inps arbitrary: w rs)
  case (Cons inp inps)
  obtain w1 rs1 ex1 where s: "scorpion_uart_recv_step E (w, rs) inp = Inr (w1, rs1, ex1)"
    using Cons.prems(3) by auto
  then have "\<not> ex1 \<and> \<not> has_pipe rs1" using unwatched_pipe_step [OF Cons.prems(1) _ _ s] Cons.prems(2) by simp
  then show ?case using Cons.IH [of rs1 w1] Cons.prems(2,3) s by simp
qed simp

text \<open>
  A stop request is lost once data has arrived. \<open>select\<close> removes the descriptors that are not
  readable from the set, and the loop never puts them back: after a wake-up for data only, the stop
  pipe is no longer watched, and no later wake-up with data makes the thread end, whatever is written
  to the pipe; \<open>scorpion_uart_stop_server\<close>, which then joins the thread, waits forever.
\<close>

lemma stop_request_lost:
  assumes "sel_ret first > 0" "\<not> pipe_readable first" "read_ret first > 0"
    and "list_all (\<lambda>inp. sel_ret inp > 0 \<and> read_ret inp > 0) inps"
    and "scorpion_uart_recv_treat E (w, \<lparr>has_dev = True, has_pipe = True\<rparr>) (first # inps) = Inr (w', rs', ex)"
  shows "\<not> ex"
proof -
  obtain w1 rs1 ex1 where s: "scorpion_uart_recv_step E (w, \<lparr>has_dev = True, has_pipe = True\<rparr>) first =
      Inr (w1, rs1, ex1)" using assms(5) by auto
  then have "\<not> ex1" "\<not> has_pipe rs1"
    using assms(1-3) by (auto simp: scorpion_uart_recv_step_def select_set_def Let_def split: if_splits)
  then show ?thesis using unwatched_pipe_run [OF _ assms(4), of rs1 E w1] assms(5) s by simp
qed

definition data_wakeup :: "bool \<Rightarrow> select_result" where
  "data_wakeup stop = \<lparr>sel_ret = 1, dev_readable = True, pipe_readable = stop, read_ret = 1, read_data = [1]\<rparr>"

lemma idle_byte_gateway:
  assumes "ppmngr_read w = Some m" "cb_inv m" "MAGIC_CHAR \<notin> set (cb_list m)" "cb_list m \<noteq> []"
  shows "\<exists>w' m'. scorpion_uart_treat_gateway example_env w = Inr w' \<and> ppmngr_read w' = Some m' \<and>
    cb_inv m' \<and> cb_list m' = cb_list m \<and> cb_cap m' = cb_cap m"
proof -
  have "stm32_protocol_ayalyze example_env (w\<lparr>nmalloc := nmalloc w + 1\<rparr>) (cb_list m)
      (int (length (cb_list m))) = Inr (w\<lparr>nmalloc := nmalloc w + 1\<rparr>, 0)"
    using stm32_rx.loop_idle [OF assms(3), of example_env "w\<lparr>nmalloc := nmalloc w + 1\<rparr>" "[]"]
    by (simp add: stm32_protocol_ayalyze_def)
  from gateway_consumes [OF assms(1,2) refl assms(4) malloc_example this] show ?thesis by auto
qed

lemma idle_byte_step:
  assumes "ppmngr_read w = Some m" "cb_inv m" "MAGIC_CHAR \<notin> set (cb_list m)"
    "length (cb_list m) < cb_cap m" "has_dev rs"
  shows "\<exists>w' m'. scorpion_uart_recv_step example_env (w, rs) (data_wakeup stop) =
      Inr (w', \<lparr>has_dev = True, has_pipe = has_pipe rs \<and> stop\<rparr>, has_pipe rs \<and> stop) \<and>
    ppmngr_read w' = Some m' \<and> cb_inv m' \<and> MAGIC_CHAR \<notin> set (cb_list m') \<and>
    length (cb_list m') = length (cb_list m) + 1 \<and> cb_cap m' = cb_cap m"
proof -
  obtain m1 where m1: "cb_write m [1] 1 = Inr (m1, 1)" "cb_inv m1" "cb_list m1 = cb_list m @ [1]"
    "cb_cap m1 = cb_cap m"
    using cb.write_law [OF assms(2), of 1 "[1]" 1] assms(4) by auto
  have "MAGIC_CHAR \<notin> set (cb_list m1)" using m1(3) assms(3) by simp
  then show ?thesis
    using idle_byte_gateway [of "w\<lparr>ppmngr_read := Some m1\<rparr>" m1] m1 assms
    by (auto simp: scorpion_uart_recv_step_def select_set_def data_wakeup_def)
qed

lemma stop_request_lost_example:
  "\<exists>w' rs' ex. scorpion_uart_recv_treat example_env
      (example_world, \<lparr>has_dev = True, has_pipe = True\<rparr>) [data_wakeup False, data_wakeup True] =
      Inr (w', rs', ex) \<and> \<not> ex"
proof -
  let ?rs = "\<lparr>has_dev = True, has_pipe = True\<rparr>"
  have e: "ppmngr_read example_world = Some (cb_new 2048)" by (simp add: example_world_def)
  obtain w1 m1 where s1: "scorpion_uart_recv_step example_env (example_world, ?rs) (data_wakeup False) =
      Inr (w1, \<lparr>has_dev = True, has_pipe = False\<rparr>, False)" "ppmngr_read w1 = Some m1" "cb_inv m1"
    "MAGIC_CHAR \<notin> set (cb_list m1)" "length (cb_list m1) = 1" "cb_cap m1 = 2048"
    using idle_byte_step [OF e, of ?rs False] by auto
  obtain w2 where s2: "scorpion_uart_recv_step example_env (w1, \<lparr>has_dev = True, has_pipe = False\<rparr>)
      (data_wakeup True) = Inr (w2, \<lparr>has_dev = True, has_pipe = False\<rparr>, False)"
    using idle_byte_step [OF s1(2-4), of "\<lparr>has_dev = True, has_pipe = False\<rparr>" True] s1(5,6) by auto
  have r: "scorpion_uart_recv_treat example_env (example_world, ?rs) [data_wakeup False, data_wakeup True] =
      Inr (w2, \<lparr>has_dev = True, has_pipe = False\<rparr>, False)" using s1(1) s2 by simp
  have "\<not> False" by (rule stop_request_lost [OF _ _ _ _ r]) (simp_all add: data_wakeup_def)
  with r show ?thesis by blast
qed

section \<open>The send thread\<close>

lemma send_treat_ok:
  assumes m: "ppmngr_write w = Some m" "cb_inv m"
  shows "\<exists>w' m'. scorpion_uart_send_treat E w = Inr w' \<and> ppmngr_write w' = Some m' \<and> cb_inv m' \<and>
    concat (uart_written w') = concat (uart_written w) @ take 256 (cb_list m) \<and>
    cb_list m' = drop 256 (cb_list m)"
proof (cases "cb_empty m")
  case True
  then have "cb_list m = []" using length_cb_list [OF m(2)] by (simp add: cb_empty_def)
  then show ?thesis using True m by (simp add: scorpion_uart_send_treat_def)
next
  case False
  define k where "k = min 256 (length (cb_list m))"
  have k: "unat (of_nat k :: s32) = k" "k \<le> 256" by (simp_all add: k_def unat_of_nat_small)
  let ?t = "overwrite (stack_struct E 256) 0 (take k (cb_list m))"
  obtain m' where m': "cb_read m (Some (stack_struct E 256)) 256 = Inr (m', Some ?t, of_nat k)" "cb_inv m'"
    "cb_list m' = drop k (cb_list m)"
    using cb.read_law [OF m(2), of 256 k "Some (stack_struct E 256)"] k by (auto simp: k_def fill_def)
  have "length ?t = 256" using k by (simp add: k_def)
  then have "mem_read ?t 0 k = Inr (take k (cb_list m))"
    using k by (simp add: take_overwrite_front k_def)
  moreover have "take k (cb_list m) = take 256 (cb_list m)" "drop k (cb_list m) = drop 256 (cb_list m)"
    by (simp_all add: k_def min_def)
  ultimately show ?thesis using m m' False k
    by (simp add: scorpion_uart_send_treat_def MAX_TEMP_BUFF_SIZE_def)
qed

text \<open>
  C34. The send thread loses and reorders nothing. After \<open>n\<close> passes of its loop the bytes given to
  \<open>write\<close> have grown by the first \<open>256 n\<close> bytes of the queue, in order, and the rest still waits; so
  \<open>n\<close> passes empty a queue of up to \<open>256 n\<close> bytes.
\<close>

theorem send_thread_drains:
  assumes "ppmngr_write w = Some m" "cb_inv m"
  shows "\<exists>w' m'. scorpion_uart_send_thread_proc E n w = Inr w' \<and> ppmngr_write w' = Some m' \<and> cb_inv m' \<and>
    concat (uart_written w') = concat (uart_written w) @ take (256 * n) (cb_list m) \<and>
    cb_list m' = drop (256 * n) (cb_list m)"
  using assms
proof (induction n arbitrary: w m)
  case (Suc n)
  obtain w1 m1 where s: "scorpion_uart_send_treat E w = Inr w1" "ppmngr_write w1 = Some m1" "cb_inv m1"
    "concat (uart_written w1) = concat (uart_written w) @ take 256 (cb_list m)"
    "cb_list m1 = drop 256 (cb_list m)" using send_treat_ok [OF Suc.prems] by blast
  have "take 256 (cb_list m) @ take (256 * n) (drop 256 (cb_list m)) = take (256 * Suc n) (cb_list m)"
    using take_add [of 256 "256 * n" "cb_list m"] by simp
  then show ?case using Suc.IH [OF s(2,3)] s by (auto simp: add.commute)
qed simp

theorem send_thread_drains_witness:
  "\<exists>w' m'. scorpion_uart_send_thread_proc example_env 2 (example_world\<lparr>ppmngr_write := Some (cb_of [1, 2, 3])\<rparr>) =
      Inr w' \<and> ppmngr_write w' = Some m' \<and> cb_inv m' \<and>
    concat (uart_written w') = concat (uart_written (example_world\<lparr>ppmngr_write := Some (cb_of [1, 2, 3])\<rparr>)) @
      take (256 * 2) (cb_list (cb_of [1, 2, 3])) \<and>
    cb_list m' = drop (256 * 2) (cb_list (cb_of [1, 2, 3]))"
  by (rule send_thread_drains) simp_all

section \<open>Start-up and configuration\<close>

text \<open>
  After a start-up in which the pipe, the locks and the threads are created, both buffers exist,
  empty and with 2048 bytes of room, and both threads run; the result is 0. This is so even if the
  device could not be opened: then \<open>uart_fd\<close> is -1, and the only effect is that later sends are
  dropped.
\<close>

lemma uart_start_buffers:
  assumes "pipe_ret S = 0" "cond_ret S = 0" "mutex_ret S = 0" "recv_create_ret S = 0" "send_create_ret S = 0"
    and "ppmngr_read w = None" "ppmngr_write w = None" and "\<forall>k n. heap_ok E k n"
  shows "\<exists>w'. scorpion_uart_start_server E S w = Inr (w', 0) \<and>
    ppmngr_read w' = Some (cb_new 2048) \<and> ppmngr_write w' = Some (cb_new 2048) \<and>
    threads w' = threads w @ [UartRecv, UartSend] \<and>
    uart_fd w' = (if open_ret S < 0 then - 1 else open_ret S)"
  using assms
  by (simp add: scorpion_uart_start_server_def cb_init_def malloc_def MAX_UART_BUFF_SIZE_def Let_def
      cb_new_def scorpion_uart_create_def map_replicate_const)

lemma uart_start_buffers_example:
  "\<exists>w'. scorpion_uart_start_server example_env
      \<lparr>pipe_ret = 0, cond_ret = 0, mutex_ret = 0, open_ret = - 1, recv_create_ret = 0, send_create_ret = 0\<rparr>
      initial_world = Inr (w', 0) \<and>
    ppmngr_read w' = Some (cb_new 2048) \<and> ppmngr_write w' = Some (cb_new 2048) \<and>
    threads w' = threads initial_world @ [UartRecv, UartSend] \<and>
    uart_fd w' = (if open_ret \<lparr>pipe_ret = 0, cond_ret = 0, mutex_ret = 0, open_ret = - 1,
        recv_create_ret = 0, send_create_ret = 0\<rparr> < 0 then - 1
      else open_ret \<lparr>pipe_ret = 0, cond_ret = 0, mutex_ret = 0, open_ret = - 1,
        recv_create_ret = 0, send_create_ret = 0\<rparr>)"
  by (rule uart_start_buffers) (simp_all add: initial_world_def example_env_def)

text \<open>
  The line settings. For every supported parameter set, the word size, stop bit and parity flags
  that \<open>scorpion_uart_set_params\<close> installs are the requested ones and the speed bits are the requested
  speed; unsupported values and a failing \<open>tcgetattr\<close> are rejected.
\<close>

lemma uart_set_params_flags:
  assumes "scorpion_uart_set_params got params = Some t"
  shows "(databits params = 7 \<and> c_cflag t AND CSIZE = CS7 \<or> databits params = 8 \<and> c_cflag t AND CSIZE = CS8) \<and>
    (stopbits params = 1 \<and> c_cflag t AND CSTOPB = 0 \<or> stopbits params = 2 \<and> c_cflag t AND CSTOPB = CSTOPB) \<and>
    (parity params \<in> {CHR ''n'', CHR ''N''} \<and> c_cflag t AND PARENB = 0 \<and> c_iflag t = 0 \<or>
     parity params \<in> {CHR ''o'', CHR ''O''} \<and> c_cflag t AND (PARENB OR PARODD) = (PARENB OR PARODD) \<and> c_iflag t = INPCK \<or>
     parity params \<in> {CHR ''e'', CHR ''E''} \<and> c_cflag t AND (PARENB OR PARODD) = PARENB \<and> c_iflag t = INPCK) \<and>
    c_cflag t AND CBAUD = bps params AND CBAUD"
proof -
  have d: "(x OR (b AND CBAUD)) AND k = x AND k" if "k AND CBAUD = 0" for x b k :: u32
  proof -
    have "(b AND CBAUD) AND k = b AND (k AND CBAUD)" by (simp only: and.assoc and.commute [of CBAUD])
    then have "(b AND CBAUD) AND k = 0" by (simp only: that and_zero_eq)
    then show ?thesis by (simp add: bit.conj_disj_distrib2)
  qed
  show ?thesis using assms
    by (auto simp: scorpion_uart_set_params_def uart_databits_def uart_stopbits_def uart_parity_def d
        bit.conj_disj_distrib2 and.assoc split: option.splits if_splits)
qed

definition default_termios :: termios where
  "default_termios = \<lparr>c_iflag = 0xFF, c_oflag = 1, c_cflag = 0x1FFF, c_lflag = 7, vmin = 9, vtime = 9,
     vintr = 3, vquit = 4, vstart = 5, vstop = 6, vsusp = 7\<rparr>"

lemma uart_set_params_flags_example:
  "\<exists>t. scorpion_uart_set_params (Some default_termios) termios_params = Some t \<and>
    c_cflag t AND CSIZE = CS8 \<and> c_cflag t AND CSTOPB = 0 \<and> c_cflag t AND PARENB = 0 \<and>
    c_cflag t AND CBAUD = B115200"
proof -
  obtain t where t: "scorpion_uart_set_params (Some default_termios) termios_params = Some t"
    by (simp add: scorpion_uart_set_params_def termios_params_def uart_databits_def uart_stopbits_def
        uart_parity_def)
  from uart_set_params_flags [OF t] show ?thesis using t by (simp add: termios_params_def)
qed

end
