(* ===== verification/Scorpion_Server.thy ===== *)
theory Scorpion_Server
  imports Scorpion_Uart
begin

text \<open>
  The rest of the daemon: the key events of \<open>scorpion_event.c\<close>, the application's socket of
  \<open>scorpion_socket.c\<close>, and the main loop of \<open>scorpion_server.c\<close> with the watchdog of
  \<open>scorpion_protocol_heart_beat.c\<close>. The bodies of the threads are steps on one result of the
  blocking system call.
\<close>

section \<open>Key events\<close>

definition KEYPAD_BASE_CODE :: u32 where
  "KEYPAD_BASE_CODE = 59"

definition EV_KEY :: u16 where
  "EV_KEY = 1"

definition event_protocol_ayalyze ::
  "'a scorpion_env_scheme \<Rightarrow> scorpion_world \<Rightarrow> u16 \<Rightarrow> u32 \<Rightarrow> scorpion_world res" where
  "event_protocol_ayalyze E w code val =
     (let index = ucast code - KEYPAD_BASE_CODE; level = val in scorpion_report_event_in E w index level)"

text \<open>
  One wake-up of the event thread; \<open>len_ok\<close> says whether \<open>read\<close> returned a whole
  \<open>struct input_event\<close>.
\<close>

record event_result =
  ev_ret :: int
  ev_readable :: bool
  ev_pipe :: bool
  len_ok :: bool
  ev_type :: u16
  ev_code :: u16
  ev_value :: u32

definition event_set :: "fd_readset \<Rightarrow> event_result \<Rightarrow> fd_readset" where
  "event_set rs inp =
     (if ev_ret inp = - 1 then rs
      else if ev_ret inp = 0 then \<lparr>has_dev = False, has_pipe = False\<rparr>
      else \<lparr>has_dev = (has_dev rs \<and> ev_readable inp), has_pipe = (has_pipe rs \<and> ev_pipe inp)\<rparr>)"

definition event_step ::
  "'a scorpion_env_scheme \<Rightarrow> scorpion_world \<times> fd_readset \<Rightarrow> event_result \<Rightarrow>
   (scorpion_world \<times> fd_readset \<times> bool) res" where
  "event_step E st inp =
     (case st of (w, rs) \<Rightarrow>
      let rs = event_set rs inp in
      if ev_ret inp = - 1 then Inr (w, rs, True)
      else if ev_ret inp = 0 then Inr (w, rs, False)
      else bnd (if has_dev rs \<and> len_ok inp \<and> ev_type inp = EV_KEY
                then event_protocol_ayalyze E w (ev_code inp) (ev_value inp) else Inr w)
             (\<lambda>w. Inr (w, rs, has_pipe rs)))"

text \<open>The thread: nothing if the device cannot be opened, and otherwise its wake-ups in order.\<close>

fun event_loop ::
  "'a scorpion_env_scheme \<Rightarrow> scorpion_world \<times> fd_readset \<Rightarrow> event_result list \<Rightarrow>
   (scorpion_world \<times> fd_readset \<times> bool) res" where
  "event_loop E (w, rs) [] = Inr (w, rs, False)"
| "event_loop E (w, rs) (inp # inps) =
     bnd (event_step E (w, rs) inp) (\<lambda>(w, rs, ex).
     if ex then Inr (w, rs, True) else event_loop E (w, rs) inps)"

definition event_treat ::
  "'a scorpion_env_scheme \<Rightarrow> scorpion_world \<Rightarrow> int \<Rightarrow> event_result list \<Rightarrow> (scorpion_world \<times> bool) res" where
  "event_treat E w fd inps =
     (if fd < 0 then Inr (w, True)
      else bnd (event_loop E (w, \<lparr>has_dev = True, has_pipe = True\<rparr>) inps) (\<lambda>(w, _, ex). Inr (w, ex)))"

record event_start_env =
  ev_pipe_ret :: int
  ev_cond_ret :: int
  ev_mutex_ret :: int
  ev_create_ret :: int

definition scorpion_event_start_server :: "event_start_env \<Rightarrow> scorpion_world \<Rightarrow> scorpion_world \<times> int" where
  "scorpion_event_start_server S w =
     (if ev_pipe_ret S \<noteq> 0 then (w, ev_pipe_ret S)
      else if ev_cond_ret S \<noteq> 0 then (w, ev_cond_ret S)
      else if ev_mutex_ret S \<noteq> 0 then (w, - 1)
      else if ev_create_ret S \<noteq> 0 then (w, - 1)
      else (w\<lparr>threads := threads w @ [EventTreat]\<rparr>, 0))"

section \<open>The application's socket\<close>

text \<open>
  One pass of the receive thread: \<open>recv\<close> failed (\<open>None\<close>) or returned \<open>d\<close>, at most 256 bytes, at
  the start of the zeroed buffer. What a pass leaves unconsumed is not kept.
\<close>

definition scorpion_socket_recv_step ::
  "'a scorpion_env_scheme \<Rightarrow> scorpion_world \<Rightarrow> bytes option \<Rightarrow> scorpion_world res" where
  "scorpion_socket_recv_step E w r =
     (case r of None \<Rightarrow> Inr w
      | Some d \<Rightarrow>
          bnd (mem_write (replicate MAX_TEMP_BUFF_SIZE 0) 0 d) (\<lambda>buff.
          bnd (scorpion_protocol_ayalyze E w buff (int (length d))) (\<lambda>(w, _). Inr w)))"

fun scorpion_socket_recv_treat ::
  "'a scorpion_env_scheme \<Rightarrow> scorpion_world \<Rightarrow> bytes option list \<Rightarrow> scorpion_world res" where
  "scorpion_socket_recv_treat E w [] = Inr w"
| "scorpion_socket_recv_treat E w (r # rs) =
     bnd (scorpion_socket_recv_step E w r) (\<lambda>w. scorpion_socket_recv_treat E w rs)"

definition MAX_SOCKET_BUFF_SIZE :: u32 where
  "MAX_SOCKET_BUFF_SIZE = 4096"

record socket_start_env =
  control_socket :: int
  listen_ret :: int
  accept_ret :: int
  socket_create_ret :: int
  event_start :: event_start_env
  uart_start :: uart_start_env

definition scorpion_socket_start_server ::
  "'a scorpion_env_scheme \<Rightarrow> socket_start_env \<Rightarrow> scorpion_world \<Rightarrow> (scorpion_world \<times> int) res" where
  "scorpion_socket_start_server E S w =
     (if control_socket S < 0 then Inl (Exit (- 1))
      else if listen_ret S < 0 then Inl (Exit (- 1))
      else if accept_ret S < 0 then Inl (Exit (- 1))
      else bnd (cb_init E (nmalloc w) (socket_read w) MAX_SOCKET_BUFF_SIZE) (\<lambda>(r, ok, k).
      let w = w\<lparr>socket_read := r, nmalloc := k\<rparr> in
      if \<not> ok then Inl (Exit (- 1))
      else bnd (cb_init E (nmalloc w) (socket_write w) MAX_SOCKET_BUFF_SIZE) (\<lambda>(r, ok, k).
      let w = w\<lparr>socket_write := r, nmalloc := k\<rparr> in
      if \<not> ok then Inr (w\<lparr>socket_read := fst (cb_deinit (socket_read w))\<rparr>, - 1)
      else if socket_create_ret S \<noteq> 0 then Inr (w, - 1)
      else let w = w\<lparr>threads := threads w @ [SocketRecv]\<rparr>;
               (w, _) = scorpion_event_start_server (event_start S) w in
      bnd (scorpion_uart_start_server E (uart_start S) w) (\<lambda>(w, _). Inr (w, 0)))))"

section \<open>The main loop\<close>

text \<open>\<open>rets\<close> are the results of \<open>pthread_cond_timedwait\<close>: 0 ends the loop, anything else is a tick.\<close>

fun main_loop :: "'a scorpion_env_scheme \<Rightarrow> scorpion_world \<Rightarrow> int list \<Rightarrow> (scorpion_world \<times> bool) res" where
  "main_loop E w [] = Inr (w, False)"
| "main_loop E w (ret # rets) =
     (if ret = 0 then Inr (w, True)
      else bnd (stm32_send_heart_beat E w) (\<lambda>w.
           bnd (scorpion_heart_beat_treat E w) (\<lambda>w. main_loop E w rets)))"

definition scorpion_main ::
  "'a scorpion_env_scheme \<Rightarrow> socket_start_env \<Rightarrow> scorpion_world \<Rightarrow> int list \<Rightarrow> (scorpion_world \<times> bool) res" where
  "scorpion_main E S w rets =
     bnd (scorpion_socket_start_server E S w) (\<lambda>(w, _).
     bnd (stm32_send_version_req E w) (\<lambda>w. main_loop E w rets))"

section \<open>Properties of the key events\<close>

lemma unat_ucast_code: "unat (ucast (code :: u16) :: u32) = unat code"
proof -
  have "unat code < 2 ^ LENGTH(16)" by (rule unsigned_less)
  then show ?thesis by (simp add: unsigned_ucast_eq take_bit_nat_eq_self)
qed

lemma event_index:
  assumes "59 \<le> unat (code :: u16)" "unat code < 91"
  shows "unat (ucast code - KEYPAD_BASE_CODE :: u32) = unat code - 59"
  using assms unat_ucast_code [of code] by (simp add: KEYPAD_BASE_CODE_def unat_minus_small)

lemma event_frame:
  assumes "59 \<le> unat code" "unat code < 91"
  shows "event_protocol_ayalyze E w code val =
    socket_frame E (scorpion_next w) (header_bytes (scorpion_header w SCORPION2APK_EVENT_IN 4) @
      le16 (ucast (push_bit (unat code - 59) 1 :: u32)) @ le16 (ucast (push_bit (unat code - 59) val)))"
  using assms
  by (simp add: event_protocol_ayalyze_def report_event_in_frame event_index)

text \<open>
  A key event becomes one report with two bit sets. For the sixteen keys from code 59 on, the
  report's channel word has exactly the key's bit, and its level word has that bit exactly when the
  key is pressed.
\<close>

lemma key_event_bits:
  assumes code: "59 \<le> unat code" "unat code < 75" and val: "val = 0 \<or> val = 1"
  shows "\<exists>c l. event_protocol_ayalyze E w code val =
      socket_frame E (scorpion_next w) (header_bytes (scorpion_header w SCORPION2APK_EVENT_IN 4) @ le16 c @ le16 l) \<and>
    bit c = (\<lambda>n. n = unat code - 59) \<and> bit l = (\<lambda>n. val = 1 \<and> n = unat code - 59)"
proof (intro exI conjI)
  let ?i = "unat code - 59"
  have i: "?i < 16" using code by simp
  show "event_protocol_ayalyze E w code val =
      socket_frame E (scorpion_next w) (header_bytes (scorpion_header w SCORPION2APK_EVENT_IN 4) @
        le16 (ucast (push_bit ?i 1 :: u32)) @ le16 (ucast (push_bit ?i val)))"
    using code by (intro event_frame) simp_all
  show "bit (ucast (push_bit ?i 1 :: u32) :: u16) = (\<lambda>n. n = ?i)"
    using i by (auto simp: fun_eq_iff bit_simps)
  show "bit (ucast (push_bit ?i val) :: u16) = (\<lambda>n. val = 1 \<and> n = ?i)"
    using i val by (auto simp: fun_eq_iff bit_simps)
qed

lemma key_event_bits_example:
  "\<exists>c l. event_protocol_ayalyze example_env initial_world 61 1 =
      socket_frame example_env (scorpion_next initial_world)
        (header_bytes (scorpion_header initial_world SCORPION2APK_EVENT_IN 4) @ le16 c @ le16 l) \<and>
    bit c = (\<lambda>n. n = unat (61 :: u16) - 59) \<and> bit l = (\<lambda>n. (1 :: u32) = 1 \<and> n = unat (61 :: u16) - 59)"
  by (rule key_event_bits) simp_all

text \<open>
  Keys outside the keypad's range make the shift undefined: for every key code below 59 or above
  90, the difference to the base code is not a valid shift count.
\<close>

lemma key_event_out_of_range:
  assumes "unat code < 59 \<or> 90 < unat code"
  shows "event_protocol_ayalyze E w code val = Inl (Fault ShiftRange)"
proof -
  note c = unat_ucast_code [of code]
  have "unat code < 2 ^ LENGTH(16)" by (rule unsigned_less)
  then have b: "unat code < 65536" by simp
  have "32 \<le> unat (ucast code - KEYPAD_BASE_CODE :: u32)"
  proof (cases "unat code < 59")
    case True
    then have "unat (ucast code - 59 :: u32) = 2 ^ 32 - (59 - unat code)"
      using c by (simp add: unat_sub_if')
    then show ?thesis using True by (simp add: KEYPAD_BASE_CODE_def)
  next
    case False
    then have "90 < unat code" using assms by simp
    then show ?thesis using c by (simp add: KEYPAD_BASE_CODE_def unat_minus_small)
  qed
  then show ?thesis by (simp add: event_protocol_ayalyze_def report_event_in_shift)
qed

lemma key_event_out_of_range_example:
  "event_protocol_ayalyze example_env initial_world 1 1 = Inl (Fault ShiftRange)"
  by (rule key_event_out_of_range) simp

section \<open>Properties of the socket\<close>

lemma socket_recv_ignored:
  assumes "length d \<le> 256"
    and "\<And>zs. scorpion_ayalyze_loop E w (d @ zs) (int (length d)) = Inr (w, Some n)"
  shows "scorpion_socket_recv_step E w (Some d) = Inr w"
  using assms
  by (simp add: scorpion_socket_recv_step_def MAX_TEMP_BUFF_SIZE_def scorpion_protocol_ayalyze_def overwrite_def)

text \<open>
  A request that \<open>recv\<close> delivers in two parts is lost. The thread analyses each part on its own
  and keeps nothing: wherever a frame is cut, neither part contains a frame, and after both the
  daemon's state is what it was before; so a request whose frame is longer than the 256-byte buffer is
  never served.
\<close>

lemma split_request_lost:
  assumes f: "frame p = xs @ ys" "xs \<noteq> []" "ys \<noteq> []" "length xs \<le> 256" "length ys \<le> 256"
  shows "scorpion_socket_recv_treat E w [Some xs, Some ys] = Inr w"
proof -
  let ?st = "stuff (p @ [xor8 p])"
  obtain xs' where xs: "xs = MAGIC_CHAR # xs'" using f(1,2) by (cases xs) (auto simp: frame_def)
  obtain ys' where ys: "ys = ys' @ [MAGIC_CHAR]"
    using f(1,3) by (cases ys rule: rev_cases) (auto simp: frame_def)
  have "?st = xs' @ ys'" using f(1) xs ys by (simp add: frame_def)
  then have m: "MAGIC_CHAR \<notin> set xs'" "MAGIC_CHAR \<notin> set ys'"
    using stuff_no_magic [of "p @ [xor8 p]"] by auto
  have "scorpion_socket_recv_step E w (Some xs) = Inr w"
    using scorpion_rx.loop_partial [of "[]" xs' E w] m(1) f(4) xs
    by (intro socket_recv_ignored [where n = "int (length xs)"]) (simp_all add: add.commute)
  moreover have "scorpion_socket_recv_step E w (Some ys) = Inr w"
    using scorpion_rx.loop_partial [of ys' "[]" E w] m(2) f(5) ys
    by (intro socket_recv_ignored [where n = 1]) simp_all
  ultimately show ?thesis by simp
qed

lemma split_request_lost_example:
  "scorpion_socket_recv_treat example_env initial_world
     [Some [0x7E, 2, 0], Some (drop 3 (frame (header_bytes (example_header 2 4) @ le32 5)))] = Inr initial_world"
proof (rule split_request_lost)
  let ?p = "header_bytes (example_header 2 4) @ le32 5"
  show "frame ?p = [0x7E, 2, 0] @ drop 3 (frame ?p)"
    by (simp add: frame_def header_bytes_def example_header_def le16_def MAGIC_CHAR_def ESCAPE_CHAR_def)
  show "length (drop 3 (frame ?p)) \<le> 256" "drop 3 (frame ?p) \<noteq> []"
    using frame_length [of ?p] by auto
qed simp_all

text \<open>
  The socket is served before the UART exists. The receive thread is created before the UART's
  start-up; a delay request that arrives in between finds descriptor 0 and no buffer, and the daemon
  dereferences a null pointer.
\<close>

lemma early_request_faults:
  assumes "no_failures E" "msg_id h = APK2SCORPION_DELAY_TIME" "uart_fd w = 0" "ppmngr_write w = None"
    and p: "p = header_bytes h @ le32 delay"
  shows "scorpion_protocol_ayalyze E w (frame p) (int (length (frame p))) = Inl (Fault NullDeref)"
proof -
  obtain nb where nb: "malloc E (nmalloc w) (length (frame p)) = Some nb"
    using no_failures_malloc [OF assms(1)] by blast
  let ?w = "w\<lparr>nmalloc := nmalloc w + 1\<rparr>"
  have l: "8 \<le> length p" "length p \<le> 1000" using p by simp_all
  have "stm32_send_delay_time E ?w delay = Inl (Fault NullDeref)"
  proof -
    let ?h = "stm32_header ?w SYSTEM2MCU_DELAY_TIME 4"
    obtain a x y b where b: "mem_write (stack_struct E 15) 1 (header_bytes ?h) = Inr b"
      "mem_write b 9 (le32 delay) = Inr (a # (header_bytes ?h @ le32 delay) @ [x, y])"
      using struct_body [of "stack_struct E 15" "header_bytes ?h" "le32 delay" 9] by auto
    let ?q = "header_bytes ?h @ le32 delay"
    obtain nb2 where "malloc E (nmalloc w + 1) (2 * (length ?q + 3)) = Some nb2"
      using no_failures_malloc [OF assms(1)] by blast
    then have al: "alloc E (stm32_next ?w) (2 * (length ?q + 3)) =
        (Some nb2, (stm32_next ?w)\<lparr>nmalloc := nmalloc w + 2\<rparr>)"
      by (simp add: alloc_def stm32_next_def)
    from stm32_tx.send_frame [OF al, of a x y] obtain js where
      "stm32_protocol_send_data E (stm32_next ?w) (a # ?q @ [x, y]) (int (length ?q + 3)) =
        bnd (scorpion_uart_send ((stm32_next ?w)\<lparr>nmalloc := nmalloc w + 2\<rparr>) (frame ?q @ js)
          (int (length (frame ?q)))) (\<lambda>(w2, _). Inr (w2, int (length (frame ?q))))" by auto
    then show ?thesis using b assms(3,4)
      by (simp add: stm32_send_delay_time_def scorpion_uart_send_def stm32_next_def del: mem_write_ok)
  qed
  then show ?thesis
    using scorpion_ayalyze_one [OF l(1) frame_small [OF l(2)] nb] assms(2) p
    by (simp add: scorpion_parse_dispatches scorpion_parse_protocol_def header_fields body_of
        scorpion_delay_time_treat_def body_le32 Let_def)
qed

lemma early_request_faults_example:
  "scorpion_protocol_ayalyze example_env initial_world (frame (header_bytes (example_header 9 4) @ le32 5))
     (int (length (frame (header_bytes (example_header 9 4) @ le32 5)))) = Inl (Fault NullDeref)"
  by (rule early_request_faults)
     (simp_all add: no_failures_example, simp_all add: example_header_def initial_world_def)

section \<open>The watchdog\<close>

definition heart_beat_frame :: "u32 \<Rightarrow> bytes" where
  "heart_beat_frame q = frame (header_bytes \<lparr>msg_id = SYSTEM2MCU_HEART_BEAT, msg_len = 0,
     msg_serial_number = ucast q, reserved = 0\<rparr>)"

definition reboot_frame :: "u32 \<Rightarrow> bytes" where
  "reboot_frame q = frame (header_bytes \<lparr>msg_id = SYSTEM2MCU_REBOOT, msg_len = 0,
     msg_serial_number = ucast q, reserved = 0\<rparr>)"

lemma bare_frame_length:
  "length (heart_beat_frame q) \<le> 20" "length (reboot_frame q) \<le> 20"
  using frame_length [of "header_bytes _"] by (simp_all add: heart_beat_frame_def reboot_frame_def)

lemma heart_beat_sent:
  assumes "uart_ready w" "no_failures E" "20 \<le> uart_room w"
  shows "\<exists>w'. stm32_send_heart_beat E w = Inr w' \<and> uart_ready w' \<and> uart_room w - 20 \<le> uart_room w' \<and>
    uart_pending w' = uart_pending w @ heart_beat_frame (stm32_seq w) \<and> stm32_seq w' = stm32_seq w + 1 \<and>
    scorpion_heart_beat_count w' = scorpion_heart_beat_count w \<and>
    scorpion_heart_beat_threhold w' = scorpion_heart_beat_threhold w"
proof -
  let ?p = "header_bytes (stm32_header w SYSTEM2MCU_HEART_BEAT 0)"
  obtain w' where w': "stm32_send_heart_beat E w = Inr w'" "uart_frame_sent E (stm32_next w) ?p w'"
    using stm32_send_heart_beat_ok [OF assms(1)] by blast
  have f: "frame ?p = heart_beat_frame (stm32_seq w)" by (simp add: heart_beat_frame_def stm32_header_def)
  then have "length (frame ?p) \<le> uart_room w" using bare_frame_length(1) [of "stm32_seq w"] assms(3) by simp
  moreover have "malloc E (nmalloc (stm32_next w)) (2 * (length ?p + 3)) \<noteq> None"
    using no_failures_malloc [OF assms(2)] by simp
  ultimately have "uart_room w' = uart_room w - length (frame ?p)"
    using w'(2) by (simp add: uart_frame_sent_def)
  then show ?thesis
    using frame_sent_ok [OF w'(2) assms(2)] w'(1) f bare_frame_length(1) [of "stm32_seq w"] assms(3)
    by auto
qed

lemma reboot_sent:
  assumes "uart_ready w" "no_failures E" "20 \<le> uart_room w"
  shows "\<exists>w'. scorpion_reboot E w = Inr w' \<and>
    uart_pending w' = uart_pending w @ reboot_frame (stm32_seq w)"
proof -
  let ?p = "header_bytes (stm32_header w SYSTEM2MCU_REBOOT 0)"
  obtain w' where w': "stm32_send_reboot E w = Inr w'" "uart_frame_sent E (stm32_next w) ?p w'"
    using stm32_send_reboot_ok [OF assms(1)] by blast
  have f: "frame ?p = reboot_frame (stm32_seq w)" by (simp add: reboot_frame_def stm32_header_def)
  then show ?thesis
    using frame_sent_ok [OF w'(2) assms(2)] w'(1) bare_frame_length(2) [of "stm32_seq w"] assms(3)
    by (auto simp: scorpion_reboot_def)
qed

text \<open>One tick while the counter is below the threshold, and the tick that finds it there.\<close>

lemma uart_count_update [simp]:
  "uart_ready (w\<lparr>scorpion_heart_beat_count := c\<rparr>) = uart_ready w"
  "uart_pending (w\<lparr>scorpion_heart_beat_count := c\<rparr>) = uart_pending w"
  "uart_room (w\<lparr>scorpion_heart_beat_count := c\<rparr>) = uart_room w"
  by (simp_all add: uart_ready_def uart_pending_def uart_room_def)

lemma tick_below:
  assumes r: "uart_ready w" "no_failures E" "20 \<le> uart_room w"
    and c: "unat (scorpion_heart_beat_count w) < unat (scorpion_heart_beat_threhold w)"
  shows "\<exists>w'. bnd (stm32_send_heart_beat E w) (scorpion_heart_beat_treat E) = Inr w' \<and> uart_ready w' \<and>
    uart_room w - 20 \<le> uart_room w' \<and> uart_pending w' = uart_pending w @ heart_beat_frame (stm32_seq w) \<and>
    stm32_seq w' = stm32_seq w + 1 \<and>
    unat (scorpion_heart_beat_count w') = unat (scorpion_heart_beat_count w) + 1 \<and>
    scorpion_heart_beat_threhold w' = scorpion_heart_beat_threhold w"
proof -
  obtain w1 where w1: "stm32_send_heart_beat E w = Inr w1" "uart_ready w1" "uart_room w - 20 \<le> uart_room w1"
    "uart_pending w1 = uart_pending w @ heart_beat_frame (stm32_seq w)" "stm32_seq w1 = stm32_seq w + 1"
    "scorpion_heart_beat_count w1 = scorpion_heart_beat_count w"
    "scorpion_heart_beat_threhold w1 = scorpion_heart_beat_threhold w"
    using heart_beat_sent [OF r] by blast
  have "unat (scorpion_heart_beat_threhold w) < 2 ^ LENGTH(32)" by (rule unsigned_less)
  then have u: "unat (scorpion_heart_beat_count w + 1) = unat (scorpion_heart_beat_count w) + 1"
    using c by (simp add: unat_plus_small)
  then have "\<not> scorpion_heart_beat_threhold w < scorpion_heart_beat_count w + 1"
    using c by (simp add: word_less_nat_alt)
  then show ?thesis using w1 u by (simp add: scorpion_heart_beat_treat_def Let_def)
qed

lemma tick_at_threshold:
  assumes r: "uart_ready w" "no_failures E" "40 \<le> uart_room w"
    and c: "scorpion_heart_beat_count w = scorpion_heart_beat_threhold w"
      "unat (scorpion_heart_beat_threhold w) < 2 ^ 31"
  shows "\<exists>w'. bnd (stm32_send_heart_beat E w) (scorpion_heart_beat_treat E) = Inr w' \<and>
    uart_pending w' = uart_pending w @ heart_beat_frame (stm32_seq w) @ reboot_frame (stm32_seq w + 1)"
proof -
  obtain w1 where w1: "stm32_send_heart_beat E w = Inr w1" "uart_ready w1" "uart_room w - 20 \<le> uart_room w1"
    "uart_pending w1 = uart_pending w @ heart_beat_frame (stm32_seq w)" "stm32_seq w1 = stm32_seq w + 1"
    "scorpion_heart_beat_count w1 = scorpion_heart_beat_count w"
    "scorpion_heart_beat_threhold w1 = scorpion_heart_beat_threhold w"
    using heart_beat_sent [of w E] r by auto
  let ?w = "w1\<lparr>scorpion_heart_beat_count := scorpion_heart_beat_count w1 + 1\<rparr>"
  have "scorpion_heart_beat_threhold w < scorpion_heart_beat_threhold w + 1"
    using c(2) by (simp add: word_less_nat_alt unat_plus_small)
  then show ?thesis
    using w1 reboot_sent [of ?w E] r c(1) by (auto simp: scorpion_heart_beat_treat_def Let_def)
qed

lemma main_loop_quiet:
  assumes "uart_ready w" "no_failures E" "20 * length rets \<le> uart_room w" "list_all (\<lambda>r. r \<noteq> 0) rets"
    "unat (scorpion_heart_beat_count w) + length rets \<le> unat (scorpion_heart_beat_threhold w)"
  shows "\<exists>w'. (\<forall>rs. main_loop E w (rets @ rs) = main_loop E w' rs) \<and> uart_ready w' \<and>
    uart_room w - 20 * length rets \<le> uart_room w' \<and>
    uart_pending w' = uart_pending w @
      concat (map (\<lambda>i. heart_beat_frame (stm32_seq w + of_nat i)) [0..<length rets]) \<and>
    stm32_seq w' = stm32_seq w + of_nat (length rets) \<and>
    unat (scorpion_heart_beat_count w') = unat (scorpion_heart_beat_count w) + length rets \<and>
    scorpion_heart_beat_threhold w' = scorpion_heart_beat_threhold w"
  using assms
proof (induction rets arbitrary: w)
  case (Cons ret rets)
  obtain w1 where w1: "bnd (stm32_send_heart_beat E w) (scorpion_heart_beat_treat E) = Inr w1"
    "uart_ready w1" "uart_room w - 20 \<le> uart_room w1"
    "uart_pending w1 = uart_pending w @ heart_beat_frame (stm32_seq w)" "stm32_seq w1 = stm32_seq w + 1"
    "unat (scorpion_heart_beat_count w1) = unat (scorpion_heart_beat_count w) + 1"
    "scorpion_heart_beat_threhold w1 = scorpion_heart_beat_threhold w"
    using tick_below [of w E] Cons.prems by auto
  have step: "main_loop E w (ret # rs) = main_loop E w1 rs" for rs
    using w1(1) Cons.prems(4) by auto
  have m: "map (\<lambda>i. heart_beat_frame (stm32_seq w + of_nat i)) [0..<length (ret # rets)] =
      heart_beat_frame (stm32_seq w) # map (\<lambda>i. heart_beat_frame (stm32_seq w1 + of_nat i)) [0..<length rets]"
    by (simp add: upt_rec [of 0] map_Suc_upt [symmetric] w1(5) add.assoc del: upt_Suc)
  have room: "20 * length rets \<le> uart_room w1" using Cons.prems(3) w1(3) by simp
  obtain w2 where w2: "\<forall>rs. main_loop E w1 (rets @ rs) = main_loop E w2 rs" "uart_ready w2"
    "uart_room w1 - 20 * length rets \<le> uart_room w2"
    "uart_pending w2 = uart_pending w1 @
      concat (map (\<lambda>i. heart_beat_frame (stm32_seq w1 + of_nat i)) [0..<length rets])"
    "stm32_seq w2 = stm32_seq w1 + of_nat (length rets)"
    "unat (scorpion_heart_beat_count w2) = unat (scorpion_heart_beat_count w1) + length rets"
    "scorpion_heart_beat_threhold w2 = scorpion_heart_beat_threhold w1"
    using Cons.IH [OF w1(2) Cons.prems(2) room] Cons.prems(4,5) w1(6,7) by auto
  show ?case
  proof (intro exI conjI allI)
    show "main_loop E w ((ret # rets) @ rs) = main_loop E w2 rs" for rs using step w2(1) by simp
    show "uart_pending w2 = uart_pending w @
        concat (map (\<lambda>i. heart_beat_frame (stm32_seq w + of_nat i)) [0..<length (ret # rets)])"
      unfolding m using w1(4) w2(4) by simp
  qed (use w1 w2 in auto)
qed (auto intro!: exI)

text \<open>
  C4. The watchdog fires after the threshold and not before. From a counter of zero, without a heart
  beat of the application, the first \<open>t\<close> ticks of the main loop send one heart beat each to the STM32
  and nothing else; the next tick sends a heart beat and then the reboot request.
\<close>

theorem watchdog_reboots:
  assumes "uart_ready w" "no_failures E" "scorpion_heart_beat_count w = 0"
    "scorpion_heart_beat_threhold w = of_nat t" "20 * (t + 2) \<le> uart_room w" "t < 2 ^ 31"
    "list_all (\<lambda>r. r \<noteq> 0) rets" "length rets = t" "r \<noteq> 0"
  shows "(\<exists>w'. main_loop E w rets = Inr (w', False) \<and> uart_pending w' = uart_pending w @
        concat (map (\<lambda>i. heart_beat_frame (stm32_seq w + of_nat i)) [0..<t])) \<and>
    (\<exists>w'. main_loop E w (rets @ [r]) = Inr (w', False) \<and> uart_pending w' = uart_pending w @
        concat (map (\<lambda>i. heart_beat_frame (stm32_seq w + of_nat i)) [0..<t]) @
        heart_beat_frame (stm32_seq w + of_nat t) @ reboot_frame (stm32_seq w + of_nat t + 1))"
proof -
  have u: "unat (scorpion_heart_beat_threhold w) = t" using assms(4,6) by (simp add: unat_of_nat_small)
  obtain w1 where w1: "\<forall>rs. main_loop E w (rets @ rs) = main_loop E w1 rs" "uart_ready w1"
    "uart_room w - 20 * t \<le> uart_room w1"
    "uart_pending w1 = uart_pending w @ concat (map (\<lambda>i. heart_beat_frame (stm32_seq w + of_nat i)) [0..<t])"
    "stm32_seq w1 = stm32_seq w + of_nat t" "unat (scorpion_heart_beat_count w1) = t"
    "scorpion_heart_beat_threhold w1 = of_nat t"
    using main_loop_quiet [OF assms(1,2) _ assms(7)] assms(3-5,8) u by auto
  have "scorpion_heart_beat_count w1 = of_nat t" using w1(6) by auto
  moreover have "40 \<le> uart_room w1" using w1(3) assms(5) by simp
  ultimately obtain w2 where "bnd (stm32_send_heart_beat E w1) (scorpion_heart_beat_treat E) = Inr w2"
    "uart_pending w2 = uart_pending w1 @ heart_beat_frame (stm32_seq w1) @ reboot_frame (stm32_seq w1 + 1)"
    using tick_at_threshold [OF w1(2) assms(2)] w1(7) assms(4,6) u by auto
  then show ?thesis using w1 assms(9) spec [OF w1(1), of "[]"] spec [OF w1(1), of "[r]"] by auto
qed

theorem watchdog_reboots_witness:
  "(\<exists>w'. main_loop example_env (example_world\<lparr>scorpion_heart_beat_threhold := of_nat 2\<rparr>) [110, 110] = Inr (w', False) \<and>
      uart_pending w' = uart_pending (example_world\<lparr>scorpion_heart_beat_threhold := of_nat 2\<rparr>) @
        concat (map (\<lambda>i. heart_beat_frame (stm32_seq (example_world\<lparr>scorpion_heart_beat_threhold := of_nat 2\<rparr>) + of_nat i)) [0..<2])) \<and>
   (\<exists>w'. main_loop example_env (example_world\<lparr>scorpion_heart_beat_threhold := of_nat 2\<rparr>) ([110, 110] @ [110]) = Inr (w', False) \<and>
      uart_pending w' = uart_pending (example_world\<lparr>scorpion_heart_beat_threhold := of_nat 2\<rparr>) @
        concat (map (\<lambda>i. heart_beat_frame (stm32_seq (example_world\<lparr>scorpion_heart_beat_threhold := of_nat 2\<rparr>) + of_nat i)) [0..<2]) @
        heart_beat_frame (stm32_seq (example_world\<lparr>scorpion_heart_beat_threhold := of_nat 2\<rparr>) + of_nat 2) @
        reboot_frame (stm32_seq (example_world\<lparr>scorpion_heart_beat_threhold := of_nat 2\<rparr>) + of_nat 2 + 1))"
proof (rule watchdog_reboots)
  show "uart_ready (example_world\<lparr>scorpion_heart_beat_threhold := of_nat 2\<rparr>)"
    using example_world_facts(1) by (simp add: uart_ready_def)
  show "20 * (2 + 2) \<le> uart_room (example_world\<lparr>scorpion_heart_beat_threhold := of_nat 2\<rparr>)"
    using example_world_facts(2) by (simp add: uart_room_def)
qed (simp_all add: no_failures_example, simp add: example_world_def initial_world_def)

text \<open>
  Start-up. When the socket, the locks and the threads are created and memory does not run out,
  the daemon starts its threads in the order socket, events, UART receive, UART send, sets up all four
  circular buffers, and returns 0; the UART is then ready, with all of its room free.
\<close>

lemma socket_start_ready:
  assumes "0 \<le> control_socket S" "0 \<le> listen_ret S" "0 \<le> accept_ret S" "socket_create_ret S = 0"
    "event_start S = \<lparr>ev_pipe_ret = 0, ev_cond_ret = 0, ev_mutex_ret = 0, ev_create_ret = 0\<rparr>"
    "uart_start S = \<lparr>pipe_ret = 0, cond_ret = 0, mutex_ret = 0, open_ret = fd, recv_create_ret = 0, send_create_ret = 0\<rparr>"
    "no_failures E" "0 \<le> fd"
  shows "\<exists>w. scorpion_socket_start_server E S initial_world = Inr (w, 0) \<and> uart_ready w \<and>
    uart_pending w = [] \<and> uart_room w = 2048 \<and> ppmngr_read w = Some (cb_new 2048) \<and>
    threads w = [SocketRecv, EventTreat, UartRecv, UartSend]"
  using assms
  by (simp add: scorpion_socket_start_server_def scorpion_event_start_server_def
      scorpion_uart_start_server_def scorpion_uart_create_def cb_init_def malloc_def
      MAX_SOCKET_BUFF_SIZE_def MAX_UART_BUFF_SIZE_def no_failures_def initial_world_def Let_def
      uart_ready_def uart_pending_def uart_room_def cb_new_def cb_inv_def cb_list_def cb_cap_def
      map_replicate_const)

lemma socket_start_ready_example:
  "\<exists>w. scorpion_socket_start_server example_env
      \<lparr>control_socket = 3, listen_ret = 0, accept_ret = 4, socket_create_ret = 0,
       event_start = \<lparr>ev_pipe_ret = 0, ev_cond_ret = 0, ev_mutex_ret = 0, ev_create_ret = 0\<rparr>,
       uart_start = \<lparr>pipe_ret = 0, cond_ret = 0, mutex_ret = 0, open_ret = 5, recv_create_ret = 0,
         send_create_ret = 0\<rparr>\<rparr> initial_world = Inr (w, 0) \<and> uart_ready w \<and>
    uart_pending w = [] \<and> uart_room w = 2048 \<and> ppmngr_read w = Some (cb_new 2048) \<and>
    threads w = [SocketRecv, EventTreat, UartRecv, UartSend]"
  by (rule socket_start_ready [where fd = 5]) (simp_all add: no_failures_example)

end
