(* ===== verification/Scorpion_Stop.thy ===== *)
theory Scorpion_Stop
  imports Scorpion_Server
begin

text \<open>
  Stopping the servers of the daemon: \<open>scorpion_uart_stop_server\<close> of \<open>src/external/scorpion/scorpion_uart.c\<close>,
  \<open>stop_event_server\<close> of \<open>scorpion_event.c\<close> and \<open>scorpion_socket_stop_server\<close> of \<open>scorpion_socket.c\<close>. The
  lemmas show when the two that join their threads come back, what they leave open, and that the thread of
  the socket is not stopped at all.
\<close>

section \<open>State\<close>

text \<open>
  The descriptors and thread numbers that the servers keep, the descriptors open in the process, and the
  condition variables and mutexes that have been destroyed. \<open>uart_watch\<close> and \<open>event_watch\<close> are the descriptor
  sets with which the receive thread and the event thread wait in \<open>select\<close>, and \<open>send_waiting\<close> says that the
  send thread has started and waits for its condition.
\<close>

datatype sync_object = UartCond | UartMutex | EventCond | EventMutex | SocketCond | SocketLock

record daemon_fds =
  uart_device :: int
  uart_pipe :: "int \<times> int"
  recv_thread_id :: int
  send_thread_id :: int
  send_thread_exit :: bool
  event_pipe :: "int \<times> int"
  event_thread_id :: int
  socket_thread_id :: int
  socket_client_fd :: int
  socket_server_fd :: int
  open_fds :: "int list"
  destroyed :: "sync_object list"
  uart_watch :: fd_readset
  event_watch :: fd_readset
  send_waiting :: bool

definition close_fd :: "int \<Rightarrow> daemon_fds \<Rightarrow> daemon_fds" where
  "close_fd fd d = d\<lparr>open_fds := removeAll fd (open_fds d)\<rparr>"

definition destroy :: "sync_object \<Rightarrow> daemon_fds \<Rightarrow> daemon_fds" where
  "destroy x d = d\<lparr>destroyed := destroyed d @ [x]\<rparr>"

text \<open>
  \<open>pthread_join\<close> waits for the thread. A thread that waits in \<open>select\<close> ends after a byte has been written to
  its pipe if it watches the pipe; otherwise nothing that the stop function does wakes it. The send thread
  ends when it looks at the flag after its wait; if it has not started, it first clears the flag.
\<close>

definition join_watching :: "fd_readset \<Rightarrow> daemon_fds \<Rightarrow> daemon_fds res" where
  "join_watching rs d = (if has_pipe rs then Inr d else Inl (Fault Deadlock))"

definition join_send :: "daemon_fds \<Rightarrow> daemon_fds res" where
  "join_send d = (if send_waiting d \<and> send_thread_exit d then Inr d else Inl (Fault Deadlock))"

section \<open>The stop functions\<close>

definition scorpion_uart_stop_server :: "daemon_fds \<Rightarrow> daemon_fds res" where
  "scorpion_uart_stop_server d =
     bnd (join_watching (uart_watch d) d) (\<lambda>d.
     bnd (join_send (d\<lparr>send_thread_exit := True\<rparr>)) (\<lambda>d.
     let d = close_fd (fst (uart_pipe d)) d;
         d = close_fd (snd (uart_pipe d)) d;
         d = close_fd (recv_thread_id d) d;
         d = close_fd (send_thread_id d) d
     in Inr (destroy UartMutex (destroy UartCond d))))"

definition stop_event_server :: "daemon_fds \<Rightarrow> daemon_fds res" where
  "stop_event_server d =
     bnd (join_watching (event_watch d) d) (\<lambda>d.
     let d = close_fd (fst (event_pipe d)) d;
         d = close_fd (snd (event_pipe d)) d;
         d = close_fd (event_thread_id d) d
     in Inr (destroy EventMutex (destroy EventCond d)))"

definition scorpion_socket_stop_server :: "daemon_fds \<Rightarrow> daemon_fds" where
  "scorpion_socket_stop_server d =
     (let d = close_fd (socket_thread_id d) d;
          d = close_fd (socket_client_fd d) d;
          d = close_fd (socket_server_fd d) d
      in destroy SocketLock (destroy SocketCond d))"

section \<open>What stopping does\<close>

text \<open>
  A thread that waits in \<open>select\<close> with its pipe in the set does end when the pipe becomes readable, and one
  without does not: the two cases of \<open>join_watching\<close>, for the models of the two threads.
\<close>

lemma join_watching_uart:
  assumes "sel_ret inp > 0" "\<not> dev_readable inp" "pipe_readable inp"
  shows "\<exists>rs'. scorpion_uart_recv_step E (w, rs) inp = Inr (w, rs', has_pipe rs)"
  using assms by (simp add: scorpion_uart_recv_step_def select_set_def)

lemma join_watching_event:
  assumes "ev_ret inp > 0" "\<not> ev_readable inp" "ev_pipe inp"
  shows "\<exists>rs'. event_step E (w, rs) inp = Inr (w, rs', has_pipe rs)"
  using assms by (simp add: event_step_def event_set_def)

text \<open>
  Stopping the UART server ends exactly when the receive thread still watches the pipe and the send thread has
  started. It closes the pipe, and as descriptors also the numbers of the two threads; the UART device stays
  open, unless its descriptor happens to be one of these numbers.
\<close>

lemma removeAll_filter: "removeAll x xs = filter (\<lambda>y. y \<noteq> x) xs"
  by (induction xs) auto

lemma uart_stop_result:
  "scorpion_uart_stop_server d =
     (if has_pipe (uart_watch d) \<and> send_waiting d
      then Inr (d\<lparr>send_thread_exit := True,
        open_fds := filter (\<lambda>fd. fd \<notin> {fst (uart_pipe d), snd (uart_pipe d), recv_thread_id d, send_thread_id d}) (open_fds d),
        destroyed := destroyed d @ [UartCond, UartMutex]\<rparr>)
      else Inl (Fault Deadlock))"
  by (simp add: scorpion_uart_stop_server_def join_watching_def join_send_def close_fd_def destroy_def Let_def
      removeAll_filter conj_commute conj_left_commute)

lemma uart_device_stays_open:
  assumes "scorpion_uart_stop_server d = Inr d'" "uart_device d \<in> set (open_fds d)"
    and "uart_device d \<notin> {fst (uart_pipe d), snd (uart_pipe d), recv_thread_id d, send_thread_id d}"
  shows "uart_device d \<in> set (open_fds d')"
  using assms by (auto simp: uart_stop_result split: if_splits)

text \<open>
  After the data-only wake-up that makes the receive thread forget its pipe, stopping the server hangs.
\<close>

lemma uart_stop_hangs:
  assumes "sel_ret inp > 0" "\<not> pipe_readable inp" "read_ret inp > 0"
    and "scorpion_uart_recv_step E (w, rs) inp = Inr (w', rs', ex)"
  shows "scorpion_uart_stop_server (d\<lparr>uart_watch := rs'\<rparr>) = Inl (Fault Deadlock)"
  using assms
  by (auto simp: uart_stop_result scorpion_uart_recv_step_def select_set_def Let_def split: if_splits)

text \<open>
  Stopping the socket server does not stop its thread: every later \<open>recv\<close> fails on the closed descriptor, and
  the thread goes on calling it.
\<close>

lemma socket_stop_result:
  "socket_client_fd d \<notin> set (open_fds (scorpion_socket_stop_server d))"
  by (simp add: scorpion_socket_stop_server_def close_fd_def destroy_def Let_def)

lemma socket_thread_spins: "scorpion_socket_recv_treat E w (replicate n None) = Inr w"
  by (induction n) (simp_all add: scorpion_socket_recv_step_def)

end
