(* ===== verification/Fleety_Kernel.thy ===== *)
theory Fleety_Kernel
  imports X300_Prelude
begin

text \<open>
  The state that the three \<open>fleety\<close> kernel drivers share, the kernel services they use, and the two
  functions through which the GPIO and key drivers report to the spider driver
  (\<open>fleety_set_gpo_map\<close> and \<open>fleety_set_gpi_map\<close> of \<open>fleety_spider.c\<close>).

  A driver object is the memory that its probe function allocates; it is \<open>None\<close> before the allocation
  and after it is freed. Whether a driver can be reached through its platform device is a flag of its
  own, because an object can be freed while a pointer to it remains. A semaphore is its count; in this
  sequential model a \<open>down\<close> on a semaphore that nobody will release is the fault \<open>Deadlock\<close>. What the
  drivers make the hardware and the rest of the kernel do is the list \<open>klog\<close>, in order.
\<close>

section \<open>State\<close>

record fleety_gpio =
  gpio_dir :: s32
  gpio_index :: s32
  gpio_level :: s32
  gpio_state :: s32
  gpio_name :: "string option"

record fleety_leds =
  leds_version :: s32
  led_gpio :: "fleety_gpio list"
  leds_sem :: nat

record fleety_spider =
  spider_version :: s32
  heart_beat :: u32
  app_ready :: u32
  touch_en :: u32
  gpo_map :: u32
  gpi_map :: u32
  debug_on :: u32
  spider_sem :: nat

datatype kevent =
    GpioRequest s32 "string option"
  | GpioDirectionOutput s32 s32
  | GpioSetValue s32 s32
  | GpioFree s32
  | Mdelay nat
  | GtpTouchEnable s32
  | AddTimer nat
  | ScheduleWork nat
  | InputEvent u32 u32 s32
  | InputSync
  | StayAwake
  | Relax
  | WakeupEvent
  | DisableIrq u32
  | EnableIrq u32
  | FreeIrq u32
  | RequestIrq u32 bool
  | InputSetCapability u32 u32
  | EnableIrqWake u32
  | DisableIrqWake u32
  | PinctrlSelect bool
  | PdataDisable
  | NodeWrite string string

record kworld =
  leds_mem :: "fleety_leds option"
  leds_drvdata :: bool
  spider_mem :: "fleety_spider option"
  spider_drvdata :: bool
  spider_timer :: bool
  ndown :: nat
  klog :: "kevent list"

text \<open>
  The services: \<open>strict_strtoul\<close> with base 0 (\<open>None\<close> for a negative result), whether the \<open>k\<close>-th
  \<open>down_interruptible\<close> is interrupted by a signal, and the results of the GPIO library.
\<close>

record kenv =
  strict_strtoul :: "string \<Rightarrow> nat option"
  interrupted :: "nat \<Rightarrow> bool"
  gpio_is_valid :: "s32 \<Rightarrow> bool"
  gpio_request_res :: "s32 \<Rightarrow> int"
  gpio_output_res :: "s32 \<Rightarrow> int"
  gpio_value :: "s32 \<Rightarrow> s32"

definition EPERM :: int where "EPERM = 1"
definition ENOMEM :: int where "ENOMEM = 12"
definition EFAULT :: int where "EFAULT = 14"
definition ENODEV :: int where "ENODEV = 19"
definition EINVAL :: int where "EINVAL = 22"
definition ERESTARTSYS :: int where "ERESTARTSYS = 512"
definition EPROBE_DEFER :: int where "EPROBE_DEFER = 517"

abbreviation say :: "kevent list \<Rightarrow> kworld \<Rightarrow> kworld" where
  "say es w \<equiv> w\<lparr>klog := klog w @ es\<rparr>"

section \<open>Semaphores and driver objects\<close>

definition live :: "'a option \<Rightarrow> 'a res" where
  "live p = (case p of None \<Rightarrow> Inl (Fault UseAfterFree) | Some x \<Rightarrow> Inr x)"

lemma live_simps [simp]: "live None = Inl (Fault UseAfterFree)" "live (Some x) = Inr x"
  by (simp_all add: live_def)

lemma live_eq_Inr [simp]: "live p = Inr x \<longleftrightarrow> p = Some x"
  by (cases p) auto

text \<open>The pointer that \<open>platform_get_drvdata\<close> and \<open>dev_get_drvdata\<close> return must not be NULL.\<close>

definition drvdata :: "bool \<Rightarrow> unit res" where
  "drvdata set_already = (if set_already then Inr () else Inl (Fault NullDeref))"

lemma drvdata_simps [simp]: "drvdata True = Inr ()" "drvdata False = Inl (Fault NullDeref)"
  by (simp_all add: drvdata_def)

text \<open>
  \<open>down_interruptible\<close> on the semaphore of the object that the driver data points to (the flag says
  whether it was interrupted), and \<open>up\<close>. Every caller fetches the driver data first and uses it here for
  the first time.
\<close>

definition down_leds :: "'e kenv_scheme \<Rightarrow> kworld \<Rightarrow> (kworld \<times> bool) res" where
  "down_leds E w =
     bnd (drvdata (leds_drvdata w)) (\<lambda>_.
     bnd (live (leds_mem w)) (\<lambda>d.
     if interrupted E (ndown w) then Inr (w\<lparr>ndown := ndown w + 1\<rparr>, True)
     else if leds_sem d = 0 then Inl (Fault Deadlock)
     else Inr (w\<lparr>ndown := ndown w + 1, leds_mem := Some (d\<lparr>leds_sem := leds_sem d - 1\<rparr>)\<rparr>, False)))"

definition up_leds :: "kworld \<Rightarrow> kworld res" where
  "up_leds w = bnd (live (leds_mem w)) (\<lambda>d.
     Inr (w\<lparr>leds_mem := Some (d\<lparr>leds_sem := leds_sem d + 1\<rparr>)\<rparr>))"

definition down_spider :: "'e kenv_scheme \<Rightarrow> kworld \<Rightarrow> (kworld \<times> bool) res" where
  "down_spider E w =
     bnd (drvdata (spider_drvdata w)) (\<lambda>_.
     bnd (live (spider_mem w)) (\<lambda>d.
     if interrupted E (ndown w) then Inr (w\<lparr>ndown := ndown w + 1\<rparr>, True)
     else if spider_sem d = 0 then Inl (Fault Deadlock)
     else Inr (w\<lparr>ndown := ndown w + 1, spider_mem := Some (d\<lparr>spider_sem := spider_sem d - 1\<rparr>)\<rparr>, False)))"

definition up_spider :: "kworld \<Rightarrow> kworld res" where
  "up_spider w = bnd (live (spider_mem w)) (\<lambda>d.
     Inr (w\<lparr>spider_mem := Some (d\<lparr>spider_sem := spider_sem d + 1\<rparr>)\<rparr>))"

section \<open>The maps of the spider driver\<close>

text \<open>\<open>0x01 << index\<close> with a negative index, or one of 32 or more, is not defined.\<close>

definition set_map_bit :: "u32 \<Rightarrow> u32 \<Rightarrow> s32 \<Rightarrow> u32" where
  "set_map_bit m b level = (if level \<noteq> 0 then m OR b else m AND NOT b)"

definition fleety_set_gpo_map :: "'e kenv_scheme \<Rightarrow> kworld \<Rightarrow> s32 \<Rightarrow> s32 \<Rightarrow> (kworld \<times> int) res" where
  "fleety_set_gpo_map E w index level =
     bnd (down_spider E w) (\<lambda>(w, intr).
     if intr then Inr (w, - ERESTARTSYS)
     else
       bnd (shl32 1 index) (\<lambda>b.
       bnd (live (spider_mem w)) (\<lambda>d.
       bnd (up_spider (w\<lparr>spider_mem := Some (d\<lparr>gpo_map := set_map_bit (gpo_map d) b level\<rparr>)\<rparr>)) (\<lambda>w.
       Inr (w, 0)))))"

definition fleety_set_gpi_map :: "'e kenv_scheme \<Rightarrow> kworld \<Rightarrow> s32 \<Rightarrow> s32 \<Rightarrow> (kworld \<times> int) res" where
  "fleety_set_gpi_map E w index level =
     bnd (down_spider E w) (\<lambda>(w, intr).
     if intr then Inr (w, - ERESTARTSYS)
     else
       bnd (shl32 1 index) (\<lambda>b.
       bnd (live (spider_mem w)) (\<lambda>d.
       bnd (up_spider (w\<lparr>spider_mem := Some (d\<lparr>gpi_map := set_map_bit (gpi_map d) b level\<rparr>)\<rparr>)) (\<lambda>w.
       Inr (w, 0)))))"

section \<open>Lemmas\<close>

definition spider_ready :: "kworld \<Rightarrow> bool" where
  "spider_ready w \<longleftrightarrow> spider_drvdata w \<and> (\<exists>d. spider_mem w = Some d \<and> spider_sem d = 1)"

text \<open>The spider object of a world in which it exists.\<close>

definition spider_of :: "kworld \<Rightarrow> fleety_spider" where
  "spider_of w = (case spider_mem w of Some d \<Rightarrow> d | None \<Rightarrow>
     \<lparr>spider_version = 0, heart_beat = 0, app_ready = 0, touch_en = 0, gpo_map = 0, gpi_map = 0,
      debug_on = 0, spider_sem = 0\<rparr>)"

lemma spider_of_Some: "spider_mem w = Some d \<Longrightarrow> spider_of w = d"
  by (simp add: spider_of_def)

lemma spider_readyD: "spider_ready w \<Longrightarrow> spider_drvdata w \<and> spider_mem w = Some (spider_of w) \<and> spider_sem (spider_of w) = 1"
  by (auto simp: spider_ready_def spider_of_def)

definition put_spider :: "fleety_spider \<Rightarrow> kworld \<Rightarrow> kworld" where
  "put_spider d w = w\<lparr>spider_mem := Some d, ndown := ndown w + 1\<rparr>"

lemma set_gpo_map_ok:
  assumes "spider_ready w" "unat i < 32" "\<not> interrupted E (ndown w)"
  shows "fleety_set_gpo_map E w i level =
    Inr (put_spider (spider_of w\<lparr>gpo_map := set_map_bit (gpo_map (spider_of w)) (2 ^ unat i) level\<rparr>) w, 0)"
  using spider_readyD [OF assms(1)] assms(2,3)
  by (simp add: fleety_set_gpo_map_def down_spider_def up_spider_def shl32_def put_spider_def)

lemma set_gpi_map_ok:
  assumes "spider_ready w" "unat i < 32" "\<not> interrupted E (ndown w)"
  shows "fleety_set_gpi_map E w i level =
    Inr (put_spider (spider_of w\<lparr>gpi_map := set_map_bit (gpi_map (spider_of w)) (2 ^ unat i) level\<rparr>) w, 0)"
  using spider_readyD [OF assms(1)] assms(2,3)
  by (simp add: fleety_set_gpi_map_def down_spider_def up_spider_def shl32_def put_spider_def)

lemma bit_set_map_bit:
  "n < 32 \<Longrightarrow> k < 32 \<Longrightarrow> bit (set_map_bit m (2 ^ n) level) k = (if k = n then level \<noteq> 0 else bit m k)"
  by (auto simp: set_map_bit_def bit_simps)

lemma put_spider_simps [simp]:
  "spider_of (put_spider d w) = d" "leds_mem (put_spider d w) = leds_mem w"
  "leds_drvdata (put_spider d w) = leds_drvdata w" "klog (put_spider d w) = klog w"
  "spider_ready (put_spider d w) = (spider_drvdata w \<and> spider_sem d = 1)"
  by (simp_all add: put_spider_def spider_of_def spider_ready_def)

text \<open>The level that the last output operation of a log left on a pin.\<close>

fun driven :: "kevent list \<Rightarrow> s32 \<Rightarrow> s32 option" where
  "driven [] pin = None"
| "driven (e # es) pin =
     (case driven es pin of Some v \<Rightarrow> Some v
      | None \<Rightarrow> (case e of GpioSetValue p v \<Rightarrow> if p = pin then Some v else None
          | GpioDirectionOutput p v \<Rightarrow> if p = pin then Some v else None
          | _ \<Rightarrow> None))"

lemma driven_append: "driven (xs @ ys) pin = (case driven ys pin of Some v \<Rightarrow> Some v | None \<Rightarrow> driven xs pin)"
  by (induction xs) (auto split: option.splits)

section \<open>The contract of a sysfs node\<close>

text \<open>
  A node that holds one number: storing a text that is a number makes it the value and reports the whole
  text as written; showing it prints the value. \<open>strtoul_reads\<close> is what the kernel documents of
  \<open>strict_strtoul\<close> for a decimal text that ends in a newline, and \<open>strtoul_rejects\<close> that it takes no sign.
\<close>

definition strtoul_reads :: "'e kenv_scheme \<Rightarrow> bool" where
  "strtoul_reads E \<longleftrightarrow> (\<forall>n < 2 ^ 31. strict_strtoul E (decimal n @ newline) = Some n)"

definition strtoul_rejects :: "'e kenv_scheme \<Rightarrow> bool" where
  "strtoul_rejects E \<longleftrightarrow> (\<forall>s. strict_strtoul E (CHR ''-'' # s) = None)"

definition no_signals :: "'e kenv_scheme \<Rightarrow> bool" where
  "no_signals E \<longleftrightarrow> (\<forall>k. \<not> interrupted E k)"

locale sysfs_node =
  fixes E :: "'e kenv_scheme"
    and ready :: "kworld \<Rightarrow> bool"
    and node_show :: "kworld \<Rightarrow> (kworld \<times> int \<times> string) res"
    and node_store :: "kworld \<Rightarrow> string \<Rightarrow> int \<Rightarrow> (kworld \<times> int) res"
    and node_value :: "kworld \<Rightarrow> s32"
  assumes store_ok: "ready w \<Longrightarrow> strict_strtoul E buf = Some v \<Longrightarrow>
      \<exists>w'. node_store w buf n = Inr (w', n) \<and> ready w' \<and> node_value w' = of_nat v"
    and show_ok: "ready w \<Longrightarrow> s = print_int (sint (node_value w)) @ newline \<Longrightarrow>
      \<exists>w'. node_show w = Inr (w', int (length s), s) \<and> ready w' \<and> node_value w' = node_value w"
begin

text \<open>Storing the decimal text of a number that is not negative stores the number.\<close>

lemma store_number:
  assumes "ready w" "strtoul_reads E" "0 \<le> sint v"
  shows "\<exists>w'. node_store w (print_int (sint v) @ newline) n = Inr (w', n) \<and> ready w' \<and> node_value w' = v"
proof -
  have u: "unat v < 2 ^ 31" using unat_sint_nonneg [OF assms(3)] by simp
  have "print_int (sint v) = decimal (unat v)" using sint_small [OF u] by (simp add: print_int_def)
  then have "strict_strtoul E (print_int (sint v) @ newline) = Some (unat v)"
    using assms(2) u by (simp add: strtoul_reads_def)
  from store_ok [OF assms(1) this, of n] show ?thesis by simp
qed

lemma show_number:
  "ready w \<Longrightarrow> \<exists>w' s. node_show w = Inr (w', int (length s), s) \<and> ready w' \<and> node_value w' = node_value w \<and>
     atoi s = sint (node_value w) \<and> s = print_int (sint (node_value w)) @ newline"
  using show_ok [OF _ refl] atoi_print_int by fastforce

end

end
