(* ===== verification/Fleety_Leds.thy ===== *)
theory Fleety_Leds
  imports Fleety_Kernel
begin

text \<open>
  The GPIO output driver (\<open>src/kernel/drivers/fleety/leds/fleety_leds.c\<close>): the table of the seventeen
  outputs, its sysfs attributes, the functions it exports to other drivers, and its probe and remove
  functions. The lemmas show that the cached level of every output is the level last driven on its pin,
  that a value that is stored is driven and shown, and what the probe function sets up.
\<close>

section \<open>Outputs\<close>

abbreviation (input) OUTPUT1_RELAY_GPIO_INDEX :: nat where "OUTPUT1_RELAY_GPIO_INDEX \<equiv> 0"
abbreviation (input) OUTPUT2_RELAY_GPIO_INDEX :: nat where "OUTPUT2_RELAY_GPIO_INDEX \<equiv> 1"
abbreviation (input) OUTPUT3_RELAY_GPIO_INDEX :: nat where "OUTPUT3_RELAY_GPIO_INDEX \<equiv> 2"
abbreviation (input) OUTPUT4_RELAY_GPIO_INDEX :: nat where "OUTPUT4_RELAY_GPIO_INDEX \<equiv> 3"
abbreviation (input) AMP_STB_GPIO_INDEX :: nat where "AMP_STB_GPIO_INDEX \<equiv> 4"
abbreviation (input) AMP_MUTE_GPIO_INDEX :: nat where "AMP_MUTE_GPIO_INDEX \<equiv> 5"
abbreviation (input) OTG_ID_GPIO_INDEX :: nat where "OTG_ID_GPIO_INDEX \<equiv> 6"
abbreviation (input) OTG_SWITCH_GPIO_INDEX :: nat where "OTG_SWITCH_GPIO_INDEX \<equiv> 7"
abbreviation (input) USB2ETH_RST_GPIO_INDEX :: nat where "USB2ETH_RST_GPIO_INDEX \<equiv> 8"
abbreviation (input) USBHUB_RST_GPIO_INDEX :: nat where "USBHUB_RST_GPIO_INDEX \<equiv> 9"
abbreviation (input) STM32_RST_GPIO_INDEX :: nat where "STM32_RST_GPIO_INDEX \<equiv> 10"
abbreviation (input) CAMERA_POWER_GPIO_INDEX :: nat where "CAMERA_POWER_GPIO_INDEX \<equiv> 11"
abbreviation (input) TACHOGRAPH_POWER_GPIO_INDEX :: nat where "TACHOGRAPH_POWER_GPIO_INDEX \<equiv> 12"
abbreviation (input) EX_POWER_GPIO_INDEX :: nat where "EX_POWER_GPIO_INDEX \<equiv> 13"
abbreviation (input) FINGER_POWER_GPIO_INDEX :: nat where "FINGER_POWER_GPIO_INDEX \<equiv> 14"
abbreviation (input) TSM_POWER_GPIO_INDEX :: nat where "TSM_POWER_GPIO_INDEX \<equiv> 15"
abbreviation (input) FAN_POWER_GPIO_INDEX :: nat where "FAN_POWER_GPIO_INDEX \<equiv> 16"
abbreviation (input) FLEETY_GPIO_MAX :: nat where "FLEETY_GPIO_MAX \<equiv> 17"

definition led_at :: "kworld \<Rightarrow> nat \<Rightarrow> fleety_gpio res" where
  "led_at w i = bnd (live (leds_mem w)) (\<lambda>d.
     if i < length (led_gpio d) then Inr (led_gpio d ! i) else Inl (Fault OutOfBounds))"

definition put_led :: "kworld \<Rightarrow> nat \<Rightarrow> fleety_gpio \<Rightarrow> kworld res" where
  "put_led w i g = bnd (live (leds_mem w)) (\<lambda>d.
     if i < length (led_gpio d) then Inr (w\<lparr>leds_mem := Some (d\<lparr>led_gpio := (led_gpio d)[i := g]\<rparr>)\<rparr>)
     else Inl (Fault OutOfBounds))"

text \<open>The assignment to \<open>led_gpio[i].level\<close>, and \<open>gpio_set_value\<close> on \<open>led_gpio[i].index\<close>.\<close>

definition set_led_level :: "kworld \<Rightarrow> nat \<Rightarrow> s32 \<Rightarrow> kworld res" where
  "set_led_level w i v = bnd (led_at w i) (\<lambda>g. put_led w i (g\<lparr>gpio_level := v\<rparr>))"

definition set_led_pin :: "kworld \<Rightarrow> nat \<Rightarrow> s32 \<Rightarrow> kworld res" where
  "set_led_pin w i v = bnd (led_at w i) (\<lambda>g. Inr (say [GpioSetValue (gpio_index g) v] w))"

section \<open>Attributes\<close>

text \<open>A show function returns the length of the text it puts into the buffer, and the text.\<close>

definition fleety_leds_gpio_show_treat ::
  "'e kenv_scheme \<Rightarrow> kworld \<Rightarrow> nat \<Rightarrow> (kworld \<times> int \<times> string) res" where
  "fleety_leds_gpio_show_treat E w index =
     bnd (down_leds E w) (\<lambda>(w, intr).
     if intr then Inr (w, - ERESTARTSYS, [])
     else
       bnd (led_at w index) (\<lambda>g. let buf = print_int (sint (gpio_level g)) @ newline in
       bnd (up_leds w) (\<lambda>w. Inr (w, int (length buf), buf))))"

definition fleety_leds_gpio_store_treat ::
  "'e kenv_scheme \<Rightarrow> kworld \<Rightarrow> string \<Rightarrow> nat \<Rightarrow> (kworld \<times> int) res" where
  "fleety_leds_gpio_store_treat E w buf index =
     (case strict_strtoul E buf of
        None \<Rightarrow> Inr (w, - EPERM)
      | Some val \<Rightarrow>
          bnd (down_leds E w) (\<lambda>(w, intr).
          if intr then Inr (w, - ERESTARTSYS)
          else
            bnd (set_led_level w index (of_nat val)) (\<lambda>w.
            bnd (set_led_pin w index (of_nat val)) (\<lambda>w.
            bnd (up_leds w) (\<lambda>w. Inr (w, 0))))))"

definition output1_relay_on_show :: "'e kenv_scheme \<Rightarrow> kworld \<Rightarrow> (kworld \<times> int \<times> string) res" where
  "output1_relay_on_show E w = fleety_leds_gpio_show_treat E w OUTPUT1_RELAY_GPIO_INDEX"

definition output1_relay_on_store :: "'e kenv_scheme \<Rightarrow> kworld \<Rightarrow> string \<Rightarrow> int \<Rightarrow> (kworld \<times> int) res" where
  "output1_relay_on_store E w buf count =
     bnd (fleety_leds_gpio_store_treat E w buf OUTPUT1_RELAY_GPIO_INDEX) (\<lambda>(w, _). Inr (w, count))"

definition output2_relay_on_show :: "'e kenv_scheme \<Rightarrow> kworld \<Rightarrow> (kworld \<times> int \<times> string) res" where
  "output2_relay_on_show E w = fleety_leds_gpio_show_treat E w OUTPUT2_RELAY_GPIO_INDEX"

definition output2_relay_on_store :: "'e kenv_scheme \<Rightarrow> kworld \<Rightarrow> string \<Rightarrow> int \<Rightarrow> (kworld \<times> int) res" where
  "output2_relay_on_store E w buf count =
     bnd (fleety_leds_gpio_store_treat E w buf OUTPUT2_RELAY_GPIO_INDEX) (\<lambda>(w, _). Inr (w, count))"

definition output3_relay_on_show :: "'e kenv_scheme \<Rightarrow> kworld \<Rightarrow> (kworld \<times> int \<times> string) res" where
  "output3_relay_on_show E w = fleety_leds_gpio_show_treat E w OUTPUT3_RELAY_GPIO_INDEX"

definition output3_relay_on_store :: "'e kenv_scheme \<Rightarrow> kworld \<Rightarrow> string \<Rightarrow> int \<Rightarrow> (kworld \<times> int) res" where
  "output3_relay_on_store E w buf count =
     bnd (fleety_leds_gpio_store_treat E w buf OUTPUT3_RELAY_GPIO_INDEX) (\<lambda>(w, _). Inr (w, count))"

definition output4_relay_on_show :: "'e kenv_scheme \<Rightarrow> kworld \<Rightarrow> (kworld \<times> int \<times> string) res" where
  "output4_relay_on_show E w = fleety_leds_gpio_show_treat E w OUTPUT4_RELAY_GPIO_INDEX"

definition output4_relay_on_store :: "'e kenv_scheme \<Rightarrow> kworld \<Rightarrow> string \<Rightarrow> int \<Rightarrow> (kworld \<times> int) res" where
  "output4_relay_on_store E w buf count =
     bnd (fleety_leds_gpio_store_treat E w buf OUTPUT4_RELAY_GPIO_INDEX) (\<lambda>(w, _). Inr (w, count))"

definition amp_stb_on_show :: "'e kenv_scheme \<Rightarrow> kworld \<Rightarrow> (kworld \<times> int \<times> string) res" where
  "amp_stb_on_show E w = fleety_leds_gpio_show_treat E w AMP_STB_GPIO_INDEX"

definition amp_stb_on_store :: "'e kenv_scheme \<Rightarrow> kworld \<Rightarrow> string \<Rightarrow> int \<Rightarrow> (kworld \<times> int) res" where
  "amp_stb_on_store E w buf count =
     bnd (fleety_leds_gpio_store_treat E w buf AMP_STB_GPIO_INDEX) (\<lambda>(w, _). Inr (w, count))"

definition amp_mute_on_show :: "'e kenv_scheme \<Rightarrow> kworld \<Rightarrow> (kworld \<times> int \<times> string) res" where
  "amp_mute_on_show E w = fleety_leds_gpio_show_treat E w AMP_MUTE_GPIO_INDEX"

definition amp_mute_on_store :: "'e kenv_scheme \<Rightarrow> kworld \<Rightarrow> string \<Rightarrow> int \<Rightarrow> (kworld \<times> int) res" where
  "amp_mute_on_store E w buf count =
     bnd (fleety_leds_gpio_store_treat E w buf AMP_MUTE_GPIO_INDEX) (\<lambda>(w, _). Inr (w, count))"

definition otg_switch_on_show :: "'e kenv_scheme \<Rightarrow> kworld \<Rightarrow> (kworld \<times> int \<times> string) res" where
  "otg_switch_on_show E w = fleety_leds_gpio_show_treat E w OTG_SWITCH_GPIO_INDEX"

definition otg_switch_on_store :: "'e kenv_scheme \<Rightarrow> kworld \<Rightarrow> string \<Rightarrow> int \<Rightarrow> (kworld \<times> int) res" where
  "otg_switch_on_store E w buf count =
     bnd (fleety_leds_gpio_store_treat E w buf OTG_SWITCH_GPIO_INDEX) (\<lambda>(w, _).
     bnd (fleety_leds_gpio_store_treat E w buf OTG_ID_GPIO_INDEX) (\<lambda>(w, _). Inr (w, count)))"

definition usb2eth_rst_on_show :: "'e kenv_scheme \<Rightarrow> kworld \<Rightarrow> (kworld \<times> int \<times> string) res" where
  "usb2eth_rst_on_show E w = fleety_leds_gpio_show_treat E w USB2ETH_RST_GPIO_INDEX"

definition usb2eth_rst_on_store :: "'e kenv_scheme \<Rightarrow> kworld \<Rightarrow> string \<Rightarrow> int \<Rightarrow> (kworld \<times> int) res" where
  "usb2eth_rst_on_store E w buf count =
     bnd (fleety_leds_gpio_store_treat E w buf USB2ETH_RST_GPIO_INDEX) (\<lambda>(w, _). Inr (w, count))"

definition usbhub_rst_on_show :: "'e kenv_scheme \<Rightarrow> kworld \<Rightarrow> (kworld \<times> int \<times> string) res" where
  "usbhub_rst_on_show E w = fleety_leds_gpio_show_treat E w USBHUB_RST_GPIO_INDEX"

definition usbhub_rst_on_store :: "'e kenv_scheme \<Rightarrow> kworld \<Rightarrow> string \<Rightarrow> int \<Rightarrow> (kworld \<times> int) res" where
  "usbhub_rst_on_store E w buf count =
     bnd (fleety_leds_gpio_store_treat E w buf USBHUB_RST_GPIO_INDEX) (\<lambda>(w, _). Inr (w, count))"

definition stm32_rst_on_show :: "'e kenv_scheme \<Rightarrow> kworld \<Rightarrow> (kworld \<times> int \<times> string) res" where
  "stm32_rst_on_show E w = fleety_leds_gpio_show_treat E w STM32_RST_GPIO_INDEX"

definition stm32_rst_on_store :: "'e kenv_scheme \<Rightarrow> kworld \<Rightarrow> string \<Rightarrow> int \<Rightarrow> (kworld \<times> int) res" where
  "stm32_rst_on_store E w buf count =
     bnd (fleety_leds_gpio_store_treat E w buf STM32_RST_GPIO_INDEX) (\<lambda>(w, _). Inr (w, count))"

definition camera_power_on_show :: "'e kenv_scheme \<Rightarrow> kworld \<Rightarrow> (kworld \<times> int \<times> string) res" where
  "camera_power_on_show E w = fleety_leds_gpio_show_treat E w CAMERA_POWER_GPIO_INDEX"

definition camera_power_on_store :: "'e kenv_scheme \<Rightarrow> kworld \<Rightarrow> string \<Rightarrow> int \<Rightarrow> (kworld \<times> int) res" where
  "camera_power_on_store E w buf count =
     bnd (fleety_leds_gpio_store_treat E w buf CAMERA_POWER_GPIO_INDEX) (\<lambda>(w, _). Inr (w, count))"

definition tachograph_power_on_show :: "'e kenv_scheme \<Rightarrow> kworld \<Rightarrow> (kworld \<times> int \<times> string) res" where
  "tachograph_power_on_show E w = fleety_leds_gpio_show_treat E w TACHOGRAPH_POWER_GPIO_INDEX"

definition tachograph_power_on_store :: "'e kenv_scheme \<Rightarrow> kworld \<Rightarrow> string \<Rightarrow> int \<Rightarrow> (kworld \<times> int) res" where
  "tachograph_power_on_store E w buf count =
     bnd (fleety_leds_gpio_store_treat E w buf TACHOGRAPH_POWER_GPIO_INDEX) (\<lambda>(w, _). Inr (w, count))"

definition ex_power_on_show :: "'e kenv_scheme \<Rightarrow> kworld \<Rightarrow> (kworld \<times> int \<times> string) res" where
  "ex_power_on_show E w = fleety_leds_gpio_show_treat E w EX_POWER_GPIO_INDEX"

definition ex_power_on_store :: "'e kenv_scheme \<Rightarrow> kworld \<Rightarrow> string \<Rightarrow> int \<Rightarrow> (kworld \<times> int) res" where
  "ex_power_on_store E w buf count =
     bnd (fleety_leds_gpio_store_treat E w buf EX_POWER_GPIO_INDEX) (\<lambda>(w, _). Inr (w, count))"

definition finger_power_on_show :: "'e kenv_scheme \<Rightarrow> kworld \<Rightarrow> (kworld \<times> int \<times> string) res" where
  "finger_power_on_show E w = fleety_leds_gpio_show_treat E w FINGER_POWER_GPIO_INDEX"

definition finger_power_on_store :: "'e kenv_scheme \<Rightarrow> kworld \<Rightarrow> string \<Rightarrow> int \<Rightarrow> (kworld \<times> int) res" where
  "finger_power_on_store E w buf count =
     bnd (fleety_leds_gpio_store_treat E w buf FINGER_POWER_GPIO_INDEX) (\<lambda>(w, _). Inr (w, count))"

definition tsm_power_on_show :: "'e kenv_scheme \<Rightarrow> kworld \<Rightarrow> (kworld \<times> int \<times> string) res" where
  "tsm_power_on_show E w = fleety_leds_gpio_show_treat E w TSM_POWER_GPIO_INDEX"

definition tsm_power_on_store :: "'e kenv_scheme \<Rightarrow> kworld \<Rightarrow> string \<Rightarrow> int \<Rightarrow> (kworld \<times> int) res" where
  "tsm_power_on_store E w buf count =
     bnd (fleety_leds_gpio_store_treat E w buf TSM_POWER_GPIO_INDEX) (\<lambda>(w, _). Inr (w, count))"

definition fan_power_on_show :: "'e kenv_scheme \<Rightarrow> kworld \<Rightarrow> (kworld \<times> int \<times> string) res" where
  "fan_power_on_show E w = fleety_leds_gpio_show_treat E w FAN_POWER_GPIO_INDEX"

definition fan_power_on_store :: "'e kenv_scheme \<Rightarrow> kworld \<Rightarrow> string \<Rightarrow> int \<Rightarrow> (kworld \<times> int) res" where
  "fan_power_on_store E w buf count =
     bnd (fleety_leds_gpio_store_treat E w buf FAN_POWER_GPIO_INDEX) (\<lambda>(w, _). Inr (w, count))"

definition fleety_leds_device_attributes ::
  "'e kenv_scheme \<Rightarrow> (string \<times> (kworld \<Rightarrow> (kworld \<times> int \<times> string) res) \<times>
     (kworld \<Rightarrow> string \<Rightarrow> int \<Rightarrow> (kworld \<times> int) res)) list" where
  "fleety_leds_device_attributes E =
     [(''output1_relay'', output1_relay_on_show E, output1_relay_on_store E),
      (''output2_relay'', output2_relay_on_show E, output2_relay_on_store E),
      (''output3_relay'', output3_relay_on_show E, output3_relay_on_store E),
      (''output4_relay'', output4_relay_on_show E, output4_relay_on_store E),
      (''amp_stb'', amp_stb_on_show E, amp_stb_on_store E),
      (''amp_mute'', amp_mute_on_show E, amp_mute_on_store E),
      (''otg_switch'', otg_switch_on_show E, otg_switch_on_store E),
      (''usb2eth_rst'', usb2eth_rst_on_show E, usb2eth_rst_on_store E),
      (''usbhub_rst'', usbhub_rst_on_show E, usbhub_rst_on_store E),
      (''stm32_rst'', stm32_rst_on_show E, stm32_rst_on_store E),
      (''camera_power'', camera_power_on_show E, camera_power_on_store E),
      (''tachograph_power'', tachograph_power_on_show E, tachograph_power_on_store E),
      (''ex_power'', ex_power_on_show E, ex_power_on_store E),
      (''finger_power'', finger_power_on_show E, finger_power_on_store E),
      (''tsm_power'', tsm_power_on_show E, tsm_power_on_store E),
      (''fan_power'', fan_power_on_show E, fan_power_on_store E)]"

section \<open>Functions for other drivers\<close>

definition fleety_usb_switch :: "'e kenv_scheme \<Rightarrow> kworld \<Rightarrow> bool \<Rightarrow> (kworld \<times> int) res" where
  "fleety_usb_switch E w host =
     bnd (down_leds E w) (\<lambda>(w, intr).
     if intr then Inr (w, - ERESTARTSYS)
     else let level = (if host then 1 else 0) in
       bnd (set_led_level w OTG_ID_GPIO_INDEX level) (\<lambda>w.
       bnd (set_led_level w OTG_SWITCH_GPIO_INDEX level) (\<lambda>w.
       bnd (set_led_pin w OTG_ID_GPIO_INDEX level) (\<lambda>w.
       bnd (set_led_pin w OTG_SWITCH_GPIO_INDEX level) (\<lambda>w.
       bnd (up_leds w) (\<lambda>w. Inr (w, 0)))))))"

definition fleety_usbhub_reset :: "'e kenv_scheme \<Rightarrow> kworld \<Rightarrow> (kworld \<times> int) res" where
  "fleety_usbhub_reset E w =
     bnd (down_leds E w) (\<lambda>(w, intr).
     if intr then Inr (w, - ERESTARTSYS)
     else
       bnd (set_led_level w USBHUB_RST_GPIO_INDEX 0) (\<lambda>w.
       bnd (set_led_pin w USBHUB_RST_GPIO_INDEX 0) (\<lambda>w.
       bnd (set_led_level (say [Mdelay 200] w) USBHUB_RST_GPIO_INDEX 1) (\<lambda>w.
       bnd (set_led_pin w USBHUB_RST_GPIO_INDEX 1) (\<lambda>w.
       bnd (up_leds w) (\<lambda>w. Inr (w, 0)))))))"

definition fleety_usb2eth_reset :: "'e kenv_scheme \<Rightarrow> kworld \<Rightarrow> (kworld \<times> int) res" where
  "fleety_usb2eth_reset E w =
     bnd (down_leds E w) (\<lambda>(w, intr).
     if intr then Inr (w, - ERESTARTSYS)
     else
       bnd (set_led_level w USB2ETH_RST_GPIO_INDEX 0) (\<lambda>w.
       bnd (set_led_pin w USB2ETH_RST_GPIO_INDEX 0) (\<lambda>w.
       bnd (set_led_level (say [Mdelay 200] w) USB2ETH_RST_GPIO_INDEX 1) (\<lambda>w.
       bnd (set_led_pin w USB2ETH_RST_GPIO_INDEX 1) (\<lambda>w.
       bnd (up_leds w) (\<lambda>w. Inr (w, 0)))))))"

definition fleety_amp_standby :: "'e kenv_scheme \<Rightarrow> kworld \<Rightarrow> s32 \<Rightarrow> (kworld \<times> int) res" where
  "fleety_amp_standby E w on =
     bnd (down_leds E w) (\<lambda>(w, intr).
     if intr then Inr (w, - ERESTARTSYS)
     else
       bnd (set_led_level w AMP_STB_GPIO_INDEX on) (\<lambda>w.
       bnd (set_led_pin w AMP_STB_GPIO_INDEX on) (\<lambda>w.
       bnd (up_leds w) (\<lambda>w. Inr (w, 0)))))"

definition fleety_amp_mute :: "'e kenv_scheme \<Rightarrow> kworld \<Rightarrow> s32 \<Rightarrow> (kworld \<times> int) res" where
  "fleety_amp_mute E w on =
     bnd (down_leds E w) (\<lambda>(w, intr).
     if intr then Inr (w, - ERESTARTSYS)
     else
       bnd (set_led_level w AMP_MUTE_GPIO_INDEX on) (\<lambda>w.
       bnd (set_led_pin w AMP_MUTE_GPIO_INDEX on) (\<lambda>w.
       bnd (up_leds w) (\<lambda>w. Inr (w, 0)))))"

section \<open>Probe and remove\<close>

text \<open>
  The children of the device tree node: the result of \<open>of_get_gpio_flags\<close> and the properties that the
  driver reads; and the results of the calls that the probe function makes.
\<close>

record of_led =
  of_gpio :: s32
  of_label :: "string option"
  of_node_name :: string
  of_default_state :: "string option"

record leds_probe_env =
  leds_kzalloc :: bool
  leds_children :: "of_led list"
  leds_class_err :: int
  leds_device_err :: int

definition zero_gpio :: fleety_gpio where
  "zero_gpio = \<lparr>gpio_dir = 0, gpio_index = 0, gpio_level = 0, gpio_state = 0, gpio_name = None\<rparr>"

fun fill_of_leds :: "kworld \<Rightarrow> nat \<Rightarrow> of_led list \<Rightarrow> kworld res" where
  "fill_of_leds w index [] = Inr w"
| "fill_of_leds w index (child # rest) =
     bnd (led_at w index) (\<lambda>g.
     bnd (put_led w index (g\<lparr>
       gpio_index := of_gpio child + 911,
       gpio_level := (if of_default_state child = Some ''on'' then 1 else 0),
       gpio_dir := 1,
       gpio_name := (case of_label child of Some l \<Rightarrow> Some l | None \<Rightarrow> Some (of_node_name child))\<rparr>)) (\<lambda>w.
     fill_of_leds w (index + 1) rest))"

definition fleety_leds_create_of :: "kworld \<Rightarrow> of_led list \<Rightarrow> (kworld \<times> int) res" where
  "fleety_leds_create_of w children =
     (if children = [] \<or> length children > FLEETY_GPIO_MAX then Inr (w, - ENODEV)
      else if list_ex (\<lambda>child. sint (of_gpio child) = - EPROBE_DEFER) children then Inr (w, - EPROBE_DEFER)
      else bnd (fill_of_leds w 0 children) (\<lambda>w. Inr (w, 0)))"

text \<open>\<open>BUG\<close> stops the kernel. The result of \<open>fleety_set_gpo_map\<close> is not looked at.\<close>

fun configure_loop :: "'e kenv_scheme \<Rightarrow> kworld \<Rightarrow> nat list \<Rightarrow> kworld res" where
  "configure_loop E w [] = Inr w"
| "configure_loop E w (i # is) =
     bnd (led_at w i) (\<lambda>g.
     if gpio_is_valid E (gpio_index g) then
       if gpio_request_res E (gpio_index g) \<noteq> 0 then Inl (Fault KernelBug)
       else if gpio_output_res E (gpio_index g) \<noteq> 0 then Inl (Fault KernelBug)
       else
         bnd (fleety_set_gpo_map E
           (say [GpioRequest (gpio_index g) (gpio_name g),
                 GpioDirectionOutput (gpio_index g) (gpio_level g)] w) (of_nat i) (gpio_level g)) (\<lambda>(w, _).
         configure_loop E w is)
     else configure_loop E w is)"

definition fleety_leds_gpio_configure :: "'e kenv_scheme \<Rightarrow> kworld \<Rightarrow> kworld res" where
  "fleety_leds_gpio_configure E w = configure_loop E w [0..<FLEETY_GPIO_MAX]"

definition leds_table :: "(nat \<times> s32 \<times> string \<times> s32) list" where
  "leds_table =
     [(OUTPUT1_RELAY_GPIO_INDEX, 1002, ''relay1-gpio'', 0),
      (OUTPUT2_RELAY_GPIO_INDEX, 1003, ''relay2-gpio'', 0),
      (OUTPUT3_RELAY_GPIO_INDEX, 1008, ''relay3-gpio'', 0),
      (OUTPUT4_RELAY_GPIO_INDEX, 942, ''relay4-gpio'', 0),
      (AMP_STB_GPIO_INDEX, 937, ''amp-stb'', 1),
      (AMP_MUTE_GPIO_INDEX, 913, ''amp-mute'', 1),
      (OTG_ID_GPIO_INDEX, 914, ''otg-id'', 0),
      (OTG_SWITCH_GPIO_INDEX, 943, ''otg-switch'', 0),
      (USB2ETH_RST_GPIO_INDEX, 933, ''usb2eth-rst'', 1),
      (USBHUB_RST_GPIO_INDEX, 947, ''usbhub-rst'', 1),
      (STM32_RST_GPIO_INDEX, 1004, ''stm32-rst'', 1),
      (CAMERA_POWER_GPIO_INDEX, 980, ''camera-power'', 1),
      (TACHOGRAPH_POWER_GPIO_INDEX, 1007, ''tachograph-power'', 1),
      (EX_POWER_GPIO_INDEX, 1010, ''ex-power'', 0),
      (FINGER_POWER_GPIO_INDEX, 1023, ''finger-power'', 0),
      (TSM_POWER_GPIO_INDEX, 934, ''tsm-power'', 0),
      (FAN_POWER_GPIO_INDEX, 919, ''fan-power'', 0)]"

fun assign_leds :: "kworld \<Rightarrow> (nat \<times> s32 \<times> string \<times> s32) list \<Rightarrow> kworld res" where
  "assign_leds w [] = Inr w"
| "assign_leds w ((i, pin, name, level) # rest) =
     bnd (led_at w i) (\<lambda>g.
     bnd (put_led w i (g\<lparr>gpio_index := pin, gpio_name := Some name, gpio_level := level, gpio_dir := 1\<rparr>)) (\<lambda>w.
     assign_leds w rest))"

definition fleety_leds_probe :: "'e kenv_scheme \<Rightarrow> leds_probe_env \<Rightarrow> kworld \<Rightarrow> (kworld \<times> int) res" where
  "fleety_leds_probe E P w =
     (if \<not> leds_kzalloc P then Inr (w, - ENOMEM)
      else
        let w = w\<lparr>leds_mem := Some \<lparr>leds_version = 0, led_gpio = replicate FLEETY_GPIO_MAX zero_gpio,
                    leds_sem = 1\<rparr>\<rparr> in
        bnd (fleety_leds_create_of w (leds_children P)) (\<lambda>(w, _).
        bnd (assign_leds w leds_table) (\<lambda>w.
        bnd (live (leds_mem w)) (\<lambda>d.
        bnd (fleety_leds_gpio_configure E (w\<lparr>leds_mem := Some (d\<lparr>leds_version := 1\<rparr>)\<rparr>)) (\<lambda>w.
        if leds_class_err P \<noteq> 0 then Inr (w\<lparr>leds_mem := None\<rparr>, leds_class_err P)
        else if leds_device_err P \<noteq> 0 then Inr (w\<lparr>leds_mem := None\<rparr>, leds_device_err P)
        else Inr (w\<lparr>leds_drvdata := True\<rparr>, 0))))))"

definition fleety_leds_remove :: "kworld \<Rightarrow> kworld \<times> int" where
  "fleety_leds_remove w = (w\<lparr>leds_mem := None\<rparr>, 0)"

section \<open>Shape and levels\<close>

definition leds_pins :: "s32 list" where
  "leds_pins = map (fst \<circ> snd) leds_table"

text \<open>The driver object is in place and every output has its pin; and the count of its semaphore.\<close>

definition leds_ok :: "kworld \<Rightarrow> bool" where
  "leds_ok w \<longleftrightarrow> leds_drvdata w \<and> (\<exists>d. leds_mem w = Some d \<and> map gpio_index (led_gpio d) = leds_pins)"

definition leds_count :: "kworld \<Rightarrow> nat" where
  "leds_count w = (case leds_mem w of Some d \<Rightarrow> leds_sem d | None \<Rightarrow> 0)"

definition led_level :: "kworld \<Rightarrow> nat \<Rightarrow> s32" where
  "led_level w i = (case leds_mem w of Some d \<Rightarrow> gpio_level (led_gpio d ! i) | None \<Rightarrow> 0)"

definition put_level :: "nat \<Rightarrow> s32 \<Rightarrow> kworld \<Rightarrow> kworld" where
  "put_level i v w = w\<lparr>leds_mem := map_option (\<lambda>d.
     d\<lparr>led_gpio := (led_gpio d)[i := (led_gpio d ! i)\<lparr>gpio_level := v\<rparr>]\<rparr>) (leds_mem w)\<rparr>"

definition put_sem :: "nat \<Rightarrow> kworld \<Rightarrow> kworld" where
  "put_sem k w = w\<lparr>leds_mem := map_option (\<lambda>d. d\<lparr>leds_sem := k\<rparr>) (leds_mem w)\<rparr>"

abbreviation count_down :: "kworld \<Rightarrow> kworld" where
  "count_down w \<equiv> w\<lparr>ndown := ndown w + 1\<rparr>"

text \<open>What none of the operations of this driver touches.\<close>

definition same_spider :: "kworld \<Rightarrow> kworld \<Rightarrow> bool" where
  "same_spider w w' \<longleftrightarrow> spider_mem w' = spider_mem w \<and> spider_drvdata w' = spider_drvdata w \<and>
     spider_timer w' = spider_timer w"

named_theorems leds_rules

lemma length_leds_pins [simp]: "length leds_pins = 17"
  by (simp add: leds_pins_def leds_table_def)

lemma distinct_leds_pins: "distinct leds_pins"
  by (simp add: leds_pins_def leds_table_def)

lemma leds_pins_eq [simp]: "i < 17 \<Longrightarrow> j < 17 \<Longrightarrow> leds_pins ! i = leds_pins ! j \<longleftrightarrow> i = j"
  using nth_eq_iff_index_eq [OF distinct_leds_pins] by simp

lemma leds_okE:
  assumes "leds_ok w"
  obtains d where "leds_drvdata w" "leds_mem w = Some d" "length (led_gpio d) = 17" "leds_count w = leds_sem d"
    "map gpio_index (led_gpio d) = leds_pins" "\<And>i. i < 17 \<Longrightarrow> gpio_index (led_gpio d ! i) = leds_pins ! i"
proof -
  obtain d where d: "leds_drvdata w" "leds_mem w = Some d" "map gpio_index (led_gpio d) = leds_pins"
    using assms by (auto simp: leds_ok_def)
  have l: "length (led_gpio d) = 17" using d(3) by (metis length_leds_pins length_map)
  have "gpio_index (led_gpio d ! i) = leds_pins ! i" if "i < 17" for i
    using d(3) l that by (metis nth_map)
  then show ?thesis using that d l by (simp add: leds_count_def)
qed

lemma set_led_level_ok [leds_rules]: "leds_ok w \<Longrightarrow> i < 17 \<Longrightarrow> set_led_level w i v = Inr (put_level i v w)"
  by (erule leds_okE) (simp add: set_led_level_def led_at_def put_led_def put_level_def)

lemma set_led_pin_ok [leds_rules]:
  "leds_ok w \<Longrightarrow> i < 17 \<Longrightarrow> set_led_pin w i v = Inr (say [GpioSetValue (leds_pins ! i) v] w)"
  by (erule leds_okE) (simp add: set_led_pin_def led_at_def)

lemma led_at_ok: "leds_ok w \<Longrightarrow> i < 17 \<Longrightarrow> \<exists>g. led_at w i = Inr g \<and> gpio_level g = led_level w i"
  by (erule leds_okE) (simp add: led_at_def led_level_def)

lemma down_leds_ok [leds_rules]:
  "leds_ok w \<Longrightarrow> leds_count w = 1 \<Longrightarrow> down_leds E w =
     Inr (if interrupted E (ndown w) then (count_down w, True) else (put_sem 0 (count_down w), False))"
  by (erule leds_okE) (simp add: down_leds_def put_sem_def)

lemma up_leds_ok [leds_rules]: "leds_ok w \<Longrightarrow> leds_count w = 0 \<Longrightarrow> up_leds w = Inr (put_sem 1 w)"
  by (erule leds_okE) (simp add: up_leds_def put_sem_def)

lemma leds_ok_simps [simp]:
  "leds_ok (w\<lparr>klog := es\<rparr>) = leds_ok w" "leds_ok (w\<lparr>ndown := n\<rparr>) = leds_ok w"
  "leds_ok (put_sem k w) = leds_ok w"
  by (auto simp: leds_ok_def put_sem_def)

lemma leds_count_simps [simp]:
  "leds_count (w\<lparr>klog := es\<rparr>) = leds_count w" "leds_count (w\<lparr>ndown := n\<rparr>) = leds_count w"
  "leds_ok w \<Longrightarrow> leds_count (put_sem k w) = k" "leds_count (put_level i v w) = leds_count w"
  by (auto simp: leds_count_def put_sem_def put_level_def leds_ok_def split: option.splits)

lemma leds_ok_put_level [simp]: "leds_ok (put_level i v w) = leds_ok w"
proof -
  have "map gpio_index (xs[i := (xs ! i)\<lparr>gpio_level := v\<rparr>]) = map gpio_index xs" for xs :: "fleety_gpio list"
    by (simp add: map_update) (metis length_map list_update_beyond list_update_id not_le nth_map)
  then show ?thesis by (auto simp: leds_ok_def put_level_def)
qed

lemma led_level_simps [simp]:
  "led_level (w\<lparr>klog := es\<rparr>) j = led_level w j" "led_level (w\<lparr>ndown := n\<rparr>) j = led_level w j"
  "led_level (put_sem k w) j = led_level w j"
  by (auto simp: led_level_def put_sem_def split: option.splits)

lemma led_level_put [simp]:
  "leds_ok w \<Longrightarrow> i < 17 \<Longrightarrow> j < 17 \<Longrightarrow> led_level (put_level i v w) j = (if i = j then v else led_level w j)"
  by (erule leds_okE) (simp add: led_level_def put_level_def)

lemma klog_put [simp]: "klog (put_level i v w) = klog w" "klog (put_sem k w) = klog w"
  "ndown (put_level i v w) = ndown w" "ndown (put_sem k w) = ndown w"
  by (simp_all add: put_level_def put_sem_def)

lemma same_spider_simps [simp]:
  "same_spider w w" "same_spider w (w'\<lparr>klog := es\<rparr>) = same_spider w w'" "same_spider w (w'\<lparr>ndown := n\<rparr>) = same_spider w w'"
  "same_spider w (put_sem k w') = same_spider w w'" "same_spider w (put_level i v w') = same_spider w w'"
  by (simp_all add: same_spider_def put_sem_def put_level_def)

section \<open>The cached levels are the driven levels\<close>

definition leds_inv :: "kworld \<Rightarrow> bool" where
  "leds_inv w \<longleftrightarrow> leds_ok w \<and> leds_count w = 1 \<and> (\<forall>i<17. driven (klog w) (leds_pins ! i) = Some (led_level w i))"

lemma leds_inv_ok: "leds_inv w \<Longrightarrow> leds_ok w \<and> leds_count w = 1"
  by (simp add: leds_inv_def)

text \<open>The outcome of an operation: it comes back, keeps the invariant, and leaves the spider driver alone.\<close>

definition keeps_leds :: "kworld \<Rightarrow> (kworld \<times> 'r) res \<Rightarrow> bool" where
  "keeps_leds w r \<longleftrightarrow> (\<exists>w' x. r = Inr (w', x) \<and> leds_inv w' \<and> same_spider w w')"

lemma store_treat_result:
  assumes "leds_inv w" "i < 17"
  shows "fleety_leds_gpio_store_treat E w buf i =
    (case strict_strtoul E buf of None \<Rightarrow> Inr (w, - EPERM)
     | Some v \<Rightarrow> if interrupted E (ndown w) then Inr (count_down w, - ERESTARTSYS)
         else Inr (put_sem 1 (say [GpioSetValue (leds_pins ! i) (of_nat v)]
           (put_level i (of_nat v) (put_sem 0 (count_down w)))), 0))"
  using leds_inv_ok [OF assms(1)] assms(2)
  by (simp add: fleety_leds_gpio_store_treat_def leds_rules split: option.splits)

lemma show_treat_result:
  assumes "leds_inv w" "i < 17"
  shows "fleety_leds_gpio_show_treat E w i =
    (if interrupted E (ndown w) then Inr (count_down w, - ERESTARTSYS, [])
     else let s = print_int (sint (led_level w i)) @ newline in
       Inr (put_sem 1 (put_sem 0 (count_down w)), int (length s), s))"
proof -
  have s: "leds_ok (put_sem 0 (count_down w))" using leds_inv_ok [OF assms(1)] by simp
  obtain g where "led_at (put_sem 0 (count_down w)) i = Inr g" "gpio_level g = led_level w i"
    using led_at_ok [OF s assms(2)] by auto
  then show ?thesis
    using leds_inv_ok [OF assms(1)] by (simp add: fleety_leds_gpio_show_treat_def leds_rules Let_def)
qed

lemma leds_inv_simps [simp]:
  "leds_inv (w\<lparr>ndown := n\<rparr>) = leds_inv w" "leds_inv w \<Longrightarrow> leds_inv (put_sem (Suc 0) (put_sem k w))"
  by (auto simp: leds_inv_def)

lemma leds_inv_drive:
  assumes "leds_inv w" "i < 17"
  shows "leds_inv (put_sem 1 (say [GpioSetValue (leds_pins ! i) v] (put_level i v (put_sem 0 (count_down w)))))"
  using assms by (auto simp: leds_inv_def driven_append)

section \<open>Sequences of operations\<close>

datatype leds_call =
    LedsShow string
  | LedsStore string string
  | UsbSwitch bool
  | UsbhubReset
  | Usb2ethReset
  | AmpStandby s32
  | AmpMute s32

text \<open>A call on an attribute that does not exist does not reach the driver.\<close>

definition leds_call :: "'e kenv_scheme \<Rightarrow> kworld \<Rightarrow> leds_call \<Rightarrow> kworld res" where
  "leds_call E w c = (case c of
       LedsShow name \<Rightarrow> (case map_of (fleety_leds_device_attributes E) name of
           None \<Rightarrow> Inr w | Some (sh, st) \<Rightarrow> bnd (sh w) (\<lambda>(w, _). Inr w))
     | LedsStore name buf \<Rightarrow> (case map_of (fleety_leds_device_attributes E) name of
           None \<Rightarrow> Inr w | Some (sh, st) \<Rightarrow> bnd (st w buf (int (length buf))) (\<lambda>(w, _). Inr w))
     | UsbSwitch host \<Rightarrow> bnd (fleety_usb_switch E w host) (\<lambda>(w, _). Inr w)
     | UsbhubReset \<Rightarrow> bnd (fleety_usbhub_reset E w) (\<lambda>(w, _). Inr w)
     | Usb2ethReset \<Rightarrow> bnd (fleety_usb2eth_reset E w) (\<lambda>(w, _). Inr w)
     | AmpStandby on \<Rightarrow> bnd (fleety_amp_standby E w on) (\<lambda>(w, _). Inr w)
     | AmpMute on \<Rightarrow> bnd (fleety_amp_mute E w on) (\<lambda>(w, _). Inr w))"

fun leds_run :: "'e kenv_scheme \<Rightarrow> kworld \<Rightarrow> leds_call list \<Rightarrow> kworld res" where
  "leds_run E w [] = Inr w"
| "leds_run E w (c # cs) = bnd (leds_call E w c) (\<lambda>w. leds_run E w cs)"

text \<open>The pin that each attribute stands for.\<close>

definition attr_pins :: "(string \<times> s32) list" where
  "attr_pins =
     [(''output1_relay'', 1002), (''output2_relay'', 1003), (''output3_relay'', 1008), (''output4_relay'', 942),
      (''amp_stb'', 937), (''amp_mute'', 913), (''otg_switch'', 943), (''usb2eth_rst'', 933),
      (''usbhub_rst'', 947), (''stm32_rst'', 1004), (''camera_power'', 980), (''tachograph_power'', 1007),
      (''ex_power'', 1010), (''finger_power'', 1023), (''tsm_power'', 934), (''fan_power'', 919)]"

definition store_one :: "'e kenv_scheme \<Rightarrow> nat \<Rightarrow> kworld \<Rightarrow> string \<Rightarrow> int \<Rightarrow> (kworld \<times> int) res" where
  "store_one E i w buf count = bnd (fleety_leds_gpio_store_treat E w buf i) (\<lambda>(w, _). Inr (w, count))"

lemmas leds_handler_defs =
  output1_relay_on_show_def output2_relay_on_show_def output3_relay_on_show_def output4_relay_on_show_def
  amp_stb_on_show_def amp_mute_on_show_def otg_switch_on_show_def usb2eth_rst_on_show_def usbhub_rst_on_show_def
  stm32_rst_on_show_def camera_power_on_show_def tachograph_power_on_show_def ex_power_on_show_def
  finger_power_on_show_def tsm_power_on_show_def fan_power_on_show_def
  output1_relay_on_store_def output2_relay_on_store_def output3_relay_on_store_def output4_relay_on_store_def
  amp_stb_on_store_def amp_mute_on_store_def usb2eth_rst_on_store_def usbhub_rst_on_store_def
  stm32_rst_on_store_def camera_power_on_store_def tachograph_power_on_store_def ex_power_on_store_def
  finger_power_on_store_def tsm_power_on_store_def fan_power_on_store_def

text \<open>Every attribute is the show and the store function of one output; \<open>otg_switch\<close> stores twice.\<close>

definition attr_index :: "(string \<times> nat) list" where
  "attr_index =
     [(''output1_relay'', 0), (''output2_relay'', 1), (''output3_relay'', 2), (''output4_relay'', 3),
      (''amp_stb'', 4), (''amp_mute'', 5), (''otg_switch'', 7), (''usb2eth_rst'', 8), (''usbhub_rst'', 9),
      (''stm32_rst'', 10), (''camera_power'', 11), (''tachograph_power'', 12), (''ex_power'', 13),
      (''finger_power'', 14), (''tsm_power'', 15), (''fan_power'', 16)]"

definition store_of :: "'e kenv_scheme \<Rightarrow> nat \<Rightarrow> kworld \<Rightarrow> string \<Rightarrow> int \<Rightarrow> (kworld \<times> int) res" where
  "store_of E i = (if i = 7 then otg_switch_on_store E else store_one E i)"

lemma attributes_eq:
  "fleety_leds_device_attributes E =
     map (\<lambda>(name, i). (name, \<lambda>w. fleety_leds_gpio_show_treat E w i, store_of E i)) attr_index"
  unfolding fleety_leds_device_attributes_def attr_index_def
  by (simp add: fun_eq_iff leds_handler_defs store_one_def store_of_def)

lemma attr_index_pins: "list_all (\<lambda>(name, i). i < 17 \<and> map_of attr_pins name = Some (leds_pins ! i)) attr_index"
  by code_simp

lemma attributeE:
  assumes "(name, sh, st) \<in> set (fleety_leds_device_attributes E)"
  obtains i where "i < 17" "map_of attr_pins name = Some (leds_pins ! i)"
    "sh = (\<lambda>w. fleety_leds_gpio_show_treat E w i)" "st = store_of E i"
  using assms attr_index_pins unfolding attributes_eq list_all_iff by auto

lemma keeps_store_treat: "leds_inv w \<Longrightarrow> i < 17 \<Longrightarrow> keeps_leds w (fleety_leds_gpio_store_treat E w buf i)"
  using leds_inv_drive [of w i] by (auto simp: keeps_leds_def store_treat_result split: option.split)

lemma keeps_show_treat: "leds_inv w \<Longrightarrow> i < 17 \<Longrightarrow> keeps_leds w (fleety_leds_gpio_show_treat E w i)"
  by (auto simp: keeps_leds_def show_treat_result Let_def)

lemma keeps_leds_bnd:
  assumes "keeps_leds w r" "\<And>w' x. leds_inv w' \<Longrightarrow> same_spider w w' \<Longrightarrow> keeps_leds w' (f (w', x))"
  shows "keeps_leds w (bnd r f)"
proof -
  obtain w' x where r: "r = Inr (w', x)" "leds_inv w'" "same_spider w w'" using assms(1) by (auto simp: keeps_leds_def)
  then show ?thesis using assms(2) [OF r(2,3), of x] by (auto simp: keeps_leds_def same_spider_def)
qed

lemma keeps_leds_return: "leds_inv w \<Longrightarrow> keeps_leds w (Inr (w, x))"
  by (simp add: keeps_leds_def)

lemma keeps_store_of: "leds_inv w \<Longrightarrow> i < 17 \<Longrightarrow> keeps_leds w (store_of E i w buf count)"
  by (auto simp: store_of_def store_one_def otg_switch_on_store_def
      intro!: keeps_leds_bnd keeps_store_treat keeps_leds_return)

lemma keeps_exports:
  assumes "leds_inv w"
  shows "keeps_leds w (fleety_usb_switch E w host)" "keeps_leds w (fleety_usbhub_reset E w)"
    "keeps_leds w (fleety_usb2eth_reset E w)" "keeps_leds w (fleety_amp_standby E w on)"
    "keeps_leds w (fleety_amp_mute E w on)"
  using assms leds_inv_ok [OF assms] unfolding keeps_leds_def
    fleety_usb_switch_def fleety_usbhub_reset_def fleety_usb2eth_reset_def fleety_amp_standby_def fleety_amp_mute_def
  by (auto simp: leds_rules Let_def leds_inv_def driven_append)

lemma keeps_leds_dropD: "keeps_leds w r \<Longrightarrow> \<exists>w'. bnd r (\<lambda>(w, _). Inr w) = Inr w' \<and> leds_inv w' \<and> same_spider w w'"
  by (auto simp: keeps_leds_def)

lemma leds_call_keeps:
  assumes "leds_inv w"
  shows "\<exists>w'. leds_call E w c = Inr w' \<and> leds_inv w' \<and> same_spider w w'"
proof -
  have attr: "\<exists>i<17. sh = (\<lambda>w. fleety_leds_gpio_show_treat E w i) \<and> st = store_of E i"
    if "map_of (fleety_leds_device_attributes E) name = Some (sh, st)" for name sh st
    using map_of_SomeD [OF that] by (auto elim: attributeE)
  show ?thesis
  proof (cases c)
    case (LedsShow name)
    then show ?thesis using assms keeps_leds_dropD [OF keeps_show_treat [OF assms]]
      by (auto simp: leds_call_def simp del: bnd_eq_Inr split: option.split dest!: attr)
  next
    case (LedsStore name buf)
    then show ?thesis using assms keeps_leds_dropD [OF keeps_store_of [OF assms]]
      by (auto simp: leds_call_def simp del: bnd_eq_Inr split: option.split dest!: attr)
  qed (use keeps_exports [OF assms, THEN keeps_leds_dropD] in \<open>simp_all add: leds_call_def del: bnd_eq_Inr\<close>)
qed

text \<open>
  The cached levels never go out of step with the hardware. From a state in which every cached level
  is the level driven on its pin, any sequence of reads and writes of the attributes and of calls by
  other drivers, with any texts and with any of the calls interrupted by a signal, comes back: no fault,
  no deadlock, the semaphore is free, and every cached level is the level last driven on its pin. None of
  them changes the map of outputs that the spider driver publishes.
\<close>

lemma leds_run_levels:
  assumes "leds_inv w"
  shows "\<exists>w'. leds_run E w cs = Inr w' \<and> leds_inv w' \<and> same_spider w w'"
  using assms
proof (induction cs arbitrary: w)
  case (Cons c cs)
  obtain w1 where w1: "leds_call E w c = Inr w1" "leds_inv w1" "same_spider w w1"
    using leds_call_keeps [OF Cons.prems] by blast
  from Cons.IH [OF w1(2)] w1 show ?case by (auto simp: same_spider_def)
qed simp

text \<open>The outputs as sysfs nodes.\<close>

definition leds_node_ready :: "'e kenv_scheme \<Rightarrow> nat \<Rightarrow> kworld \<Rightarrow> bool" where
  "leds_node_ready E i w \<longleftrightarrow> leds_inv w \<and> no_signals E \<and> i < 17"

lemma store_of_value:
  assumes "leds_node_ready E i w" "strict_strtoul E buf = Some v"
  shows "\<exists>w'. store_of E i w buf n = Inr (w', n) \<and> leds_node_ready E i w' \<and> led_level w' i = of_nat v"
proof -
  let ?drive = "\<lambda>i w. put_sem 1 (say [GpioSetValue (leds_pins ! i) (of_nat v)]
    (put_level i (of_nat v) (put_sem 0 (count_down w))))"
  have r: "leds_inv w" "i < 17" "no_signals E" using assms(1) by (simp_all add: leds_node_ready_def)
  have one: "fleety_leds_gpio_store_treat E u buf j = Inr (?drive j u, 0)" if "leds_inv u" "j < 17" for u j
    using r(3) assms(2) that by (simp add: store_treat_result no_signals_def)
  define w' where "w' = (if i = 7 then ?drive 6 (?drive 7 w) else ?drive i w)"
  have "leds_inv w'"
    using leds_inv_drive [OF leds_inv_drive [OF r(1), of 7], of 6] leds_inv_drive [OF r(1,2)] by (simp add: w'_def)
  moreover have "store_of E i w buf n = Inr (w', n)"
    using one [OF r(1)] one [OF leds_inv_drive [OF r(1)]] r(2)
    by (simp add: store_of_def store_one_def otg_switch_on_store_def w'_def)
  moreover have "led_level w' i = of_nat v" using leds_inv_ok [OF r(1)] r(2) by (simp add: w'_def)
  ultimately show ?thesis using r by (simp add: leds_node_ready_def)
qed

interpretation leds_node: sysfs_node E "leds_node_ready E i" "\<lambda>w. fleety_leds_gpio_show_treat E w i"
  "store_of E i" "\<lambda>w. led_level w i" for E i
  by unfold_locales
    (simp add: store_of_value, simp add: leds_node_ready_def show_treat_result no_signals_def)

text \<open>
  C28. What is written to an attribute is driven on the pin of the attribute and is read back. A text that
  is not a number changes nothing and is nevertheless reported as written.
\<close>

theorem leds_store_show:
  assumes "leds_inv w" "(name, show, store) \<in> set (fleety_leds_device_attributes E)" "no_signals E"
  shows "case strict_strtoul E buf of
      None \<Rightarrow> store w buf count = Inr (w, count)
    | Some v \<Rightarrow> \<exists>w' w'' pin s. store w buf count = Inr (w', count) \<and> map_of attr_pins name = Some pin \<and>
        driven (klog w') pin = Some (of_nat v) \<and> show w' = Inr (w'', int (length s), s) \<and>
        s = print_int (sint (of_nat v :: s32)) @ newline"
proof -
  obtain i where i: "i < 17" "map_of attr_pins name = Some (leds_pins ! i)"
    "show = (\<lambda>w. fleety_leds_gpio_show_treat E w i)" "store = store_of E i"
    using assms(2) by (rule attributeE)
  have r: "leds_node_ready E i w" using assms(1,3) i(1) by (simp add: leds_node_ready_def)
  show ?thesis
  proof (cases "strict_strtoul E buf")
    case None
    then show ?thesis using i assms(1) by (simp add: store_of_def store_one_def otg_switch_on_store_def store_treat_result)
  next
    case (Some v)
    obtain w' where w': "store_of E i w buf count = Inr (w', count)" "leds_node_ready E i w'"
      "led_level w' i = of_nat v" using leds_node.store_ok [OF r Some] by blast
    moreover have "driven (klog w') (leds_pins ! i) = Some (of_nat v)"
      using w'(2,3) i(1) by (simp add: leds_inv_def leds_node_ready_def)
    ultimately show ?thesis using i(2-4) Some leds_node.show_number [OF w'(2)] by auto
  qed
qed

section \<open>What the probe function sets up\<close>

text \<open>Assigning the entries of a list one after the other.\<close>

lemma fold_list_update:
  "m \<le> length xs \<Longrightarrow>
   fold (\<lambda>i xs. xs[i := f i (xs ! i)]) [0..<m] xs = map (\<lambda>i. f i (xs ! i)) [0..<m] @ drop m xs"
proof (induction m)
  case (Suc m)
  then have "drop m xs = xs ! m # drop (Suc m) xs" by (simp add: Cons_nth_drop_Suc)
  with Suc show ?case by (simp add: nth_append list_update_append)
qed simp

definition assign_row :: "(nat \<times> s32 \<times> string \<times> s32) \<Rightarrow> fleety_gpio list \<Rightarrow> fleety_gpio list" where
  "assign_row = (\<lambda>(i, pin, name, level) xs.
     xs[i := (xs ! i)\<lparr>gpio_index := pin, gpio_name := Some name, gpio_level := level, gpio_dir := 1\<rparr>])"

lemma length_assign_row [simp]: "length (assign_row r xs) = length xs"
  by (simp add: assign_row_def split: prod.split)

lemma assign_leds_fold:
  "leds_mem w = Some d \<Longrightarrow> list_all (\<lambda>(i, _). i < length (led_gpio d)) rows \<Longrightarrow>
   assign_leds w rows = Inr (w\<lparr>leds_mem := Some (d\<lparr>led_gpio := fold assign_row rows (led_gpio d)\<rparr>)\<rparr>)"
proof (induction rows arbitrary: w d)
  case (Cons r rows)
  obtain i pin name level where r: "r = (i, pin, name, level)" by (cases r)
  have "assign_leds w (r # rows) =
      assign_leds (w\<lparr>leds_mem := Some (d\<lparr>led_gpio := assign_row r (led_gpio d)\<rparr>)\<rparr>) rows"
    using Cons.prems r by (simp add: led_at_def put_led_def assign_row_def)
  then show ?case
    using Cons.IH [of "w\<lparr>leds_mem := Some (d\<lparr>led_gpio := assign_row r (led_gpio d)\<rparr>)\<rparr>"
        "d\<lparr>led_gpio := assign_row r (led_gpio d)\<rparr>"] Cons.prems
    by simp
qed (simp add: list_all_def)

definition led_entry :: "(nat \<times> s32 \<times> string \<times> s32) \<Rightarrow> fleety_gpio" where
  "led_entry = (\<lambda>(i, pin, name, level).
     \<lparr>gpio_dir = 1, gpio_index = pin, gpio_level = level, gpio_state = 0, gpio_name = Some name\<rparr>)"

lemma leds_table_index: "leds_table = map (\<lambda>i. (i, snd (leds_table ! i))) [0..<17]"
  by code_simp

lemma length_leds_table: "length leds_table = 17"
  by (simp add: leds_table_def)

lemma assign_leds_table:
  assumes "length xs = 17" "list_all (\<lambda>g. gpio_state g = 0) xs"
  shows "fold assign_row leds_table xs = map led_entry leds_table"
proof -
  let ?f = "\<lambda>i g. (case snd (leds_table ! i) of (pin, name, level) \<Rightarrow>
    g\<lparr>gpio_index := pin, gpio_name := Some name, gpio_level := level, gpio_dir := 1\<rparr>)"
  have "fold assign_row leds_table xs = fold assign_row (map (\<lambda>i. (i, snd (leds_table ! i))) [0..<17]) xs"
    using leds_table_index by simp
  also have "\<dots> = fold (\<lambda>i xs. xs[i := ?f i (xs ! i)]) [0..<17] xs"
    by (simp only: fold_map comp_def assign_row_def case_prod_unfold fst_conv snd_conv)
  also have "\<dots> = map (\<lambda>i. ?f i (xs ! i)) [0..<17]" using assms(1) fold_list_update [of 17 xs ?f] by simp
  also have "\<dots> = map led_entry leds_table"
  proof (rule nth_equalityI)
    fix i assume i: "i < length (map (\<lambda>i. ?f i (xs ! i)) [0..<17])"
    then have "gpio_state (xs ! i) = 0" using assms by (simp add: list_all_length)
    then show "map (\<lambda>i. ?f i (xs ! i)) [0..<17] ! i = map led_entry leds_table ! i"
      using i by (cases "leds_table ! i") (simp add: led_entry_def length_leds_table)
  qed (simp add: length_leds_table)
  finally show ?thesis .
qed

lemma fill_of_leds_ok:
  "leds_mem w = Some d \<Longrightarrow> length (led_gpio d) = 17 \<Longrightarrow> i + length cs \<le> 17 \<Longrightarrow>
   list_all (\<lambda>g. gpio_state g = 0) (led_gpio d) \<Longrightarrow>
   \<exists>xs. fill_of_leds w i cs = Inr (w\<lparr>leds_mem := Some (d\<lparr>led_gpio := xs\<rparr>)\<rparr>) \<and> length xs = 17 \<and>
     list_all (\<lambda>g. gpio_state g = 0) xs"
proof (induction cs arbitrary: w d i)
  case Nil
  then show ?case by (intro exI [of _ "led_gpio d"]) simp
next
  case (Cons c cs)
  let ?g = "(led_gpio d ! i)\<lparr>gpio_index := of_gpio c + 911,
       gpio_level := (if of_default_state c = Some ''on'' then 1 else 0), gpio_dir := 1,
       gpio_name := (case of_label c of Some l \<Rightarrow> Some l | None \<Rightarrow> Some (of_node_name c))\<rparr>"
  let ?d = "d\<lparr>led_gpio := (led_gpio d)[i := ?g]\<rparr>"
  have "list_all (\<lambda>g. gpio_state g = 0) ((led_gpio d)[i := ?g])"
    using Cons.prems(2-4) by (auto simp: list_all_length nth_list_update)
  then obtain xs where "fill_of_leds (w\<lparr>leds_mem := Some ?d\<rparr>) (i + 1) cs =
      Inr (w\<lparr>leds_mem := Some (?d\<lparr>led_gpio := xs\<rparr>)\<rparr>)" "length xs = 17" "list_all (\<lambda>g. gpio_state g = 0) xs"
    using Cons.IH [of "w\<lparr>leds_mem := Some ?d\<rparr>" ?d "i + 1"] Cons.prems(2,3) by auto
  then show ?case using Cons.prems(1-3) by (intro exI [of _ xs]) (simp add: led_at_def put_led_def)
qed

lemma create_of_ok:
  assumes "leds_mem w = Some d" "length (led_gpio d) = 17" "list_all (\<lambda>g. gpio_state g = 0) (led_gpio d)"
  shows "\<exists>xs r. fleety_leds_create_of w cs = Inr (w\<lparr>leds_mem := Some (d\<lparr>led_gpio := xs\<rparr>)\<rparr>, r) \<and>
     length xs = 17 \<and> list_all (\<lambda>g. gpio_state g = 0) xs"
proof (cases "cs = [] \<or> length cs > 17 \<or> list_ex (\<lambda>c. sint (of_gpio c) = - EPROBE_DEFER) cs")
  case True
  show ?thesis using True assms by (intro exI [of _ "led_gpio d"]) (auto simp: fleety_leds_create_of_def)
next
  case False
  then show ?thesis using fill_of_leds_ok [OF assms(1,2), of 0 cs] assms(3)
    by (auto simp: fleety_leds_create_of_def)
qed

definition gpio_services_ok :: "'e kenv_scheme \<Rightarrow> bool" where
  "gpio_services_ok E \<longleftrightarrow> (\<forall>k. \<not> interrupted E k) \<and>
     (\<forall>pin. gpio_is_valid E pin \<and> gpio_request_res E pin = 0 \<and> gpio_output_res E pin = 0)"

definition setup_events :: "fleety_gpio \<Rightarrow> kevent list" where
  "setup_events g = [GpioRequest (gpio_index g) (gpio_name g), GpioDirectionOutput (gpio_index g) (gpio_level g)]"

text \<open>The world after some of the outputs have been configured.\<close>

definition configured :: "kworld \<Rightarrow> fleety_gpio list \<Rightarrow> nat list \<Rightarrow> kworld \<Rightarrow> bool" where
  "configured w gs is w' \<longleftrightarrow> leds_mem w' = leds_mem w \<and> leds_drvdata w' = leds_drvdata w \<and> spider_ready w' \<and>
     klog w' = klog w @ concat (map (\<lambda>i. setup_events (gs ! i)) is) \<and>
     (\<exists>m. spider_of w' = spider_of w\<lparr>gpo_map := m\<rparr> \<and>
       (\<forall>k<32. bit m k = (if k \<in> set is then gpio_level (gs ! k) \<noteq> 0 else bit (gpo_map (spider_of w)) k)))"

lemma configured_Cons:
  assumes "leds_mem w = Some d" "spider_ready w" "i < 32" "i \<notin> set is"
    and "configured (put_spider (spider_of w\<lparr>gpo_map :=
      set_map_bit (gpo_map (spider_of w)) (2 ^ i) (gpio_level (led_gpio d ! i))\<rparr>)
      (say (setup_events (led_gpio d ! i)) w)) (led_gpio d) is w'"
  shows "configured w (led_gpio d) (i # is) w'"
proof -
  obtain m where "spider_of w' = spider_of w\<lparr>gpo_map := m\<rparr>"
    and m: "\<And>k. k < 32 \<Longrightarrow> bit m k = (if k \<in> set is then gpio_level (led_gpio d ! k) \<noteq> 0
      else bit (set_map_bit (gpo_map (spider_of w)) (2 ^ i) (gpio_level (led_gpio d ! i))) k)"
    using assms(5) unfolding configured_def by auto
  moreover have "bit m k = (if k \<in> set (i # is) then gpio_level (led_gpio d ! k) \<noteq> 0
      else bit (gpo_map (spider_of w)) k)" if "k < 32" for k
    using m [OF that] that assms(3,4) by (auto simp: bit_set_map_bit)
  ultimately show ?thesis using assms(5) unfolding configured_def by auto
qed

lemma configure_loop_ok:
  "leds_mem w = Some d \<Longrightarrow> length (led_gpio d) = 17 \<Longrightarrow> spider_ready w \<Longrightarrow> gpio_services_ok E \<Longrightarrow>
   distinct ks \<Longrightarrow> list_all (\<lambda>i. i < 17) ks \<Longrightarrow>
   \<exists>w'. configure_loop E w ks = Inr w' \<and> configured w (led_gpio d) ks w'"
proof (induction ks arbitrary: w)
  case Nil
  then show ?case by (auto simp: configured_def intro!: exI [of _ "gpo_map (spider_of w)"])
next
  case (Cons i ks)
  let ?w = "say (setup_events (led_gpio d ! i)) w"
  have u: "unat (of_nat i :: s32) = i" using Cons.prems(6) by (simp add: unat_of_nat_small)
  have r: "spider_ready ?w" "spider_of ?w = spider_of w"
    using Cons.prems(3) by (auto simp: spider_ready_def spider_of_def)
  have m: "fleety_set_gpo_map E ?w (of_nat i) (gpio_level (led_gpio d ! i)) =
      Inr (put_spider (spider_of w\<lparr>gpo_map :=
        set_map_bit (gpo_map (spider_of w)) (2 ^ i) (gpio_level (led_gpio d ! i))\<rparr>) ?w, 0)"
    using set_gpo_map_ok [OF r(1), of "of_nat i" E] u r(2) Cons.prems(4,6) by (simp add: gpio_services_ok_def)
  obtain w' where w': "configure_loop E (put_spider (spider_of w\<lparr>gpo_map :=
        set_map_bit (gpo_map (spider_of w)) (2 ^ i) (gpio_level (led_gpio d ! i))\<rparr>) ?w) ks = Inr w'"
    "configured (put_spider (spider_of w\<lparr>gpo_map :=
        set_map_bit (gpo_map (spider_of w)) (2 ^ i) (gpio_level (led_gpio d ! i))\<rparr>) ?w) (led_gpio d) ks w'"
    using Cons.IH [of "put_spider (spider_of w\<lparr>gpo_map :=
        set_map_bit (gpo_map (spider_of w)) (2 ^ i) (gpio_level (led_gpio d ! i))\<rparr>) ?w"] Cons.prems
      spider_readyD [OF Cons.prems(3)]
    by auto
  have "configure_loop E w (i # ks) = Inr w'"
    using Cons.prems(1,2,4,6) m w'(1) by (simp add: led_at_def gpio_services_ok_def setup_events_def)
  moreover have "configured w (led_gpio d) (i # ks) w'"
    using configured_Cons [OF Cons.prems(1,3) _ _ w'(2)] Cons.prems(5,6) by auto
  ultimately show ?case by blast
qed

lemma driven_setup:
  "p \<notin> (\<lambda>i. gpio_index (gs ! i)) ` set is \<Longrightarrow> driven (concat (map (\<lambda>i. setup_events (gs ! i)) is)) p = None"
  by (induction "is") (auto simp: setup_events_def driven_append)

lemma driven_setup_in:
  "i \<in> set is \<Longrightarrow> inj_on (\<lambda>i. gpio_index (gs ! i)) (set is) \<Longrightarrow>
   driven (concat (map (\<lambda>i. setup_events (gs ! i)) is)) (gpio_index (gs ! i)) = Some (gpio_level (gs ! i))"
proof (induction "is")
  case (Cons j js)
  show ?case
  proof (cases "i \<in> set js")
    case True
    then show ?thesis using Cons.IH Cons.prems(2) by (simp add: driven_append)
  next
    case False
    then have ij: "i = j" using Cons.prems(1) by simp
    then have "gpio_index (gs ! i) \<notin> (\<lambda>i. gpio_index (gs ! i)) ` set js" using Cons.prems(2) False by auto
    from driven_setup [OF this] ij show ?thesis by (simp add: driven_append setup_events_def)
  qed
qed simp

definition initial_levels :: "s32 list" where
  "initial_levels = map (snd \<circ> snd \<circ> snd) leds_table"

lemma led_entry_simps: "i < 17 \<Longrightarrow> gpio_index (map led_entry leds_table ! i) = leds_pins ! i"
  "i < 17 \<Longrightarrow> gpio_level (map led_entry leds_table ! i) = initial_levels ! i"
  by (simp_all add: led_entry_def leds_pins_def initial_levels_def length_leds_table split: prod.split)

lemma probe_ok:
  assumes "spider_ready w" "gpio_services_ok E" "leds_kzalloc P" "leds_class_err P = 0" "leds_device_err P = 0"
  shows "\<exists>w' m. fleety_leds_probe E P w = Inr (w', 0) \<and> leds_inv w' \<and> spider_ready w' \<and>
    leds_mem w' = Some \<lparr>leds_version = 1, led_gpio = map led_entry leds_table, leds_sem = 1\<rparr> \<and>
    spider_of w' = spider_of w\<lparr>gpo_map := m\<rparr> \<and>
    (\<forall>k<32. bit m k = (if k < 17 then initial_levels ! k \<noteq> 0 else bit (gpo_map (spider_of w)) k))"
proof -
  let ?gs = "map led_entry leds_table"
  let ?d = "\<lparr>leds_version = 1, led_gpio = ?gs, leds_sem = 1\<rparr>"
  let ?w0 = "w\<lparr>leds_mem := Some \<lparr>leds_version = 0, led_gpio = replicate 17 zero_gpio, leds_sem = 1\<rparr>\<rparr>"
  let ?w1 = "w\<lparr>leds_mem := Some ?d\<rparr>"
  obtain xs r where c: "fleety_leds_create_of ?w0 (leds_children P) =
      Inr (w\<lparr>leds_mem := Some \<lparr>leds_version = 0, led_gpio = xs, leds_sem = 1\<rparr>\<rparr>, r)"
    "length xs = 17" "list_all (\<lambda>g. gpio_state g = 0) xs"
    using create_of_ok [of ?w0 _ "leds_children P"] by (auto simp: zero_gpio_def list_all_length)
  have "list_all (\<lambda>(i, _). i < 17) leds_table" by code_simp
  then have a: "assign_leds (w\<lparr>leds_mem := Some \<lparr>leds_version = 0, led_gpio = xs, leds_sem = 1\<rparr>\<rparr>) leds_table =
      Inr (w\<lparr>leds_mem := Some \<lparr>leds_version = 0, led_gpio = ?gs, leds_sem = 1\<rparr>\<rparr>)"
    using c(2,3) by (subst assign_leds_fold) (auto simp: assign_leds_table)
  have rdy: "spider_ready ?w1" "spider_of ?w1 = spider_of w" using assms(1) by (auto simp: spider_ready_def spider_of_def)
  obtain w' where w': "configure_loop E ?w1 [0..<17] = Inr w'" "configured ?w1 ?gs [0..<17] w'"
    using configure_loop_ok [OF _ _ rdy(1) assms(2), of ?d "[0..<17]"] by (auto simp: length_leds_table list_all_iff)
  have p: "fleety_leds_probe E P w = Inr (w'\<lparr>leds_drvdata := True\<rparr>, 0)"
    using assms(3-5) c(1) a w'(1) by (simp add: fleety_leds_probe_def fleety_leds_gpio_configure_def Let_def)
  have mem: "leds_mem w' = Some ?d" and log: "klog w' = klog w @ concat (map (\<lambda>i. setup_events (?gs ! i)) [0..<17])"
    and sp: "spider_ready w'" using w'(2) by (auto simp: configured_def)
  have inj: "inj_on (\<lambda>i. gpio_index (?gs ! i)) (set [0..<17])"
    by (rule inj_onI) (simp add: led_entry_simps)
  have dr: "driven (klog w') (leds_pins ! i) = Some (initial_levels ! i)" if "i < 17" for i
    using driven_setup_in [OF _ inj, of i] that by (simp add: log driven_append led_entry_simps)
  have pins: "map gpio_index ?gs = leds_pins" by code_simp
  have inv: "leds_inv (w'\<lparr>leds_drvdata := True\<rparr>)"
    using mem pins dr by (simp add: leds_inv_def leds_ok_def leds_count_def led_level_def led_entry_simps)
  obtain m where m: "spider_of w' = spider_of w\<lparr>gpo_map := m\<rparr>"
    "\<forall>k<32. bit m k = (if k < 17 then initial_levels ! k \<noteq> 0 else bit (gpo_map (spider_of w)) k)"
    using w'(2) rdy(2) unfolding configured_def by (auto simp: led_entry_simps)
  have "spider_ready (w'\<lparr>leds_drvdata := True\<rparr>)" "spider_of (w'\<lparr>leds_drvdata := True\<rparr>) = spider_of w'"
    using sp by (auto simp: spider_ready_def spider_of_def)
  then show ?thesis using p inv mem m by (intro exI [of _ "w'\<lparr>leds_drvdata := True\<rparr>"] exI [of _ m]) simp
qed

definition parse_number :: "string \<Rightarrow> nat option" where
  "parse_number s = (case s of [] \<Rightarrow> None
     | c # cs \<Rightarrow> if digit_value c = None then None else Some (read_digits 0 s))"

definition example_kenv :: kenv where
  "example_kenv = \<lparr>strict_strtoul = parse_number, interrupted = (\<lambda>k. False), gpio_is_valid = (\<lambda>pin. True), gpio_request_res = (\<lambda>pin. 0),
     gpio_output_res = (\<lambda>pin. 0), gpio_value = (\<lambda>pin. 0)\<rparr>"

definition spider_world :: kworld where
  "spider_world = \<lparr>leds_mem = None, leds_drvdata = False,
     spider_mem = Some \<lparr>spider_version = 1, heart_beat = 30, app_ready = 0, touch_en = 1, gpo_map = 0, gpi_map = 0,
       debug_on = 0, spider_sem = 1\<rparr>, spider_drvdata = True, spider_timer = True, ndown = 0, klog = []\<rparr>"

definition example_probe :: leds_probe_env where
  "example_probe = \<lparr>leds_kzalloc = True,
     leds_children = [\<lparr>of_gpio = 5, of_label = None, of_node_name = ''led'', of_default_state = Some ''on''\<rparr>],
     leds_class_err = 0, leds_device_err = 0\<rparr>"

text \<open>The world after the probe functions of the spider and of this driver.\<close>

definition board_world :: kworld where
  "board_world = (case fleety_leds_probe example_kenv example_probe spider_world of
     Inr (w, _) \<Rightarrow> w | Inl _ \<Rightarrow> spider_world)"

lemma example_services: "gpio_services_ok example_kenv" "spider_ready spider_world"
  "leds_kzalloc example_probe" "leds_class_err example_probe = 0" "leds_device_err example_probe = 0"
  by (simp_all add: gpio_services_ok_def example_kenv_def spider_ready_def spider_world_def example_probe_def)

lemma board_world_inv: "leds_inv board_world" "spider_ready board_world"
  using probe_ok [OF example_services(2,1,3-5)] by (auto simp: board_world_def)

lemma board_world_mem:
  "leds_mem board_world = Some \<lparr>leds_version = 1, led_gpio = map led_entry leds_table, leds_sem = 1\<rparr>"
  using probe_ok [OF example_services(2,1,3-5)] by (auto simp: board_world_def)

theorem leds_store_show_witness:
  "case strict_strtoul example_kenv ''1'' of
      None \<Rightarrow> stm32_rst_on_store example_kenv board_world ''1'' 1 = Inr (board_world, 1)
    | Some v \<Rightarrow> \<exists>w' w'' pin s. stm32_rst_on_store example_kenv board_world ''1'' 1 = Inr (w', 1) \<and>
        map_of attr_pins ''stm32_rst'' = Some pin \<and> driven (klog w') pin = Some (of_nat v) \<and>
        stm32_rst_on_show example_kenv w' = Inr (w'', int (length s), s) \<and>
        s = print_int (sint (of_nat v :: s32)) @ newline"
  by (rule leds_store_show [OF board_world_inv(1)])
    (simp_all add: fleety_leds_device_attributes_def example_kenv_def no_signals_def)

text \<open>
  The probe function. When the services it uses succeed it returns 0, every output is driven with its
  initial level and has the pin, the name and the level of the table of the source, and the bits of the
  published map of outputs are the initial levels; all other fields and bits of the spider driver are
  kept. What the device tree says has no influence on the table of outputs: it is overwritten entry by entry.
\<close>

lemma leds_probe_outputs:
  assumes "spider_ready w" "gpio_services_ok E" "leds_kzalloc P" "leds_class_err P = 0" "leds_device_err P = 0"
  shows "\<exists>w' m. fleety_leds_probe E P w = Inr (w', 0) \<and> leds_inv w' \<and>
    leds_mem w' = Some \<lparr>leds_version = 1, led_gpio = map led_entry leds_table, leds_sem = 1\<rparr> \<and>
    spider_of w' = spider_of w\<lparr>gpo_map := m\<rparr> \<and>
    (\<forall>k<32. bit m k = (if k < 17 then initial_levels ! k \<noteq> 0 else bit (gpo_map (spider_of w)) k))"
  using probe_ok [OF assms] by blast

lemma leds_probe_outputs_example:
  "\<exists>w' m. fleety_leds_probe example_kenv example_probe spider_world = Inr (w', 0) \<and> leds_inv w' \<and>
    leds_mem w' = Some \<lparr>leds_version = 1, led_gpio = map led_entry leds_table, leds_sem = 1\<rparr> \<and>
    spider_of w' = spider_of spider_world\<lparr>gpo_map := m\<rparr> \<and>
    (\<forall>k<32. bit m k = (if k < 17 then initial_levels ! k \<noteq> 0 else bit (gpo_map (spider_of spider_world)) k))"
  by (rule leds_probe_outputs [OF example_services(2,1,3-5)])

end
