(* ===== verification/Fleety_Spider.thy ===== *)
theory Fleety_Spider
  imports Fleety_Leds
begin

text \<open>
  The spider driver (\<open>src/kernel/drivers/fleety/spider/fleety_spider.c\<close>): the application's ready flag,
  its heart beat counter, the touch screen switch and the two GPIO maps, as sysfs attributes, with the
  timer and the work item that watch the application. The lemmas show the USB start-up sequence, the
  counter over time, that what is stored is shown and no semaphore is lost, and what remains reachable
  after the driver object has been freed.
\<close>

section \<open>Timer and work item\<close>

definition FLEETY_SPIDER_APP_READY_MIN :: nat where "FLEETY_SPIDER_APP_READY_MIN = 25"
definition HEART_BEAT_WORK_MS :: nat where "HEART_BEAT_WORK_MS = 1000"
definition HEART_BEAT_DEFAULT_TIMES :: u32 where "HEART_BEAT_DEFAULT_TIMES = 30"

text \<open>
  Both are called with the address of the driver object. The timer function looks at the ready flag but
  only prints; it then starts the work item, which counts down and schedules itself again.
\<close>

definition app_ready_timer_treat :: "kworld \<Rightarrow> kworld res" where
  "app_ready_timer_treat w = bnd (live (spider_mem w)) (\<lambda>d. Inr (say [ScheduleWork HEART_BEAT_WORK_MS] w))"

definition heart_beat_work_fn :: "kworld \<Rightarrow> kworld res" where
  "heart_beat_work_fn w =
     bnd (live (spider_mem w)) (\<lambda>d.
     let d = (if heart_beat d = 0 then d else d\<lparr>heart_beat := heart_beat d - 1\<rparr>) in
     Inr (say [ScheduleWork HEART_BEAT_WORK_MS] (w\<lparr>spider_mem := Some d\<rparr>)))"

section \<open>Attributes\<close>

text \<open>The calls into the GPIO driver that a ready application causes; their results are not looked at.\<close>

definition app_ready_usb :: "'e kenv_scheme \<Rightarrow> kworld \<Rightarrow> kworld res" where
  "app_ready_usb E w =
     bnd (fleety_usb_switch E w True) (\<lambda>(w, _).
     bnd (fleety_usbhub_reset E (say [Mdelay 200] w)) (\<lambda>(w, _).
     bnd (fleety_usb2eth_reset E (say [Mdelay 200] w)) (\<lambda>(w, _). Inr w)))"

definition app_ready_show :: "'e kenv_scheme \<Rightarrow> kworld \<Rightarrow> (kworld \<times> int \<times> string) res" where
  "app_ready_show E w =
     bnd (down_spider E w) (\<lambda>(w, intr).
     if intr then Inr (w, - ERESTARTSYS, [])
     else
       bnd (live (spider_mem w)) (\<lambda>d. let buf = print_int (sint (app_ready d)) @ newline in
       bnd (up_spider w) (\<lambda>w. Inr (w, int (length buf), buf))))"

definition app_ready_store :: "'e kenv_scheme \<Rightarrow> kworld \<Rightarrow> string \<Rightarrow> int \<Rightarrow> (kworld \<times> int) res" where
  "app_ready_store E w buf count =
     (case strict_strtoul E buf of
        None \<Rightarrow> Inr (w, - EPERM)
      | Some val \<Rightarrow>
          bnd (down_spider E w) (\<lambda>(w, intr).
          if intr then Inr (w, - ERESTARTSYS)
          else
            bnd (live (spider_mem w)) (\<lambda>d. let w = w\<lparr>spider_mem := Some (d\<lparr>app_ready := of_nat val\<rparr>)\<rparr> in
            bnd (if (of_nat val :: u32) \<noteq> 0 then app_ready_usb E w else Inr w) (\<lambda>w.
            bnd (up_spider w) (\<lambda>w. Inr (w, count))))))"

definition heart_beat_show :: "'e kenv_scheme \<Rightarrow> kworld \<Rightarrow> (kworld \<times> int \<times> string) res" where
  "heart_beat_show E w =
     bnd (down_spider E w) (\<lambda>(w, intr).
     if intr then Inr (w, - ERESTARTSYS, [])
     else
       bnd (live (spider_mem w)) (\<lambda>d. let buf = print_int (sint (heart_beat d)) @ newline in
       bnd (up_spider w) (\<lambda>w. Inr (w, int (length buf), buf))))"

definition heart_beat_store :: "'e kenv_scheme \<Rightarrow> kworld \<Rightarrow> string \<Rightarrow> int \<Rightarrow> (kworld \<times> int) res" where
  "heart_beat_store E w buf count =
     (case strict_strtoul E buf of
        None \<Rightarrow> Inr (w, - EPERM)
      | Some val \<Rightarrow>
          bnd (down_spider E w) (\<lambda>(w, intr).
          if intr then Inr (w, - ERESTARTSYS)
          else
            bnd (live (spider_mem w)) (\<lambda>d. let w = w\<lparr>spider_mem := Some (d\<lparr>heart_beat := of_nat val\<rparr>)\<rparr> in
            bnd (up_spider w) (\<lambda>w. Inr (w, count)))))"

definition touch_en_show :: "'e kenv_scheme \<Rightarrow> kworld \<Rightarrow> (kworld \<times> int \<times> string) res" where
  "touch_en_show E w =
     bnd (down_spider E w) (\<lambda>(w, intr).
     if intr then Inr (w, - ERESTARTSYS, [])
     else
       bnd (live (spider_mem w)) (\<lambda>d. let buf = print_int (sint (touch_en d)) @ newline in
       bnd (up_spider w) (\<lambda>w. Inr (w, int (length buf), buf))))"

definition touch_en_store :: "'e kenv_scheme \<Rightarrow> kworld \<Rightarrow> string \<Rightarrow> int \<Rightarrow> (kworld \<times> int) res" where
  "touch_en_store E w buf count =
     (case strict_strtoul E buf of
        None \<Rightarrow> Inr (w, - EPERM)
      | Some val \<Rightarrow>
          bnd (down_spider E w) (\<lambda>(w, intr).
          if intr then Inr (w, - ERESTARTSYS)
          else
            bnd (live (spider_mem w)) (\<lambda>d. let w = w\<lparr>spider_mem := Some (d\<lparr>touch_en := of_nat val\<rparr>)\<rparr> in
            bnd (up_spider (say [GtpTouchEnable (of_nat val)] w)) (\<lambda>w. Inr (w, count)))))"

definition gpo_map_show :: "'e kenv_scheme \<Rightarrow> kworld \<Rightarrow> (kworld \<times> int \<times> string) res" where
  "gpo_map_show E w =
     bnd (down_spider E w) (\<lambda>(w, intr).
     if intr then Inr (w, - ERESTARTSYS, [])
     else
       bnd (live (spider_mem w)) (\<lambda>d. let buf = print_int (sint (gpo_map d)) @ newline in
       bnd (up_spider w) (\<lambda>w. Inr (w, int (length buf), buf))))"

definition gpo_map_store :: "'e kenv_scheme \<Rightarrow> kworld \<Rightarrow> string \<Rightarrow> int \<Rightarrow> (kworld \<times> int) res" where
  "gpo_map_store E w buf count =
     (case strict_strtoul E buf of
        None \<Rightarrow> Inr (w, - EPERM)
      | Some val \<Rightarrow>
          bnd (down_spider E w) (\<lambda>(w, intr).
          if intr then Inr (w, - ERESTARTSYS)
          else
            bnd (live (spider_mem w)) (\<lambda>d. let w = w\<lparr>spider_mem := Some (d\<lparr>gpo_map := of_nat val\<rparr>)\<rparr> in
            bnd (up_spider w) (\<lambda>w. Inr (w, count)))))"

definition gpi_map_show :: "'e kenv_scheme \<Rightarrow> kworld \<Rightarrow> (kworld \<times> int \<times> string) res" where
  "gpi_map_show E w =
     bnd (down_spider E w) (\<lambda>(w, intr).
     if intr then Inr (w, - ERESTARTSYS, [])
     else
       bnd (live (spider_mem w)) (\<lambda>d. let buf = print_int (sint (gpi_map d)) @ newline in
       bnd (up_spider w) (\<lambda>w. Inr (w, int (length buf), buf))))"

definition gpi_map_store :: "'e kenv_scheme \<Rightarrow> kworld \<Rightarrow> string \<Rightarrow> int \<Rightarrow> (kworld \<times> int) res" where
  "gpi_map_store E w buf count =
     (case strict_strtoul E buf of
        None \<Rightarrow> Inr (w, - EPERM)
      | Some val \<Rightarrow>
          bnd (down_spider E w) (\<lambda>(w, intr).
          if intr then Inr (w, - ERESTARTSYS)
          else
            bnd (live (spider_mem w)) (\<lambda>d. let w = w\<lparr>spider_mem := Some (d\<lparr>gpi_map := of_nat val\<rparr>)\<rparr> in
            bnd (up_spider w) (\<lambda>w. Inr (w, count)))))"

definition fleety_spider_device_attributes ::
  "'e kenv_scheme \<Rightarrow> (string \<times> (kworld \<Rightarrow> (kworld \<times> int \<times> string) res) \<times>
     (kworld \<Rightarrow> string \<Rightarrow> int \<Rightarrow> (kworld \<times> int) res)) list" where
  "fleety_spider_device_attributes E =
     [(''heart_beat'', heart_beat_show E, heart_beat_store E),
      (''app_ready'', app_ready_show E, app_ready_store E),
      (''touch_en'', touch_en_show E, touch_en_store E),
      (''gpo_map'', gpo_map_show E, gpo_map_store E),
      (''gpi_map'', gpi_map_show E, gpi_map_store E)]"

section \<open>Probe and remove\<close>

text \<open>
  The results of the calls that the probe function makes: errors are negative numbers, 0 is success. The
  directory in debugfs is a pointer; a failure to create it leaves the result at 0. The object is memory of
  the device (\<open>devm_kzalloc\<close>): the first three failing exits free it, and the kernel frees it on every other exit
  with an error.
\<close>

record spider_probe_env =
  spider_kzalloc :: bool
  spider_class_err :: int
  spider_device_err :: int
  debug_root :: bool
  debug_heart_beat_err :: int
  debug_app_ready_err :: int
  debug_on_err :: int

definition fleety_spider_probe :: "spider_probe_env \<Rightarrow> kworld \<Rightarrow> kworld \<times> int" where
  "fleety_spider_probe P w =
     (if \<not> spider_kzalloc P then (w, - ENOMEM)
      else
        let d = \<lparr>spider_version = 0, heart_beat = 0, app_ready = 0, touch_en = 0, gpo_map = 0, gpi_map = 0,
                 debug_on = 0, spider_sem = 1\<rparr>;
            w = say [AddTimer (FLEETY_SPIDER_APP_READY_MIN * 60)] (w\<lparr>spider_timer := True\<rparr>);
            d = d\<lparr>spider_version := 1, heart_beat := HEART_BEAT_DEFAULT_TIMES, touch_en := 1\<rparr>;
            w = w\<lparr>spider_mem := Some d\<rparr>
        in if spider_class_err P \<noteq> 0 then (w\<lparr>spider_mem := None\<rparr>, spider_class_err P)
        else if spider_device_err P \<noteq> 0 then (w\<lparr>spider_mem := None\<rparr>, spider_device_err P)
        else if \<not> debug_root P then (w\<lparr>spider_mem := None\<rparr>, 0)
        else if debug_heart_beat_err P \<noteq> 0 then (w\<lparr>spider_mem := None\<rparr>, debug_heart_beat_err P)
        else if debug_app_ready_err P \<noteq> 0 then (w\<lparr>spider_mem := None\<rparr>, debug_app_ready_err P)
        else if debug_on_err P \<noteq> 0 then (w\<lparr>spider_mem := None\<rparr>, debug_on_err P)
        else (w\<lparr>spider_drvdata := True\<rparr>, 0))"

definition fleety_spider_remove :: "kworld \<Rightarrow> (kworld \<times> int) res" where
  "fleety_spider_remove w =
     bnd (drvdata (spider_drvdata w)) (\<lambda>_.
     bnd (live (spider_mem w)) (\<lambda>d. Inr (w\<lparr>spider_mem := None\<rparr>, 0)))"

section \<open>The attributes and the semaphores\<close>

definition hold_spider :: "kworld \<Rightarrow> kworld" where
  "hold_spider w = w\<lparr>ndown := ndown w + 1, spider_mem := Some (spider_of w\<lparr>spider_sem := 0\<rparr>)\<rparr>"

lemma down_spider_ok:
  "spider_ready w \<Longrightarrow> down_spider E w =
     Inr (if interrupted E (ndown w) then (count_down w, True) else (hold_spider w, False))"
  by (drule spider_readyD) (simp add: down_spider_def hold_spider_def)

lemma hold_spider_simps [simp]:
  "spider_mem (hold_spider w) = Some (spider_of w\<lparr>spider_sem := 0\<rparr>)" "klog (hold_spider w) = klog w"
  "spider_drvdata (hold_spider w) = spider_drvdata w" "leds_inv (hold_spider w) = leds_inv w"
  by (auto simp: hold_spider_def leds_inv_def leds_ok_def leds_count_def led_level_def)

lemma spider_ready_simps [simp]:
  "spider_ready (w\<lparr>ndown := n\<rparr>) = spider_ready w" "spider_ready (w\<lparr>klog := l\<rparr>) = spider_ready w"
  "spider_of (w\<lparr>ndown := n\<rparr>) = spider_of w" "spider_of (w\<lparr>klog := l\<rparr>) = spider_of w"
  "spider_of (w\<lparr>spider_mem := Some d\<rparr>) = d"
  "spider_ready (w\<lparr>spider_mem := Some d\<rparr>) = (spider_drvdata w \<and> spider_sem d = 1)"
  by (simp_all add: spider_ready_def spider_of_def)

lemma leds_inv_spider [simp]:
  "leds_inv (w\<lparr>spider_mem := d\<rparr>) = leds_inv w" "leds_inv (put_spider e w) = leds_inv w"
  by (auto simp: leds_inv_def leds_ok_def leds_count_def led_level_def put_spider_def)

lemma driven_not_output [simp]:
  "driven (xs @ [Mdelay n]) p = driven xs p" "driven (xs @ [ScheduleWork n]) p = driven xs p"
  "driven (xs @ [GtpTouchEnable v]) p = driven xs p"
  by (simp_all add: driven_append)

lemma leds_inv_say [simp]:
  "l = klog w \<Longrightarrow> leds_inv (w\<lparr>klog := l @ [Mdelay n]\<rparr>) = leds_inv w"
  "l = klog w \<Longrightarrow> leds_inv (w\<lparr>klog := l @ [ScheduleWork n]\<rparr>) = leds_inv w"
  "l = klog w \<Longrightarrow> leds_inv (w\<lparr>klog := l @ [GtpTouchEnable v]\<rparr>) = leds_inv w"
  by (simp_all add: leds_inv_def)

text \<open>What the exported functions of the GPIO driver do when they are not interrupted.\<close>

lemma usb_exports:
  assumes "leds_inv w" "\<forall>k. \<not> interrupted E k"
  shows "\<exists>w'. fleety_usb_switch E w host = Inr (w', 0) \<and> leds_inv w' \<and> same_spider w w' \<and>
      klog w' = klog w @ [GpioSetValue 914 (if host then 1 else 0), GpioSetValue 943 (if host then 1 else 0)]"
    "\<exists>w'. fleety_usbhub_reset E w = Inr (w', 0) \<and> leds_inv w' \<and> same_spider w w' \<and>
      klog w' = klog w @ [GpioSetValue 947 0, Mdelay 200, GpioSetValue 947 1]"
    "\<exists>w'. fleety_usb2eth_reset E w = Inr (w', 0) \<and> leds_inv w' \<and> same_spider w w' \<and>
      klog w' = klog w @ [GpioSetValue 933 0, Mdelay 200, GpioSetValue 933 1]"
proof -
  have p: "leds_pins ! 6 = 914" "leds_pins ! 7 = 943" "leds_pins ! 9 = 947" "leds_pins ! 8 = 933" by code_simp+
  note r = keeps_exports [OF assms(1), of E, unfolded keeps_leds_def]
  show "\<exists>w'. fleety_usb_switch E w host = Inr (w', 0) \<and> leds_inv w' \<and> same_spider w w' \<and>
      klog w' = klog w @ [GpioSetValue 914 (if host then 1 else 0), GpioSetValue 943 (if host then 1 else 0)]"
    using r(1) [of host] leds_inv_ok [OF assms(1)] assms(2) p
    by (auto simp: fleety_usb_switch_def leds_rules Let_def)
  show "\<exists>w'. fleety_usbhub_reset E w = Inr (w', 0) \<and> leds_inv w' \<and> same_spider w w' \<and>
      klog w' = klog w @ [GpioSetValue 947 0, Mdelay 200, GpioSetValue 947 1]"
    using r(2) leds_inv_ok [OF assms(1)] assms(2) p by (auto simp: fleety_usbhub_reset_def leds_rules)
  show "\<exists>w'. fleety_usb2eth_reset E w = Inr (w', 0) \<and> leds_inv w' \<and> same_spider w w' \<and>
      klog w' = klog w @ [GpioSetValue 933 0, Mdelay 200, GpioSetValue 933 1]"
    using r(3) leds_inv_ok [OF assms(1)] assms(2) p by (auto simp: fleety_usb2eth_reset_def leds_rules)
qed

lemma app_ready_usb_log:
  assumes "leds_inv w" "\<forall>k. \<not> interrupted E k"
  shows "\<exists>w'. app_ready_usb E w = Inr w' \<and> leds_inv w' \<and> same_spider w w' \<and>
    klog w' = klog w @ [GpioSetValue 914 1, GpioSetValue 943 1, Mdelay 200,
      GpioSetValue 947 0, Mdelay 200, GpioSetValue 947 1, Mdelay 200,
      GpioSetValue 933 0, Mdelay 200, GpioSetValue 933 1]"
proof -
  obtain w1 where w1: "fleety_usb_switch E w True = Inr (w1, 0)" "leds_inv w1" "same_spider w w1"
    "klog w1 = klog w @ [GpioSetValue 914 1, GpioSetValue 943 1]"
    using usb_exports(1) [OF assms, of True] by auto
  obtain w2 where w2: "fleety_usbhub_reset E (say [Mdelay 200] w1) = Inr (w2, 0)" "leds_inv w2"
    "same_spider (say [Mdelay 200] w1) w2"
    "klog w2 = klog w1 @ [Mdelay 200, GpioSetValue 947 0, Mdelay 200, GpioSetValue 947 1]"
    using usb_exports(2) [of "say [Mdelay 200] w1", OF _ assms(2)] w1(2) by auto
  obtain w3 where w3: "fleety_usb2eth_reset E (say [Mdelay 200] w2) = Inr (w3, 0)" "leds_inv w3"
    "same_spider (say [Mdelay 200] w2) w3"
    "klog w3 = klog w2 @ [Mdelay 200, GpioSetValue 933 0, Mdelay 200, GpioSetValue 933 1]"
    using usb_exports(3) [of "say [Mdelay 200] w2", OF _ assms(2)] w2(2) by auto
  have "app_ready_usb E w = Inr w3" using w1(1) w2(1) w3(1) by (simp add: app_ready_usb_def)
  moreover have "same_spider w w3" using w1(3) w2(3) w3(3) by (simp add: same_spider_def)
  ultimately show ?thesis using w3(2,4) w2(4) w1(4) by simp
qed

lemma app_ready_usb_keeps:
  assumes "leds_inv w"
  shows "\<exists>w'. app_ready_usb E w = Inr w' \<and> leds_inv w' \<and> same_spider w w'"
proof -
  obtain w1 r1 where w1: "fleety_usb_switch E w True = Inr (w1, r1)" "leds_inv w1" "same_spider w w1"
    using keeps_exports(1) [OF assms, of E True] by (auto simp: keeps_leds_def)
  obtain w2 r2 where w2: "fleety_usbhub_reset E (say [Mdelay 200] w1) = Inr (w2, r2)" "leds_inv w2"
    "same_spider (say [Mdelay 200] w1) w2"
    using keeps_exports(2) [of "say [Mdelay 200] w1" E] w1(2) by (auto simp: keeps_leds_def)
  obtain w3 r3 where w3: "fleety_usb2eth_reset E (say [Mdelay 200] w2) = Inr (w3, r3)" "leds_inv w3"
    "same_spider (say [Mdelay 200] w2) w3"
    using keeps_exports(3) [of "say [Mdelay 200] w2" E] w2(2) by (auto simp: keeps_leds_def)
  then show ?thesis using w1 w2 by (simp add: app_ready_usb_def same_spider_def)
qed

section \<open>The two drivers together\<close>

text \<open>Both drivers are in place, both semaphores are free, and the cached levels are the driven levels.\<close>

definition board_inv :: "kworld \<Rightarrow> bool" where
  "board_inv w \<longleftrightarrow> leds_inv w \<and> spider_ready w"

datatype board_call =
    LedsCall leds_call
  | SpiderShow string
  | SpiderStore string string
  | AppReadyTimer
  | HeartBeatWork
  | SetGpoMap s32 s32
  | SetGpiMap s32 s32

text \<open>One call; a map index that the shift does not allow is not among the calls considered here.\<close>

inductive board_step :: "'e kenv_scheme \<Rightarrow> kworld \<Rightarrow> board_call \<Rightarrow> kworld res \<Rightarrow> bool" for E where
  leds: "board_step E w (LedsCall c) (leds_call E w c)"
| show_node: "(name, sh, st) \<in> set (fleety_spider_device_attributes E) \<Longrightarrow>
    board_step E w (SpiderShow name) (bnd (sh w) (\<lambda>(w, _). Inr w))"
| store_node: "(name, sh, st) \<in> set (fleety_spider_device_attributes E) \<Longrightarrow>
    board_step E w (SpiderStore name buf) (bnd (st w buf (int (length buf))) (\<lambda>(w, _). Inr w))"
| timer: "board_step E w AppReadyTimer (app_ready_timer_treat w)"
| work: "board_step E w HeartBeatWork (heart_beat_work_fn w)"
| gpo: "board_step E w (SetGpoMap i level) (bnd (fleety_set_gpo_map E w i level) (\<lambda>(w, _). Inr w))"
| gpi: "board_step E w (SetGpiMap i level) (bnd (fleety_set_gpi_map E w i level) (\<lambda>(w, _). Inr w))"

text \<open>
  The calls whose shift is undefined: the two functions that set a bit of a map accept every index, and use it
  unless they are interrupted before.
\<close>

fun undefined_shift :: "'e kenv_scheme \<Rightarrow> kworld \<Rightarrow> board_call \<Rightarrow> bool" where
  "undefined_shift E w (SetGpoMap i level) = (\<not> unat i < 32 \<and> \<not> interrupted E (ndown w))"
| "undefined_shift E w (SetGpiMap i level) = (\<not> unat i < 32 \<and> \<not> interrupted E (ndown w))"
| "undefined_shift E w _ = False"

inductive_simps board_step_timer: "board_step E w AppReadyTimer r"
inductive_simps board_step_work: "board_step E w HeartBeatWork r"

definition keeps_board :: "(kworld \<times> 'r) res \<Rightarrow> bool" where
  "keeps_board r \<longleftrightarrow> (\<exists>w' x. r = Inr (w', x) \<and> board_inv w')"

lemma up_spider_ok [simp]:
  "spider_mem w = Some d \<Longrightarrow> up_spider w = Inr (w\<lparr>spider_mem := Some (d\<lparr>spider_sem := spider_sem d + 1\<rparr>)\<rparr>)"
  by (simp add: up_spider_def)

lemma show_nodes_keep:
  assumes "board_inv w"
  shows "keeps_board (heart_beat_show E w)" "keeps_board (app_ready_show E w)" "keeps_board (touch_en_show E w)"
    "keeps_board (gpo_map_show E w)" "keeps_board (gpi_map_show E w)"
  using assms spider_readyD [of w]
  by (simp_all add: board_inv_def keeps_board_def down_spider_ok Let_def
      heart_beat_show_def app_ready_show_def touch_en_show_def gpo_map_show_def gpi_map_show_def)

lemma store_nodes_keep:
  assumes "board_inv w"
  shows "keeps_board (heart_beat_store E w buf n)" "keeps_board (touch_en_store E w buf n)"
    "keeps_board (gpo_map_store E w buf n)" "keeps_board (gpi_map_store E w buf n)"
  using assms spider_readyD [of w]
  by (auto simp: board_inv_def keeps_board_def down_spider_ok Let_def heart_beat_store_def touch_en_store_def
      gpo_map_store_def gpi_map_store_def split: option.split)

lemma app_ready_store_keeps:
  assumes "board_inv w"
  shows "keeps_board (app_ready_store E w buf n)"
proof (cases "strict_strtoul E buf")
  case None
  then show ?thesis using assms by (simp add: app_ready_store_def keeps_board_def)
next
  case (Some v)
  let ?d = "spider_of w\<lparr>spider_sem := 0, app_ready := of_nat v\<rparr>"
  let ?w = "hold_spider w\<lparr>spider_mem := Some ?d\<rparr>"
  have "leds_inv ?w" using assms by (simp add: board_inv_def)
  then obtain w1 where w1: "app_ready_usb E ?w = Inr w1" "leds_inv w1" "same_spider ?w w1"
    using app_ready_usb_keeps by blast
  then have "spider_mem w1 = Some ?d" "spider_drvdata w1 = spider_drvdata w" by (simp_all add: same_spider_def)
  then show ?thesis
    using assms Some w1 spider_readyD [of w]
    by (auto simp: board_inv_def keeps_board_def app_ready_store_def down_spider_ok Let_def)
qed

lemma board_step_keeps:
  assumes "board_step E w c r" "board_inv w"
  shows "if undefined_shift E w c then r = Inl (Fault ShiftRange) else \<exists>w'. r = Inr w' \<and> board_inv w'"
  using assms
proof (induction rule: board_step.induct)
  case (leds w c)
  then show ?case using leds_call_keeps [of w E c]
    by (auto simp: board_inv_def same_spider_def spider_ready_def)
next
  case (show_node name sh st w)
  then show ?case using show_nodes_keep [of w E]
    by (auto simp: fleety_spider_device_attributes_def keeps_board_def)
next
  case (store_node name sh st w buf)
  then show ?case using store_nodes_keep [of w E buf] app_ready_store_keeps [of w E buf]
    by (fastforce simp: fleety_spider_device_attributes_def keeps_board_def)
next
  case (timer w)
  then show ?case using spider_readyD [of w] by (simp add: app_ready_timer_treat_def board_inv_def)
next
  case (work w)
  then show ?case using spider_readyD [of w] by (simp add: heart_beat_work_fn_def board_inv_def Let_def)
next
  case (gpo w i level)
  then show ?case using spider_readyD [of w]
    by (cases "interrupted E (ndown w)")
      (auto simp: board_inv_def shl32_def fleety_set_gpo_map_def down_spider_ok)
next
  case (gpi w i level)
  then show ?case using spider_readyD [of w]
    by (cases "interrupted E (ndown w)")
      (auto simp: board_inv_def shl32_def fleety_set_gpi_map_def down_spider_ok)
qed

definition kernel_start :: kworld where
  "kernel_start = \<lparr>leds_mem = None, leds_drvdata = False, spider_mem = None, spider_drvdata = False,
     spider_timer = False, ndown = 0, klog = []\<rparr>"

text \<open>
  The states of the board: both probe functions have succeeded (the spider driver is initialised first),
  with GPIO services that did not fail, and then any calls have been made.
\<close>

inductive board_reach :: "'e kenv_scheme \<Rightarrow> kworld \<Rightarrow> bool" for E where
  probed: "fleety_spider_probe S kernel_start = (w1, 0) \<Longrightarrow> debug_root S \<Longrightarrow> gpio_services_ok (E0 :: kenv) \<Longrightarrow>
    fleety_leds_probe E0 P w1 = Inr (w, 0) \<Longrightarrow> board_reach E w"
| called: "board_reach E w \<Longrightarrow> board_step E w c (Inr w') \<Longrightarrow> board_reach E w'"

lemma spider_probe_ok:
  assumes "fleety_spider_probe S w = (w1, 0)" "debug_root S"
  shows "spider_ready w1 \<and> spider_timer w1"
proof -
  have "w1 = fst (fleety_spider_probe S w)" "snd (fleety_spider_probe S w) = 0" using assms(1) by simp_all
  then show ?thesis using assms(2)
    by (auto simp: fleety_spider_probe_def Let_def ENOMEM_def spider_ready_def split: if_splits)
qed

lemma leds_probe_zero:
  assumes "fleety_leds_probe E P w = Inr (w', 0)"
  shows "leds_kzalloc P \<and> leds_class_err P = 0 \<and> leds_device_err P = 0"
  using assms by (auto simp: fleety_leds_probe_def Let_def ENOMEM_def split: if_splits)

lemma board_reach_inv: "board_reach E w \<Longrightarrow> board_inv w"
proof (induction rule: board_reach.induct)
  case (probed S w1 E0 P w)
  have "spider_ready w1" using spider_probe_ok [OF probed(1,2)] by simp
  from probe_ok [OF this probed(3), of P] leds_probe_zero [OF probed(4)] probed(4)
  show ?case by (auto simp: board_inv_def)
next
  case (called w c w')
  then show ?case using board_step_keeps [OF called.hyps(2) called.IH] by (simp split: if_split_asm)
qed

text \<open>
  C5. The drivers are safe in every state of the board. After the two probe functions and any sequence of
  attribute accesses, calls between the drivers, timer and work item runs, any of them interrupted by
  signals, every further call comes back without a fault or a deadlock (writing the ready flag takes both
  semaphores), leaves both semaphores free, and keeps every cached output level equal to the driven one.
  The one exception is exact: setting a bit of a map with an index outside of 0 to 31 shifts by an
  undefined amount, unless a signal interrupts the call before.
\<close>

theorem board_calls_return:
  assumes "board_reach E w" "board_step E w c r"
  shows "if undefined_shift E w c then r = Inl (Fault ShiftRange) else \<exists>w'. r = Inr w' \<and> leds_inv w' \<and> spider_ready w'"
  using board_step_keeps [OF assms(2) board_reach_inv [OF assms(1)]] by (simp add: board_inv_def split: if_split_asm)

definition good_spider_probe :: spider_probe_env where
  "good_spider_probe = \<lparr>spider_kzalloc = True, spider_class_err = 0, spider_device_err = 0, debug_root = True,
     debug_heart_beat_err = 0, debug_app_ready_err = 0, debug_on_err = 0\<rparr>"

definition probed_board :: kworld where
  "probed_board = (case fleety_leds_probe example_kenv example_probe (fst (fleety_spider_probe good_spider_probe kernel_start)) of
     Inr (w, _) \<Rightarrow> w | Inl _ \<Rightarrow> kernel_start)"

lemma probed_board_reach: "board_reach E probed_board"
proof -
  let ?w1 = "fst (fleety_spider_probe good_spider_probe kernel_start)"
  have s: "fleety_spider_probe good_spider_probe kernel_start = (?w1, 0)"
    by (simp add: fleety_spider_probe_def good_spider_probe_def Let_def)
  have "spider_ready ?w1" using spider_probe_ok [OF s] by (simp add: good_spider_probe_def)
  from probe_ok [OF this example_services(1,3-5)]
  have "fleety_leds_probe example_kenv example_probe ?w1 = Inr (probed_board, 0)" by (auto simp: probed_board_def)
  from board_reach.probed [OF s _ example_services(1) this] show ?thesis by (simp add: good_spider_probe_def)
qed

theorem board_calls_return_witness:
  "(\<exists>w'. bnd (app_ready_store example_kenv probed_board ''1'' (int (length ''1''))) (\<lambda>(w, _). Inr w) = Inr w' \<and>
     leds_inv w' \<and> spider_ready w') \<and>
   bnd (fleety_set_gpi_map example_kenv probed_board 40 1) (\<lambda>(w, _). Inr w) = Inl (Fault ShiftRange)"
proof
  have "board_step example_kenv probed_board (SpiderStore ''app_ready'' ''1'')
      (bnd (app_ready_store example_kenv probed_board ''1'' (int (length ''1''))) (\<lambda>(w, _). Inr w))"
    by (rule board_step.store_node [where sh = "app_ready_show example_kenv"]) (simp add: fleety_spider_device_attributes_def)
  from board_calls_return [OF probed_board_reach this]
  show "\<exists>w'. bnd (app_ready_store example_kenv probed_board ''1'' (int (length ''1''))) (\<lambda>(w, _). Inr w) = Inr w' \<and>
     leds_inv w' \<and> spider_ready w'" by simp
  show "bnd (fleety_set_gpi_map example_kenv probed_board 40 1) (\<lambda>(w, _). Inr w) = Inl (Fault ShiftRange)"
    using board_calls_return [OF probed_board_reach board_step.gpi [of example_kenv probed_board 40 1]] by (simp add: example_kenv_def)
qed

lemma app_ready_store_log:
  assumes "board_inv w" "\<forall>k. \<not> interrupted E k" "strict_strtoul E buf = Some v"
  shows "\<exists>w'. app_ready_store E w buf count = Inr (w', count) \<and> board_inv w' \<and>
    spider_of w' = spider_of w\<lparr>app_ready := of_nat v\<rparr> \<and>
    klog w' = klog w @ (if (of_nat v :: u32) = 0 then [] else
      [GpioSetValue 914 1, GpioSetValue 943 1, Mdelay 200,
       GpioSetValue 947 0, Mdelay 200, GpioSetValue 947 1, Mdelay 200,
       GpioSetValue 933 0, Mdelay 200, GpioSetValue 933 1])"
proof -
  let ?d = "spider_of w\<lparr>spider_sem := 0, app_ready := of_nat v\<rparr>"
  let ?w = "hold_spider w\<lparr>spider_mem := Some ?d\<rparr>"
  have i: "leds_inv w" "spider_ready w" "spider_drvdata w" "spider_sem (spider_of w) = 1"
    using assms(1) spider_readyD [of w] by (auto simp: board_inv_def)
  then have "leds_inv ?w" by simp
  from app_ready_usb_log [OF this assms(2)]
  obtain w1 where w1: "app_ready_usb E ?w = Inr w1" "leds_inv w1" "same_spider ?w w1"
    "klog w1 = klog w @ [GpioSetValue 914 1, GpioSetValue 943 1, Mdelay 200,
       GpioSetValue 947 0, Mdelay 200, GpioSetValue 947 1, Mdelay 200,
       GpioSetValue 933 0, Mdelay 200, GpioSetValue 933 1]"
    by auto
  then have "spider_mem w1 = Some ?d" "spider_drvdata w1 = spider_drvdata w" by (simp_all add: same_spider_def)
  then show ?thesis using i w1(1,2,4) assms(2,3)
    by (simp add: app_ready_store_def down_spider_ok board_inv_def)
qed

text \<open>
  C27. The USB start-up. Writing a number that is not zero (as 32 bits) to \<open>app_ready\<close> stores it, switches
  the USB port to host mode, and then pulses the reset lines of the hub and of the Ethernet adapter low for
  200 ms each, in this order and 200 ms apart; writing zero touches no pin.
\<close>

theorem app_ready_starts_usb:
  assumes "board_inv w" "\<forall>k. \<not> interrupted E k" "strict_strtoul E buf = Some v"
  shows "\<exists>w'. app_ready_store E w buf count = Inr (w', count) \<and> board_inv w' \<and>
    spider_of w' = spider_of w\<lparr>app_ready := of_nat v\<rparr> \<and>
    klog w' = klog w @ (if (of_nat v :: u32) = 0 then [] else
      [GpioSetValue 914 1, GpioSetValue 943 1, Mdelay 200,
       GpioSetValue 947 0, Mdelay 200, GpioSetValue 947 1, Mdelay 200,
       GpioSetValue 933 0, Mdelay 200, GpioSetValue 933 1])"
  by (rule app_ready_store_log [OF assms])

theorem app_ready_starts_usb_witness:
  "\<exists>w'. app_ready_store example_kenv probed_board ''1'' 1 = Inr (w', 1) \<and> board_inv w' \<and>
    spider_of w' = spider_of probed_board\<lparr>app_ready := of_nat 1\<rparr> \<and>
    klog w' = klog probed_board @ (if (of_nat 1 :: u32) = 0 then [] else
      [GpioSetValue 914 1, GpioSetValue 943 1, Mdelay 200,
       GpioSetValue 947 0, Mdelay 200, GpioSetValue 947 1, Mdelay 200,
       GpioSetValue 933 0, Mdelay 200, GpioSetValue 933 1])"
  by (rule app_ready_starts_usb [OF board_reach_inv [OF probed_board_reach]])
    (simp_all add: example_kenv_def parse_number_def digit_value_def)

section \<open>The heart beat counter over time\<close>

text \<open>The work item run \<open>n\<close> times, each run being scheduled by the one before.\<close>

fun heart_beat_runs :: "kworld \<Rightarrow> nat \<Rightarrow> kworld res" where
  "heart_beat_runs w 0 = Inr w"
| "heart_beat_runs w (Suc n) = bnd (heart_beat_work_fn w) (\<lambda>w. heart_beat_runs w n)"

text \<open>
  C29. The heart beat counter counts down and stops at zero. After \<open>n\<close> runs of the work item it is its
  old value minus \<open>n\<close>, but never below zero (it does not wrap around), the item has been scheduled \<open>n\<close>
  more times and nothing else has happened: in particular, an application that stops writing the counter
  is never restarted, the restart being commented out.
\<close>

theorem heart_beat_counts_down:
  assumes "spider_mem w = Some d"
  shows "\<exists>h. heart_beat_runs w n = Inr (w\<lparr>spider_mem := Some (d\<lparr>heart_beat := h\<rparr>),
      klog := klog w @ replicate n (ScheduleWork 1000)\<rparr>) \<and> unat h = unat (heart_beat d) - n"
  using assms
proof (induction n arbitrary: w d)
  case 0
  then show ?case by (intro exI [of _ "heart_beat d"]) simp
next
  case (Suc n)
  let ?h = "if heart_beat d = 0 then 0 else heart_beat d - 1"
  let ?w = "w\<lparr>spider_mem := Some (d\<lparr>heart_beat := ?h\<rparr>), klog := klog w @ [ScheduleWork 1000]\<rparr>"
  have h: "unat ?h = unat (heart_beat d) - 1"
    by (simp add: unat_minus_one)
  have "(if heart_beat d = 0 then d else d\<lparr>heart_beat := heart_beat d - 1\<rparr>) = d\<lparr>heart_beat := ?h\<rparr>"
    by (cases d) simp
  then have "heart_beat_work_fn w = Inr ?w"
    using Suc.prems by (simp add: heart_beat_work_fn_def HEART_BEAT_WORK_MS_def)
  moreover obtain h' where "heart_beat_runs ?w n = Inr (?w\<lparr>spider_mem := Some (d\<lparr>heart_beat := h'\<rparr>),
      klog := klog ?w @ replicate n (ScheduleWork 1000)\<rparr>)" "unat h' = unat ?h - n"
    using Suc.IH [of ?w "d\<lparr>heart_beat := ?h\<rparr>"] by auto
  ultimately show ?case using h by (intro exI [of _ h']) simp
qed

theorem heart_beat_counts_down_witness:
  "\<exists>h. heart_beat_runs spider_world 40 = Inr (spider_world\<lparr>spider_mem := Some
        (spider_of spider_world\<lparr>heart_beat := h\<rparr>), klog := klog spider_world @ replicate 40 (ScheduleWork 1000)\<rparr>) \<and>
      unat h = unat (heart_beat (spider_of spider_world)) - 40"
  by (rule heart_beat_counts_down) (simp add: spider_world_def spider_of_def)

section \<open>After the driver object is freed\<close>

text \<open>
  C37. The timer outlives the driver object. Whenever the probe function fails after it has armed the timer,
  at any of its six failing exits, the object is freed and the timer stays armed; the timer function then
  uses freed memory. Without the debugfs directory the probe function even reports success, and the
  first call of \<open>fleety_set_gpo_map\<close> by the GPIO driver dereferences NULL. Removing the driver frees the
  object with the timer and the work item still pending.
\<close>

theorem spider_timer_outlives_object:
  assumes "\<not> spider_drvdata w"
  shows "(spider_kzalloc S \<and> (snd (fleety_spider_probe S w) \<noteq> 0 \<or> \<not> debug_root S) \<longrightarrow>
      (case fleety_spider_probe S w of (w', r) \<Rightarrow>
        spider_timer w' \<and> app_ready_timer_treat w' = Inl (Fault UseAfterFree) \<and>
        fleety_set_gpo_map E w' i level = Inl (Fault NullDeref) \<and>
        (spider_class_err S = 0 \<and> spider_device_err S = 0 \<and> \<not> debug_root S \<longrightarrow> r = 0))) \<and>
    (spider_ready w1 \<longrightarrow> (\<exists>w2. fleety_spider_remove w1 = Inr (w2, 0) \<and> spider_timer w2 = spider_timer w1 \<and>
        app_ready_timer_treat w2 = Inl (Fault UseAfterFree) \<and> heart_beat_work_fn w2 = Inl (Fault UseAfterFree)))"
  using assms
  by (auto simp: fleety_spider_probe_def Let_def app_ready_timer_treat_def fleety_set_gpo_map_def down_spider_def
      fleety_spider_remove_def spider_ready_def heart_beat_work_fn_def)

definition bad_spider_probe :: spider_probe_env where
  "bad_spider_probe = good_spider_probe\<lparr>debug_root := False\<rparr>"

theorem spider_timer_outlives_object_witness:
  "(case fleety_spider_probe bad_spider_probe kernel_start of (w', r) \<Rightarrow>
      spider_timer w' \<and> app_ready_timer_treat w' = Inl (Fault UseAfterFree) \<and>
      fleety_set_gpo_map example_kenv w' 0 1 = Inl (Fault NullDeref) \<and> r = 0) \<and>
   (\<exists>w2. fleety_spider_remove spider_world = Inr (w2, 0) \<and> spider_timer w2 \<and>
      app_ready_timer_treat w2 = Inl (Fault UseAfterFree) \<and> heart_beat_work_fn w2 = Inl (Fault UseAfterFree))"
  using spider_timer_outlives_object [of kernel_start bad_spider_probe example_kenv 0 1 spider_world] example_services(2)
  by (simp add: kernel_start_def bad_spider_probe_def good_spider_probe_def)
    (simp add: spider_world_def case_prod_unfold)

section \<open>The attributes as sysfs nodes\<close>

definition board_ready :: "'e kenv_scheme \<Rightarrow> kworld \<Rightarrow> bool" where
  "board_ready E w \<longleftrightarrow> board_inv w \<and> no_signals E"

lemma board_readyD:
  "board_ready E w \<Longrightarrow> leds_inv w \<and> spider_ready w \<and> spider_drvdata w \<and> spider_mem w = Some (spider_of w) \<and>
     spider_sem (spider_of w) = 1 \<and> (\<forall>k. \<not> interrupted E k)"
  using spider_readyD [of w] by (auto simp: board_ready_def board_inv_def no_signals_def)

lemma board_ready_hold [simp]:
  "board_ready E w \<Longrightarrow> board_ready E (hold_spider w\<lparr>spider_mem := Some d\<rparr>) = (spider_sem d = 1)"
proof -
  assume r: "board_ready E w"
  then have "leds_inv w" "spider_drvdata w" "no_signals E" using board_readyD [OF r] by (simp_all add: board_ready_def)
  then show ?thesis by (simp add: board_ready_def board_inv_def)
qed

interpretation gpo_node: sysfs_node E "board_ready E" "gpo_map_show E" "gpo_map_store E" "\<lambda>w. gpo_map (spider_of w)" for E
  by unfold_locales
    (frule board_readyD, simp add: gpo_map_store_def down_spider_ok Let_def,
     frule board_readyD, simp add: gpo_map_show_def down_spider_ok Let_def)

interpretation gpi_node: sysfs_node E "board_ready E" "gpi_map_show E" "gpi_map_store E" "\<lambda>w. gpi_map (spider_of w)" for E
  by unfold_locales
    (frule board_readyD, simp add: gpi_map_store_def down_spider_ok Let_def,
     frule board_readyD, simp add: gpi_map_show_def down_spider_ok Let_def)

interpretation heart_beat_node: sysfs_node E "board_ready E" "heart_beat_show E" "heart_beat_store E"
  "\<lambda>w. heart_beat (spider_of w)" for E
  by unfold_locales
    (frule board_readyD, simp add: heart_beat_store_def down_spider_ok Let_def,
     frule board_readyD, simp add: heart_beat_show_def down_spider_ok Let_def)

end
