(* ===== verification/Spider_HAL.thy ===== *)
theory Spider_HAL
  imports Fleety_Spider
begin

text \<open>
  The Android hardware abstraction module of the box (\<open>src/hardware/qcom/spider/spider.c\<close> and its interface
  \<open>src/hardware/libhardware/include/hardware/spider.h\<close>): every function of it formats a number and writes
  it to a sysfs node of one of the drivers, or reads a node and parses the number. The theorems follow a call
  through the node and the driver to the pin, and back.
\<close>

section \<open>Files in sysfs\<close>

text \<open>
  \<open>hal_open_fails\<close> says which paths \<open>open\<close> refuses, \<open>hal_malloc\<close> whether \<open>malloc\<close> succeeds. A path that is not a
  node of the modelled drivers (the backlight) belongs to another driver; a write to it is recorded.
\<close>

record hal_env = kenv +
  hal_open_fails :: "string \<Rightarrow> bool"
  hal_malloc :: bool

definition SPIDER_PATH :: string where "SPIDER_PATH = ''/sys/class/fleety_spider_class/fleety_spider''"
definition GPIO_PATH :: string where "GPIO_PATH = ''/sys/class/fleety_leds_class/fleety_leds''"
definition LIGHT_PATH :: string where "LIGHT_PATH = ''/sys/class/leds/lcd-backlight''"

definition sysfs_nodes :: "'e kenv_scheme \<Rightarrow> (string \<times> (kworld \<Rightarrow> (kworld \<times> int \<times> string) res) \<times>
     (kworld \<Rightarrow> string \<Rightarrow> int \<Rightarrow> (kworld \<times> int) res)) list" where
  "sysfs_nodes E =
     map (\<lambda>(name, h). (SPIDER_PATH @ ''/'' @ name, h)) (fleety_spider_device_attributes E) @
     map (\<lambda>(name, h). (GPIO_PATH @ ''/'' @ name, h)) (fleety_leds_device_attributes E)"

definition sysfs_write :: "'e kenv_scheme \<Rightarrow> kworld \<Rightarrow> string \<Rightarrow> string \<Rightarrow> (kworld \<times> int) res" where
  "sysfs_write E w path text =
     (case map_of (sysfs_nodes E) path of
        Some (sh, st) \<Rightarrow> st w text (int (length text))
      | None \<Rightarrow> Inr (say [NodeWrite path text] w, int (length text)))"

text \<open>\<open>read\<close> puts at most \<open>n\<close> bytes into the buffer; a failing node leaves the buffer as it was.\<close>

definition sysfs_read :: "'e kenv_scheme \<Rightarrow> kworld \<Rightarrow> string \<Rightarrow> nat \<Rightarrow> (kworld \<times> string) res" where
  "sysfs_read E w path n =
     (case map_of (sysfs_nodes E) path of
        Some (sh, st) \<Rightarrow> bnd (sh w) (\<lambda>(w, ret, text). Inr (w, if ret < 0 then [] else take n text))
      | None \<Rightarrow> Inr (w, []))"

section \<open>The module\<close>

text \<open>\<open>snprintf\<close> into the buffer of 100 bytes.\<close>

definition snprintf100 :: "string \<Rightarrow> string" where
  "snprintf100 s = take 99 s"

definition spider_set_common_treat ::
  "'e hal_env_scheme \<Rightarrow> kworld \<Rightarrow> string \<Rightarrow> string \<Rightarrow> s32 \<Rightarrow> (kworld \<times> int) res" where
  "spider_set_common_treat E w path node val =
     (let buffer = snprintf100 (path @ ''/'' @ node) in
      if hal_open_fails E buffer then Inr (w, - EFAULT)
      else
        let text = snprintf100 (print_int (sint val) @ newline) in
        bnd (sysfs_write E w buffer text) (\<lambda>(w, _). Inr (w, 0)))"

definition spider_get_common_treat ::
  "'e hal_env_scheme \<Rightarrow> kworld \<Rightarrow> string \<Rightarrow> string \<Rightarrow> (kworld \<times> int) res" where
  "spider_get_common_treat E w path node =
     (let buffer = snprintf100 (path @ ''/'' @ node) in
      if hal_open_fails E buffer then Inr (w, - EFAULT)
      else bnd (sysfs_read E w buffer 100) (\<lambda>(w, text). Inr (w, atoi text)))"

definition spider_set_app_ready :: "'e hal_env_scheme \<Rightarrow> kworld \<Rightarrow> s32 \<Rightarrow> (kworld \<times> int) res" where
  "spider_set_app_ready E w val = spider_set_common_treat E w SPIDER_PATH ''app_ready'' val"

definition spider_set_heart_beat :: "'e hal_env_scheme \<Rightarrow> kworld \<Rightarrow> s32 \<Rightarrow> (kworld \<times> int) res" where
  "spider_set_heart_beat E w val = spider_set_common_treat E w SPIDER_PATH ''heart_beat'' val"

definition spider_set_relay1_gpio :: "'e hal_env_scheme \<Rightarrow> kworld \<Rightarrow> s32 \<Rightarrow> (kworld \<times> int) res" where
  "spider_set_relay1_gpio E w val = spider_set_common_treat E w GPIO_PATH ''output1_relay'' val"

definition spider_set_relay2_gpio :: "'e hal_env_scheme \<Rightarrow> kworld \<Rightarrow> s32 \<Rightarrow> (kworld \<times> int) res" where
  "spider_set_relay2_gpio E w val = spider_set_common_treat E w GPIO_PATH ''output2_relay'' val"

definition spider_set_relay3_gpio :: "'e hal_env_scheme \<Rightarrow> kworld \<Rightarrow> s32 \<Rightarrow> (kworld \<times> int) res" where
  "spider_set_relay3_gpio E w val = spider_set_common_treat E w GPIO_PATH ''output3_relay'' val"

definition spider_set_relay4_gpio :: "'e hal_env_scheme \<Rightarrow> kworld \<Rightarrow> s32 \<Rightarrow> (kworld \<times> int) res" where
  "spider_set_relay4_gpio E w val = spider_set_common_treat E w GPIO_PATH ''output4_relay'' val"

definition spider_set_amp_stb_gpio :: "'e hal_env_scheme \<Rightarrow> kworld \<Rightarrow> s32 \<Rightarrow> (kworld \<times> int) res" where
  "spider_set_amp_stb_gpio E w val = bnd (spider_set_common_treat E w GPIO_PATH ''amp_stb'' val) (\<lambda>(w, _). Inr (w, 0))"

definition spider_set_amp_mute_gpio :: "'e hal_env_scheme \<Rightarrow> kworld \<Rightarrow> s32 \<Rightarrow> (kworld \<times> int) res" where
  "spider_set_amp_mute_gpio E w val = bnd (spider_set_common_treat E w GPIO_PATH ''amp_mute'' val) (\<lambda>(w, _). Inr (w, 0))"

definition spider_set_otg_switch_gpio :: "'e hal_env_scheme \<Rightarrow> kworld \<Rightarrow> s32 \<Rightarrow> (kworld \<times> int) res" where
  "spider_set_otg_switch_gpio E w val = bnd (spider_set_common_treat E w GPIO_PATH ''otg_switch'' val) (\<lambda>(w, _). Inr (w, 0))"

definition spider_set_usb2eth_rst_gpio :: "'e hal_env_scheme \<Rightarrow> kworld \<Rightarrow> s32 \<Rightarrow> (kworld \<times> int) res" where
  "spider_set_usb2eth_rst_gpio E w val = bnd (spider_set_common_treat E w GPIO_PATH ''usb2eth_rst'' val) (\<lambda>(w, _). Inr (w, 0))"

definition spider_set_usbhub_rst_gpio :: "'e hal_env_scheme \<Rightarrow> kworld \<Rightarrow> s32 \<Rightarrow> (kworld \<times> int) res" where
  "spider_set_usbhub_rst_gpio E w val = bnd (spider_set_common_treat E w GPIO_PATH ''usbhub_rst'' val) (\<lambda>(w, _). Inr (w, 0))"

definition spider_set_stm32_rst_gpio :: "'e hal_env_scheme \<Rightarrow> kworld \<Rightarrow> s32 \<Rightarrow> (kworld \<times> int) res" where
  "spider_set_stm32_rst_gpio E w val = bnd (spider_set_common_treat E w GPIO_PATH ''stm32_rst'' val) (\<lambda>(w, _). Inr (w, 0))"

definition spider_set_camera_power_gpio :: "'e hal_env_scheme \<Rightarrow> kworld \<Rightarrow> s32 \<Rightarrow> (kworld \<times> int) res" where
  "spider_set_camera_power_gpio E w val = bnd (spider_set_common_treat E w GPIO_PATH ''camera_power'' val) (\<lambda>(w, _). Inr (w, 0))"

definition spider_set_tachograph_power_gpio :: "'e hal_env_scheme \<Rightarrow> kworld \<Rightarrow> s32 \<Rightarrow> (kworld \<times> int) res" where
  "spider_set_tachograph_power_gpio E w val = bnd (spider_set_common_treat E w GPIO_PATH ''tachograph_power'' val) (\<lambda>(w, _). Inr (w, 0))"

definition spider_set_ex_power_gpio :: "'e hal_env_scheme \<Rightarrow> kworld \<Rightarrow> s32 \<Rightarrow> (kworld \<times> int) res" where
  "spider_set_ex_power_gpio E w val = bnd (spider_set_common_treat E w GPIO_PATH ''ex_power'' val) (\<lambda>(w, _). Inr (w, 0))"

definition spider_set_finger_power_gpio :: "'e hal_env_scheme \<Rightarrow> kworld \<Rightarrow> s32 \<Rightarrow> (kworld \<times> int) res" where
  "spider_set_finger_power_gpio E w val = bnd (spider_set_common_treat E w GPIO_PATH ''finger_power'' val) (\<lambda>(w, _). Inr (w, 0))"

definition spider_set_tsm_power_gpio :: "'e hal_env_scheme \<Rightarrow> kworld \<Rightarrow> s32 \<Rightarrow> (kworld \<times> int) res" where
  "spider_set_tsm_power_gpio E w val = bnd (spider_set_common_treat E w GPIO_PATH ''tsm_power'' val) (\<lambda>(w, _). Inr (w, 0))"

definition spider_set_fan_power_gpio :: "'e hal_env_scheme \<Rightarrow> kworld \<Rightarrow> s32 \<Rightarrow> (kworld \<times> int) res" where
  "spider_set_fan_power_gpio E w val = bnd (spider_set_common_treat E w GPIO_PATH ''fan_power'' val) (\<lambda>(w, _). Inr (w, 0))"

definition spider_set_gpio_out_map :: "'e hal_env_scheme \<Rightarrow> kworld \<Rightarrow> s32 \<Rightarrow> (kworld \<times> int) res" where
  "spider_set_gpio_out_map E w val = bnd (spider_set_common_treat E w SPIDER_PATH ''gpo_map'' val) (\<lambda>(w, _). Inr (w, 0))"

definition spider_get_gpio_out_map :: "'e hal_env_scheme \<Rightarrow> kworld \<Rightarrow> (kworld \<times> int) res" where
  "spider_get_gpio_out_map E w = spider_get_common_treat E w SPIDER_PATH ''gpo_map''"

definition spider_set_gpio_in_map :: "'e hal_env_scheme \<Rightarrow> kworld \<Rightarrow> s32 \<Rightarrow> (kworld \<times> int) res" where
  "spider_set_gpio_in_map E w val = bnd (spider_set_common_treat E w SPIDER_PATH ''gpi_map'' val) (\<lambda>(w, _). Inr (w, 0))"

definition spider_get_gpio_in_map :: "'e hal_env_scheme \<Rightarrow> kworld \<Rightarrow> (kworld \<times> int) res" where
  "spider_get_gpio_in_map E w = spider_get_common_treat E w SPIDER_PATH ''gpi_map''"

definition spider_set_backlight :: "'e hal_env_scheme \<Rightarrow> kworld \<Rightarrow> s32 \<Rightarrow> (kworld \<times> int) res" where
  "spider_set_backlight E w val =
     bnd (spider_set_common_treat E w LIGHT_PATH ''brightness'' val) (\<lambda>(w, _).
     bnd (spider_set_common_treat E w SPIDER_PATH ''touch_en'' (if val \<noteq> 0 then 1 else 0)) (\<lambda>(w, _). Inr (w, 0)))"

record spider_device_t =
  set_app_ready :: "kworld \<Rightarrow> s32 \<Rightarrow> (kworld \<times> int) res"
  set_heart_beat :: "kworld \<Rightarrow> s32 \<Rightarrow> (kworld \<times> int) res"
  set_relay1_gpio :: "kworld \<Rightarrow> s32 \<Rightarrow> (kworld \<times> int) res"
  set_relay2_gpio :: "kworld \<Rightarrow> s32 \<Rightarrow> (kworld \<times> int) res"
  set_relay3_gpio :: "kworld \<Rightarrow> s32 \<Rightarrow> (kworld \<times> int) res"
  set_relay4_gpio :: "kworld \<Rightarrow> s32 \<Rightarrow> (kworld \<times> int) res"
  set_amp_stb_gpio :: "kworld \<Rightarrow> s32 \<Rightarrow> (kworld \<times> int) res"
  set_amp_mute_gpio :: "kworld \<Rightarrow> s32 \<Rightarrow> (kworld \<times> int) res"
  set_otg_switch_gpio :: "kworld \<Rightarrow> s32 \<Rightarrow> (kworld \<times> int) res"
  set_usb2eth_rst_gpio :: "kworld \<Rightarrow> s32 \<Rightarrow> (kworld \<times> int) res"
  set_usbhub_rst_gpio :: "kworld \<Rightarrow> s32 \<Rightarrow> (kworld \<times> int) res"
  set_stm32_rst_gpio :: "kworld \<Rightarrow> s32 \<Rightarrow> (kworld \<times> int) res"
  set_camera_power_gpio :: "kworld \<Rightarrow> s32 \<Rightarrow> (kworld \<times> int) res"
  set_tachograph_power_gpio :: "kworld \<Rightarrow> s32 \<Rightarrow> (kworld \<times> int) res"
  set_ex_power_gpio :: "kworld \<Rightarrow> s32 \<Rightarrow> (kworld \<times> int) res"
  set_finger_power_gpio :: "kworld \<Rightarrow> s32 \<Rightarrow> (kworld \<times> int) res"
  set_tsm_power_gpio :: "kworld \<Rightarrow> s32 \<Rightarrow> (kworld \<times> int) res"
  set_fan_power_gpio :: "kworld \<Rightarrow> s32 \<Rightarrow> (kworld \<times> int) res"
  set_gpio_out_map :: "kworld \<Rightarrow> s32 \<Rightarrow> (kworld \<times> int) res"
  set_gpio_in_map :: "kworld \<Rightarrow> s32 \<Rightarrow> (kworld \<times> int) res"
  set_backlight :: "kworld \<Rightarrow> s32 \<Rightarrow> (kworld \<times> int) res"
  get_gpio_out_map :: "kworld \<Rightarrow> (kworld \<times> int) res"
  get_gpio_in_map :: "kworld \<Rightarrow> (kworld \<times> int) res"

definition spider_device_open :: "'e hal_env_scheme \<Rightarrow> spider_device_t option \<times> int" where
  "spider_device_open E =
     (if \<not> hal_malloc E then (None, - EFAULT)
      else (Some \<lparr>set_app_ready = spider_set_app_ready E,
        set_heart_beat = spider_set_heart_beat E,
        set_relay1_gpio = spider_set_relay1_gpio E,
        set_relay2_gpio = spider_set_relay2_gpio E,
        set_relay3_gpio = spider_set_relay3_gpio E,
        set_relay4_gpio = spider_set_relay4_gpio E,
        set_amp_stb_gpio = spider_set_amp_stb_gpio E,
        set_amp_mute_gpio = spider_set_amp_mute_gpio E,
        set_otg_switch_gpio = spider_set_otg_switch_gpio E,
        set_usb2eth_rst_gpio = spider_set_usb2eth_rst_gpio E,
        set_usbhub_rst_gpio = spider_set_usbhub_rst_gpio E,
        set_stm32_rst_gpio = spider_set_stm32_rst_gpio E,
        set_camera_power_gpio = spider_set_camera_power_gpio E,
        set_tachograph_power_gpio = spider_set_tachograph_power_gpio E,
        set_ex_power_gpio = spider_set_ex_power_gpio E,
        set_finger_power_gpio = spider_set_finger_power_gpio E,
        set_tsm_power_gpio = spider_set_tsm_power_gpio E,
        set_fan_power_gpio = spider_set_fan_power_gpio E,
        set_gpio_out_map = spider_set_gpio_out_map E,
        set_gpio_in_map = spider_set_gpio_in_map E,
        set_backlight = spider_set_backlight E,
        get_gpio_out_map = spider_get_gpio_out_map E,
        get_gpio_in_map = spider_get_gpio_in_map E\<rparr>, 0))"

definition spider_device_close :: "'d option \<Rightarrow> 'd option \<times> int" where
  "spider_device_close device = (None, 0)"

section \<open>From the module to the pins\<close>

text \<open>The functions of the module that drive one pin.\<close>

definition gpio_setters :: "'e hal_env_scheme \<Rightarrow> ((kworld \<Rightarrow> s32 \<Rightarrow> (kworld \<times> int) res) \<times> s32) list" where
  "gpio_setters E =
     [(spider_set_relay1_gpio E, 1002),
      (spider_set_relay2_gpio E, 1003),
      (spider_set_relay3_gpio E, 1008),
      (spider_set_relay4_gpio E, 942),
      (spider_set_amp_stb_gpio E, 937),
      (spider_set_amp_mute_gpio E, 913),
      (spider_set_otg_switch_gpio E, 943),
      (spider_set_usb2eth_rst_gpio E, 933),
      (spider_set_usbhub_rst_gpio E, 947),
      (spider_set_stm32_rst_gpio E, 1004),
      (spider_set_camera_power_gpio E, 980),
      (spider_set_tachograph_power_gpio E, 1007),
      (spider_set_ex_power_gpio E, 1010),
      (spider_set_finger_power_gpio E, 1023),
      (spider_set_tsm_power_gpio E, 934),
      (spider_set_fan_power_gpio E, 919)]"

lemmas gpio_setter_defs = spider_set_relay1_gpio_def spider_set_relay2_gpio_def spider_set_relay3_gpio_def spider_set_relay4_gpio_def spider_set_amp_stb_gpio_def spider_set_amp_mute_gpio_def spider_set_otg_switch_gpio_def spider_set_usb2eth_rst_gpio_def spider_set_usbhub_rst_gpio_def spider_set_stm32_rst_gpio_def spider_set_camera_power_gpio_def spider_set_tachograph_power_gpio_def spider_set_ex_power_gpio_def spider_set_finger_power_gpio_def spider_set_tsm_power_gpio_def spider_set_fan_power_gpio_def

lemma map_of_prefixed: "map_of (map (\<lambda>(n, h). (P @ c # n, h)) xs) (P @ c # n) = map_of xs n"
  by (induction xs) auto

lemma map_of_not_prefixed: "\<forall>n. P @ c # n \<noteq> k \<Longrightarrow> map_of (map (\<lambda>(n, h). (P @ c # n, h)) xs) k = None"
  by (induction xs) auto

lemma paths_differ: "SPIDER_PATH @ m \<noteq> GPIO_PATH @ n"
  by (simp add: SPIDER_PATH_def GPIO_PATH_def)

lemma spider_node: "map_of (sysfs_nodes E) (SPIDER_PATH @ CHR ''/'' # n) = map_of (fleety_spider_device_attributes E) n"
proof -
  have "map_of (map (\<lambda>(m, h). (GPIO_PATH @ CHR ''/'' # m, h)) (fleety_leds_device_attributes E))
      (SPIDER_PATH @ CHR ''/'' # n) = None"
    using paths_differ [symmetric] by (intro map_of_not_prefixed) blast
  then show ?thesis by (simp add: sysfs_nodes_def map_add_def map_of_prefixed split: option.split)
qed

lemma gpio_node: "map_of (sysfs_nodes E) (GPIO_PATH @ CHR ''/'' # n) = map_of (fleety_leds_device_attributes E) n"
proof -
  have "map_of (map (\<lambda>(m, h). (SPIDER_PATH @ CHR ''/'' # m, h)) (fleety_spider_device_attributes E))
      (GPIO_PATH @ CHR ''/'' # n) = None"
    using paths_differ by (intro map_of_not_prefixed) blast
  then show ?thesis by (simp add: sysfs_nodes_def map_add_def map_of_prefixed split: option.split)
qed

lemma map_of_attributes:
  "map_of (fleety_leds_device_attributes E) n =
     map_option (\<lambda>i. (\<lambda>w. fleety_leds_gpio_show_treat E w i, store_of E i)) (map_of attr_index n)"
proof -
  have "map_of (map (\<lambda>(n, i). (n, f i)) xs) n = map_option f (map_of xs n)" for f :: "nat \<Rightarrow> 'b" and xs
    by (induction xs) auto
  then show ?thesis by (simp add: attributes_eq)
qed

lemma snprintf_number: "snprintf100 (print_int (sint (v :: s32)) @ newline) = print_int (sint v) @ newline"
  using length_print_int [of v] by (simp add: snprintf100_def)

lemma snprintf_path:
  "length n \<le> 30 \<Longrightarrow> snprintf100 (GPIO_PATH @ CHR ''/'' # n) = GPIO_PATH @ CHR ''/'' # n"
  "length n \<le> 30 \<Longrightarrow> snprintf100 (SPIDER_PATH @ CHR ''/'' # n) = SPIDER_PATH @ CHR ''/'' # n"
  by (simp_all add: snprintf100_def GPIO_PATH_def SPIDER_PATH_def)

definition files_open :: "'e hal_env_scheme \<Rightarrow> bool" where
  "files_open E \<longleftrightarrow> (\<forall>path. \<not> hal_open_fails E path)"

lemma set_gpio_node:
  assumes "map_of attr_index n = Some i" "i < 17" "length n \<le> 30" "leds_inv w" "no_signals E" "strtoul_reads E"
    "files_open E" "0 \<le> sint val"
  shows "\<exists>w'. spider_set_common_treat E w GPIO_PATH n val = Inr (w', 0) \<and> leds_inv w' \<and> same_spider w w' \<and>
    driven (klog w') (leds_pins ! i) = Some val"
proof -
  let ?t = "print_int (sint val) @ newline"
  have r: "leds_node_ready E i w" using assms by (simp add: leds_node_ready_def)
  obtain w' where w': "store_of E i w ?t (int (length ?t)) = Inr (w', int (length ?t))" "leds_node_ready E i w'"
    "led_level w' i = val" using leds_node.store_number [OF r assms(6,8)] by blast
  have "keeps_leds w (store_of E i w ?t (int (length ?t)))" by (rule keeps_store_of [OF assms(4,2)])
  then have "same_spider w w'" using w'(1) by (simp add: keeps_leds_def)
  then show ?thesis using assms(1,2,3,7) w'
    by (simp add: spider_set_common_treat_def snprintf_path snprintf_number files_open_def sysfs_write_def
        gpio_node map_of_attributes Let_def leds_node_ready_def leds_inv_def)
qed

lemma set_gpio_node_rejected:
  assumes "map_of attr_index n = Some i" "i < 17" "length n \<le> 30" "leds_inv w" "strtoul_rejects E"
    "files_open E" "sint val < 0"
  shows "spider_set_common_treat E w GPIO_PATH n val = Inr (w, 0)"
proof -
  have "strict_strtoul E (print_int (sint val) @ newline) = None"
    using assms(5,7) by (simp add: print_int_def strtoul_rejects_def)
  then have "store_of E i w (print_int (sint val) @ newline) k = Inr (w, k)" for k
    using assms(2,4) by (simp add: store_of_def store_one_def otg_switch_on_store_def store_treat_result)
  then show ?thesis using assms(1,3,6)
    by (simp add: spider_set_common_treat_def snprintf_path snprintf_number files_open_def sysfs_write_def
        gpio_node map_of_attributes Let_def)
qed

text \<open>Every function that drives a pin writes the node of an output; most ignore whether the file opens.\<close>

lemma gpio_setters_eq:
  "gpio_setters E = map (\<lambda>(n, i).
     (\<lambda>w v. if i < 4 then spider_set_common_treat E w GPIO_PATH n v
            else bnd (spider_set_common_treat E w GPIO_PATH n v) (\<lambda>(w, _). Inr (w, 0)), leds_pins ! i)) attr_index"
  unfolding gpio_setters_def attr_index_def
  by (simp add: gpio_setter_defs fun_eq_iff leds_pins_def leds_table_def)

lemma attr_index_facts: "list_all (\<lambda>(n, i). i < 17 \<and> length n \<le> 30 \<and> map_of attr_index n = Some i) attr_index"
  by code_simp

lemma gpio_setterE:
  assumes "(f, pin) \<in> set (gpio_setters E)"
  obtains n i where "i < 17" "length n \<le> 30" "map_of attr_index n = Some i" "pin = leds_pins ! i"
    "\<forall>w v w'. spider_set_common_treat E w GPIO_PATH n v = Inr (w', 0) \<longrightarrow> f w v = Inr (w', 0)"
proof -
  obtain n i where n: "(n, i) \<in> set attr_index" "pin = leds_pins ! i"
    "f = (\<lambda>w v. if i < 4 then spider_set_common_treat E w GPIO_PATH n v
       else bnd (spider_set_common_treat E w GPIO_PATH n v) (\<lambda>(w, _). Inr (w, 0)))"
    using assms unfolding gpio_setters_eq by auto
  then show thesis using attr_index_facts that [of i n] by (auto simp: list_all_iff)
qed

text \<open>
  C6. A call of the hardware module reaches the pin. For each of the sixteen functions that set an output,
  a value that is not negative is driven on the pin of that output, through the text of the number, the
  sysfs node and the driver, and 0 is returned; the map of outputs that \<open>spider_get_gpio_out_map\<close> reads is
  not brought up to date. A negative value is refused by the driver, and the call returns 0 all the same.
\<close>

theorem hal_set_drives_pin:
  assumes "leds_inv w" "no_signals E" "strtoul_reads E" "strtoul_rejects E" "files_open E"
    and "(set_gpio, pin) \<in> set (gpio_setters E)"
  shows "if 0 \<le> sint val
    then \<exists>w'. set_gpio w val = Inr (w', 0) \<and> leds_inv w' \<and> same_spider w w' \<and> driven (klog w') pin = Some val
    else set_gpio w val = Inr (w, 0)"
proof -
  obtain i n where n: "i < 17" "length n \<le> 30" "map_of attr_index n = Some i" "pin = leds_pins ! i"
    "\<forall>w v w'. spider_set_common_treat E w GPIO_PATH n v = Inr (w', 0) \<longrightarrow> set_gpio w v = Inr (w', 0)"
    using assms(6) by (elim gpio_setterE) blast
  show ?thesis
    using set_gpio_node [OF n(3,1,2) assms(1-3,5), of val] n(4,5)
      set_gpio_node_rejected [OF n(3,1,2) assms(1,4,5), of val] by fastforce
qed

lemma spider_nodes:
  "map_of (fleety_spider_device_attributes E) ''gpo_map'' = Some (gpo_map_show E, gpo_map_store E)"
  "map_of (fleety_spider_device_attributes E) ''gpi_map'' = Some (gpi_map_show E, gpi_map_store E)"
  by (simp_all add: fleety_spider_device_attributes_def)

text \<open>Setting and getting a number through a node that fulfils the contract.\<close>

context sysfs_node
begin

lemma hal_set:
  assumes "ready w" "strtoul_reads E" "0 \<le> sint v" "map_of (sysfs_nodes E) path = Some (node_show, node_store)"
  shows "\<exists>w'. bnd (sysfs_write E w path (print_int (sint v) @ newline)) (\<lambda>(w, _). Inr (w, 0)) = Inr (w', 0 :: int) \<and>
    ready w' \<and> node_value w' = v"
  using store_number [OF assms(1-3), of "int (length (print_int (sint v) @ newline))"] assms(4)
  by (auto simp: sysfs_write_def)

lemma hal_get:
  assumes "ready w" "map_of (sysfs_nodes E) path = Some (node_show, node_store)"
  shows "\<exists>w'. bnd (sysfs_read E w path 100) (\<lambda>(w, text). Inr (w, atoi text)) = Inr (w', sint (node_value w)) \<and>
    ready w' \<and> node_value w' = node_value w"
proof -
  obtain w' s where s: "node_show w = Inr (w', int (length s), s)" "ready w'" "node_value w' = node_value w"
    "atoi s = sint (node_value w)" "s = print_int (sint (node_value w)) @ newline"
    using show_number [OF assms(1)] by blast
  have "take 100 s = s" using s(5) length_print_int [of "node_value w"] by simp
  then show ?thesis using s assms(2) by (simp add: sysfs_read_def)
qed

end

text \<open>
  The GPIO maps through the hardware module: what is set (a value that is not negative) is what is
  got, for the map of outputs and for the map of inputs; and in every state the getters return the map of
  the driver, read as a signed number.
\<close>

lemma hal_map_roundtrip:
  assumes "board_ready E w" "strtoul_reads E" "files_open E" "0 \<le> sint val"
  shows "(\<exists>w1 w2. spider_set_gpio_out_map E w val = Inr (w1, 0) \<and> spider_get_gpio_out_map E w1 = Inr (w2, sint val)) \<and>
    (\<exists>w1 w2. spider_set_gpio_in_map E w val = Inr (w1, 0) \<and> spider_get_gpio_in_map E w1 = Inr (w2, sint val)) \<and>
    (\<exists>w2. spider_get_gpio_out_map E w = Inr (w2, sint (gpo_map (spider_of w)))) \<and>
    (\<exists>w2. spider_get_gpio_in_map E w = Inr (w2, sint (gpi_map (spider_of w))))"
proof -
  let ?o = "SPIDER_PATH @ CHR ''/'' # ''gpo_map''" and ?i = "SPIDER_PATH @ CHR ''/'' # ''gpi_map''"
  have n: "map_of (sysfs_nodes E) ?o = Some (gpo_map_show E, gpo_map_store E)"
    "map_of (sysfs_nodes E) ?i = Some (gpi_map_show E, gpi_map_store E)"
    by (simp_all only: spider_node spider_nodes)
  have set_eq: "spider_set_gpio_out_map E w val = bnd (sysfs_write E w ?o (print_int (sint val) @ newline)) (\<lambda>(w, _). Inr (w, 0))"
    "spider_set_gpio_in_map E w val = bnd (sysfs_write E w ?i (print_int (sint val) @ newline)) (\<lambda>(w, _). Inr (w, 0))" for w
    using assms(3)
    by (simp_all add: spider_set_gpio_out_map_def spider_set_gpio_in_map_def spider_set_common_treat_def Let_def
        snprintf_path snprintf_number files_open_def bnd_assoc case_prod_unfold)
  have get_eq: "spider_get_gpio_out_map E w = bnd (sysfs_read E w ?o 100) (\<lambda>(w, text). Inr (w, atoi text))"
    "spider_get_gpio_in_map E w = bnd (sysfs_read E w ?i 100) (\<lambda>(w, text). Inr (w, atoi text))" for w
    using assms(3)
    by (simp_all add: spider_get_gpio_out_map_def spider_get_gpio_in_map_def spider_get_common_treat_def Let_def
        snprintf_path files_open_def)
  obtain w1 where w1: "spider_set_gpio_out_map E w val = Inr (w1, 0)" "board_ready E w1" "gpo_map (spider_of w1) = val"
    using gpo_node.hal_set [OF assms(1,2,4) n(1)] unfolding set_eq by blast
  obtain w2 where w2: "spider_set_gpio_in_map E w val = Inr (w2, 0)" "board_ready E w2" "gpi_map (spider_of w2) = val"
    using gpi_node.hal_set [OF assms(1,2,4) n(2)] unfolding set_eq by blast
  have got: "board_ready E u \<Longrightarrow> \<exists>u'. spider_get_gpio_out_map E u = Inr (u', sint (gpo_map (spider_of u)))"
    "board_ready E u \<Longrightarrow> \<exists>u'. spider_get_gpio_in_map E u = Inr (u', sint (gpi_map (spider_of u)))" for u
    using gpo_node.hal_get [OF _ n(1)] gpi_node.hal_get [OF _ n(2)] unfolding get_eq by blast+
  show ?thesis using w1(1) got(1) [OF w1(2)] w2(1) got(2) [OF w2(2)] got [OF assms(1)] w1(3) w2(3) by auto
qed

definition example_hal_env :: hal_env where
  "example_hal_env = \<lparr>strict_strtoul = parse_number, interrupted = (\<lambda>k. False), gpio_is_valid = (\<lambda>pin. True),
     gpio_request_res = (\<lambda>pin. 0), gpio_output_res = (\<lambda>pin. 0), gpio_value = (\<lambda>pin. 0),
     hal_open_fails = (\<lambda>path. False), hal_malloc = True\<rparr>"

lemma parse_number_decimal: "parse_number (decimal n @ newline) = Some n"
proof -
  obtain d :: nat and cs where "d < 10" "decimal n = char_of (48 + d) # cs" using decimal_Cons by blast
  then have "parse_number (decimal n @ newline) = Some (read_digits 0 (decimal n @ newline))"
    by (simp add: parse_number_def)
  also have "read_digits 0 (decimal n @ newline) = n"
    by (subst read_digits_decimal) (simp add: digit_value_def)
  finally show ?thesis .
qed

lemma example_hal_facts: "no_signals example_hal_env" "strtoul_reads example_hal_env"
  "strtoul_rejects example_hal_env" "files_open example_hal_env"
proof -
  show "strtoul_reads example_hal_env" by (simp add: strtoul_reads_def example_hal_env_def parse_number_decimal)
qed (simp_all add: no_signals_def strtoul_rejects_def files_open_def example_hal_env_def parse_number_def digit_value_def)

theorem hal_set_drives_pin_witness:
  "if 0 \<le> sint (1 :: s32)
    then \<exists>w'. spider_set_fan_power_gpio example_hal_env board_world 1 = Inr (w', 0) \<and> leds_inv w' \<and>
      same_spider board_world w' \<and> driven (klog w') 919 = Some 1
    else spider_set_fan_power_gpio example_hal_env board_world 1 = Inr (board_world, 0)"
  by (rule hal_set_drives_pin [OF board_world_inv(1) example_hal_facts]) (simp add: gpio_setters_def)

lemma hal_map_roundtrip_example:
  "(\<exists>w1 w2. spider_set_gpio_out_map example_hal_env probed_board 5 = Inr (w1, 0) \<and>
      spider_get_gpio_out_map example_hal_env w1 = Inr (w2, sint (5 :: s32))) \<and>
   (\<exists>w1 w2. spider_set_gpio_in_map example_hal_env probed_board 5 = Inr (w1, 0) \<and>
      spider_get_gpio_in_map example_hal_env w1 = Inr (w2, sint (5 :: s32))) \<and>
   (\<exists>w2. spider_get_gpio_out_map example_hal_env probed_board = Inr (w2, sint (gpo_map (spider_of probed_board)))) \<and>
   (\<exists>w2. spider_get_gpio_in_map example_hal_env probed_board = Inr (w2, sint (gpi_map (spider_of probed_board))))"
  by (rule hal_map_roundtrip [OF _ example_hal_facts(2,4)])
    (simp_all add: board_ready_def example_hal_facts(1) board_reach_inv [OF probed_board_reach])

end
