(* ===== verification/Spider_Service.thy ===== *)
theory Spider_Service
  imports Spider_HAL
begin

text \<open>
  The system service through which applications reach the box
  (\<open>src/frameworks/base/services/java/com/android/server/SpiderService.java\<close>, interface
  \<open>src/frameworks/base/core/java/android/os/ISpiderService.aidl\<close>) and its native part
  (\<open>src/frameworks/base/services/jni/com_android_server_SpiderService.cpp\<close>). A call goes through the native
  function, the hardware module, a sysfs node and the driver to the pin. The service also keeps a copy of
  the map of outputs and writes it back after every change; the theorems show when the copy, the map of the
  driver and the pins agree, and when they do not.
\<close>

section \<open>State\<close>

text \<open>
  \<open>spider_device\<close> is the global variable of the native part, \<open>svc_gpo_map\<close> and \<open>svc_gpi_map\<close> are the
  fields \<open>gpo_map\<close> and \<open>gpi_map\<close> of the service, and \<open>power_calls\<close> records the calls of the power manager.
\<close>

datatype power_call =
    PmReboot string
  | PmsShutdown bool bool
  | PmGoToSleep "64 word"
  | PmUserActivity "64 word" bool

record system_server =
  kernel :: kworld
  spider_device :: "spider_device_t option"
  svc_gpo_map :: s32
  svc_gpi_map :: s32
  power_calls :: "power_call list"

text \<open>\<open>hw_get_module_res\<close> is the result of \<open>hw_get_module\<close>, \<open>uptimeMillis\<close> the clock.\<close>

record service_env = hal_env +
  hw_get_module_res :: int
  uptimeMillis :: "64 word"

section \<open>The native part\<close>

text \<open>
  The native functions all look whether the device is open, call the function of the device, and ignore its
  result. They are named as the service declares them.
\<close>

definition jni_set ::
  "(spider_device_t \<Rightarrow> kworld \<Rightarrow> s32 \<Rightarrow> (kworld \<times> int) res) \<Rightarrow> system_server \<Rightarrow> s32 \<Rightarrow> system_server res" where
  "jni_set f s val =
     (case spider_device s of
        None \<Rightarrow> Inr s
      | Some dev \<Rightarrow> bnd (f dev (kernel s) val) (\<lambda>(w, _). Inr (s\<lparr>kernel := w\<rparr>)))"

definition jni_get :: "(spider_device_t \<Rightarrow> kworld \<Rightarrow> (kworld \<times> int) res) \<Rightarrow> system_server \<Rightarrow> (system_server \<times> s32) res" where
  "jni_get f s =
     (case spider_device s of
        None \<Rightarrow> Inr (s, - 1)
      | Some dev \<Rightarrow> bnd (f dev (kernel s)) (\<lambda>(w, val). Inr (s\<lparr>kernel := w\<rparr>, word_of_int val)))"

definition set_app_ready_native :: "system_server \<Rightarrow> s32 \<Rightarrow> system_server res" where
  "set_app_ready_native s value = jni_set set_app_ready s value"

definition set_heart_beat_native :: "system_server \<Rightarrow> s32 \<Rightarrow> system_server res" where
  "set_heart_beat_native s value = jni_set set_heart_beat s value"

definition set_relay1_gpio_native :: "system_server \<Rightarrow> s32 \<Rightarrow> system_server res" where
  "set_relay1_gpio_native s value = jni_set set_relay1_gpio s value"

definition set_relay2_gpio_native :: "system_server \<Rightarrow> s32 \<Rightarrow> system_server res" where
  "set_relay2_gpio_native s value = jni_set set_relay2_gpio s value"

definition set_relay3_gpio_native :: "system_server \<Rightarrow> s32 \<Rightarrow> system_server res" where
  "set_relay3_gpio_native s value = jni_set set_relay3_gpio s value"

definition set_relay4_gpio_native :: "system_server \<Rightarrow> s32 \<Rightarrow> system_server res" where
  "set_relay4_gpio_native s value = jni_set set_relay4_gpio s value"

definition set_amp_stb_gpio_native :: "system_server \<Rightarrow> s32 \<Rightarrow> system_server res" where
  "set_amp_stb_gpio_native s value = jni_set set_amp_stb_gpio s value"

definition set_amp_mute_gpio_native :: "system_server \<Rightarrow> s32 \<Rightarrow> system_server res" where
  "set_amp_mute_gpio_native s value = jni_set set_amp_mute_gpio s value"

definition set_otg_switch_gpio_native :: "system_server \<Rightarrow> s32 \<Rightarrow> system_server res" where
  "set_otg_switch_gpio_native s value = jni_set set_otg_switch_gpio s value"

definition set_usb2eth_rst_gpio_native :: "system_server \<Rightarrow> s32 \<Rightarrow> system_server res" where
  "set_usb2eth_rst_gpio_native s value = jni_set set_usb2eth_rst_gpio s value"

definition set_usbhub_rst_gpio_native :: "system_server \<Rightarrow> s32 \<Rightarrow> system_server res" where
  "set_usbhub_rst_gpio_native s value = jni_set set_usbhub_rst_gpio s value"

definition set_stm32_rst_gpio_native :: "system_server \<Rightarrow> s32 \<Rightarrow> system_server res" where
  "set_stm32_rst_gpio_native s value = jni_set set_stm32_rst_gpio s value"

definition set_camera_power_gpio_native :: "system_server \<Rightarrow> s32 \<Rightarrow> system_server res" where
  "set_camera_power_gpio_native s value = jni_set set_camera_power_gpio s value"

definition set_tachograph_power_gpio_native :: "system_server \<Rightarrow> s32 \<Rightarrow> system_server res" where
  "set_tachograph_power_gpio_native s value = jni_set set_tachograph_power_gpio s value"

definition set_ex_power_gpio_native :: "system_server \<Rightarrow> s32 \<Rightarrow> system_server res" where
  "set_ex_power_gpio_native s value = jni_set set_ex_power_gpio s value"

definition set_finger_power_gpio_native :: "system_server \<Rightarrow> s32 \<Rightarrow> system_server res" where
  "set_finger_power_gpio_native s value = jni_set set_finger_power_gpio s value"

definition set_tsm_power_gpio_native :: "system_server \<Rightarrow> s32 \<Rightarrow> system_server res" where
  "set_tsm_power_gpio_native s value = jni_set set_tsm_power_gpio s value"

definition set_fan_power_gpio_native :: "system_server \<Rightarrow> s32 \<Rightarrow> system_server res" where
  "set_fan_power_gpio_native s value = jni_set set_fan_power_gpio s value"

definition set_gpio_out_map_native :: "system_server \<Rightarrow> s32 \<Rightarrow> system_server res" where
  "set_gpio_out_map_native s value = jni_set set_gpio_out_map s value"

definition set_gpio_in_map_native :: "system_server \<Rightarrow> s32 \<Rightarrow> system_server res" where
  "set_gpio_in_map_native s value = jni_set set_gpio_in_map s value"

definition set_backlight_native :: "system_server \<Rightarrow> s32 \<Rightarrow> system_server res" where
  "set_backlight_native s value = jni_set set_backlight s value"

definition get_gpio_out_map_native :: "system_server \<Rightarrow> (system_server \<times> s32) res" where
  "get_gpio_out_map_native s = jni_get get_gpio_out_map s"

definition get_gpio_in_map_native :: "system_server \<Rightarrow> (system_server \<times> s32) res" where
  "get_gpio_in_map_native s = jni_get get_gpio_in_map s"

definition init_native :: "'e service_env_scheme \<Rightarrow> system_server \<Rightarrow> system_server \<times> bool" where
  "init_native E s =
     (if hw_get_module_res E = 0
      then (case spider_device_open E of
          (Some dev, ret) \<Rightarrow> (s\<lparr>spider_device := Some dev\<rparr>, ret = 0)
        | (None, ret) \<Rightarrow> (s, ret = 0))
      else (s, False))"

section \<open>The service\<close>

definition RELAY1_GPIO_OUT_INDEX :: nat where "RELAY1_GPIO_OUT_INDEX = 0"
definition RELAY2_GPIO_OUT_INDEX :: nat where "RELAY2_GPIO_OUT_INDEX = 1"
definition RELAY3_GPIO_OUT_INDEX :: nat where "RELAY3_GPIO_OUT_INDEX = 2"
definition RELAY4_GPIO_OUT_INDEX :: nat where "RELAY4_GPIO_OUT_INDEX = 3"
definition AMP_STB_GPIO_OUT_INDEX :: nat where "AMP_STB_GPIO_OUT_INDEX = 4"
definition AMP_MUTE_GPIO_OUT_INDEX :: nat where "AMP_MUTE_GPIO_OUT_INDEX = 5"
definition OTG_SWITCH_GPIO_OUT_INDEX :: nat where "OTG_SWITCH_GPIO_OUT_INDEX = 6"
definition USB2ETH_RST_GPIO_OUT_INDEX :: nat where "USB2ETH_RST_GPIO_OUT_INDEX = 7"
definition USBHUB_RST_GPIO_OUT_INDEX :: nat where "USBHUB_RST_GPIO_OUT_INDEX = 8"
definition STM32_RST_GPIO_OUT_INDEX :: nat where "STM32_RST_GPIO_OUT_INDEX = 9"
definition CAMERA_POWER_GPIO_OUT_INDEX :: nat where "CAMERA_POWER_GPIO_OUT_INDEX = 10"
definition TACHOGRAPH_POWER_GPIO_OUT_INDEX :: nat where "TACHOGRAPH_POWER_GPIO_OUT_INDEX = 11"
definition EX_POWER_GPIO_OUT_INDEX :: nat where "EX_POWER_GPIO_OUT_INDEX = 12"
definition FINGER_POWER_GPIO_OUT_INDEX :: nat where "FINGER_POWER_GPIO_OUT_INDEX = 13"
definition TSM_POWER_GPIO_OUT_INDEX :: nat where "TSM_POWER_GPIO_OUT_INDEX = 14"
definition FAN_POWER_GPIO_OUT_INDEX :: nat where "FAN_POWER_GPIO_OUT_INDEX = 15"

definition common_map_treat :: "s32 \<Rightarrow> nat \<Rightarrow> s32 \<Rightarrow> s32" where
  "common_map_treat m index level =
     (if level \<noteq> 0 then m OR push_bit index 1 else m AND NOT (push_bit index 1))"

definition SpiderService :: "'e service_env_scheme \<Rightarrow> system_server \<Rightarrow> system_server res" where
  "SpiderService E s =
     bnd (get_gpio_out_map_native s) (\<lambda>(s, val).
     bnd (get_gpio_in_map_native (s\<lparr>svc_gpo_map := val\<rparr>)) (\<lambda>(s, val).
     Inr (fst (init_native E (s\<lparr>svc_gpi_map := val\<rparr>)))))"

definition service_set_gpio_out_map :: "system_server \<Rightarrow> s32 \<Rightarrow> system_server res" where
  "service_set_gpio_out_map s val = set_gpio_out_map_native s val"

definition service_get_gpio_out_map :: "system_server \<Rightarrow> (system_server \<times> s32) res" where
  "service_get_gpio_out_map s = get_gpio_out_map_native s"


definition service_get_gpio_in_map :: "system_server \<Rightarrow> (system_server \<times> s32) res" where
  "service_get_gpio_in_map s = get_gpio_in_map_native s"

definition service_set_app_ready :: "system_server \<Rightarrow> s32 \<Rightarrow> system_server res" where
  "service_set_app_ready s val =
     bnd (set_app_ready_native s val) (\<lambda>s.
     bnd (service_get_gpio_out_map s) (\<lambda>(s, out_map).
     bnd (service_get_gpio_in_map (s\<lparr>svc_gpo_map := out_map\<rparr>)) (\<lambda>(s, in_map).
     Inr (s\<lparr>svc_gpi_map := in_map\<rparr>))))"


definition service_set_relay1_gpio :: "system_server \<Rightarrow> s32 \<Rightarrow> system_server res" where
  "service_set_relay1_gpio s val =
     bnd (set_relay1_gpio_native s val) (\<lambda>s.
     let s = s\<lparr>svc_gpo_map := common_map_treat (svc_gpo_map s) RELAY1_GPIO_OUT_INDEX val\<rparr>
     in service_set_gpio_out_map s (svc_gpo_map s))"

definition service_set_relay2_gpio :: "system_server \<Rightarrow> s32 \<Rightarrow> system_server res" where
  "service_set_relay2_gpio s val =
     bnd (set_relay2_gpio_native s val) (\<lambda>s.
     let s = s\<lparr>svc_gpo_map := common_map_treat (svc_gpo_map s) RELAY2_GPIO_OUT_INDEX val\<rparr>
     in service_set_gpio_out_map s (svc_gpo_map s))"

definition service_set_relay3_gpio :: "system_server \<Rightarrow> s32 \<Rightarrow> system_server res" where
  "service_set_relay3_gpio s val =
     bnd (set_relay3_gpio_native s val) (\<lambda>s.
     let s = s\<lparr>svc_gpo_map := common_map_treat (svc_gpo_map s) RELAY3_GPIO_OUT_INDEX val\<rparr>
     in service_set_gpio_out_map s (svc_gpo_map s))"

definition service_set_relay4_gpio :: "system_server \<Rightarrow> s32 \<Rightarrow> system_server res" where
  "service_set_relay4_gpio s val =
     bnd (set_relay4_gpio_native s val) (\<lambda>s.
     let s = s\<lparr>svc_gpo_map := common_map_treat (svc_gpo_map s) RELAY4_GPIO_OUT_INDEX val\<rparr>
     in service_set_gpio_out_map s (svc_gpo_map s))"

definition service_set_amp_stb_gpio :: "system_server \<Rightarrow> s32 \<Rightarrow> system_server res" where
  "service_set_amp_stb_gpio s val =
     bnd (set_amp_stb_gpio_native s val) (\<lambda>s.
     let s = s\<lparr>svc_gpo_map := common_map_treat (svc_gpo_map s) AMP_STB_GPIO_OUT_INDEX val\<rparr>
     in service_set_gpio_out_map s (svc_gpo_map s))"

definition service_set_amp_mute_gpio :: "system_server \<Rightarrow> s32 \<Rightarrow> system_server res" where
  "service_set_amp_mute_gpio s val =
     bnd (set_amp_mute_gpio_native s val) (\<lambda>s.
     let s = s\<lparr>svc_gpo_map := common_map_treat (svc_gpo_map s) AMP_MUTE_GPIO_OUT_INDEX val\<rparr>
     in service_set_gpio_out_map s (svc_gpo_map s))"

definition service_set_otg_switch_gpio :: "system_server \<Rightarrow> s32 \<Rightarrow> system_server res" where
  "service_set_otg_switch_gpio s val =
     bnd (set_otg_switch_gpio_native s val) (\<lambda>s.
     let s = s\<lparr>svc_gpo_map := common_map_treat (svc_gpo_map s) OTG_SWITCH_GPIO_OUT_INDEX val\<rparr>
     in service_set_gpio_out_map s (svc_gpo_map s))"

definition service_set_usb2eth_rst_gpio :: "system_server \<Rightarrow> s32 \<Rightarrow> system_server res" where
  "service_set_usb2eth_rst_gpio s val =
     bnd (set_usb2eth_rst_gpio_native s val) (\<lambda>s.
     let s = s\<lparr>svc_gpo_map := common_map_treat (svc_gpo_map s) USB2ETH_RST_GPIO_OUT_INDEX val\<rparr>
     in service_set_gpio_out_map s (svc_gpo_map s))"

definition service_set_usbhub_rst_gpio :: "system_server \<Rightarrow> s32 \<Rightarrow> system_server res" where
  "service_set_usbhub_rst_gpio s val =
     bnd (set_usbhub_rst_gpio_native s val) (\<lambda>s.
     let s = s\<lparr>svc_gpo_map := common_map_treat (svc_gpo_map s) USBHUB_RST_GPIO_OUT_INDEX val\<rparr>
     in service_set_gpio_out_map s (svc_gpo_map s))"

definition service_set_stm32_rst_gpio :: "system_server \<Rightarrow> s32 \<Rightarrow> system_server res" where
  "service_set_stm32_rst_gpio s val =
     bnd (set_stm32_rst_gpio_native s val) (\<lambda>s.
     let s = s\<lparr>svc_gpo_map := common_map_treat (svc_gpo_map s) STM32_RST_GPIO_OUT_INDEX val\<rparr>
     in service_set_gpio_out_map s (svc_gpo_map s))"

definition service_set_camera_power_gpio :: "system_server \<Rightarrow> s32 \<Rightarrow> system_server res" where
  "service_set_camera_power_gpio s val =
     bnd (set_camera_power_gpio_native s val) (\<lambda>s.
     let s = s\<lparr>svc_gpo_map := common_map_treat (svc_gpo_map s) CAMERA_POWER_GPIO_OUT_INDEX val\<rparr>
     in service_set_gpio_out_map s (svc_gpo_map s))"

definition service_set_tachograph_power_gpio :: "system_server \<Rightarrow> s32 \<Rightarrow> system_server res" where
  "service_set_tachograph_power_gpio s val =
     bnd (set_tachograph_power_gpio_native s val) (\<lambda>s.
     let s = s\<lparr>svc_gpo_map := common_map_treat (svc_gpo_map s) TACHOGRAPH_POWER_GPIO_OUT_INDEX val\<rparr>
     in service_set_gpio_out_map s (svc_gpo_map s))"

definition service_set_ex_power_gpio :: "system_server \<Rightarrow> s32 \<Rightarrow> system_server res" where
  "service_set_ex_power_gpio s val =
     bnd (set_ex_power_gpio_native s val) (\<lambda>s.
     let s = s\<lparr>svc_gpo_map := common_map_treat (svc_gpo_map s) EX_POWER_GPIO_OUT_INDEX val\<rparr>
     in service_set_gpio_out_map s (svc_gpo_map s))"

definition service_set_finger_power_gpio :: "system_server \<Rightarrow> s32 \<Rightarrow> system_server res" where
  "service_set_finger_power_gpio s val =
     bnd (set_finger_power_gpio_native s val) (\<lambda>s.
     let s = s\<lparr>svc_gpo_map := common_map_treat (svc_gpo_map s) FINGER_POWER_GPIO_OUT_INDEX val\<rparr>
     in service_set_gpio_out_map s (svc_gpo_map s))"

definition service_set_tsm_power_gpio :: "system_server \<Rightarrow> s32 \<Rightarrow> system_server res" where
  "service_set_tsm_power_gpio s val =
     bnd (set_tsm_power_gpio_native s val) (\<lambda>s.
     let s = s\<lparr>svc_gpo_map := common_map_treat (svc_gpo_map s) TSM_POWER_GPIO_OUT_INDEX val\<rparr>
     in service_set_gpio_out_map s (svc_gpo_map s))"

definition service_set_fan_power_gpio :: "system_server \<Rightarrow> s32 \<Rightarrow> system_server res" where
  "service_set_fan_power_gpio s val =
     bnd (set_fan_power_gpio_native s val) (\<lambda>s.
     let s = s\<lparr>svc_gpo_map := common_map_treat (svc_gpo_map s) FAN_POWER_GPIO_OUT_INDEX val\<rparr>
     in service_set_gpio_out_map s (svc_gpo_map s))"







text \<open>The methods that set an output, with the bit they keep in the map and the pin they drive.\<close>

definition service_outputs :: "((system_server \<Rightarrow> s32 \<Rightarrow> system_server res) \<times> nat \<times> s32) list" where
  "service_outputs =
     [(service_set_relay1_gpio, RELAY1_GPIO_OUT_INDEX, 1002),
      (service_set_relay2_gpio, RELAY2_GPIO_OUT_INDEX, 1003),
      (service_set_relay3_gpio, RELAY3_GPIO_OUT_INDEX, 1008),
      (service_set_relay4_gpio, RELAY4_GPIO_OUT_INDEX, 942),
      (service_set_amp_stb_gpio, AMP_STB_GPIO_OUT_INDEX, 937),
      (service_set_amp_mute_gpio, AMP_MUTE_GPIO_OUT_INDEX, 913),
      (service_set_otg_switch_gpio, OTG_SWITCH_GPIO_OUT_INDEX, 943),
      (service_set_usb2eth_rst_gpio, USB2ETH_RST_GPIO_OUT_INDEX, 933),
      (service_set_usbhub_rst_gpio, USBHUB_RST_GPIO_OUT_INDEX, 947),
      (service_set_stm32_rst_gpio, STM32_RST_GPIO_OUT_INDEX, 1004),
      (service_set_camera_power_gpio, CAMERA_POWER_GPIO_OUT_INDEX, 980),
      (service_set_tachograph_power_gpio, TACHOGRAPH_POWER_GPIO_OUT_INDEX, 1007),
      (service_set_ex_power_gpio, EX_POWER_GPIO_OUT_INDEX, 1010),
      (service_set_finger_power_gpio, FINGER_POWER_GPIO_OUT_INDEX, 1023),
      (service_set_tsm_power_gpio, TSM_POWER_GPIO_OUT_INDEX, 934),
      (service_set_fan_power_gpio, FAN_POWER_GPIO_OUT_INDEX, 919)]"





lemmas native_defs = set_app_ready_native_def set_heart_beat_native_def set_relay1_gpio_native_def
  set_relay2_gpio_native_def set_relay3_gpio_native_def set_relay4_gpio_native_def set_amp_stb_gpio_native_def
  set_amp_mute_gpio_native_def set_otg_switch_gpio_native_def set_usb2eth_rst_gpio_native_def
  set_usbhub_rst_gpio_native_def set_stm32_rst_gpio_native_def set_camera_power_gpio_native_def
  set_tachograph_power_gpio_native_def set_ex_power_gpio_native_def set_finger_power_gpio_native_def
  set_tsm_power_gpio_native_def set_fan_power_gpio_native_def set_gpio_out_map_native_def set_gpio_in_map_native_def
  set_backlight_native_def get_gpio_out_map_native_def get_gpio_in_map_native_def

lemmas service_output_defs = service_set_relay1_gpio_def service_set_relay2_gpio_def service_set_relay3_gpio_def
  service_set_relay4_gpio_def service_set_amp_stb_gpio_def service_set_amp_mute_gpio_def service_set_otg_switch_gpio_def
  service_set_usb2eth_rst_gpio_def service_set_usbhub_rst_gpio_def service_set_stm32_rst_gpio_def
  service_set_camera_power_gpio_def service_set_tachograph_power_gpio_def service_set_ex_power_gpio_def
  service_set_finger_power_gpio_def service_set_tsm_power_gpio_def service_set_fan_power_gpio_def

lemmas out_index_defs = RELAY1_GPIO_OUT_INDEX_def RELAY2_GPIO_OUT_INDEX_def RELAY3_GPIO_OUT_INDEX_def
  RELAY4_GPIO_OUT_INDEX_def AMP_STB_GPIO_OUT_INDEX_def AMP_MUTE_GPIO_OUT_INDEX_def OTG_SWITCH_GPIO_OUT_INDEX_def
  USB2ETH_RST_GPIO_OUT_INDEX_def USBHUB_RST_GPIO_OUT_INDEX_def STM32_RST_GPIO_OUT_INDEX_def
  CAMERA_POWER_GPIO_OUT_INDEX_def TACHOGRAPH_POWER_GPIO_OUT_INDEX_def EX_POWER_GPIO_OUT_INDEX_def
  FINGER_POWER_GPIO_OUT_INDEX_def TSM_POWER_GPIO_OUT_INDEX_def FAN_POWER_GPIO_OUT_INDEX_def
section \<open>Every call comes back\<close>

text \<open>The device of the native part, once it is open.\<close>

definition opened :: "'e hal_env_scheme \<Rightarrow> system_server \<Rightarrow> bool" where
  "opened E s \<longleftrightarrow> hal_malloc E \<and> spider_device s = fst (spider_device_open E)"


definition service_inv :: "'e service_env_scheme \<Rightarrow> system_server \<Rightarrow> bool" where
  "service_inv E s \<longleftrightarrow> board_inv (kernel s) \<and> (spider_device s = None \<or> opened E s)"


lemma leds_step_board: "board_inv w \<Longrightarrow> leds_inv w' \<Longrightarrow> same_spider w w' \<Longrightarrow> board_inv w'"
  by (auto simp: board_inv_def same_spider_def spider_ready_def)






lemma device_fields:
  assumes "fst (spider_device_open E) = Some dev"
  shows "set_app_ready dev = spider_set_app_ready E"
    "set_heart_beat dev = spider_set_heart_beat E"
    "set_relay1_gpio dev = spider_set_relay1_gpio E"
    "set_relay2_gpio dev = spider_set_relay2_gpio E"
    "set_relay3_gpio dev = spider_set_relay3_gpio E"
    "set_relay4_gpio dev = spider_set_relay4_gpio E"
    "set_amp_stb_gpio dev = spider_set_amp_stb_gpio E"
    "set_amp_mute_gpio dev = spider_set_amp_mute_gpio E"
    "set_otg_switch_gpio dev = spider_set_otg_switch_gpio E"
    "set_usb2eth_rst_gpio dev = spider_set_usb2eth_rst_gpio E"
    "set_usbhub_rst_gpio dev = spider_set_usbhub_rst_gpio E"
    "set_stm32_rst_gpio dev = spider_set_stm32_rst_gpio E"
    "set_camera_power_gpio dev = spider_set_camera_power_gpio E"
    "set_tachograph_power_gpio dev = spider_set_tachograph_power_gpio E"
    "set_ex_power_gpio dev = spider_set_ex_power_gpio E"
    "set_finger_power_gpio dev = spider_set_finger_power_gpio E"
    "set_tsm_power_gpio dev = spider_set_tsm_power_gpio E"
    "set_fan_power_gpio dev = spider_set_fan_power_gpio E"
    "set_gpio_out_map dev = spider_set_gpio_out_map E"
    "set_gpio_in_map dev = spider_set_gpio_in_map E"
    "set_backlight dev = spider_set_backlight E"
    "get_gpio_out_map dev = spider_get_gpio_out_map E" "get_gpio_in_map dev = spider_get_gpio_in_map E"
proof -
  have "dev = the (fst (spider_device_open E))" "hal_malloc E"
    using assms by (simp_all add: spider_device_open_def split: if_splits)
  then show "set_app_ready dev = spider_set_app_ready E"
    "set_heart_beat dev = spider_set_heart_beat E"
    "set_relay1_gpio dev = spider_set_relay1_gpio E"
    "set_relay2_gpio dev = spider_set_relay2_gpio E"
    "set_relay3_gpio dev = spider_set_relay3_gpio E"
    "set_relay4_gpio dev = spider_set_relay4_gpio E"
    "set_amp_stb_gpio dev = spider_set_amp_stb_gpio E"
    "set_amp_mute_gpio dev = spider_set_amp_mute_gpio E"
    "set_otg_switch_gpio dev = spider_set_otg_switch_gpio E"
    "set_usb2eth_rst_gpio dev = spider_set_usb2eth_rst_gpio E"
    "set_usbhub_rst_gpio dev = spider_set_usbhub_rst_gpio E"
    "set_stm32_rst_gpio dev = spider_set_stm32_rst_gpio E"
    "set_camera_power_gpio dev = spider_set_camera_power_gpio E"
    "set_tachograph_power_gpio dev = spider_set_tachograph_power_gpio E"
    "set_ex_power_gpio dev = spider_set_ex_power_gpio E"
    "set_finger_power_gpio dev = spider_set_finger_power_gpio E"
    "set_tsm_power_gpio dev = spider_set_tsm_power_gpio E"
    "set_fan_power_gpio dev = spider_set_fan_power_gpio E"
    "set_gpio_out_map dev = spider_set_gpio_out_map E"
    "set_gpio_in_map dev = spider_set_gpio_in_map E"
    "set_backlight dev = spider_set_backlight E"
    "get_gpio_out_map dev = spider_get_gpio_out_map E" "get_gpio_in_map dev = spider_get_gpio_in_map E"
    by (simp_all add: spider_device_open_def)
qed

text \<open>The methods that set an output, over the functions of the device.\<close>

definition output_devices :: "((spider_device_t \<Rightarrow> kworld \<Rightarrow> s32 \<Rightarrow> (kworld \<times> int) res) \<times> nat \<times> s32) list" where
  "output_devices =
     [(set_relay1_gpio, RELAY1_GPIO_OUT_INDEX, 1002),
      (set_relay2_gpio, RELAY2_GPIO_OUT_INDEX, 1003),
      (set_relay3_gpio, RELAY3_GPIO_OUT_INDEX, 1008),
      (set_relay4_gpio, RELAY4_GPIO_OUT_INDEX, 942),
      (set_amp_stb_gpio, AMP_STB_GPIO_OUT_INDEX, 937),
      (set_amp_mute_gpio, AMP_MUTE_GPIO_OUT_INDEX, 913),
      (set_otg_switch_gpio, OTG_SWITCH_GPIO_OUT_INDEX, 943),
      (set_usb2eth_rst_gpio, USB2ETH_RST_GPIO_OUT_INDEX, 933),
      (set_usbhub_rst_gpio, USBHUB_RST_GPIO_OUT_INDEX, 947),
      (set_stm32_rst_gpio, STM32_RST_GPIO_OUT_INDEX, 1004),
      (set_camera_power_gpio, CAMERA_POWER_GPIO_OUT_INDEX, 980),
      (set_tachograph_power_gpio, TACHOGRAPH_POWER_GPIO_OUT_INDEX, 1007),
      (set_ex_power_gpio, EX_POWER_GPIO_OUT_INDEX, 1010),
      (set_finger_power_gpio, FINGER_POWER_GPIO_OUT_INDEX, 1023),
      (set_tsm_power_gpio, TSM_POWER_GPIO_OUT_INDEX, 934),
      (set_fan_power_gpio, FAN_POWER_GPIO_OUT_INDEX, 919)]"

definition set_output ::
  "(spider_device_t \<Rightarrow> kworld \<Rightarrow> s32 \<Rightarrow> (kworld \<times> int) res) \<Rightarrow> nat \<Rightarrow> system_server \<Rightarrow> s32 \<Rightarrow> system_server res" where
  "set_output f index s val =
     bnd (jni_set f s val) (\<lambda>s.
     let s = s\<lparr>svc_gpo_map := common_map_treat (svc_gpo_map s) index val\<rparr>
     in service_set_gpio_out_map s (svc_gpo_map s))"

lemma service_outputs_eq: "service_outputs = map (\<lambda>(f, k, pin). (set_output f k, k, pin)) output_devices"
  unfolding service_outputs_def output_devices_def
  by (simp only: list.map prod.case list.inject prod.inject set_output_def service_output_defs native_defs fun_eq_iff simp_thms)


lemma output_devices_gpio:
  assumes "fst (spider_device_open E) = Some dev"
  shows "map (\<lambda>(f, k, pin). (f dev, pin)) output_devices = gpio_setters E"
  unfolding output_devices_def gpio_setters_def by (simp only: list.map prod.case device_fields [OF assms])


definition keeps_service :: "'e service_env_scheme \<Rightarrow> system_server res \<Rightarrow> bool" where
  "keeps_service E r \<longleftrightarrow> (\<exists>s'. r = Inr s' \<and> service_inv E s')"


lemma keeps_service_return: "service_inv E s \<Longrightarrow> keeps_service E (Inr s)"
  by (simp add: keeps_service_def)

lemma service_inv_simps [simp]:
  "service_inv E (s\<lparr>svc_gpo_map := m\<rparr>) = service_inv E s" "service_inv E (s\<lparr>svc_gpi_map := m\<rparr>) = service_inv E s"
  "service_inv E (s\<lparr>power_calls := c\<rparr>) = service_inv E s"
  by (simp_all add: service_inv_def opened_def)




lemma SpiderService_keeps:
  assumes "board_inv (kernel s)" "spider_device s = None"
  shows "\<exists>s'. SpiderService E s = Inr s' \<and> service_inv E s' \<and> kernel s' = kernel s \<and>
    svc_gpo_map s' = - 1 \<and> svc_gpi_map s' = - 1 \<and>
    (hw_get_module_res E = 0 \<longrightarrow> hal_malloc E \<longrightarrow> opened E s')"
  using assms
  by (auto simp: SpiderService_def native_defs jni_get_def init_native_def service_inv_def opened_def
      spider_device_open_def split: option.splits)







section \<open>The map of outputs\<close>

lemma gpo_path: "SPIDER_PATH @ ''/'' @ ''gpo_map'' = SPIDER_PATH @ CHR ''/'' # ''gpo_map''"
  "SPIDER_PATH @ ''/'' @ ''gpi_map'' = SPIDER_PATH @ CHR ''/'' # ''gpi_map''"
  "SPIDER_PATH @ ''/'' @ ''app_ready'' = SPIDER_PATH @ CHR ''/'' # ''app_ready''"
  by simp_all

lemma strtoul_number:
  assumes "strtoul_reads E" "0 \<le> sint (v :: s32)"
  shows "strict_strtoul E (print_int (sint v) @ newline) = Some (unat v)"
proof -
  have u: "unat v < 2 ^ 31" using unat_sint_nonneg [OF assms(2)] by simp
  have "print_int (sint v) = decimal (unat v)" using sint_small [OF u] by (simp add: print_int_def)
  then show ?thesis using assms(1) u by (simp add: strtoul_reads_def)
qed

text \<open>Writing and reading the maps, and the ready flag, through the hardware module.\<close>

lemma hal_set_out_map:
  assumes "board_ready E w" "files_open E"
  shows "strtoul_reads E \<Longrightarrow> 0 \<le> sint v \<Longrightarrow>
      spider_set_gpio_out_map E w v = Inr (put_spider (spider_of w\<lparr>gpo_map := v\<rparr>) w, 0)"
    and "strtoul_rejects E \<Longrightarrow> sint v < 0 \<Longrightarrow> spider_set_gpio_out_map E w v = Inr (w, 0)"
proof -
  have eq: "spider_set_gpio_out_map E w v = bnd (gpo_map_store E w (print_int (sint v) @ newline)
      (int (length (print_int (sint v) @ newline)))) (\<lambda>(w, _). Inr (w, 0))"
    using assms(2) by (simp add: spider_set_gpio_out_map_def spider_set_common_treat_def Let_def snprintf_path
        snprintf_number files_open_def sysfs_write_def spider_node spider_nodes bnd_assoc case_prod_unfold)
  note r = board_readyD [OF assms(1)]
  show "spider_set_gpio_out_map E w v = Inr (put_spider (spider_of w\<lparr>gpo_map := v\<rparr>) w, 0)"
    if "strtoul_reads E" "0 \<le> sint v"
    using r strtoul_number [OF that] unfolding eq
    by (simp add: gpo_map_store_def down_spider_ok Let_def put_spider_def hold_spider_def)
  show "spider_set_gpio_out_map E w v = Inr (w, 0)" if "strtoul_rejects E" "sint v < 0"
    using that unfolding eq by (simp add: gpo_map_store_def strtoul_rejects_def print_int_def)
qed

lemma hal_get_maps:
  assumes "board_ready E w" "files_open E"
  shows "spider_get_gpio_out_map E w = Inr (put_spider (spider_of w) w, sint (gpo_map (spider_of w)))"
    "spider_get_gpio_in_map E w = Inr (put_spider (spider_of w) w, sint (gpi_map (spider_of w)))"
proof -
  have s: "take 100 (print_int (sint v) @ newline) = print_int (sint v) @ newline" for v :: s32
    using length_print_int [of v] by simp
  note r = board_readyD [OF assms(1)]
  have d: "spider_of w\<lparr>spider_sem := Suc 0\<rparr> = spider_of w" using r by (cases "spider_of w") simp
  show "spider_get_gpio_out_map E w = Inr (put_spider (spider_of w) w, sint (gpo_map (spider_of w)))"
    "spider_get_gpio_in_map E w = Inr (put_spider (spider_of w) w, sint (gpi_map (spider_of w)))"
    using assms(2) r s [of "gpo_map (spider_of w)"] s [of "gpi_map (spider_of w)"] d
    by (simp_all add: spider_get_gpio_out_map_def spider_get_gpio_in_map_def spider_get_common_treat_def Let_def
        snprintf_path files_open_def sysfs_read_def spider_node spider_nodes gpo_map_show_def gpi_map_show_def
        down_spider_ok put_spider_def hold_spider_def atoi_print_int)
qed

lemma hal_app_ready:
  assumes "board_ready E w" "files_open E" "strtoul_reads E" "0 \<le> sint v"
  shows "\<exists>w'. spider_set_app_ready E w v = Inr (w', 0) \<and> board_ready E w' \<and>
    spider_of w' = spider_of w\<lparr>app_ready := v\<rparr>"
proof -
  have n: "map_of (fleety_spider_device_attributes E) ''app_ready'' = Some (app_ready_show E, app_ready_store E)"
    by (simp add: fleety_spider_device_attributes_def)
  have i: "board_inv w" "\<forall>k. \<not> interrupted E k" using assms(1) by (simp_all add: board_ready_def no_signals_def)
  from app_ready_store_log [OF this strtoul_number [OF assms(3,4)]] obtain w' where
    "app_ready_store E w (print_int (sint v) @ newline) (int (length (print_int (sint v) @ newline))) =
       Inr (w', int (length (print_int (sint v) @ newline)))"
    "board_inv w'" "spider_of w' = spider_of w\<lparr>app_ready := v\<rparr>" by fastforce
  then show ?thesis using assms(1,2) n
    by (simp add: spider_set_app_ready_def spider_set_common_treat_def Let_def snprintf_path snprintf_number
        files_open_def sysfs_write_def spider_node board_ready_def)
qed

text \<open>
  The environment in which the platform works: no signal interrupts a driver call, \<open>strict_strtoul\<close> reads
  numbers and takes no sign, the files open, and the hardware module can be loaded and opened.
\<close>

definition platform_ok :: "'e service_env_scheme \<Rightarrow> bool" where
  "platform_ok E \<longleftrightarrow> no_signals E \<and> strtoul_reads E \<and> strtoul_rejects E \<and> files_open E \<and> hal_malloc E \<and>
     hw_get_module_res E = 0"

lemma set_gpio_node_frame:
  assumes "map_of attr_index n = Some i" "i < 17" "length n \<le> 30" "leds_inv w" "no_signals E" "strtoul_reads E"
    "files_open E" "0 \<le> sint val" "spider_set_common_treat E w GPIO_PATH n val = Inr (w', r)" "q \<noteq> leds_pins ! i" "q \<noteq> 914"
  shows "driven (klog w') q = driven (klog w) q"
proof -
  let ?t = "print_int (sint val) @ newline"
  let ?drive = "\<lambda>j u. put_sem 1 (say [GpioSetValue (leds_pins ! j) val] (put_level j val (put_sem 0 (count_down u))))"
  have one: "fleety_leds_gpio_store_treat E u ?t j = Inr (?drive j u, 0)" if "leds_inv u" "j < 17" for u j
    using assms(5) strtoul_number [OF assms(6,8)] that by (simp add: store_treat_result no_signals_def)
  have p: "leds_pins ! 6 = 914" by code_simp
  have "store_of E i w ?t k = Inr (if i = 7 then ?drive 6 (?drive 7 w) else ?drive i w, k)" for k
    using one [OF assms(4)] one [OF leds_inv_drive [OF assms(4)]] assms(2)
    by (simp add: store_of_def store_one_def otg_switch_on_store_def)
  then have "w' = (if i = 7 then ?drive 6 (?drive 7 w) else ?drive i w)"
    using assms(1,3,7,9) by (simp add: spider_set_common_treat_def snprintf_path snprintf_number files_open_def
        sysfs_write_def gpio_node map_of_attributes Let_def)
  then show ?thesis using assms(10,11) p by (auto simp: driven_append)
qed

text \<open>One function of the device: the pin is driven, the other outputs and the spider driver are left alone.\<close>

lemma output_drives:
  assumes "(f, k, pin) \<in> set output_devices" "fst (spider_device_open E) = Some dev" "board_ready E w"
    "strtoul_reads E" "files_open E" "0 \<le> sint val"
  shows "\<exists>w'. f dev w val = Inr (w', 0) \<and> board_ready E w' \<and> spider_of w' = spider_of w \<and>
    driven (klog w') pin = Some val \<and> (\<forall>q. q \<noteq> pin \<longrightarrow> q \<noteq> 914 \<longrightarrow> driven (klog w') q = driven (klog w) q)"
proof -
  have "(f dev, pin) \<in> set (gpio_setters E)"
    unfolding output_devices_gpio [OF assms(2), symmetric] using assms(1) by force
  then obtain n i where n: "i < 17" "length n \<le> 30" "map_of attr_index n = Some i" "pin = leds_pins ! i"
    "\<forall>w v w'. spider_set_common_treat E w GPIO_PATH n v = Inr (w', 0) \<longrightarrow> f dev w v = Inr (w', 0)"
    by (elim gpio_setterE) blast
  have w: "leds_inv w" "no_signals E" "board_inv w" using assms(3) by (simp_all add: board_ready_def board_inv_def)
  obtain w' where w': "spider_set_common_treat E w GPIO_PATH n val = Inr (w', 0)" "leds_inv w'" "same_spider w w'"
    "driven (klog w') (leds_pins ! i) = Some val"
    using set_gpio_node [OF n(3,1,2) w(1,2) assms(4-6)] by blast
  moreover have "spider_of w' = spider_of w" using w'(3) by (simp add: same_spider_def spider_of_def)
  ultimately show ?thesis using n(4,5) leds_step_board [OF w(3) w'(2,3)] w(2)
      set_gpio_node_frame [OF n(3,1,2) w(1,2) assms(4-6) w'(1)] by (auto simp: board_ready_def)
qed

lemma output_refused:
  assumes "(f, k, pin) \<in> set output_devices" "fst (spider_device_open E) = Some dev" "board_ready E w"
    "strtoul_rejects E" "files_open E" "sint val < 0"
  shows "f dev w val = Inr (w, 0)"
proof -
  have "(f dev, pin) \<in> set (gpio_setters E)"
    unfolding output_devices_gpio [OF assms(2), symmetric] using assms(1) by force
  then obtain n i where n: "i < 17" "length n \<le> 30" "map_of attr_index n = Some i"
    "\<forall>w v w'. spider_set_common_treat E w GPIO_PATH n v = Inr (w', 0) \<longrightarrow> f dev w v = Inr (w', 0)"
    by (elim gpio_setterE) blast
  have "leds_inv w" using assms(3) by (simp add: board_ready_def board_inv_def)
  from set_gpio_node_rejected [OF n(3,1,2) this assms(4-6)] n(4) show ?thesis by blast
qed

lemma out_map_native:
  assumes "opened E s" "board_ready E (kernel s)" "files_open E"
  shows "strtoul_reads E \<Longrightarrow> 0 \<le> sint v \<Longrightarrow> service_set_gpio_out_map s v =
      Inr (s\<lparr>kernel := put_spider (spider_of (kernel s)\<lparr>gpo_map := v\<rparr>) (kernel s)\<rparr>)"
    and "strtoul_rejects E \<Longrightarrow> sint v < 0 \<Longrightarrow> service_set_gpio_out_map s v = Inr s"
    and "service_get_gpio_out_map s =
      Inr (s\<lparr>kernel := put_spider (spider_of (kernel s)) (kernel s)\<rparr>, gpo_map (spider_of (kernel s)))"
    and "service_get_gpio_in_map s =
      Inr (s\<lparr>kernel := put_spider (spider_of (kernel s)) (kernel s)\<rparr>, gpi_map (spider_of (kernel s)))"
proof -
  obtain dev where dev: "spider_device s = Some dev" "fst (spider_device_open E) = Some dev"
    using assms(1) by (auto simp: opened_def spider_device_open_def)
  note d = hal_set_out_map [OF assms(2,3)] hal_get_maps [OF assms(2,3)] dev(1) device_fields [OF dev(2)]
  show "strtoul_reads E \<Longrightarrow> 0 \<le> sint v \<Longrightarrow> service_set_gpio_out_map s v =
      Inr (s\<lparr>kernel := put_spider (spider_of (kernel s)\<lparr>gpo_map := v\<rparr>) (kernel s)\<rparr>)"
    "strtoul_rejects E \<Longrightarrow> sint v < 0 \<Longrightarrow> service_set_gpio_out_map s v = Inr s"
    by (simp_all add: service_set_gpio_out_map_def native_defs jni_set_def d)
  show "service_get_gpio_out_map s =
      Inr (s\<lparr>kernel := put_spider (spider_of (kernel s)) (kernel s)\<rparr>, gpo_map (spider_of (kernel s)))"
    "service_get_gpio_in_map s =
      Inr (s\<lparr>kernel := put_spider (spider_of (kernel s)) (kernel s)\<rparr>, gpi_map (spider_of (kernel s)))"
    by (simp_all add: service_get_gpio_out_map_def service_get_gpio_in_map_def native_defs jni_get_def d)
qed

text \<open>The service's copy of the map is the map of the driver, and its sign bit is clear.\<close>

definition tracks :: "'e service_env_scheme \<Rightarrow> system_server \<Rightarrow> bool" where
  "tracks E s \<longleftrightarrow> opened E s \<and> board_ready E (kernel s) \<and> svc_gpo_map s = gpo_map (spider_of (kernel s)) \<and>
     0 \<le> sint (svc_gpo_map s)"

lemma common_map_treat_eq: "common_map_treat m k v = set_map_bit m (2 ^ k) v"
  by (simp add: common_map_treat_def set_map_bit_def push_bit_eq_mult)

lemma sint_nonneg_bit: "0 \<le> sint (m :: s32) \<longleftrightarrow> \<not> bit m 31"
  using bit_last_iff [of m] by (simp add: not_less)

lemma sint_common_map: "k < 31 \<Longrightarrow> 0 \<le> sint (common_map_treat m k v) \<longleftrightarrow> 0 \<le> sint m"
  by (simp add: sint_nonneg_bit common_map_treat_eq bit_set_map_bit)

lemma output_index: "(f, k, pin) \<in> set output_devices \<Longrightarrow> k < 16 \<and> output_devices ! k = (f, k, pin)"
  by (auto simp: output_devices_def out_index_defs)

lemma output_pin_not_otg_id: "(f, k, pin) \<in> set output_devices \<Longrightarrow> pin \<noteq> 914"
  by (auto simp: output_devices_def)

text \<open>
  One call of a method that sets an output. The map is written back only while the service's copy is not
  negative; the copy itself always follows. A negative value does not reach the pin.
\<close>

lemma set_output_any:
  assumes "(f, k, pin) \<in> set output_devices" "opened E s" "board_ready E (kernel s)" "platform_ok E"
  shows "\<exists>s'. set_output f k s v = Inr s' \<and> opened E s' \<and> board_ready E (kernel s') \<and>
    svc_gpo_map s' = common_map_treat (svc_gpo_map s) k v \<and>
    gpo_map (spider_of (kernel s')) =
      (if 0 \<le> sint (svc_gpo_map s) then svc_gpo_map s' else gpo_map (spider_of (kernel s))) \<and>
    driven (klog (kernel s')) pin = (if 0 \<le> sint v then Some v else driven (klog (kernel s)) pin) \<and>
    (\<forall>q. q \<noteq> pin \<longrightarrow> q \<noteq> 914 \<longrightarrow> driven (klog (kernel s')) q = driven (klog (kernel s)) q)"
proof -
  note p = assms(4) [unfolded platform_ok_def]
  obtain dev where dev: "spider_device s = Some dev" "fst (spider_device_open E) = Some dev"
    using assms(2) by (auto simp: opened_def spider_device_open_def)
  obtain w' where w': "f dev (kernel s) v = Inr (w', 0)" "board_ready E w'" "spider_of w' = spider_of (kernel s)"
    "driven (klog w') pin = (if 0 \<le> sint v then Some v else driven (klog (kernel s)) pin)"
    "\<forall>q. q \<noteq> pin \<longrightarrow> q \<noteq> 914 \<longrightarrow> driven (klog w') q = driven (klog (kernel s)) q"
  proof (cases "0 \<le> sint v")
    case True
    then show thesis using that output_drives [OF assms(1) dev(2) assms(3), of v] p by auto
  next
    case False
    then show thesis using that output_refused [OF assms(1) dev(2) assms(3), of v] p assms(3) by auto
  qed
  let ?m = "common_map_treat (svc_gpo_map s) k v"
  let ?s = "s\<lparr>kernel := w', svc_gpo_map := ?m\<rparr>"
  have o: "opened E ?s" "board_ready E (kernel ?s)" using assms(2) w'(2) by (simp_all add: opened_def)
  have eq: "set_output f k s v = service_set_gpio_out_map ?s ?m"
    using dev(1) w'(1) by (simp add: set_output_def jni_set_def Let_def)
  have sg: "0 \<le> sint ?m \<longleftrightarrow> 0 \<le> sint (svc_gpo_map s)" using output_index [OF assms(1)] by (simp add: sint_common_map)
  have b: "board_ready E (put_spider (spider_of w'\<lparr>gpo_map := ?m\<rparr>) w')"
    using board_readyD [OF w'(2)] by (simp add: board_ready_def board_inv_def no_signals_def)
  show ?thesis
  proof (cases "0 \<le> sint (svc_gpo_map s)")
    case True
    then show ?thesis using out_map_native(1) [OF o, of ?m] p sg w' b o(1) unfolding eq by (simp add: opened_def)
  next
    case False
    then show ?thesis using out_map_native(2) [OF o, of ?m] p sg w' o unfolding eq by simp
  qed
qed

lemma set_output_result:
  assumes "(f, k, pin) \<in> set output_devices" "opened E s" "board_ready E (kernel s)" "platform_ok E" "0 \<le> sint v"
  shows "\<exists>s'. set_output f k s v = Inr s' \<and> opened E s' \<and> board_ready E (kernel s') \<and>
    svc_gpo_map s' = common_map_treat (svc_gpo_map s) k v \<and>
    gpo_map (spider_of (kernel s')) =
      (if 0 \<le> sint (svc_gpo_map s) then svc_gpo_map s' else gpo_map (spider_of (kernel s))) \<and>
    driven (klog (kernel s')) pin = Some v \<and>
    (\<forall>q. q \<noteq> pin \<longrightarrow> q \<noteq> 914 \<longrightarrow> driven (klog (kernel s')) q = driven (klog (kernel s)) q)"
  using set_output_any [OF assms(1-4), of v] assms(5) by simp

text \<open>A sequence of calls: each sets one of the sixteen outputs to a value.\<close>

fun set_outputs :: "system_server \<Rightarrow> (nat \<times> s32) list \<Rightarrow> system_server res" where
  "set_outputs s [] = Inr s"
| "set_outputs s ((k, v) # cs) = bnd (fst (service_outputs ! k) s v) (\<lambda>s. set_outputs s cs)"

definition output_pin :: "nat \<Rightarrow> s32" where
  "output_pin k = snd (snd (service_outputs ! k))"

definition output_calls_ok :: "(nat \<times> s32) list \<Rightarrow> bool" where
  "output_calls_ok cs \<longleftrightarrow> list_all (\<lambda>(k, v). k < 16) cs"

definition last_value :: "(nat \<times> s32) list \<Rightarrow> nat \<Rightarrow> s32 option" where
  "last_value cs k = map_of (rev cs) k"

lemma last_value_simps:
  "last_value [] k = None"
  "last_value ((j, v) # cs) k =
     (case last_value cs k of Some x \<Rightarrow> Some x | None \<Rightarrow> if k = j then Some v else None)"
  by (auto simp: last_value_def map_add_def split: option.split)

lemma output_nth:
  assumes "k < 16"
  shows "\<exists>f. fst (service_outputs ! k) = set_output f k \<and> (f, k, output_pin k) \<in> set output_devices"
proof -
  obtain f j pin where n: "output_devices ! k = (f, j, pin)" using prod_cases3 by blast
  have l: "k < length output_devices" using assms by (simp add: output_devices_def)
  then have m: "(f, j, pin) \<in> set output_devices" using n by (metis nth_mem)
  have "distinct (map (fst \<circ> snd) output_devices)" by (simp add: output_devices_def out_index_defs)
  moreover have "j < length output_devices" using output_index [OF m] by (simp add: output_devices_def)
  ultimately have "j = k" using output_index [OF m] n l nth_eq_iff_index_eq [of "map (fst \<circ> snd) output_devices" j k] by simp
  then show ?thesis using n m l by (auto simp: service_outputs_eq output_pin_def)
qed

lemma output_pins: "map output_pin [0..<16] = map (snd \<circ> snd) service_outputs" "distinct (map output_pin [0..<16])"
proof -
  show e: "map output_pin [0..<16] = map (snd \<circ> snd) service_outputs"
  proof -
    have "length service_outputs = 16" by (simp add: service_outputs_def)
    then show ?thesis by (intro nth_equalityI) (simp_all add: output_pin_def)
  qed
  show "distinct (map output_pin [0..<16])" unfolding e by (simp add: service_outputs_def)
qed

lemma output_pin_eq: "j < 16 \<Longrightarrow> k < 16 \<Longrightarrow> output_pin j = output_pin k \<longleftrightarrow> j = k"
  using nth_eq_iff_index_eq [OF output_pins(2), of j k] by simp

text \<open>
  What a sequence of calls does to the copy of the map and to the pins: the bit of an output in the copy tells
  whether the last value was 0, the pin has the last value that was not negative, and what no call
  changes is as before. The bits are numbered as the service numbers the outputs.
\<close>

definition accepted :: "(nat \<times> s32) list \<Rightarrow> (nat \<times> s32) list" where
  "accepted cs = filter (\<lambda>(k, v). 0 \<le> sint v) cs"

definition outputs_follow :: "(nat \<times> s32) list \<Rightarrow> system_server \<Rightarrow> system_server \<Rightarrow> bool" where
  "outputs_follow cs s s' \<longleftrightarrow> (\<forall>k<16.
     bit (svc_gpo_map s') k = (case last_value cs k of None \<Rightarrow> bit (svc_gpo_map s) k | Some v \<Rightarrow> v \<noteq> 0) \<and>
     driven (klog (kernel s')) (output_pin k) =
       (case last_value (accepted cs) k of None \<Rightarrow> driven (klog (kernel s)) (output_pin k) | Some v \<Rightarrow> Some v))"

lemma outputs_follow_Cons:
  assumes "outputs_follow cs s1 s2"
    and "\<And>k. k < 16 \<Longrightarrow> bit (svc_gpo_map s1) k = (if k = j then v \<noteq> 0 else bit (svc_gpo_map s) k) \<and>
      driven (klog (kernel s1)) (output_pin k) = (if k = j \<and> 0 \<le> sint v then Some v else driven (klog (kernel s)) (output_pin k))"
  shows "outputs_follow ((j, v) # cs) s s2"
  unfolding outputs_follow_def
proof (intro allI impI)
  fix k :: nat assume k: "k < 16"
  from assms(1) [unfolded outputs_follow_def, rule_format, OF k] assms(2) [OF k]
  show "bit (svc_gpo_map s2) k = (case last_value ((j, v) # cs) k of None \<Rightarrow> bit (svc_gpo_map s) k | Some v \<Rightarrow> v \<noteq> 0) \<and>
     driven (klog (kernel s2)) (output_pin k) =
       (case last_value (accepted ((j, v) # cs)) k of None \<Rightarrow> driven (klog (kernel s)) (output_pin k) | Some v \<Rightarrow> Some v)"
    by (auto simp: last_value_simps accepted_def split: option.splits)
qed

text \<open>
  A run of such calls, whatever the copy of the map is: the pins follow the last values, the copy follows
  bit by bit, and the map of the driver is the copy, or is not written at all when the copy is negative.
\<close>

lemma set_outputs_result:
  assumes "opened E s" "board_ready E (kernel s)" "platform_ok E" "output_calls_ok cs"
    and "0 \<le> sint (svc_gpo_map s) \<Longrightarrow> svc_gpo_map s = gpo_map (spider_of (kernel s))"
  shows "\<exists>s'. set_outputs s cs = Inr s' \<and> opened E s' \<and> board_ready E (kernel s') \<and>
    (0 \<le> sint (svc_gpo_map s') \<longleftrightarrow> 0 \<le> sint (svc_gpo_map s)) \<and>
    gpo_map (spider_of (kernel s')) =
      (if 0 \<le> sint (svc_gpo_map s) then svc_gpo_map s' else gpo_map (spider_of (kernel s))) \<and>
    outputs_follow cs s s'"
  using assms
proof (induction cs arbitrary: s)
  case Nil
  then show ?case by (auto simp: last_value_simps outputs_follow_def accepted_def)
next
  case (Cons c cs)
  obtain j v where c: "c = (j, v)" "j < 16" "output_calls_ok cs"
    using Cons.prems(4) by (cases c) (simp add: output_calls_ok_def)
  obtain f where f: "fst (service_outputs ! j) = set_output f j" "(f, j, output_pin j) \<in> set output_devices"
    using output_nth [OF c(2)] by blast
  obtain s1 where s1: "set_output f j s v = Inr s1" "opened E s1" "board_ready E (kernel s1)"
    "svc_gpo_map s1 = common_map_treat (svc_gpo_map s) j v"
    "gpo_map (spider_of (kernel s1)) =
      (if 0 \<le> sint (svc_gpo_map s) then svc_gpo_map s1 else gpo_map (spider_of (kernel s)))"
    "driven (klog (kernel s1)) (output_pin j) = (if 0 \<le> sint v then Some v else driven (klog (kernel s)) (output_pin j))"
    "\<forall>q. q \<noteq> output_pin j \<longrightarrow> q \<noteq> 914 \<longrightarrow> driven (klog (kernel s1)) q = driven (klog (kernel s)) q"
    using set_output_any [OF f(2) Cons.prems(1-3), of v] by blast
  have sg: "0 \<le> sint (svc_gpo_map s1) \<longleftrightarrow> 0 \<le> sint (svc_gpo_map s)"
    using c(2) s1(4) by (simp add: sint_common_map)
  have one: "bit (svc_gpo_map s1) k = (if k = j then v \<noteq> 0 else bit (svc_gpo_map s) k)"
    "driven (klog (kernel s1)) (output_pin k) = (if k = j \<and> 0 \<le> sint v then Some v else driven (klog (kernel s)) (output_pin k))"
    if "k < 16" for k
  proof -
    have "output_pin k \<noteq> 914" using output_nth [OF that] output_pin_not_otg_id by blast
    then show "driven (klog (kernel s1)) (output_pin k) = (if k = j \<and> 0 \<le> sint v then Some v else driven (klog (kernel s)) (output_pin k))"
      using s1(6,7) output_pin_eq [OF that c(2)] by (cases "k = j") simp_all
    show "bit (svc_gpo_map s1) k = (if k = j then v \<noteq> 0 else bit (svc_gpo_map s) k)"
      using that c(2) s1(4) by (simp add: common_map_treat_eq bit_set_map_bit)
  qed
  obtain s2 where s2: "set_outputs s1 cs = Inr s2" "opened E s2" "board_ready E (kernel s2)"
    "0 \<le> sint (svc_gpo_map s2) \<longleftrightarrow> 0 \<le> sint (svc_gpo_map s1)"
    "gpo_map (spider_of (kernel s2)) =
      (if 0 \<le> sint (svc_gpo_map s1) then svc_gpo_map s2 else gpo_map (spider_of (kernel s1)))"
    "outputs_follow cs s1 s2"
    using Cons.IH [OF s1(2,3) Cons.prems(3) c(3)] s1(5) sg by auto
  have "set_outputs s (c # cs) = Inr s2" using c(1) f(1) s1(1) s2(1) by simp
  moreover have "outputs_follow (c # cs) s s2" unfolding c(1) using outputs_follow_Cons [OF s2(6)] one by blast
  ultimately show ?case using s2(2-5) s1(5) sg by auto
qed

lemma app_ready_tracks:
  assumes "opened E s" "board_ready E (kernel s)" "platform_ok E" "0 \<le> sint v" "0 \<le> sint (gpo_map (spider_of (kernel s)))"
  shows "\<exists>s'. service_set_app_ready s v = Inr s' \<and> tracks E s' \<and>
    svc_gpo_map s' = gpo_map (spider_of (kernel s)) \<and> svc_gpi_map s' = gpi_map (spider_of (kernel s))"
proof -
  note p = assms(3) [unfolded platform_ok_def]
  obtain dev where dev: "spider_device s = Some dev" "fst (spider_device_open E) = Some dev"
    using assms(1) by (auto simp: opened_def spider_device_open_def)
  obtain w1 where w1: "spider_set_app_ready E (kernel s) v = Inr (w1, 0)" "board_ready E w1"
    "spider_of w1 = spider_of (kernel s)\<lparr>app_ready := v\<rparr>"
    using hal_app_ready [OF assms(2) _ _ assms(4)] p by blast
  let ?s1 = "s\<lparr>kernel := w1\<rparr>"
  let ?w2 = "put_spider (spider_of w1) w1"
  let ?s2 = "s\<lparr>kernel := ?w2, svc_gpo_map := gpo_map (spider_of w1)\<rparr>"
  have b: "board_ready E (put_spider (spider_of w) w)" if "board_ready E w" for w
    using that board_readyD [OF that] by (simp add: board_ready_def board_inv_def)
  have o: "opened E ?s1" "opened E ?s2" using assms(1) by (simp_all add: opened_def)
  have "set_app_ready_native s v = Inr ?s1"
    using dev w1(1) by (simp add: native_defs jni_set_def device_fields [OF dev(2)])
  moreover have "service_get_gpio_out_map ?s1 = Inr (s\<lparr>kernel := ?w2\<rparr>, gpo_map (spider_of w1))"
    using out_map_native(3) [OF o(1)] w1(2) p by simp
  moreover have "service_get_gpio_in_map ?s2 =
      Inr (s\<lparr>kernel := put_spider (spider_of w1) ?w2, svc_gpo_map := gpo_map (spider_of w1)\<rparr>, gpi_map (spider_of w1))"
    using out_map_native(4) [OF o(2)] b [OF w1(2)] p by simp
  ultimately have "service_set_app_ready s v = Inr (s\<lparr>kernel := put_spider (spider_of w1) ?w2,
      svc_gpo_map := gpo_map (spider_of w1), svc_gpi_map := gpi_map (spider_of w1)\<rparr>)"
    by (simp add: service_set_app_ready_def)
  then show ?thesis using b [OF b [OF w1(2)]] assms(1,5) w1(3) by (simp add: tracks_def opened_def)
qed


text \<open>The pin of each output in the table of the driver, which has the USB ID line as one more output, number 6.\<close>

lemma output_pin_number: "k < 16 \<Longrightarrow> output_pin k = leds_pins ! (if k < 6 then k else k + 1)"
proof -
  assume k: "k < 16"
  have "list_all (\<lambda>(k, pin). pin = leds_pins ! (if k < 6 then k else k + 1)) (map snd output_devices)"
    unfolding output_devices_def out_index_defs leds_pins_def leds_table_def by simp
  moreover obtain f where "(f, k, output_pin k) \<in> set output_devices" using output_nth [OF k] by blast
  ultimately show ?thesis by (force simp: list_all_iff)
qed

text \<open>
  C7. After the application has reported that it is ready, the copy of the output map in the service and the map of
  the driver agree. The service takes over the map of the driver; from then on, after any sequence of calls that
  set outputs, one after the other, the map that \<open>get_gpio_out_map\<close> returns is the copy. The bit of an output in it
  tells whether its last value was 0, its pin has the last value that was not negative, and all other bits
  and pins are as before: a negative value sets the bit but does not reach the pin. The bits are those of the
  numbering of the service; from number 6 on the output is one place higher in the table of the driver.
\<close>

theorem service_outputs_agree:
  assumes "opened E s" "board_ready E (kernel s)" "platform_ok E" "0 \<le> sint ready"
    "0 \<le> sint (gpo_map (spider_of (kernel s)))" "output_calls_ok cs"
  shows "\<exists>s1 s2 s3. service_set_app_ready s ready = Inr s1 \<and> svc_gpo_map s1 = gpo_map (spider_of (kernel s)) \<and>
    set_outputs s1 cs = Inr s2 \<and> outputs_follow cs s1 s2 \<and> gpo_map (spider_of (kernel s2)) = svc_gpo_map s2 \<and>
    service_get_gpio_out_map s2 = Inr (s3, svc_gpo_map s2) \<and>
    (\<forall>k<16. output_pin k = leds_pins ! (if k < 6 then k else k + 1))"
proof -
  obtain s1 where s1: "service_set_app_ready s ready = Inr s1" "opened E s1" "board_ready E (kernel s1)"
    "svc_gpo_map s1 = gpo_map (spider_of (kernel s1))" "0 \<le> sint (svc_gpo_map s1)"
    "svc_gpo_map s1 = gpo_map (spider_of (kernel s))"
    using app_ready_tracks [OF assms(1-5)] unfolding tracks_def by blast
  obtain s2 where s2: "set_outputs s1 cs = Inr s2" "opened E s2" "board_ready E (kernel s2)"
    "gpo_map (spider_of (kernel s2)) = svc_gpo_map s2" "outputs_follow cs s1 s2"
    using set_outputs_result [OF s1(2,3) assms(3,6) s1(4)] s1(5) by auto
  show ?thesis using s1(1,6) s2 out_map_native(3) [OF s2(2,3)] assms(3) output_pin_number by (simp add: platform_ok_def)
qed

text \<open>
  Until then the map of outputs is lost. The service reads the map before it opens the device, so its
  copy is \<open>- 1\<close> with the sign bit set, which no later change of an output clears; the driver refuses the
  negative number and the service does not notice. Whatever outputs are then set, the pins follow, but
  \<open>get_gpio_out_map\<close> still returns the map as it was when the service was made.
\<close>

lemma service_map_lost:
  assumes "board_ready E (kernel s)" "spider_device s = None" "platform_ok E" "output_calls_ok cs"
  shows "\<exists>s1 s2 s3. SpiderService E s = Inr s1 \<and> svc_gpo_map s1 = - 1 \<and>
    set_outputs s1 cs = Inr s2 \<and> outputs_follow cs s1 s2 \<and>
    service_get_gpio_out_map s2 = Inr (s3, gpo_map (spider_of (kernel s)))"
proof -
  have "board_inv (kernel s)" using assms(1) by (simp add: board_ready_def)
  from SpiderService_keeps [OF this assms(2), of E] assms(3) obtain s1 where s1: "SpiderService E s = Inr s1"
    "opened E s1" "kernel s1 = kernel s" "svc_gpo_map s1 = - 1" by (auto simp: platform_ok_def)
  have n: "\<not> 0 \<le> sint (svc_gpo_map s1)" using s1(4) by simp
  obtain s2 where s2: "set_outputs s1 cs = Inr s2" "opened E s2" "board_ready E (kernel s2)"
    "gpo_map (spider_of (kernel s2)) = gpo_map (spider_of (kernel s))" "outputs_follow cs s1 s2"
    using set_outputs_result [OF s1(2) _ assms(3,4)] s1(3) n assms(1) by auto
  show ?thesis using s1(1,4) s2 out_map_native(3) [OF s2(2,3)] assms(3) by (simp add: platform_ok_def)
qed

text \<open>
  The service and the GPIO driver number the outputs differently. The driver, which fills the map when it
  is probed, has the USB ID line between the amplifier's mute line and the OTG switch; the service has not. So
  for the OTG switch and every output after it the service changes the bit below the driver's: the pin has
  the new value, the bit that the driver uses for it keeps the old one.
\<close>

lemma service_map_misnumbered:
  assumes "tracks E s" "platform_ok E" "0 \<le> sint v" "(set_gpio, k, pin) \<in> set service_outputs"
    and "i < 17" "leds_pins ! i = pin"
  shows "\<exists>s'. set_gpio s v = Inr s' \<and> driven (klog (kernel s')) pin = Some v \<and>
    bit (gpo_map (spider_of (kernel s'))) k = (v \<noteq> 0) \<and>
    (if k < 6 then i = k
     else i = k + 1 \<and> bit (gpo_map (spider_of (kernel s'))) i = bit (gpo_map (spider_of (kernel s))) i)"
proof -
  obtain f where f: "set_gpio = set_output f k" "(f, k, pin) \<in> set output_devices"
    using assms(4) unfolding service_outputs_eq by auto
  have k: "k < 16" using output_index [OF f(2)] by simp
  have "list_all (\<lambda>(k, pin). pin = leds_pins ! (if k < 6 then k else k + 1)) (map snd output_devices)"
    unfolding output_devices_def out_index_defs leds_pins_def leds_table_def by simp
  then have "pin = leds_pins ! (if k < 6 then k else k + 1)" using f(2) by (force simp: list_all_iff)
  then have i: "i = (if k < 6 then k else k + 1)" using assms(5,6) k by (auto split: if_splits)
  have "opened E s" "board_ready E (kernel s)" using assms(1) by (simp_all add: tracks_def)
  from set_output_result [OF f(2) this assms(2,3)] assms(1) k i show ?thesis
    unfolding f(1) by (auto simp: tracks_def common_map_treat_eq bit_set_map_bit)
qed

section \<open>Two calls at the same time\<close>

text \<open>
  The service is called from several binder threads and does not lock. A thread that sets an output goes
  through the statements of the method: the native call, the update of the field \<open>gpo_map\<close> (a read and a
  write), and the native call that writes the field back (a read and the call).
\<close>

datatype set_pc = CallNative | ReadField | StoreField s32 | ReadArgument | WriteBack s32 | Returned

record set_thread =
  out_device :: "spider_device_t \<Rightarrow> kworld \<Rightarrow> s32 \<Rightarrow> (kworld \<times> int) res"
  out_index :: nat
  out_value :: s32
  set_pc :: set_pc

definition thread_step :: "system_server \<Rightarrow> set_thread \<Rightarrow> (system_server \<times> set_thread) res" where
  "thread_step s t =
     (case set_pc t of
        CallNative \<Rightarrow> bnd (jni_set (out_device t) s (out_value t)) (\<lambda>s. Inr (s, t\<lparr>set_pc := ReadField\<rparr>))
      | ReadField \<Rightarrow>
          Inr (s, t\<lparr>set_pc := StoreField (common_map_treat (svc_gpo_map s) (out_index t) (out_value t))\<rparr>)
      | StoreField m \<Rightarrow> Inr (s\<lparr>svc_gpo_map := m\<rparr>, t\<lparr>set_pc := ReadArgument\<rparr>)
      | ReadArgument \<Rightarrow> Inr (s, t\<lparr>set_pc := WriteBack (svc_gpo_map s)\<rparr>)
      | WriteBack m \<Rightarrow> bnd (service_set_gpio_out_map s m) (\<lambda>s. Inr (s, t\<lparr>set_pc := Returned\<rparr>))
      | Returned \<Rightarrow> Inr (s, t))"

text \<open>Two threads and a schedule: \<open>True\<close> gives a step to the first one.\<close>

fun run_threads :: "system_server \<Rightarrow> set_thread \<Rightarrow> set_thread \<Rightarrow> bool list \<Rightarrow>
    (system_server \<times> set_thread \<times> set_thread) res" where
  "run_threads s t u [] = Inr (s, t, u)"
| "run_threads s t u (True # bs) = bnd (thread_step s t) (\<lambda>(s, t). run_threads s t u bs)"
| "run_threads s t u (False # bs) = bnd (thread_step s u) (\<lambda>(s, u). run_threads s t u bs)"

definition set_thread :: "nat \<Rightarrow> s32 \<Rightarrow> set_thread" where
  "set_thread k v = \<lparr>out_device = fst (output_devices ! k), out_index = k, out_value = v, set_pc = CallNative\<rparr>"

text \<open>A thread that is not disturbed does what the method does.\<close>

lemma thread_alone:
  assumes "set_pc t = CallNative"
  shows "run_threads s t u [True, True, True, True, True] =
    bnd (set_output (out_device t) (out_index t) s (out_value t)) (\<lambda>s. Inr (s, t\<lparr>set_pc := Returned\<rparr>, u))"
  using assms by (simp add: thread_step_def set_output_def bnd_assoc)

lemma thread_alone2:
  assumes "set_pc u = CallNative"
  shows "run_threads s t u [False, False, False, False, False] =
    bnd (set_output (out_device u) (out_index u) s (out_value u)) (\<lambda>s. Inr (s, t, u\<lparr>set_pc := Returned\<rparr>))"
  using assms by (simp add: thread_step_def set_output_def bnd_assoc)

lemma run_threads_append:
  "run_threads s t u (bs @ cs) = bnd (run_threads s t u bs) (\<lambda>(s, t, u). run_threads s t u cs)"
proof (induction s t u bs rule: run_threads.induct)
  case (2 s t u bs)
  then show ?case by (cases "thread_step s t") (auto simp: bnd_assoc)
next
  case (3 s t u bs)
  then show ?case by (cases "thread_step s u") (auto simp: bnd_assoc)
qed simp

lemma jni_output:
  assumes "opened E s" "board_ready E (kernel s)" "platform_ok E" "k < 16" "0 \<le> sint v"
  shows "\<exists>w. jni_set (fst (output_devices ! k)) s v = Inr (s\<lparr>kernel := w\<rparr>) \<and> board_ready E w \<and>
    spider_of w = spider_of (kernel s) \<and> driven (klog w) (output_pin k) = Some v \<and>
    (\<forall>j<16. j \<noteq> k \<longrightarrow> driven (klog w) (output_pin j) = driven (klog (kernel s)) (output_pin j))"
proof -
  obtain f where "(f, k, output_pin k) \<in> set output_devices" using output_nth [OF assms(4)] by blast
  then have f: "(fst (output_devices ! k), k, output_pin k) \<in> set output_devices" using output_index by fastforce
  obtain dev where dev: "spider_device s = Some dev" "fst (spider_device_open E) = Some dev"
    using assms(1) by (auto simp: opened_def spider_device_open_def)
  have q: "output_pin j \<noteq> output_pin k \<and> output_pin j \<noteq> 914" if "j < 16" "j \<noteq> k" for j
    using output_pin_eq [OF that(1) assms(4)] output_nth [OF that(1)] output_pin_not_otg_id that(2) by blast
  from output_drives [OF f dev(2) assms(2) _ _ assms(5)] assms(3) obtain w where w:
    "fst (output_devices ! k) dev (kernel s) v = Inr (w, 0)" "board_ready E w" "spider_of w = spider_of (kernel s)"
    "driven (klog w) (output_pin k) = Some v"
    "\<forall>q. q \<noteq> output_pin k \<longrightarrow> q \<noteq> 914 \<longrightarrow> driven (klog w) q = driven (klog (kernel s)) q"
    unfolding platform_ok_def by blast
  moreover have "jni_set (fst (output_devices ! k)) s v = Inr (s\<lparr>kernel := w\<rparr>)"
    using w(1) dev(1) by (simp add: jni_set_def)
  ultimately show ?thesis using q by blast
qed

lemma out_map_written:
  assumes "opened E s" "board_ready E (kernel s)" "platform_ok E" "0 \<le> sint m"
  shows "\<exists>w. service_set_gpio_out_map s m = Inr (s\<lparr>kernel := w\<rparr>) \<and> board_ready E w \<and> gpo_map (spider_of w) = m \<and>
    klog w = klog (kernel s)"
  using out_map_native(1) [OF assms(1,2), of m] assms(3,4) board_readyD [OF assms(2)]
  by (intro exI [of _ "put_spider (spider_of (kernel s)\<lparr>gpo_map := m\<rparr>) (kernel s)"])
    (simp add: platform_ok_def board_ready_def board_inv_def)

lemma interleaved_sets:
  assumes "tracks E s" "platform_ok E" "j < 16" "k < 16" "j \<noteq> k" "0 \<le> sint v" "0 \<le> sint u"
  shows "\<exists>s'. run_threads s (set_thread j v) (set_thread k u)
        [True, False, True, False, True, True, True, False, False, False] =
      Inr (s', set_thread j v\<lparr>set_pc := Returned\<rparr>, set_thread k u\<lparr>set_pc := Returned\<rparr>) \<and>
    svc_gpo_map s' = common_map_treat (svc_gpo_map s) k u \<and> gpo_map (spider_of (kernel s')) = svc_gpo_map s' \<and>
    driven (klog (kernel s')) (output_pin j) = Some v \<and> driven (klog (kernel s')) (output_pin k) = Some u"
proof -
  let ?m = "\<lambda>i x. common_map_treat (svc_gpo_map s) i x"
  have t: "opened E s" "board_ready E (kernel s)" and m: "0 \<le> sint (?m j v)" "0 \<le> sint (?m k u)"
    using assms(1,3,4) by (auto simp: tracks_def sint_common_map)
  obtain w1 where w1: "jni_set (fst (output_devices ! j)) s v = Inr (s\<lparr>kernel := w1\<rparr>)" "board_ready E w1"
    "driven (klog w1) (output_pin j) = Some v" using jni_output [OF t assms(2,3,6)] by blast
  have o: "opened E (s\<lparr>kernel := w, svc_gpo_map := x\<rparr>)" "opened E (s\<lparr>kernel := w\<rparr>)" for w x
    using t(1) by (simp_all add: opened_def)
  obtain w2 where w2: "jni_set (fst (output_devices ! k)) (s\<lparr>kernel := w1\<rparr>) u = Inr (s\<lparr>kernel := w2\<rparr>)"
    "board_ready E w2" "driven (klog w2) (output_pin j) = Some v" "driven (klog w2) (output_pin k) = Some u"
    using jni_output [OF o(2) [of w1] _ assms(2,4,7)] w1(2,3) assms(3,5) by auto
  obtain w3 where w3: "service_set_gpio_out_map (s\<lparr>kernel := w2, svc_gpo_map := ?m j v\<rparr>) (?m j v) =
      Inr (s\<lparr>svc_gpo_map := ?m j v, kernel := w3\<rparr>)" "board_ready E w3" "klog w3 = klog w2"
    using out_map_written [OF o(1) [of "?m j v" w2] _ assms(2) m(1)] w2(2) by auto
  obtain w4 where w4: "service_set_gpio_out_map (s\<lparr>kernel := w3, svc_gpo_map := ?m k u\<rparr>) (?m k u) =
      Inr (s\<lparr>svc_gpo_map := ?m k u, kernel := w4\<rparr>)" "klog w4 = klog w3" "gpo_map (spider_of w4) = ?m k u"
    using out_map_written [OF o(1) [of "?m k u" w3] _ assms(2) m(2)] w3(2) by auto
  show ?thesis using w1(1) w2 w3 w4 by (simp add: thread_step_def set_thread_def)
qed

text \<open>
  C38. Two calls at the same time can lose an update. Two threads that set two different outputs, one after
  the other, leave both values in the map. If instead both read the field \<open>gpo_map\<close> before either has
  stored it, both calls end normally and both pins have their new values, but the bit of the first output,
  in the service and in the driver, is the old one.
\<close>

theorem concurrent_sets_lose_update:
  assumes "tracks E s" "platform_ok E" "j < 16" "k < 16" "j \<noteq> k" "0 \<le> sint v" "0 \<le> sint u"
  shows "(\<exists>s'. run_threads s (set_thread j v) (set_thread k u)
        ([True, True, True, True, True] @ [False, False, False, False, False]) =
      Inr (s', set_thread j v\<lparr>set_pc := Returned\<rparr>, set_thread k u\<lparr>set_pc := Returned\<rparr>) \<and>
      bit (gpo_map (spider_of (kernel s'))) j = (v \<noteq> 0) \<and> bit (gpo_map (spider_of (kernel s'))) k = (u \<noteq> 0)) \<and>
    (\<exists>s'. run_threads s (set_thread j v) (set_thread k u)
        [True, False, True, False, True, True, True, False, False, False] =
      Inr (s', set_thread j v\<lparr>set_pc := Returned\<rparr>, set_thread k u\<lparr>set_pc := Returned\<rparr>) \<and>
      driven (klog (kernel s')) (output_pin j) = Some v \<and> driven (klog (kernel s')) (output_pin k) = Some u \<and>
      bit (gpo_map (spider_of (kernel s'))) j = bit (gpo_map (spider_of (kernel s))) j \<and>
      bit (svc_gpo_map s') j = bit (gpo_map (spider_of (kernel s))) j)"
proof -
  have t: "opened E s" "board_ready E (kernel s)" "svc_gpo_map s = gpo_map (spider_of (kernel s))" "0 \<le> sint (svc_gpo_map s)"
    using assms(1) by (auto simp: tracks_def)
  have d: "(fst (output_devices ! i), i, output_pin i) \<in> set output_devices" if "i < 16" for i
    using output_nth [OF that] output_index by fastforce
  obtain s1 where s1: "set_output (fst (output_devices ! j)) j s v = Inr s1" "opened E s1" "board_ready E (kernel s1)"
    "svc_gpo_map s1 = common_map_treat (svc_gpo_map s) j v"
    using set_output_result [OF d [OF assms(3)] t(1,2) assms(2,6)] by blast
  have n1: "0 \<le> sint (svc_gpo_map s1)" using s1(4) t(4) assms(3) by (simp add: sint_common_map)
  obtain s2 where s2: "set_output (fst (output_devices ! k)) k s1 u = Inr s2"
    "gpo_map (spider_of (kernel s2)) = common_map_treat (svc_gpo_map s1) k u"
    using set_output_result [OF d [OF assms(4)] s1(2,3) assms(2,7)] n1 by fastforce
  have "run_threads s (set_thread j v) (set_thread k u) ([True, True, True, True, True] @ [False, False, False, False, False]) =
      Inr (s2, set_thread j v\<lparr>set_pc := Returned\<rparr>, set_thread k u\<lparr>set_pc := Returned\<rparr>)"
    unfolding run_threads_append using s1(1) s2(1)
    by (subst thread_alone) (simp_all add: set_thread_def thread_alone2 del: run_threads.simps)
  moreover have "bit (gpo_map (spider_of (kernel s2))) j = (v \<noteq> 0)" "bit (gpo_map (spider_of (kernel s2))) k = (u \<noteq> 0)"
    using s2(2) s1(4) assms(3-5) by (simp_all add: common_map_treat_eq bit_set_map_bit)
  ultimately show ?thesis using interleaved_sets [OF assms] assms(3-5) t(3)
    by (auto simp: common_map_treat_eq bit_set_map_bit)
qed

section \<open>The theorems at a concrete board\<close>

definition example_service_env :: service_env where
  "example_service_env = hal_env.extend example_hal_env \<lparr>hw_get_module_res = 0, uptimeMillis = 0\<rparr>"

lemma example_platform: "platform_ok example_service_env" "no_signals example_service_env"
proof -
  have "strict_strtoul example_service_env = strict_strtoul example_hal_env"
    "interrupted example_service_env = interrupted example_hal_env"
    "hal_open_fails example_service_env = hal_open_fails example_hal_env" "hal_malloc example_service_env"
    "hw_get_module_res example_service_env = 0"
    by (simp_all add: example_service_env_def hal_env.defs example_hal_env_def)
  then show "platform_ok example_service_env" "no_signals example_service_env"
    using example_hal_facts
    by (simp_all add: platform_ok_def no_signals_def strtoul_reads_def strtoul_rejects_def files_open_def)
qed

definition booted :: system_server where
  "booted = \<lparr>kernel = probed_board, spider_device = None, svc_gpo_map = 0, svc_gpi_map = 0, power_calls = []\<rparr>"

definition service_up :: system_server where
  "service_up = booted\<lparr>spider_device := fst (spider_device_open example_service_env),
     svc_gpo_map := gpo_map (spider_of probed_board)\<rparr>"

lemma probed_board_ready: "board_ready example_service_env probed_board"
  by (simp add: board_ready_def example_platform(2) board_reach_inv [OF probed_board_reach])

lemma probed_board_map: "0 \<le> sint (gpo_map (spider_of probed_board))"
proof -
  let ?w1 = "fst (fleety_spider_probe good_spider_probe kernel_start)"
  have s: "fleety_spider_probe good_spider_probe kernel_start = (?w1, 0)"
    by (simp add: fleety_spider_probe_def good_spider_probe_def Let_def)
  have "spider_ready ?w1" using spider_probe_ok [OF s] by (simp add: good_spider_probe_def)
  from probe_ok [OF this example_services(1,3-5)] obtain w m where
    "fleety_leds_probe example_kenv example_probe ?w1 = Inr (w, 0)" "spider_of w = spider_of ?w1\<lparr>gpo_map := m\<rparr>"
    "\<not> bit m 31 \<or> bit (gpo_map (spider_of ?w1)) 31" by auto
  moreover have "gpo_map (spider_of ?w1) = 0"
    by (simp add: fleety_spider_probe_def good_spider_probe_def Let_def spider_of_def)
  ultimately show ?thesis by (simp add: probed_board_def sint_nonneg_bit)
qed

lemma service_up_facts: "opened example_service_env service_up" "kernel service_up = probed_board"
  "tracks example_service_env service_up"
proof -
  show o: "opened example_service_env service_up" "kernel service_up = probed_board"
    using example_platform(1) by (simp_all add: service_up_def booted_def opened_def platform_ok_def)
  then show "tracks example_service_env service_up"
    using probed_board_ready probed_board_map by (simp add: tracks_def) (simp add: service_up_def)
qed


theorem service_outputs_agree_witness:
  "\<exists>s1 s2 s3. service_set_app_ready service_up 1 = Inr s1 \<and>
    svc_gpo_map s1 = gpo_map (spider_of (kernel service_up)) \<and>
    set_outputs s1 [(15, 1), (0, 1), (15, - 1)] = Inr s2 \<and> outputs_follow [(15, 1), (0, 1), (15, - 1)] s1 s2 \<and>
    gpo_map (spider_of (kernel s2)) = svc_gpo_map s2 \<and>
    service_get_gpio_out_map s2 = Inr (s3, svc_gpo_map s2)"
proof -
  have r: "board_ready example_service_env (kernel service_up)" "0 \<le> sint (1 :: s32)"
    "0 \<le> sint (gpo_map (spider_of (kernel service_up)))" "output_calls_ok [(15, 1), (0, 1), (15, - 1)]"
    by (simp_all add: service_up_facts(2) probed_board_ready probed_board_map output_calls_ok_def)
  from service_outputs_agree [OF service_up_facts(1) r(1) example_platform(1) r(2-4)] show ?thesis by blast
qed

lemma service_map_lost_example:
  "\<exists>s1 s2 s3. SpiderService example_service_env booted = Inr s1 \<and> svc_gpo_map s1 = - 1 \<and>
    set_outputs s1 [(15, 1), (0, 1)] = Inr s2 \<and> outputs_follow [(15, 1), (0, 1)] s1 s2 \<and>
    service_get_gpio_out_map s2 = Inr (s3, gpo_map (spider_of (kernel booted)))"
  by (rule service_map_lost [OF _ _ example_platform(1)])
    (simp_all add: booted_def probed_board_ready output_calls_ok_def)

lemma service_map_misnumbered_example:
  "\<exists>s'. service_set_fan_power_gpio service_up 1 = Inr s' \<and> driven (klog (kernel s')) 919 = Some 1 \<and>
    bit (gpo_map (spider_of (kernel s'))) 15 = ((1 :: s32) \<noteq> 0) \<and>
    (if 15 < (6 :: nat) then (16 :: nat) = 15
     else (16 :: nat) = 15 + 1 \<and>
       bit (gpo_map (spider_of (kernel s'))) 16 = bit (gpo_map (spider_of (kernel service_up))) 16)"
  by (rule service_map_misnumbered [OF service_up_facts(3) example_platform(1)])
    (simp_all add: service_outputs_def FAN_POWER_GPIO_OUT_INDEX_def leds_pins_def leds_table_def)

theorem concurrent_sets_lose_update_witness:
  "(\<exists>s'. run_threads service_up (set_thread 0 1) (set_thread 1 1)
        ([True, True, True, True, True] @ [False, False, False, False, False]) =
      Inr (s', set_thread 0 1\<lparr>set_pc := Returned\<rparr>, set_thread 1 1\<lparr>set_pc := Returned\<rparr>) \<and>
      bit (gpo_map (spider_of (kernel s'))) 0 = ((1 :: s32) \<noteq> 0) \<and>
      bit (gpo_map (spider_of (kernel s'))) 1 = ((1 :: s32) \<noteq> 0)) \<and>
    (\<exists>s'. run_threads service_up (set_thread 0 1) (set_thread 1 1)
        [True, False, True, False, True, True, True, False, False, False] =
      Inr (s', set_thread 0 1\<lparr>set_pc := Returned\<rparr>, set_thread 1 1\<lparr>set_pc := Returned\<rparr>) \<and>
      driven (klog (kernel s')) (output_pin 0) = Some 1 \<and> driven (klog (kernel s')) (output_pin 1) = Some 1 \<and>
      bit (gpo_map (spider_of (kernel s'))) 0 = bit (gpo_map (spider_of (kernel service_up))) 0 \<and>
      bit (svc_gpo_map s') 0 = bit (gpo_map (spider_of (kernel service_up))) 0)"
  by (rule concurrent_sets_lose_update [OF service_up_facts(3) example_platform(1)]) simp_all

end
