(* ===== verification/Fleety_Keys.thy ===== *)
theory Fleety_Keys
  imports Fleety_Spider
begin

text \<open>
  The key driver (\<open>src/kernel/drivers/fleety/keys/fleety_keys.c\<close>): keys on GPIO lines and keys that only
  have an interrupt, with debouncing, the sysfs attributes that disable keys, the device tree parser, and
  the probe, remove, suspend and resume functions. The lemmas show that disabling is all or nothing and
  is read back, that presses and releases alternate, that a change of a line is reported and published in
  the map of inputs, and that a probe that fails gives back every line and interrupt it took.
\<close>

section \<open>State\<close>

definition EV_KEY :: u32 where "EV_KEY = 1"
definition EV_ABS :: u32 where "EV_ABS = 3"
definition EV_SW :: u32 where "EV_SW = 5"
definition FLEETY_KEYS_BASE_CODE :: u32 where "FLEETY_KEYS_BASE_CODE = 59"

record fleety_keys_button =
  code :: u32
  gpio :: s32
  active_low :: s32
  desc :: "string option"
  btype :: u32
  wakeup :: s32
  debounce_interval :: s32
  can_disable :: bool
  abs_value :: s32
  button_irq :: u32

text \<open>Which interrupt handler and timer function a key was set up with.\<close>

datatype key_kind = GpioKey | IrqKey

record fleety_button_data =
  button :: fleety_keys_button
  kind :: key_kind
  timer_pending :: bool
  work_pending :: bool
  timer_debounce :: u32
  irq :: u32
  disabled :: bool
  key_pressed :: bool

record fleety_keys_platform_data =
  buttons :: "fleety_keys_button list"
  rep :: bool
  pdata_name :: "string option"
  enable_res :: "int option"
  has_disable :: bool

record fleety_keys_drvdata =
  pdata :: fleety_keys_platform_data
  key_pinctrl :: bool
  key_data :: "fleety_button_data list"

text \<open>
  The kernel services that this driver uses beyond those of the others: GPIO interrupts, bitmaps and their
  list notation (\<open>bitmap_scnlistprintf\<close> and \<open>bitmap_parselist\<close>), and pin control. The sizes of the event
  bitmaps are those of the kernel's input layer. Errors are negative numbers.
\<close>

record keys_env = kenv +
  gpio_set_debounce :: "s32 \<Rightarrow> int"
  gpio_to_irq :: "s32 \<Rightarrow> int"
  request_irq_res :: "u32 \<Rightarrow> int"
  kcalloc_ok :: bool
  KEY_CNT :: nat
  SW_CNT :: nat
  BITS_PER_LONG :: nat
  bitmap_scnlistprintf :: "bool list \<Rightarrow> string"
  bitmap_parselist :: "string \<Rightarrow> nat \<Rightarrow> int + bool list"
  pinctrl_lookup :: "bool \<Rightarrow> int"
  pinctrl_select :: "bool \<Rightarrow> int"

section \<open>Disabling keys\<close>

definition get_n_events_by_type :: "'e keys_env_scheme \<Rightarrow> u32 \<Rightarrow> nat res" where
  "get_n_events_by_type E type =
     (if type \<noteq> EV_SW \<and> type \<noteq> EV_KEY then Inl (Fault KernelBug)
      else Inr (if type = EV_KEY then KEY_CNT E else SW_CNT E))"

text \<open>A bitmap for \<open>n\<close> bits, as allocated: whole words.\<close>

definition BITS_TO_LONGS :: "'e keys_env_scheme \<Rightarrow> nat \<Rightarrow> nat" where
  "BITS_TO_LONGS E n = (n + BITS_PER_LONG E - 1) div BITS_PER_LONG E"

definition zero_bitmap :: "'e keys_env_scheme \<Rightarrow> nat \<Rightarrow> bool list" where
  "zero_bitmap E n = replicate (BITS_TO_LONGS E n * BITS_PER_LONG E) False"

definition set_bitmap_bit :: "bool list \<Rightarrow> u32 \<Rightarrow> bool list res" where
  "set_bitmap_bit bits c = (if unat c < length bits then Inr (bits[unat c := True]) else Inl (Fault OutOfBounds))"

definition test_bit :: "bool list \<Rightarrow> u32 \<Rightarrow> bool res" where
  "test_bit bits c = (if unat c < length bits then Inr (bits ! unat c) else Inl (Fault OutOfBounds))"

definition fleety_keys_disable_button :: "kworld \<Rightarrow> fleety_button_data \<Rightarrow> kworld \<times> fleety_button_data" where
  "fleety_keys_disable_button w bdata =
     (if \<not> disabled bdata then
        (say [DisableIrq (irq bdata)] w,
         (if timer_debounce bdata \<noteq> 0 then bdata\<lparr>timer_pending := False\<rparr> else bdata)\<lparr>disabled := True\<rparr>)
      else (w, bdata))"

definition fleety_keys_enable_button :: "kworld \<Rightarrow> fleety_button_data \<Rightarrow> kworld \<times> fleety_button_data" where
  "fleety_keys_enable_button w bdata =
     (if disabled bdata then (say [EnableIrq (irq bdata)] w, bdata\<lparr>disabled := False\<rparr>) else (w, bdata))"

fun show_loop :: "bool list \<Rightarrow> fleety_button_data list \<Rightarrow> u32 \<Rightarrow> bool \<Rightarrow> bool list res" where
  "show_loop bits [] type only_disabled = Inr bits"
| "show_loop bits (bdata # rest) type only_disabled =
     (if btype (button bdata) \<noteq> type then show_loop bits rest type only_disabled
      else if only_disabled \<and> \<not> disabled bdata then show_loop bits rest type only_disabled
      else bnd (set_bitmap_bit bits (code (button bdata))) (\<lambda>bits. show_loop bits rest type only_disabled))"

definition fleety_keys_attr_show_helper ::
  "'e keys_env_scheme \<Rightarrow> fleety_button_data list \<Rightarrow> u32 \<Rightarrow> bool \<Rightarrow> (int \<times> string) res" where
  "fleety_keys_attr_show_helper E data type only_disabled =
     bnd (get_n_events_by_type E type) (\<lambda>n_events.
     if \<not> kcalloc_ok E then Inr (- ENOMEM, [])
     else
       bnd (show_loop (zero_bitmap E n_events) data type only_disabled) (\<lambda>bits.
       let buf = bitmap_scnlistprintf E (take n_events bits) @ newline
       in Inr (int (length buf), buf)))"

fun validate_loop :: "bool list \<Rightarrow> fleety_button_data list \<Rightarrow> u32 \<Rightarrow> bool res" where
  "validate_loop bits [] type = Inr True"
| "validate_loop bits (bdata # rest) type =
     (if btype (button bdata) \<noteq> type then validate_loop bits rest type
      else bnd (test_bit bits (code (button bdata))) (\<lambda>b.
        if b \<and> \<not> can_disable (button bdata) then Inr False else validate_loop bits rest type))"

fun apply_loop :: "kworld \<Rightarrow> bool list \<Rightarrow> fleety_button_data list \<Rightarrow> u32 \<Rightarrow> (kworld \<times> fleety_button_data list) res" where
  "apply_loop w bits [] type = Inr (w, [])"
| "apply_loop w bits (bdata # rest) type =
     (if btype (button bdata) \<noteq> type then
        bnd (apply_loop w bits rest type) (\<lambda>(w, rest). Inr (w, bdata # rest))
      else
        bnd (test_bit bits (code (button bdata))) (\<lambda>b.
        let (w, bdata) = (if b then fleety_keys_disable_button w bdata else fleety_keys_enable_button w bdata) in
        bnd (apply_loop w bits rest type) (\<lambda>(w, rest). Inr (w, bdata # rest))))"

definition fleety_keys_attr_store_helper ::
  "'e keys_env_scheme \<Rightarrow> kworld \<Rightarrow> fleety_button_data list \<Rightarrow> string \<Rightarrow> u32 \<Rightarrow>
     (kworld \<times> fleety_button_data list \<times> int) res" where
  "fleety_keys_attr_store_helper E w data buf type =
     bnd (get_n_events_by_type E type) (\<lambda>n_events.
     if \<not> kcalloc_ok E then Inr (w, data, - ENOMEM)
     else case bitmap_parselist E buf n_events of
       Inl error \<Rightarrow> Inr (w, data, error)
     | Inr bs \<Rightarrow>
         let bits = bs @ drop (length bs) (zero_bitmap E n_events) in
         bnd (validate_loop bits data type) (\<lambda>ok.
         if \<not> ok then Inr (w, data, - EINVAL)
         else bnd (apply_loop w bits data type) (\<lambda>(w, data). Inr (w, data, 0))))"

text \<open>The functions that the macros \<open>ATTR_SHOW_FN\<close> and \<open>ATTR_STORE_FN\<close> define.\<close>

definition fleety_keys_show_keys :: "'e keys_env_scheme \<Rightarrow> fleety_button_data list \<Rightarrow> (int \<times> string) res" where
  "fleety_keys_show_keys E data = fleety_keys_attr_show_helper E data EV_KEY False"

definition fleety_keys_show_switches :: "'e keys_env_scheme \<Rightarrow> fleety_button_data list \<Rightarrow> (int \<times> string) res" where
  "fleety_keys_show_switches E data = fleety_keys_attr_show_helper E data EV_SW False"

definition fleety_keys_show_disabled_keys :: "'e keys_env_scheme \<Rightarrow> fleety_button_data list \<Rightarrow> (int \<times> string) res" where
  "fleety_keys_show_disabled_keys E data = fleety_keys_attr_show_helper E data EV_KEY True"

definition fleety_keys_show_disabled_switches :: "'e keys_env_scheme \<Rightarrow> fleety_button_data list \<Rightarrow> (int \<times> string) res" where
  "fleety_keys_show_disabled_switches E data = fleety_keys_attr_show_helper E data EV_SW True"

definition store_disabled ::
  "'e keys_env_scheme \<Rightarrow> kworld \<Rightarrow> fleety_button_data list \<Rightarrow> string \<Rightarrow> int \<Rightarrow> u32 \<Rightarrow>
     (kworld \<times> fleety_button_data list \<times> int) res" where
  "store_disabled E w data buf count type =
     bnd (fleety_keys_attr_store_helper E w data buf type) (\<lambda>(w, data, error).
     Inr (w, data, if error \<noteq> 0 then error else count))"

definition fleety_keys_store_disabled_keys ::
  "'e keys_env_scheme \<Rightarrow> kworld \<Rightarrow> fleety_button_data list \<Rightarrow> string \<Rightarrow> int \<Rightarrow>
     (kworld \<times> fleety_button_data list \<times> int) res" where
  "fleety_keys_store_disabled_keys E w data buf count = store_disabled E w data buf count EV_KEY"

definition fleety_keys_store_disabled_switches ::
  "'e keys_env_scheme \<Rightarrow> kworld \<Rightarrow> fleety_button_data list \<Rightarrow> string \<Rightarrow> int \<Rightarrow>
     (kworld \<times> fleety_button_data list \<times> int) res" where
  "fleety_keys_store_disabled_switches E w data buf count = store_disabled E w data buf count EV_SW"

section \<open>Events\<close>

definition fleety_keys_gpio_report_event :: "'e kenv_scheme \<Rightarrow> kworld \<Rightarrow> fleety_button_data \<Rightarrow> kworld res" where
  "fleety_keys_gpio_report_event E w bdata =
     (let b = button bdata;
          type = (if btype b \<noteq> 0 then btype b else EV_KEY);
          state = (if gpio_value E (gpio b) \<noteq> 0 then 1 else 0) XOR active_low b
      in bnd (if type = EV_ABS then
                Inr (if state \<noteq> 0 then say [InputEvent type (code b) (abs_value b)] w else w)
              else
                bnd (fleety_set_gpi_map E (say [InputEvent type (code b) (if state \<noteq> 0 then 1 else 0)] w)
                  (code b - FLEETY_KEYS_BASE_CODE) state) (\<lambda>(w, _). Inr w)) (\<lambda>w.
         Inr (say [InputSync] w)))"

definition fleety_keys_gpio_work_func :: "'e kenv_scheme \<Rightarrow> kworld \<Rightarrow> fleety_button_data \<Rightarrow> (kworld \<times> fleety_button_data) res" where
  "fleety_keys_gpio_work_func E w bdata =
     bnd (fleety_keys_gpio_report_event E w bdata) (\<lambda>w.
     Inr (if wakeup (button bdata) \<noteq> 0 then say [Relax] w else w, bdata\<lparr>work_pending := False\<rparr>))"

definition fleety_keys_gpio_timer :: "kworld \<Rightarrow> fleety_button_data \<Rightarrow> kworld \<times> fleety_button_data" where
  "fleety_keys_gpio_timer w bdata = (w, bdata\<lparr>timer_pending := False, work_pending := True\<rparr>)"

definition fleety_keys_gpio_isr :: "kworld \<Rightarrow> u32 \<Rightarrow> fleety_button_data \<Rightarrow> (kworld \<times> fleety_button_data) res" where
  "fleety_keys_gpio_isr w n bdata =
     (if n \<noteq> irq bdata then Inl (Fault KernelBug)
      else Inr (if wakeup (button bdata) \<noteq> 0 then say [StayAwake] w else w,
                if timer_debounce bdata \<noteq> 0 then bdata\<lparr>timer_pending := True\<rparr> else bdata\<lparr>work_pending := True\<rparr>))"

definition fleety_keys_irq_timer :: "kworld \<Rightarrow> fleety_button_data \<Rightarrow> kworld \<times> fleety_button_data" where
  "fleety_keys_irq_timer w bdata =
     (let bdata = bdata\<lparr>timer_pending := False\<rparr> in
      if key_pressed bdata then
        (say [InputEvent EV_KEY (code (button bdata)) 0, InputSync] w, bdata\<lparr>key_pressed := False\<rparr>)
      else (w, bdata))"

definition fleety_keys_irq_isr :: "kworld \<Rightarrow> u32 \<Rightarrow> fleety_button_data \<Rightarrow> (kworld \<times> fleety_button_data) res" where
  "fleety_keys_irq_isr w n bdata =
     (if n \<noteq> irq bdata then Inl (Fault KernelBug)
      else if \<not> key_pressed bdata then
        let w = (if wakeup (button bdata) \<noteq> 0 then say [WakeupEvent] w else w);
            w = say [InputEvent EV_KEY (code (button bdata)) 1, InputSync] w
        in if timer_debounce bdata = 0 then
             Inr (say [InputEvent EV_KEY (code (button bdata)) 0, InputSync] w, bdata)
           else Inr (w, bdata\<lparr>key_pressed := True, timer_pending := True\<rparr>)
      else
        Inr (w, if timer_debounce bdata \<noteq> 0 then bdata\<lparr>timer_pending := True\<rparr> else bdata))"

section \<open>Setting up and removing keys\<close>

definition fresh_key :: "fleety_keys_button \<Rightarrow> fleety_button_data" where
  "fresh_key b = \<lparr>button = b, kind = GpioKey, timer_pending = False, work_pending = False, timer_debounce = 0,
     irq = 0, disabled = False, key_pressed = False\<rparr>"

text \<open>The common end of the function, from \<open>input_set_capability\<close> on.\<close>

definition claim_key_irq :: "'e keys_env_scheme \<Rightarrow> kworld \<Rightarrow> fleety_button_data \<Rightarrow> kworld \<times> fleety_button_data \<times> int" where
  "claim_key_irq E w bdata =
     (let b = button bdata;
          w = say [InputSetCapability (if btype b \<noteq> 0 then btype b else EV_KEY) (code b)] w;
          error = request_irq_res E (irq bdata)
      in if error < 0 then (if gpio_is_valid E (gpio b) then say [GpioFree (gpio b)] w else w, bdata, error)
         else (say [RequestIrq (irq bdata) (\<not> can_disable b)] w, bdata, 0))"

definition fleety_keys_setup_key ::
  "'e keys_env_scheme \<Rightarrow> kworld \<Rightarrow> fleety_keys_button \<Rightarrow> kworld \<times> fleety_button_data \<times> int" where
  "fleety_keys_setup_key E w b =
     (let bdata = fresh_key b in
      if gpio_is_valid E (gpio b) then
        if gpio_request_res E (gpio b) < 0 then (w, bdata, gpio_request_res E (gpio b))
        else
          let w = say [GpioRequest (gpio b) (Some (case desc b of Some d \<Rightarrow> d | None \<Rightarrow> ''fleety_keys''))] w;
              bdata = (if debounce_interval b \<noteq> 0 \<and> gpio_set_debounce E (gpio b) < 0
                       then bdata\<lparr>timer_debounce := debounce_interval b\<rparr> else bdata)
          in if gpio_to_irq E (gpio b) < 0 then (say [GpioFree (gpio b)] w, bdata, gpio_to_irq E (gpio b))
             else claim_key_irq E w (bdata\<lparr>irq := of_int (gpio_to_irq E (gpio b)), kind := GpioKey\<rparr>)
      else
        if button_irq b = 0 then (w, bdata, - EINVAL)
        else if btype b \<noteq> 0 \<and> btype b \<noteq> EV_KEY then (w, bdata\<lparr>irq := button_irq b\<rparr>, - EINVAL)
        else claim_key_irq E w (bdata\<lparr>irq := button_irq b, timer_debounce := debounce_interval b, kind := IrqKey\<rparr>))"

definition gpio_remove_key :: "'e keys_env_scheme \<Rightarrow> kworld \<Rightarrow> fleety_button_data \<Rightarrow> kworld" where
  "gpio_remove_key E w bdata =
     (let w = say [FreeIrq (irq bdata)] w
      in if gpio_is_valid E (gpio (button bdata)) then say [GpioFree (gpio (button bdata))] w else w)"

fun report_loop :: "'e kenv_scheme \<Rightarrow> kworld \<Rightarrow> fleety_button_data list \<Rightarrow> kworld res" where
  "report_loop E w [] = Inr w"
| "report_loop E w (bdata # rest) =
     (if gpio_is_valid E (gpio (button bdata))
      then bnd (fleety_keys_gpio_report_event E w bdata) (\<lambda>w. report_loop E w rest)
      else report_loop E w rest)"

definition fleety_keys_report_state :: "'e kenv_scheme \<Rightarrow> kworld \<Rightarrow> fleety_button_data list \<Rightarrow> kworld res" where
  "fleety_keys_report_state E w data = bnd (report_loop E w data) (\<lambda>w. Inr (say [InputSync] w))"

text \<open>The state to select exists (\<open>pinctrl_lookup\<close> is 0) and can be selected (\<open>pinctrl_select\<close> is 0), or not.\<close>

definition fleety_keys_pinctrl_configure :: "'e keys_env_scheme \<Rightarrow> kworld \<Rightarrow> bool \<Rightarrow> kworld \<times> int" where
  "fleety_keys_pinctrl_configure E w active =
     (if pinctrl_lookup E active \<noteq> 0 then (w, pinctrl_lookup E active)
      else if pinctrl_select E active \<noteq> 0 then (w, pinctrl_select E active)
      else (say [PinctrlSelect active] w, 0))"

definition fleety_keys_open :: "'e keys_env_scheme \<Rightarrow> kworld \<Rightarrow> fleety_keys_drvdata \<Rightarrow> (kworld \<times> int) res" where
  "fleety_keys_open E w ddata =
     (case enable_res (pdata ddata) of
        Some error \<Rightarrow> if error \<noteq> 0 then Inr (w, error)
          else bnd (fleety_keys_report_state E w (key_data ddata)) (\<lambda>w. Inr (w, 0))
      | None \<Rightarrow> bnd (fleety_keys_report_state E w (key_data ddata)) (\<lambda>w. Inr (w, 0)))"

definition fleety_keys_close :: "kworld \<Rightarrow> fleety_keys_drvdata \<Rightarrow> kworld" where
  "fleety_keys_close w ddata = (if has_disable (pdata ddata) then say [PdataDisable] w else w)"

section \<open>Platform data from the device tree\<close>

record of_key =
  key_gpios :: bool
  key_gpio :: s32
  key_flags :: u32
  key_code :: "u32 option"
  key_label :: "string option"
  key_type :: "u32 option"
  key_wakeup :: bool
  key_debounce :: "u32 option"

record of_keys =
  of_key_children :: "of_key list"
  autorepeat :: bool
  input_name :: "string option"

fun devtree_loop :: "of_key list \<Rightarrow> int + fleety_keys_button list" where
  "devtree_loop [] = Inr []"
| "devtree_loop (pp # rest) =
     (if \<not> key_gpios pp then devtree_loop rest
      else if key_gpio pp <s 0 then Inl (sint (key_gpio pp))
      else case key_code pp of
        None \<Rightarrow> Inl (- EINVAL)
      | Some c \<Rightarrow>
          (case devtree_loop rest of
             Inl error \<Rightarrow> Inl error
           | Inr bs \<Rightarrow> Inr (\<lparr>code = c, gpio = key_gpio pp, active_low = key_flags pp AND 1, desc = key_label pp,
               btype = (case key_type pp of Some t \<Rightarrow> t | None \<Rightarrow> EV_KEY),
               wakeup = (if key_wakeup pp then 1 else 0),
               debounce_interval = (case key_debounce pp of Some i \<Rightarrow> i | None \<Rightarrow> 5),
               can_disable = False, abs_value = 0, button_irq = 0\<rparr> # bs)))"

definition fleety_keys_get_devtree_pdata :: "of_keys option \<Rightarrow> bool \<Rightarrow> int + fleety_keys_platform_data" where
  "fleety_keys_get_devtree_pdata node kzalloc_ok =
     (case node of
        None \<Rightarrow> Inl (- ENODEV)
      | Some n \<Rightarrow>
          if of_key_children n = [] then Inl (- ENODEV)
          else if \<not> kzalloc_ok then Inl (- ENOMEM)
          else case devtree_loop (of_key_children n) of
            Inl error \<Rightarrow> Inl error
          | Inr bs \<Rightarrow> if bs = [] then Inl (- EINVAL)
              else Inr \<lparr>buttons = bs, rep = autorepeat n, pdata_name = input_name n, enable_res = None,
                     has_disable = False\<rparr>)"

section \<open>Probe, remove, suspend and resume\<close>

record keys_probe_env =
  platdata :: "fleety_keys_platform_data option"
  of_node :: "of_keys option"
  pdata_kzalloc :: bool
  ddata_kzalloc :: bool
  input_alloc :: bool
  pinctrl_err :: int
  sysfs_err :: int
  register_err :: int

fun setup_loop :: "'e keys_env_scheme \<Rightarrow> kworld \<Rightarrow> fleety_button_data list \<Rightarrow> fleety_keys_button list \<Rightarrow>
    kworld \<times> fleety_button_data list \<times> int" where
  "setup_loop E w ready [] = (w, ready, 0)"
| "setup_loop E w ready (b # bs) =
     (case fleety_keys_setup_key E w b of (w, bdata, error) \<Rightarrow>
        if error \<noteq> 0 then (w, ready, error) else setup_loop E w (ready @ [bdata]) bs)"

text \<open>The loop at the label \<open>fail2\<close> removes the keys that were set up, the last one first.\<close>

definition remove_all :: "'e keys_env_scheme \<Rightarrow> kworld \<Rightarrow> fleety_button_data list \<Rightarrow> kworld" where
  "remove_all E w data = foldl (gpio_remove_key E) w (rev data)"

text \<open>The code at \<open>err_pinctrl\<close>: the suspend state is selected if it can be.\<close>

definition pinctrl_suspend :: "'e keys_env_scheme \<Rightarrow> kworld \<Rightarrow> bool \<Rightarrow> kworld" where
  "pinctrl_suspend E w has_pinctrl =
     (if has_pinctrl then fst (fleety_keys_pinctrl_configure E w False) else w)"

definition fleety_keys_probe ::
  "'e keys_env_scheme \<Rightarrow> keys_probe_env \<Rightarrow> kworld \<Rightarrow> kworld \<times> fleety_keys_drvdata option \<times> int" where
  "fleety_keys_probe E P w =
     (case (case platdata P of Some p \<Rightarrow> Inr p | None \<Rightarrow> fleety_keys_get_devtree_pdata (of_node P) (pdata_kzalloc P)) of
        Inl error \<Rightarrow> (w, None, error)
      | Inr p \<Rightarrow>
          if \<not> ddata_kzalloc P \<or> \<not> input_alloc P then (w, None, - ENOMEM)
          else if pinctrl_err P = - EPROBE_DEFER then (w, None, - EPROBE_DEFER)
          else
            let has_pinctrl = (pinctrl_err P = 0);
                (w, error) = (if has_pinctrl then fleety_keys_pinctrl_configure E w True else (w, 0))
            in if error \<noteq> 0 then (w, None, error)
            else case setup_loop E w [] (buttons p) of (w, data, error) \<Rightarrow>
              if error \<noteq> 0 then (remove_all E (pinctrl_suspend E w has_pinctrl) data, None, error)
              else if sysfs_err P \<noteq> 0 then (remove_all E w data, None, sysfs_err P)
              else if register_err P \<noteq> 0 then
                (remove_all E (pinctrl_suspend E w has_pinctrl) data, None, register_err P)
              else (w, Some \<lparr>pdata = p, key_pinctrl = has_pinctrl, key_data = data\<rparr>, 0))"

definition fleety_keys_remove :: "'e keys_env_scheme \<Rightarrow> kworld \<Rightarrow> fleety_keys_drvdata \<Rightarrow> kworld \<times> int" where
  "fleety_keys_remove E w ddata = (foldl (gpio_remove_key E) w (key_data ddata), 0)"

definition wake_irqs :: "(u32 \<Rightarrow> kevent) \<Rightarrow> fleety_button_data list \<Rightarrow> kevent list" where
  "wake_irqs ev data = map (\<lambda>bdata. ev (irq bdata)) (filter (\<lambda>bdata. wakeup (button bdata) \<noteq> 0) data)"

definition fleety_keys_suspend ::
  "'e keys_env_scheme \<Rightarrow> kworld \<Rightarrow> fleety_keys_drvdata \<Rightarrow> bool \<Rightarrow> bool \<Rightarrow> kworld \<times> int" where
  "fleety_keys_suspend E w ddata may_wakeup in_use =
     (let (w, ret) = (if key_pinctrl ddata then fleety_keys_pinctrl_configure E w False else (w, 0)) in
      if ret \<noteq> 0 then (w, ret)
      else if may_wakeup then (say (wake_irqs EnableIrqWake (key_data ddata)) w, 0)
      else (if in_use then fleety_keys_close w ddata else w, 0))"

definition fleety_keys_resume ::
  "'e keys_env_scheme \<Rightarrow> kworld \<Rightarrow> fleety_keys_drvdata \<Rightarrow> bool \<Rightarrow> bool \<Rightarrow> (kworld \<times> int) res" where
  "fleety_keys_resume E w ddata may_wakeup in_use =
     (let (w, error) = (if key_pinctrl ddata then fleety_keys_pinctrl_configure E w True else (w, 0)) in
      if error \<noteq> 0 then Inr (w, error)
      else
        bnd (if may_wakeup then Inr (say (wake_irqs DisableIrqWake (key_data ddata)) w, 0)
             else if in_use then fleety_keys_open E w ddata else Inr (w, 0)) (\<lambda>(w, error).
        if error \<noteq> 0 then Inr (w, error)
        else bnd (fleety_keys_report_state E w (key_data ddata)) (\<lambda>w. Inr (w, 0))))"

section \<open>Disabling is all or nothing\<close>

definition codes_below :: "nat \<Rightarrow> u32 \<Rightarrow> fleety_button_data list \<Rightarrow> bool" where
  "codes_below n type data \<longleftrightarrow> (\<forall>b\<in>set data. btype (button b) = type \<longrightarrow> unat (code (button b)) < n)"

lemma codes_below_simps [simp]:
  "codes_below n type []"
  "codes_below n type (b # bs) \<longleftrightarrow> (btype (button b) = type \<longrightarrow> unat (code (button b)) < n) \<and> codes_below n type bs"
  by (auto simp: codes_below_def)

lemma length_zero_bitmap: "0 < BITS_PER_LONG E \<Longrightarrow> n \<le> length (zero_bitmap E n)"
proof -
  assume b: "0 < BITS_PER_LONG E"
  have "n + BITS_PER_LONG E - 1 < BITS_PER_LONG E * ((n + BITS_PER_LONG E - 1) div BITS_PER_LONG E) + BITS_PER_LONG E"
    using b by (metis add.commute dividend_less_times_div mult.commute)
  then show ?thesis using b by (simp add: zero_bitmap_def BITS_TO_LONGS_def mult.commute)
qed

text \<open>The keys of a type that a show function lists.\<close>

definition listed :: "fleety_button_data list \<Rightarrow> u32 \<Rightarrow> bool \<Rightarrow> nat \<Rightarrow> bool" where
  "listed data type only_disabled c \<longleftrightarrow>
     (\<exists>b\<in>set data. btype (button b) = type \<and> (only_disabled \<longrightarrow> disabled b) \<and> unat (code (button b)) = c)"

lemma show_loop_ok:
  "codes_below (length bits) type data \<Longrightarrow>
   \<exists>bits'. show_loop bits data type od = Inr bits' \<and> length bits' = length bits \<and>
     (\<forall>c<length bits. bits' ! c = (bits ! c \<or> listed data type od c))"
proof (induction data arbitrary: bits)
  case Nil
  then show ?case by (simp add: listed_def)
next
  case (Cons b data)
  show ?case
  proof (cases "btype (button b) = type \<and> (od \<longrightarrow> disabled b)")
    case True
    let ?bits = "bits[unat (code (button b)) := True]"
    have "codes_below (length ?bits) type data" using Cons.prems by simp
    from Cons.IH [OF this] show ?thesis
      using True Cons.prems by (auto simp: set_bitmap_bit_def listed_def nth_list_update)
  next
    case False
    then show ?thesis using Cons.IH [of bits] Cons.prems by (auto simp: listed_def)
  qed
qed

lemma show_helper_ok:
  assumes "kcalloc_ok E" "0 < BITS_PER_LONG E" "get_n_events_by_type E type = Inr n" "codes_below n type data"
  shows "fleety_keys_attr_show_helper E data type od =
    (let s = bitmap_scnlistprintf E (map (listed data type od) [0..<n]) @ newline in Inr (int (length s), s))"
proof -
  let ?z = "zero_bitmap E n"
  have n: "n \<le> length ?z" using length_zero_bitmap [OF assms(2)] by simp
  then have "codes_below (length ?z) type data" using assms(4) by (auto simp: codes_below_def)
  from show_loop_ok [OF this, of od] obtain bits where bits: "show_loop ?z data type od = Inr bits" "length bits = length ?z"
    "\<forall>c<length ?z. bits ! c = (?z ! c \<or> listed data type od c)" by blast
  have "?z ! c = False" if "c < length ?z" for c using that by (simp add: zero_bitmap_def)
  then have "take n bits = map (listed data type od) [0..<n]"
    using bits(2,3) n by (intro nth_equalityI) auto
  then show ?thesis using assms(1,3) bits(1) by (simp add: fleety_keys_attr_show_helper_def Let_def)
qed

text \<open>A key that is of the type and marked but cannot be disabled.\<close>

definition refused :: "bool list \<Rightarrow> u32 \<Rightarrow> fleety_button_data \<Rightarrow> bool" where
  "refused bs type b \<longleftrightarrow> btype (button b) = type \<and> bs ! unat (code (button b)) \<and> \<not> can_disable (button b)"

lemma validate_loop_ok:
  "codes_below (length bits) type data \<Longrightarrow> validate_loop bits data type = Inr (\<not> list_ex (refused bits type) data)"
  by (induction data) (auto simp: test_bit_def refused_def)

definition key_after :: "bool list \<Rightarrow> u32 \<Rightarrow> fleety_button_data \<Rightarrow> fleety_button_data \<Rightarrow> bool" where
  "key_after bs type b b' \<longleftrightarrow> button b' = button b \<and> irq b' = irq b \<and> key_pressed b' = key_pressed b \<and>
     disabled b' = (if btype (button b) = type then bs ! unat (code (button b)) else disabled b)"

lemma apply_loop_ok:
  "codes_below (length bits) type data \<Longrightarrow>
   \<exists>w' data'. apply_loop w bits data type = Inr (w', data') \<and> list_all2 (key_after bits type) data data'"
proof (induction data arbitrary: w)
  case (Cons b data)
  show ?case
  proof (cases "btype (button b) = type")
    case True
    let ?r = "if bits ! unat (code (button b)) then fleety_keys_disable_button w b else fleety_keys_enable_button w b"
    obtain w' data' where "apply_loop (fst ?r) bits data type = Inr (w', data')"
      "list_all2 (key_after bits type) data data'" using Cons.IH [of "fst ?r"] Cons.prems by auto
    moreover have "key_after bits type b (snd ?r)"
      using True by (simp add: key_after_def fleety_keys_disable_button_def fleety_keys_enable_button_def)
    ultimately show ?thesis using True Cons.prems by (simp add: test_bit_def case_prod_unfold Let_def)
  next
    case False
    then show ?thesis using Cons.IH [of w] Cons.prems by (auto simp: key_after_def)
  qed
qed simp

lemma listed_after:
  assumes "list_all2 (key_after bs type) data data'"
  shows "listed data' type True c \<longleftrightarrow> bs ! c \<and> listed data type False c"
  using assms by (induction rule: list_all2_induct) (auto simp: listed_def key_after_def)

lemma codes_below_after: "list_all2 (key_after bs type) data data' \<Longrightarrow> codes_below n type data' = codes_below n type data"
  by (induction rule: list_all2_induct) (auto simp: key_after_def)

text \<open>
  C9. Disabling keys is all or nothing, and is read back. If the list that is written marks a key of the type
  that cannot be disabled, nothing changes and \<open>-EINVAL\<close> is returned. Otherwise exactly the marked keys
  of the type are disabled and its other keys are enabled, the keys of other types are left alone, and the
  attribute of disabled keys then shows the marked codes that are codes of keys.
\<close>

theorem keys_disable_all_or_nothing:
  assumes "kcalloc_ok E" "0 < BITS_PER_LONG E" "get_n_events_by_type E type = Inr n" "codes_below n type data"
    and "bitmap_parselist E buf n = Inr bs" "length bs = n"
  shows "if list_ex (refused bs type) data
    then fleety_keys_attr_store_helper E w data buf type = Inr (w, data, - EINVAL)
    else \<exists>w' data' s. fleety_keys_attr_store_helper E w data buf type = Inr (w', data', 0) \<and>
      list_all2 (key_after bs type) data data' \<and>
      s = bitmap_scnlistprintf E (map (\<lambda>c. bs ! c \<and> listed data type False c) [0..<n]) @ newline \<and>
      fleety_keys_attr_show_helper E data' type True = Inr (int (length s), s)"
proof -
  let ?bits = "bs @ drop (length bs) (zero_bitmap E n)"
  have len: "n \<le> length ?bits" using assms(6) by simp
  then have below: "codes_below (length ?bits) type data" using assms(4) by (auto simp: codes_below_def)
  have same: "unat (code (button b)) < length bs" if "b \<in> set data" "btype (button b) = type" for b
    using that assms(4,6) by (simp add: codes_below_def)
  have ref: "list_ex (refused ?bits type) data = list_ex (refused bs type) data"
    using same by (auto simp: list_ex_iff refused_def nth_append)
  have after: "list_all2 (key_after ?bits type) data data' \<Longrightarrow> list_all2 (key_after bs type) data data'" for data'
    using same by (auto simp: list_all2_conv_all_nth key_after_def nth_append)
  have run: "fleety_keys_attr_store_helper E w data buf type =
      (if list_ex (refused bs type) data then Inr (w, data, - EINVAL)
       else bnd (apply_loop w ?bits data type) (\<lambda>(w, data). Inr (w, data, 0)))"
    using assms(1,3,5) validate_loop_ok [OF below] ref by (simp add: fleety_keys_attr_store_helper_def Let_def)
  obtain w' data' where a: "apply_loop w ?bits data type = Inr (w', data')" "list_all2 (key_after ?bits type) data data'"
    using apply_loop_ok [OF below] by blast
  note b = after [OF a(2)]
  have "listed data' type True = (\<lambda>c. bs ! c \<and> listed data type False c)"
    using listed_after [OF b] by blast
  moreover have "codes_below n type data'" using codes_below_after [OF b] assms(4) by simp
  ultimately have "fleety_keys_attr_show_helper E data' type True =
      (let s = bitmap_scnlistprintf E (map (\<lambda>c. bs ! c \<and> listed data type False c) [0..<n]) @ newline
       in Inr (int (length s), s))"
    using show_helper_ok [OF assms(1-3), of data' True] by (simp only:)
  then show ?thesis using run a(1) b by (simp add: Let_def)
qed

definition example_keys_env :: keys_env where
  "example_keys_env = \<lparr>strict_strtoul = parse_number, interrupted = (\<lambda>k. False), gpio_is_valid = (\<lambda>pin. pin < 1024),
     gpio_request_res = (\<lambda>pin. 0), gpio_output_res = (\<lambda>pin. 0), gpio_value = (\<lambda>pin. 1),
     gpio_set_debounce = (\<lambda>pin. - 1), gpio_to_irq = (\<lambda>pin. sint pin + 100), request_irq_res = (\<lambda>n. if n = 107 then - 16 else 0),
     kcalloc_ok = True, KEY_CNT = 768, SW_CNT = 16, BITS_PER_LONG = 32,
     bitmap_scnlistprintf = (\<lambda>bits. concat (map (\<lambda>c. if bits ! c then decimal c else []) [0..<length bits])),
     bitmap_parselist = (\<lambda>s n. Inr (map (\<lambda>c. s = decimal c) [0..<n])),
     pinctrl_lookup = (\<lambda>active. 0), pinctrl_select = (\<lambda>active. 0)\<rparr>"

definition example_button :: "u32 \<Rightarrow> s32 \<Rightarrow> fleety_keys_button" where
  "example_button c pin = \<lparr>code = c, gpio = pin, active_low = 0, desc = None, btype = EV_KEY, wakeup = 1,
     debounce_interval = 5, can_disable = True, abs_value = 0, button_irq = 9\<rparr>"

abbreviation (input) example_key :: fleety_button_data where
  "example_key \<equiv> fresh_key (example_button 60 5)"

theorem keys_disable_all_or_nothing_witness:
  "if list_ex (refused (map (\<lambda>c. ''60'' = decimal c) [0..<768]) EV_KEY) [example_key]
    then fleety_keys_attr_store_helper example_keys_env spider_world [example_key] ''60'' EV_KEY =
      Inr (spider_world, [example_key], - EINVAL)
    else \<exists>w' data' s. fleety_keys_attr_store_helper example_keys_env spider_world [example_key] ''60'' EV_KEY = Inr (w', data', 0) \<and>
      list_all2 (key_after (map (\<lambda>c. ''60'' = decimal c) [0..<768]) EV_KEY) [example_key] data' \<and>
      s = bitmap_scnlistprintf example_keys_env
        (map (\<lambda>c. map (\<lambda>c. ''60'' = decimal c) [0..<768] ! c \<and> listed [example_key] EV_KEY False c) [0..<768]) @ newline \<and>
      fleety_keys_attr_show_helper example_keys_env data' EV_KEY True = Inr (int (length s), s)"
  by (rule keys_disable_all_or_nothing)
    (simp_all add: example_keys_env_def get_n_events_by_type_def fresh_key_def example_button_def)

section \<open>Presses and releases alternate\<close>

text \<open>
  A key with an interrupt only: its interrupt is taken while it is not disabled, its timer fires while it is
  pending, and it may be disabled and enabled at any time.
\<close>

datatype key_event = TakeIrq | TimerFires | DisableKey | EnableKey

inductive key_step :: "kworld \<times> fleety_button_data \<Rightarrow> key_event \<Rightarrow> kworld \<times> fleety_button_data \<Rightarrow> bool" where
  take_irq: "\<not> disabled b \<Longrightarrow> fleety_keys_irq_isr w (irq b) b = Inr s \<Longrightarrow> key_step (w, b) TakeIrq s"
| timer_fires: "timer_pending b \<Longrightarrow> key_step (w, b) TimerFires (fleety_keys_irq_timer w b)"
| disable_key: "key_step (w, b) DisableKey (fleety_keys_disable_button w b)"
| enable_key: "key_step (w, b) EnableKey (fleety_keys_enable_button w b)"

inductive_cases key_stepE: "key_step s e s'"

inductive key_run :: "kworld \<times> fleety_button_data \<Rightarrow> key_event list \<Rightarrow> kworld \<times> fleety_button_data \<Rightarrow> bool" where
  none: "key_run s [] s"
| more: "key_run s es s' \<Longrightarrow> key_step s' e s'' \<Longrightarrow> key_run s (es @ [e]) s''"

text \<open>The values that are reported for a key, in order; and the sequence 1, 0, 1, 0, and so on.\<close>

fun reported :: "u32 \<Rightarrow> kevent list \<Rightarrow> s32 list" where
  "reported c [] = []"
| "reported c (e # es) = (case e of InputEvent t c' v \<Rightarrow> if t = EV_KEY \<and> c' = c then v # reported c es else reported c es
     | _ \<Rightarrow> reported c es)"

definition alternating :: "nat \<Rightarrow> s32 list" where
  "alternating n = map (\<lambda>i. if even i then 1 else 0) [0..<n]"

lemma reported_append [simp]: "reported c (xs @ ys) = reported c xs @ reported c ys"
  by (induction xs) (auto split: kevent.splits)

lemma alternating_Suc [simp]: "alternating (Suc n) = alternating n @ [if even n then 1 else 0]"
  by (simp add: alternating_def)

text \<open>What has been reported since the log had length \<open>k\<close> alternates and ends with a press iff the key is down.\<close>

definition key_inv :: "kevent list \<Rightarrow> fleety_button_data \<Rightarrow> kworld \<times> fleety_button_data \<Rightarrow> bool" where
  "key_inv log b0 s \<longleftrightarrow> (case s of (w, b) \<Rightarrow> button b = button b0 \<and> timer_debounce b = timer_debounce b0 \<and>
     (key_pressed b \<longrightarrow> timer_debounce b0 \<noteq> 0) \<and>
     (\<exists>es n. klog w = log @ es \<and> reported (code (button b0)) es = alternating n \<and> key_pressed b = odd n))"

lemma key_invE:
  assumes "key_inv log b0 (w, b)"
  obtains es n where "button b = button b0" "timer_debounce b = timer_debounce b0" "key_pressed b \<Longrightarrow> timer_debounce b0 \<noteq> 0"
    "klog w = log @ es" "reported (code (button b0)) es = alternating n" "key_pressed b = odd n"
  using assms by (auto simp: key_inv_def)

lemma key_invI:
  "button b = button b0 \<Longrightarrow> timer_debounce b = timer_debounce b0 \<Longrightarrow> (key_pressed b \<Longrightarrow> timer_debounce b0 \<noteq> 0) \<Longrightarrow>
   klog w = log @ es \<Longrightarrow> reported (code (button b0)) es = alternating n \<Longrightarrow> key_pressed b = odd n \<Longrightarrow> key_inv log b0 (w, b)"
  by (auto simp: key_inv_def)

lemma isr_keeps:
  assumes "key_inv log b0 (w, b)" "fleety_keys_irq_isr w (irq b) b = Inr s"
  shows "key_inv log b0 s"
proof -
  obtain es n where i: "button b = button b0" "timer_debounce b = timer_debounce b0" "key_pressed b \<Longrightarrow> timer_debounce b0 \<noteq> 0"
    "klog w = log @ es" "reported (code (button b0)) es = alternating n" "key_pressed b = odd n"
    using assms(1) by (rule key_invE) blast
  let ?wake = "if wakeup (button b) \<noteq> 0 then [WakeupEvent] else []"
  let ?press = "[InputEvent EV_KEY (code (button b0)) 1, InputSync]"
  let ?release = "[InputEvent EV_KEY (code (button b0)) 0, InputSync]"
  consider "key_pressed b" | "\<not> key_pressed b" "timer_debounce b = 0" | "\<not> key_pressed b" "timer_debounce b \<noteq> 0" by blast
  then show ?thesis
  proof cases
    case 1
    then have "s = (w, b\<lparr>timer_pending := True\<rparr>)" using assms(2) i(2,3) by (simp add: fleety_keys_irq_isr_def)
    then show ?thesis using i by (auto intro!: key_invI)
  next
    case 2
    then have "s = (w\<lparr>klog := log @ es @ ?wake @ ?press @ ?release\<rparr>, b)"
      using assms(2) i(1,4) by (auto simp: fleety_keys_irq_isr_def Let_def)
    moreover have "reported (code (button b0)) (es @ ?wake @ ?press @ ?release) = alternating (Suc (Suc n))"
      using i(5,6) 2(1) by simp
    ultimately show ?thesis using i(1-3,6) by (auto intro!: key_invI [where es = "es @ ?wake @ ?press @ ?release" and n = "Suc (Suc n)"])
  next
    case 3
    then have "s = (w\<lparr>klog := log @ es @ ?wake @ ?press\<rparr>, b\<lparr>key_pressed := True, timer_pending := True\<rparr>)"
      using assms(2) i(1,4) by (auto simp: fleety_keys_irq_isr_def Let_def)
    moreover have "reported (code (button b0)) (es @ ?wake @ ?press) = alternating (Suc n)" using i(5,6) 3(1) by simp
    ultimately show ?thesis using i(1-3,6) 3 by (auto intro!: key_invI [where es = "es @ ?wake @ ?press" and n = "Suc n"])
  qed
qed

lemma key_step_keeps:
  assumes "key_step s e s'" "key_inv log b0 s"
  shows "key_inv log b0 s'"
  using assms
proof (induction rule: key_step.induct)
  case (take_irq b w s)
  then show ?case by (blast intro: isr_keeps)
next
  case (timer_fires b w)
  obtain es n where i: "button b = button b0" "timer_debounce b = timer_debounce b0" "key_pressed b \<Longrightarrow> timer_debounce b0 \<noteq> 0"
    "klog w = log @ es" "reported (code (button b0)) es = alternating n" "key_pressed b = odd n"
    using timer_fires(2) by (rule key_invE) blast
  show ?case
  proof (cases "key_pressed b")
    case True
    then show ?thesis using i
      by (auto simp: fleety_keys_irq_timer_def
          intro!: key_invI [where es = "es @ [InputEvent EV_KEY (code (button b0)) 0, InputSync]" and n = "Suc n"])
  next
    case False
    then show ?thesis using i by (auto simp: fleety_keys_irq_timer_def intro!: key_invI)
  qed
next
  case (disable_key w b)
  obtain es n where i: "button b = button b0" "timer_debounce b = timer_debounce b0" "key_pressed b \<Longrightarrow> timer_debounce b0 \<noteq> 0"
    "klog w = log @ es" "reported (code (button b0)) es = alternating n" "key_pressed b = odd n"
    using disable_key by (rule key_invE) blast
  show ?case
  proof (cases "disabled b")
    case True
    then show ?thesis using disable_key by (simp add: fleety_keys_disable_button_def)
  next
    case False
    then show ?thesis using i
      by (auto simp: fleety_keys_disable_button_def intro!: key_invI [where es = "es @ [DisableIrq (irq b)]" and n = n])
  qed
next
  case (enable_key w b)
  obtain es n where i: "button b = button b0" "timer_debounce b = timer_debounce b0" "key_pressed b \<Longrightarrow> timer_debounce b0 \<noteq> 0"
    "klog w = log @ es" "reported (code (button b0)) es = alternating n" "key_pressed b = odd n"
    using enable_key by (rule key_invE) blast
  show ?case
  proof (cases "disabled b")
    case True
    then show ?thesis using i
      by (auto simp: fleety_keys_enable_button_def intro!: key_invI [where es = "es @ [EnableIrq (irq b)]" and n = n])
  next
    case False
    then show ?thesis using enable_key by (simp add: fleety_keys_enable_button_def)
  qed
qed

lemma key_run_keeps: "key_run s es s' \<Longrightarrow> key_inv log b0 s \<Longrightarrow> key_inv log b0 s'"
  by (induction rule: key_run.induct) (auto intro: key_step_keeps)

text \<open>
  C10. Presses and releases alternate. For a key that has only an interrupt, whatever sequence of
  interrupts, timer expiries, disabling and enabling happens from the released state, the values reported
  for its code are 1, 0, 1, 0, and so on, and the key is marked as pressed exactly when the last
  report was a press. Disabling the key while it is pressed cancels the timer that would report the release:
  the key then stays pressed and no timer is pending.
\<close>

theorem key_reports_alternate:
  assumes "key_run (w, b) es (w', b')" "\<not> key_pressed b"
  shows "\<exists>log n. klog w' = klog w @ log \<and> reported (code (button b)) log = alternating n \<and> key_pressed b' = odd n \<and>
    (key_pressed b' \<and> \<not> disabled b' \<longrightarrow>
      (\<exists>w'' b''. key_step (w', b') DisableKey (w'', b'') \<and> key_pressed b'' \<and> \<not> timer_pending b''))"
proof -
  have "key_inv (klog w) b (w, b)" using assms(2) by (auto simp: key_inv_def alternating_def intro!: exI [of _ "[]"])
  from key_run_keeps [OF assms(1) this] obtain log n where i: "timer_debounce b' = timer_debounce b"
    "key_pressed b' \<Longrightarrow> timer_debounce b \<noteq> 0" "klog w' = klog w @ log" "reported (code (button b)) log = alternating n"
    "key_pressed b' = odd n" by (rule key_invE) blast
  moreover have "\<exists>w'' b''. key_step (w', b') DisableKey (w'', b'') \<and> key_pressed b'' \<and> \<not> timer_pending b''"
    if "key_pressed b' \<and> \<not> disabled b'"
    using that i(1,2) key_step.disable_key [of w' b'] unfolding fleety_keys_disable_button_def by force
  ultimately show ?thesis by blast
qed

definition irq_key :: fleety_button_data where
  "irq_key = (fresh_key (example_button 60 (- 1)))\<lparr>kind := IrqKey, timer_debounce := 5, irq := 9\<rparr>"

lemma irq_key_run:
  "key_run (spider_world, irq_key) ([] @ [TakeIrq])
     (say [WakeupEvent, InputEvent EV_KEY 60 1, InputSync] spider_world, irq_key\<lparr>key_pressed := True, timer_pending := True\<rparr>)"
  by (rule key_run.more [OF key_run.none], rule key_step.take_irq)
    (simp_all add: irq_key_def fresh_key_def example_button_def fleety_keys_irq_isr_def)

theorem key_reports_alternate_witness:
  "\<exists>log n. klog (say [WakeupEvent, InputEvent EV_KEY 60 1, InputSync] spider_world) = klog spider_world @ log \<and>
    reported (code (button irq_key)) log = alternating n \<and>
    key_pressed (irq_key\<lparr>key_pressed := True, timer_pending := True\<rparr>) = odd n \<and>
    (key_pressed (irq_key\<lparr>key_pressed := True, timer_pending := True\<rparr>) \<and>
       \<not> disabled (irq_key\<lparr>key_pressed := True, timer_pending := True\<rparr>) \<longrightarrow>
      (\<exists>w'' b''. key_step (say [WakeupEvent, InputEvent EV_KEY 60 1, InputSync] spider_world,
          irq_key\<lparr>key_pressed := True, timer_pending := True\<rparr>) DisableKey (w'', b'') \<and> key_pressed b'' \<and> \<not> timer_pending b''))"
  by (rule key_reports_alternate [OF irq_key_run]) (simp add: irq_key_def fresh_key_def)

section \<open>A change of a line\<close>

text \<open>
  A key on a GPIO line is reported and published. Handling a change of the line reports the state of the
  key (the level of the line, inverted if the key is active low) to the input layer, and makes it the bit of
  the key in the map of inputs of the spider driver, with every other bit and field of that driver kept.
  This needs a key code from 59 to 90: any other code makes the shift that selects the bit undefined.
\<close>

lemma key_line_published:
  assumes "spider_ready w" "no_signals E" "btype (button b) \<noteq> EV_ABS"
    and "state = (if gpio_value E (gpio (button b)) \<noteq> 0 then 1 else 0) XOR active_low (button b)"
  shows "if 59 \<le> code (button b) \<and> code (button b) < 91
    then \<exists>w' m. fleety_keys_gpio_report_event E w b = Inr w' \<and>
      klog w' = klog w @ [InputEvent (if btype (button b) \<noteq> 0 then btype (button b) else EV_KEY) (code (button b))
        (if state \<noteq> 0 then 1 else 0), InputSync] \<and>
      spider_of w' = spider_of w\<lparr>gpi_map := m\<rparr> \<and> spider_ready w' \<and>
      (\<forall>k<32. bit m k = (if k = unat (code (button b)) - 59 then state \<noteq> 0 else bit (gpi_map (spider_of w)) k))
    else fleety_keys_gpio_report_event E w b = Inl (Fault ShiftRange)"
proof -
  let ?c = "code (button b)"
  let ?w = "say [InputEvent (if btype (button b) \<noteq> 0 then btype (button b) else EV_KEY) ?c (if state \<noteq> 0 then 1 else 0)] w"
  have ty: "(if btype (button b) \<noteq> 0 then btype (button b) else EV_KEY) \<noteq> EV_ABS"
    using assms(3) by (simp add: EV_KEY_def EV_ABS_def)
  have r: "spider_ready ?w" "spider_of ?w = spider_of w" using assms(1) by simp_all
  have intr: "\<not> interrupted E k" for k using assms(2) by (simp add: no_signals_def)
  show ?thesis
  proof (cases "59 \<le> ?c \<and> ?c < 91")
    case True
    then have c: "unat (?c - FLEETY_KEYS_BASE_CODE) = unat ?c - 59" "unat ?c - 59 < 32"
      by (auto simp: FLEETY_KEYS_BASE_CODE_def unat_sub word_less_nat_alt)
    let ?m = "set_map_bit (gpi_map (spider_of w)) (2 ^ (unat ?c - 59)) state"
    have "fleety_set_gpi_map E ?w (?c - FLEETY_KEYS_BASE_CODE) state = Inr (put_spider (spider_of w\<lparr>gpi_map := ?m\<rparr>) ?w, 0)"
      using set_gpi_map_ok [OF r(1), of "?c - FLEETY_KEYS_BASE_CODE" E] c intr r(2) by simp
    then have "fleety_keys_gpio_report_event E w b =
        Inr (say [InputSync] (put_spider (spider_of w\<lparr>gpi_map := ?m\<rparr>) ?w))"
      using ty assms(4) by (simp add: fleety_keys_gpio_report_event_def Let_def)
    then show ?thesis
      using True bit_set_map_bit [OF c(2)] spider_readyD [OF assms(1)] by (auto intro!: exI [of _ ?m])
  next
    case False
    then have "\<not> unat (?c - FLEETY_KEYS_BASE_CODE) < 32"
      by (auto simp: FLEETY_KEYS_BASE_CODE_def word_less_nat_alt word_le_nat_alt unat_sub_if')
    then have "fleety_set_gpi_map E ?w (?c - FLEETY_KEYS_BASE_CODE) state = Inl (Fault ShiftRange)"
      using down_spider_ok [OF r(1), of E] intr by (simp add: fleety_set_gpi_map_def shl32_def)
    then show ?thesis using False ty assms(4) by (simp add: fleety_keys_gpio_report_event_def Let_def)
  qed
qed

lemma key_line_published_example:
  "if 59 \<le> code (button example_key) \<and> code (button example_key) < 91
    then \<exists>w' m. fleety_keys_gpio_report_event example_keys_env spider_world example_key = Inr w' \<and>
      klog w' = klog spider_world @ [InputEvent (if btype (button example_key) \<noteq> 0 then btype (button example_key) else EV_KEY)
        (code (button example_key)) (if (1 :: s32) XOR 0 \<noteq> 0 then 1 else 0), InputSync] \<and>
      spider_of w' = spider_of spider_world\<lparr>gpi_map := m\<rparr> \<and> spider_ready w' \<and>
      (\<forall>k<32. bit m k = (if k = unat (code (button example_key)) - 59 then (1 :: s32) XOR 0 \<noteq> 0
         else bit (gpi_map (spider_of spider_world)) k))
    else fleety_keys_gpio_report_event example_keys_env spider_world example_key = Inl (Fault ShiftRange)"
  by (rule key_line_published [OF example_services(2)])
    (simp_all add: no_signals_def example_keys_env_def fresh_key_def example_button_def EV_KEY_def EV_ABS_def)

section \<open>A failed probe gives everything back\<close>

text \<open>How often a log leaves a line or an interrupt taken.\<close>

datatype resource = GpioLine s32 | IrqLine u32

fun balance :: "resource \<Rightarrow> kevent list \<Rightarrow> int" where
  "balance x [] = 0"
| "balance x (e # es) = (case e of
       GpioRequest p _ \<Rightarrow> if x = GpioLine p then 1 else 0
     | GpioFree p \<Rightarrow> if x = GpioLine p then - 1 else 0
     | RequestIrq n _ \<Rightarrow> if x = IrqLine n then 1 else 0
     | FreeIrq n \<Rightarrow> if x = IrqLine n then - 1 else 0
     | _ \<Rightarrow> 0) + balance x es"

lemma balance_append [simp]: "balance x (xs @ ys) = balance x xs + balance x ys"
  by (induction xs) simp_all

definition key_takes :: "'e keys_env_scheme \<Rightarrow> resource \<Rightarrow> fleety_button_data \<Rightarrow> int" where
  "key_takes E x b = (if gpio_is_valid E (gpio (button b)) \<and> x = GpioLine (gpio (button b)) then 1 else 0) +
     (if x = IrqLine (irq b) then 1 else 0)"

lemma setup_key_balance:
  assumes "fleety_keys_setup_key E w b = (w', bd, err)"
  shows "balance x (klog w') = (if err = 0 then balance x (klog w) + key_takes E x bd else balance x (klog w))"
  using assms
  by (auto simp: fleety_keys_setup_key_def claim_key_irq_def fresh_key_def key_takes_def Let_def EINVAL_def
      split: if_splits)

lemma remove_key_balance: "balance x (klog (gpio_remove_key E w b)) = balance x (klog w) - key_takes E x b"
  by (simp add: gpio_remove_key_def key_takes_def Let_def)

lemma remove_keys_balance:
  "balance x (klog (foldl (gpio_remove_key E) w bs)) = balance x (klog w) - sum_list (map (key_takes E x) bs)"
  by (induction bs arbitrary: w) (simp_all add: remove_key_balance algebra_simps)

lemma setup_loop_balance:
  "setup_loop E w ready bs = (w', data, err) \<Longrightarrow>
   balance x (klog w') = balance x (klog w) + sum_list (map (key_takes E x) data) - sum_list (map (key_takes E x) ready)"
proof (induction bs arbitrary: w ready)
  case (Cons b bs)
  obtain w1 bd e where s: "fleety_keys_setup_key E w b = (w1, bd, e)" by (cases "fleety_keys_setup_key E w b")
  show ?case
  proof (cases "e = 0")
    case True
    then show ?thesis using Cons.IH [of w1 "ready @ [bd]"] Cons.prems s setup_key_balance [OF s, of x]
      by (simp add: algebra_simps)
  next
    case False
    then show ?thesis using Cons.prems s setup_key_balance [OF s, of x] by auto
  qed
qed simp

lemma pinctrl_balance [simp]:
  "balance x (klog (fst (fleety_keys_pinctrl_configure E w active))) = balance x (klog w)"
  "balance x (klog (pinctrl_suspend E w has)) = balance x (klog w)"
  by (simp_all add: fleety_keys_pinctrl_configure_def pinctrl_suspend_def)

lemma probe_balance:
  assumes "fleety_keys_probe E P w = (w', d, err)"
  shows "balance x (klog w') = balance x (klog w) + (case d of None \<Rightarrow> 0 | Some d \<Rightarrow> sum_list (map (key_takes E x) (key_data d)))"
proof -
  define pins where "pins = (if pinctrl_err P = 0 then fleety_keys_pinctrl_configure E w True else (w, 0))"
  have p0: "balance x (klog (fst pins)) = balance x (klog w)" by (simp add: pins_def)
  show ?thesis
  proof (cases "case platdata P of Some p \<Rightarrow> Inr p | None \<Rightarrow> fleety_keys_get_devtree_pdata (of_node P) (pdata_kzalloc P)")
    case (Inl e)
    then show ?thesis using assms by (auto simp: fleety_keys_probe_def)
  next
    case (Inr pd)
    obtain w1 data e where s: "setup_loop E (fst pins) [] (buttons pd) = (w1, data, e)"
      by (cases "setup_loop E (fst pins) [] (buttons pd)")
    have w1: "balance x (klog w1) = balance x (klog w) + sum_list (map (key_takes E x) data)"
      using setup_loop_balance [OF s, of x] p0 by simp
    have "sum_list (map f (rev data)) = sum_list (map f data)" for f :: "fleety_button_data \<Rightarrow> int"
      by (induction data) simp_all
    moreover have "fleety_keys_probe E P w =
        (if \<not> ddata_kzalloc P \<or> \<not> input_alloc P then (w, None, - ENOMEM)
         else if pinctrl_err P = - EPROBE_DEFER then (w, None, - EPROBE_DEFER)
         else if snd pins \<noteq> 0 then (fst pins, None, snd pins)
         else if e \<noteq> 0 then (remove_all E (pinctrl_suspend E w1 (pinctrl_err P = 0)) data, None, e)
         else if sysfs_err P \<noteq> 0 then (remove_all E w1 data, None, sysfs_err P)
         else if register_err P \<noteq> 0 then
           (remove_all E (pinctrl_suspend E w1 (pinctrl_err P = 0)) data, None, register_err P)
         else (w1, Some \<lparr>pdata = pd, key_pinctrl = (pinctrl_err P = 0), key_data = data\<rparr>, 0))"
      using Inr s unfolding fleety_keys_probe_def pins_def Let_def by (simp add: case_prod_unfold)
    ultimately show ?thesis
      using assms w1 p0 by (auto simp: remove_all_def remove_keys_balance split: if_splits)
  qed
qed

text \<open>
  C11. A probe that fails gives back everything. If the probe function of the key driver fails, for whatever
  reason and at whichever key, every GPIO line and every interrupt it had taken has been freed again;
  and if it succeeds, removing the driver frees exactly what the probe function took.
\<close>

theorem keys_probe_balanced:
  assumes "fleety_keys_probe E P w = (w', d, err)"
  shows "case d of
      None \<Rightarrow> \<forall>x. balance x (klog w') = balance x (klog w)
    | Some ddata \<Rightarrow> (case fleety_keys_remove E w' ddata of (w'', r) \<Rightarrow>
        \<forall>x. balance x (klog w'') = balance x (klog w))"
proof (cases d)
  case None
  then show ?thesis using probe_balance [OF assms] by (simp add:)
next
  case (Some ddata)
  have "balance x (klog (fst (fleety_keys_remove E w' ddata))) = balance x (klog w)" for x
    using probe_balance [OF assms, of x] Some by (simp add: fleety_keys_remove_def remove_keys_balance)
  then show ?thesis using Some by (simp add: fleety_keys_remove_def)
qed

definition example_keys_probe :: keys_probe_env where
  "example_keys_probe = \<lparr>platdata = Some \<lparr>buttons = [example_button 60 5, example_button 61 7], rep = False,
       pdata_name = None, enable_res = None, has_disable = False\<rparr>,
     of_node = None, pdata_kzalloc = True, ddata_kzalloc = True, input_alloc = True, pinctrl_err = 0,
     sysfs_err = 0, register_err = 0\<rparr>"

definition failed_probe_log :: "kevent list" where
  "failed_probe_log = [PinctrlSelect True, GpioRequest 5 (Some ''fleety_keys''), InputSetCapability EV_KEY 60,
     RequestIrq 105 False, GpioRequest 7 (Some ''fleety_keys''), InputSetCapability EV_KEY 61, GpioFree 7,
     PinctrlSelect False, FreeIrq 105, GpioFree 5]"

lemma example_probe_fails:
  "fleety_keys_probe example_keys_env example_keys_probe spider_world =
     (spider_world\<lparr>klog := failed_probe_log\<rparr>, None, - 16)"
  by (simp add: fleety_keys_probe_def example_keys_probe_def example_keys_env_def fleety_keys_pinctrl_configure_def
      pinctrl_suspend_def remove_all_def gpio_remove_key_def fleety_keys_setup_key_def claim_key_irq_def fresh_key_def
      example_button_def EPROBE_DEFER_def EV_KEY_def failed_probe_log_def spider_world_def Let_def)

theorem keys_probe_balanced_witness:
  "\<forall>x. balance x failed_probe_log = balance x (klog spider_world)"
  using keys_probe_balanced [OF example_probe_fails] by simp

text \<open>The keys of the device tree can never be disabled: the parser does not set \<open>can_disable\<close>.\<close>

lemma devtree_loop_can_disable: "devtree_loop cs = Inr bs \<Longrightarrow> list_all (\<lambda>b. \<not> can_disable b) bs"
  by (induction cs arbitrary: bs) (auto split: if_splits option.splits sum.splits)

lemma devtree_keys_not_disabled:
  assumes "fleety_keys_get_devtree_pdata node ok = Inr p"
  shows "list_all (\<lambda>b. \<not> can_disable b) (buttons p)"
  using assms devtree_loop_can_disable
  by (auto simp: fleety_keys_get_devtree_pdata_def split: option.splits if_splits sum.splits)

end
