(* ===== verification/Byte_Util.thy ===== *)
theory Byte_Util
  imports X300_Prelude
begin

text \<open>
  The conversions between numbers and byte arrays that the applications of the box use
  (\<open>src/frameworks/base/core/java/android/util/ByteUtil.java\<close>). Java's \<open>byte\<close>, \<open>short\<close>, \<open>char\<close>, \<open>int\<close> and
  \<open>long\<close> are words; \<open>byte\<close> and \<open>short\<close> are widened with their sign, \<open>char\<close> without, before an operator is
  applied. The bits of floating point numbers and the encodings of strings belong to the Java library and
  are parameters. The lemmas show that reading undoes writing, and when a call throws.
\<close>

unbundle bit_operations_syntax

type_synonym jbyte = "8 word"
type_synonym jshort = "16 word"
type_synonym jchar = "16 word"
type_synonym jint = "32 word"
type_synonym jlong = "64 word"

datatype java_exception = ArrayIndexOutOfBounds | NegativeArraySize

type_synonym 'a java = "java_exception + 'a"

section \<open>Writing\<close>

definition getBytes_short :: "jshort \<Rightarrow> jbyte list" where
  "getBytes_short data =
     [ucast ((scast data :: jint) AND 0xff),
      ucast (signed_drop_bit 8 ((scast data :: jint) AND 0xff00))]"

definition getBytes_char :: "jchar \<Rightarrow> jbyte list" where
  "getBytes_char data =
     [ucast data,
      ucast (signed_drop_bit 8 (ucast data :: jint))]"

definition getBytes_int :: "jint \<Rightarrow> jbyte list" where
  "getBytes_int data =
     [ucast (data AND 0xff),
      ucast (signed_drop_bit 8 (data AND 0xff00)),
      ucast (signed_drop_bit 16 (data AND 0xff0000)),
      ucast (signed_drop_bit 24 (data AND 0xff000000))]"

definition getBytes_long :: "jlong \<Rightarrow> jbyte list" where
  "getBytes_long data =
     [ucast (data AND 0xff),
      ucast (signed_drop_bit 8 data AND 0xff),
      ucast (signed_drop_bit 16 data AND 0xff),
      ucast (signed_drop_bit 24 data AND 0xff),
      ucast (signed_drop_bit 32 data AND 0xff),
      ucast (signed_drop_bit 40 data AND 0xff),
      ucast (signed_drop_bit 48 data AND 0xff),
      ucast (signed_drop_bit 56 data AND 0xff)]"

definition getBytes_float :: "('f \<Rightarrow> jint) \<Rightarrow> 'f \<Rightarrow> jbyte list" where
  "getBytes_float floatToIntBits data = getBytes_int (floatToIntBits data)"

definition getBytes_double :: "('d \<Rightarrow> jlong) \<Rightarrow> 'd \<Rightarrow> jbyte list" where
  "getBytes_double doubleToLongBits data = getBytes_long (doubleToLongBits data)"

definition getBytes_String :: "('c \<Rightarrow> 's \<Rightarrow> jbyte list) \<Rightarrow> 's \<Rightarrow> 'c \<Rightarrow> jbyte list" where
  "getBytes_String encode data charset = encode charset data"

definition getBytes_GBK :: "(string \<Rightarrow> 's \<Rightarrow> jbyte list) \<Rightarrow> 's \<Rightarrow> jbyte list" where
  "getBytes_GBK encode data = getBytes_String encode data ''GBK''"

section \<open>Reading\<close>

text \<open>\<open>bytes[i]\<close>, widened to \<open>int\<close> or to \<open>long\<close>.\<close>

definition byte_at :: "jbyte list \<Rightarrow> nat \<Rightarrow> jbyte java" where
  "byte_at bytes i = (if i < length bytes then Inr (bytes ! i) else Inl ArrayIndexOutOfBounds)"

definition jbnd :: "'a java \<Rightarrow> ('a \<Rightarrow> 'b java) \<Rightarrow> 'b java" where
  "jbnd m k = (case m of Inl e \<Rightarrow> Inl e | Inr x \<Rightarrow> k x)"

definition getShort :: "jbyte list \<Rightarrow> jshort java" where
  "getShort bytes =
     jbnd (byte_at bytes 0) (\<lambda>b0.
     jbnd (byte_at bytes 1) (\<lambda>b1.
     Inr (ucast ((0xff AND (scast b0 :: jint)) OR (0xff00 AND push_bit 8 (scast b1))))))"

definition getChar :: "jbyte list \<Rightarrow> jchar java" where
  "getChar bytes =
     jbnd (byte_at bytes 0) (\<lambda>b0.
     jbnd (byte_at bytes 1) (\<lambda>b1.
     Inr (ucast ((0xff AND (scast b0 :: jint)) OR (0xff00 AND push_bit 8 (scast b1))))))"

definition getInt :: "jbyte list \<Rightarrow> jint java" where
  "getInt bytes =
     jbnd (byte_at bytes 0) (\<lambda>b0.
     jbnd (byte_at bytes 1) (\<lambda>b1.
     jbnd (byte_at bytes 2) (\<lambda>b2.
     jbnd (byte_at bytes 3) (\<lambda>b3.
     Inr ((0xff AND scast b0) OR (0xff00 AND push_bit 8 (scast b1)) OR (0xff0000 AND push_bit 16 (scast b2)) OR
          (0xff000000 AND push_bit 24 (scast b3)))))))"

definition getLong :: "jbyte list \<Rightarrow> jlong java" where
  "getLong bytes =
     jbnd (byte_at bytes 0) (\<lambda>b0.
     jbnd (byte_at bytes 1) (\<lambda>b1.
     jbnd (byte_at bytes 2) (\<lambda>b2.
     jbnd (byte_at bytes 3) (\<lambda>b3.
     jbnd (byte_at bytes 4) (\<lambda>b4.
     jbnd (byte_at bytes 5) (\<lambda>b5.
     jbnd (byte_at bytes 6) (\<lambda>b6.
     jbnd (byte_at bytes 7) (\<lambda>b7.
     Inr ((0xff AND scast b0) OR (0xff00 AND push_bit 8 (scast b1)) OR (0xff0000 AND push_bit 16 (scast b2)) OR
          (0xff000000 AND push_bit 24 (scast b3)) OR (0xff00000000 AND push_bit 32 (scast b4)) OR
          (0xff0000000000 AND push_bit 40 (scast b5)) OR (0xff000000000000 AND push_bit 48 (scast b6)) OR
          (0xff00000000000000 AND push_bit 56 (scast b7)))))))))))"

definition getFloat :: "(jint \<Rightarrow> 'f) \<Rightarrow> jbyte list \<Rightarrow> 'f java" where
  "getFloat intBitsToFloat bytes = jbnd (getInt bytes) (\<lambda>i. Inr (intBitsToFloat i))"

definition getDouble :: "(jlong \<Rightarrow> 'd) \<Rightarrow> jbyte list \<Rightarrow> 'd java" where
  "getDouble longBitsToDouble bytes = jbnd (getLong bytes) (\<lambda>l. Inr (longBitsToDouble l))"

definition getString :: "('c \<Rightarrow> jbyte list \<Rightarrow> 's) \<Rightarrow> jbyte list \<Rightarrow> 'c \<Rightarrow> 's" where
  "getString decode bytes charset = decode charset bytes"

definition getString_GBK :: "(string \<Rightarrow> jbyte list \<Rightarrow> 's) \<Rightarrow> jbyte list \<Rightarrow> 's" where
  "getString_GBK decode bytes = getString decode bytes ''GBK''"

text \<open>\<open>new byte[count]\<close> throws for a negative count, \<open>System.arraycopy\<close> for a range outside an array.\<close>

definition subBytes :: "jbyte list \<Rightarrow> s32 \<Rightarrow> s32 \<Rightarrow> jbyte list java" where
  "subBytes src begin count =
     (if sint count < 0 then Inl NegativeArraySize
      else if sint begin < 0 \<or> int (length src) < sint begin + sint count then Inl ArrayIndexOutOfBounds
      else Inr (take (nat (sint count)) (drop (nat (sint begin)) src)))"

section \<open>Round trips\<close>

lemma jbnd_simps [simp]: "jbnd (Inl e) k = Inl e" "jbnd (Inr x) k = k x"
  by (simp_all add: jbnd_def)

lemma byte_at_simps [simp]:
  "byte_at [] i = Inl ArrayIndexOutOfBounds" "byte_at (b # bs) 0 = Inr b" "byte_at (b # bs) (Suc i) = byte_at bs i"
  "byte_at (b # bs) (numeral n) = byte_at bs (pred_numeral n)"
  by (simp_all add: byte_at_def numeral_eq_Suc)

text \<open>The masks of the source select one byte each.\<close>

lemma bit_byte: "bit (push_bit k 0xff :: int) n \<longleftrightarrow> k \<le> n \<and> n < k + 8"
proof -
  have "(0xff :: int) = mask 8" by (simp add: mask_eq_exp_minus_1)
  then show ?thesis by (simp only: bit_push_bit_iff bit_mask_iff) auto
qed

lemma byte_masks:
  "bit (0xff :: int) n \<longleftrightarrow> n < 8"
  "bit (0xff00 :: int) n \<longleftrightarrow> 8 \<le> n \<and> n < 16"
  "bit (0xff0000 :: int) n \<longleftrightarrow> 16 \<le> n \<and> n < 24"
  "bit (0xff000000 :: int) n \<longleftrightarrow> 24 \<le> n \<and> n < 32"
  "bit (0xff00000000 :: int) n \<longleftrightarrow> 32 \<le> n \<and> n < 40"
  "bit (0xff0000000000 :: int) n \<longleftrightarrow> 40 \<le> n \<and> n < 48"
  "bit (0xff000000000000 :: int) n \<longleftrightarrow> 48 \<le> n \<and> n < 56"
  "bit (0xff00000000000000 :: int) n \<longleftrightarrow> 56 \<le> n \<and> n < 64"
  using bit_byte [of 0 n] bit_byte [of 8 n] bit_byte [of 16 n] bit_byte [of 24 n]
    bit_byte [of 32 n] bit_byte [of 40 n] bit_byte [of 48 n] bit_byte [of 56 n]
  by simp_all

text \<open>Bit by bit, what is read from the bytes of a number is the number.\<close>

lemma min_seven: "n < 8 \<Longrightarrow> min 7 n = (n :: nat)"
  by simp

lemma short_roundtrip: "getShort (getBytes_short x @ rest) = Inr x"
proof -
  have "getShort (getBytes_short x @ rest) = Inr (ucast
     ((0xff AND (scast (ucast ((scast x :: jint) AND 0xff) :: jbyte) :: jint)) OR
      (0xff00 AND push_bit 8 (scast (ucast (signed_drop_bit 8 ((scast x :: jint) AND 0xff00)) :: jbyte)))))"
    by (simp add: getShort_def getBytes_short_def)
  also have "\<dots> = Inr x"
    apply (rule arg_cong [of _ _ Inr], rule bit_eqI)
    subgoal for n by (cases "n < 8") (auto simp: bit_simps byte_masks min_seven)
    done
  finally show ?thesis .
qed

lemma char_roundtrip: "getChar (getBytes_char x @ rest) = Inr x"
proof -
  have "getChar (getBytes_char x @ rest) = Inr (ucast
     ((0xff AND (scast (ucast x :: jbyte) :: jint)) OR
      (0xff00 AND push_bit 8 (scast (ucast (signed_drop_bit 8 (ucast x :: jint)) :: jbyte)))))"
    by (simp add: getChar_def getBytes_char_def)
  also have "\<dots> = Inr x"
    apply (rule arg_cong [of _ _ Inr], rule bit_eqI)
    subgoal for n by (cases "n < 8") (auto simp: bit_simps byte_masks min_seven)
    done
  finally show ?thesis .
qed

lemma int_roundtrip: "getInt (getBytes_int x @ rest) = Inr x"
proof -
  have b: "0xff AND scast (ucast (x AND 0xff) :: jbyte) = x AND 0xff"
    "0xff00 AND push_bit 8 (scast (ucast (signed_drop_bit 8 (x AND 0xff00)) :: jbyte)) = x AND 0xff00"
    "0xff0000 AND push_bit 16 (scast (ucast (signed_drop_bit 16 (x AND 0xff0000)) :: jbyte)) = x AND 0xff0000"
    "0xff000000 AND push_bit 24 (scast (ucast (signed_drop_bit 24 (x AND 0xff000000)) :: jbyte)) = x AND 0xff000000"
    by (rule bit_eqI, auto simp: bit_simps byte_masks min_seven)+
  have "x AND 0xff OR x AND 0xff00 OR x AND 0xff0000 OR x AND 0xff000000 = x"
    by (rule bit_eqI) (auto simp: bit_simps byte_masks)
  then show ?thesis by (simp add: getInt_def getBytes_int_def b)
qed

lemma long_roundtrip: "getLong (getBytes_long x @ rest) = Inr x"
proof -
  have b: "0xff AND scast (ucast (x AND 0xff) :: jbyte) = x AND 0xff"
    "0xff00 AND push_bit 8 (scast (ucast (signed_drop_bit 8 x AND 0xff) :: jbyte)) = x AND 0xff00"
    "0xff0000 AND push_bit 16 (scast (ucast (signed_drop_bit 16 x AND 0xff) :: jbyte)) = x AND 0xff0000"
    "0xff000000 AND push_bit 24 (scast (ucast (signed_drop_bit 24 x AND 0xff) :: jbyte)) = x AND 0xff000000"
    "0xff00000000 AND push_bit 32 (scast (ucast (signed_drop_bit 32 x AND 0xff) :: jbyte)) = x AND 0xff00000000"
    "0xff0000000000 AND push_bit 40 (scast (ucast (signed_drop_bit 40 x AND 0xff) :: jbyte)) = x AND 0xff0000000000"
    "0xff000000000000 AND push_bit 48 (scast (ucast (signed_drop_bit 48 x AND 0xff) :: jbyte)) = x AND 0xff000000000000"
    "0xff00000000000000 AND push_bit 56 (scast (ucast (signed_drop_bit 56 x AND 0xff) :: jbyte)) =
      x AND 0xff00000000000000"
    by (rule bit_eqI, auto simp: bit_simps byte_masks min_seven)+
  have "x AND (0xff OR 0xff00 OR 0xff0000 OR 0xff000000 OR 0xff00000000 OR 0xff0000000000 OR 0xff000000000000 OR
      0xff00000000000000) = x AND - 1" by (rule arg_cong [of _ _ "\<lambda>m. x AND m"]) simp
  then have "x AND 0xff OR x AND 0xff00 OR x AND 0xff0000 OR x AND 0xff000000 OR x AND 0xff00000000 OR
      x AND 0xff0000000000 OR x AND 0xff000000000000 OR x AND 0xff00000000000000 = x"
    by (simp only: bit.conj_disj_distrib bit.conj_one_right)
  then show ?thesis by (simp add: getLong_def getBytes_long_def b)
qed

text \<open>And the other way: the bytes of the number that is read are the bytes that were there.\<close>

lemma int_bits:
  assumes "getInt (b0 # b1 # b2 # b3 # rest) = Inr x" "n < 8"
  shows "bit x n = bit b0 n" "bit x (8 + n) = bit b1 n" "bit x (16 + n) = bit b2 n" "bit x (24 + n) = bit b3 n"
proof -
  have x: "x = (0xff AND scast b0) OR (0xff00 AND push_bit 8 (scast b1)) OR (0xff0000 AND push_bit 16 (scast b2)) OR
      (0xff000000 AND push_bit 24 (scast b3))" using assms(1) by (simp add: getInt_def)
  show "bit x n = bit b0 n" "bit x (8 + n) = bit b1 n" "bit x (16 + n) = bit b2 n" "bit x (24 + n) = bit b3 n"
    unfolding x using assms(2) by (simp_all add: bit_simps byte_masks min_seven)
qed

lemma int_bytes:
  assumes "getInt (b0 # b1 # b2 # b3 # rest) = Inr x"
  shows "getBytes_int x = [b0, b1, b2, b3]"
proof -
  have "ucast (x AND 0xff) = b0" "ucast (signed_drop_bit 8 (x AND 0xff00)) = b1"
    "ucast (signed_drop_bit 16 (x AND 0xff0000)) = b2" "ucast (signed_drop_bit 24 (x AND 0xff000000)) = b3"
    by (rule bit_eqI, simp add: bit_simps byte_masks int_bits [OF assms])+
  then show ?thesis by (simp add: getBytes_int_def)
qed

lemma read_throws:
  "length bs < 2 \<Longrightarrow> getShort bs = Inl ArrayIndexOutOfBounds \<and> getChar bs = Inl ArrayIndexOutOfBounds"
  "length bs < 4 \<Longrightarrow> getInt bs = Inl ArrayIndexOutOfBounds"
  "length bs < 8 \<Longrightarrow> getLong bs = Inl ArrayIndexOutOfBounds"
  by (auto simp: getShort_def getChar_def getInt_def getLong_def byte_at_def jbnd_def)

lemma subBytes_middle:
  assumes "length pre + length mid + length post < 2 ^ 31"
  shows "subBytes (pre @ mid @ post) (of_nat (length pre)) (of_nat (length mid)) = Inr mid"
proof -
  have "sint (of_nat n :: s32) = int n" if "n < 2 ^ 31" for n
    using that sint_small [of "of_nat n"] unat_of_nat_small [of n] by simp
  then show ?thesis using assms by (simp add: subBytes_def)
qed

text \<open>
  C31. A number written into a message is read back. Wherever in an array the bytes of a \<open>short\<close>, a \<open>char\<close>, an
  \<open>int\<close> or a \<open>long\<close> lie, cutting them out and reading them gives the number, negative ones included; a
  \<open>float\<close> and a \<open>double\<close> come back as well if the Java library's conversions to bits do; and the bytes of an
  \<open>int\<close> that was read are the four bytes it was read from.
\<close>

theorem number_fields_roundtrip:
  assumes "length pre + length post < 1000000"
    and "\<forall>f. intBitsToFloat (floatToIntBits f) = f" "\<forall>d. longBitsToDouble (doubleToLongBits d) = d"
  shows "jbnd (subBytes (pre @ getBytes_short a @ post) (of_nat (length pre)) 2) getShort = Inr a \<and>
    jbnd (subBytes (pre @ getBytes_char c @ post) (of_nat (length pre)) 2) getChar = Inr c \<and>
    jbnd (subBytes (pre @ getBytes_int i @ post) (of_nat (length pre)) 4) getInt = Inr i \<and>
    jbnd (subBytes (pre @ getBytes_long l @ post) (of_nat (length pre)) 8) getLong = Inr l \<and>
    jbnd (subBytes (pre @ getBytes_float floatToIntBits f @ post) (of_nat (length pre)) 4) (getFloat intBitsToFloat) = Inr f \<and>
    jbnd (subBytes (pre @ getBytes_double doubleToLongBits d @ post) (of_nat (length pre)) 8) (getDouble longBitsToDouble) = Inr d \<and>
    jbnd (getInt (b0 # b1 # b2 # b3 # rest)) (\<lambda>x. Inr (getBytes_int x)) = Inr [b0, b1, b2, b3]"
proof -
  have cut: "subBytes (pre @ mid @ post) (of_nat (length pre)) n = Inr mid" if "length mid \<le> 8" "n = of_nat (length mid)" for mid n
    unfolding that(2) by (rule subBytes_middle) (use assms(1) that(1) in simp)
  have len: "length (getBytes_short a) = 2" "length (getBytes_char c) = 2" "length (getBytes_int j) = 4"
    "length (getBytes_long k) = 8" for j k
    by (simp_all add: getBytes_short_def getBytes_char_def getBytes_int_def getBytes_long_def)
  obtain x where x: "getInt (b0 # b1 # b2 # b3 # rest) = Inr x" by (simp add: getInt_def)
  show ?thesis
    using short_roundtrip [of a "[]"] char_roundtrip [of c "[]"] int_roundtrip [of _ "[]"] long_roundtrip [of _ "[]"]
      int_bytes [OF x] x assms(2,3)
    by (simp add: cut len getBytes_float_def getBytes_double_def getFloat_def getDouble_def)
qed

theorem number_fields_roundtrip_witness:
  "jbnd (subBytes ([1, 2] @ getBytes_short (- 5) @ [3]) (of_nat (length [1 :: jbyte, 2])) 2) getShort = Inr (- 5) \<and>
    jbnd (subBytes ([1, 2] @ getBytes_char 65 @ [3]) (of_nat (length [1 :: jbyte, 2])) 2) getChar = Inr 65 \<and>
    jbnd (subBytes ([1, 2] @ getBytes_int (- 77) @ [3]) (of_nat (length [1 :: jbyte, 2])) 4) getInt = Inr (- 77) \<and>
    jbnd (subBytes ([1, 2] @ getBytes_long (- 9) @ [3]) (of_nat (length [1 :: jbyte, 2])) 8) getLong = Inr (- 9) \<and>
    jbnd (subBytes ([1, 2] @ getBytes_float id 7 @ [3]) (of_nat (length [1 :: jbyte, 2])) 4) (getFloat id) = Inr 7 \<and>
    jbnd (subBytes ([1, 2] @ getBytes_double id 8 @ [3]) (of_nat (length [1 :: jbyte, 2])) 8) (getDouble id) = Inr 8 \<and>
    jbnd (getInt [1, 2, 3, 4]) (\<lambda>x. Inr (getBytes_int x)) = Inr [1, 2, 3, 4]"
  by (rule number_fields_roundtrip) simp_all

end
