(* ===== verification/Su_Program.thy ===== *)
theory Su_Program
  imports X300_Prelude
begin

text \<open>
  The program \<open>su\<close> (\<open>src/system/extras/su/su.c\<close>), which takes the identity that its first argument names and
  runs a command or a shell. The theorems show that it takes exactly the user, the group and the further groups
  that the argument lists, of the further groups the first ten, and that the user who calls it does not matter.
\<close>

section \<open>The program\<close>

text \<open>
  The calls of the system are parameters: the user database, whether the calls that change the identity succeed, the error
  of \<open>exec\<close> (\<open>None\<close> when it replaces the program), the memory of \<open>strdup\<close> and the value of \<open>atoi\<close> for a
  text whose number is outside of \<open>int\<close>.
\<close>

record su_env =
  getpwnam :: "string \<Rightarrow> (u32 \<times> u32) option"
  setgroups_ok :: "u32 list \<Rightarrow> bool"
  setgid_ok :: "u32 \<Rightarrow> bool"
  setuid_ok :: "u32 \<Rightarrow> bool"
  exec_error :: "string \<Rightarrow> string list \<Rightarrow> int option"
  strdup_ok :: bool
  atoi_outside :: "string \<Rightarrow> int"

datatype su_event = SetGroups "u32 list" | SetGid u32 | SetUid u32

datatype su_end = Exit int | Exec string "string list"

definition su_atoi :: "'e su_env_scheme \<Rightarrow> string \<Rightarrow> int" where
  "su_atoi E tok = (let v = atoi tok in if - (2 ^ 31) \<le> v \<and> v < 2 ^ 31 then v else atoi_outside E tok)"

definition pwtoid :: "'e su_env_scheme \<Rightarrow> string \<Rightarrow> u32 \<times> u32" where
  "pwtoid E tok = (case getpwnam E tok of Some pw \<Rightarrow> pw | None \<Rightarrow> let tmpid = of_int (su_atoi E tok) in (tmpid, tmpid))"

text \<open>\<open>strsep(&next, ",")\<close>: the token, and what is left of the string.\<close>

definition strsep :: "string option \<Rightarrow> string option \<times> string option" where
  "strsep nexttok =
     (case nexttok of
        None \<Rightarrow> (None, None)
      | Some s \<Rightarrow>
          (Some (takeWhile (\<lambda>c. c \<noteq> CHR '','') s),
           case dropWhile (\<lambda>c. c \<noteq> CHR '','') s of [] \<Rightarrow> None | _ # r \<Rightarrow> Some r))"

text \<open>The loop over the further groups; the number is the room that is left in the array.\<close>

fun gids_loop :: "'e su_env_scheme \<Rightarrow> nat \<Rightarrow> string option \<Rightarrow> u32 list \<times> string option" where
  "gids_loop E 0 nexttok = ([], nexttok)"
| "gids_loop E (Suc n) nexttok =
     (case strsep nexttok of
        (None, nexttok) \<Rightarrow> ([], nexttok)
      | (Some tok, nexttok) \<Rightarrow> let (gids, nexttok) = gids_loop E n nexttok in (snd (pwtoid E tok) # gids, nexttok))"

definition extract_uidgids :: "'e su_env_scheme \<Rightarrow> string \<Rightarrow> nat \<Rightarrow> (u32 \<times> u32 \<times> u32 list) res" where
  "extract_uidgids E uidgids gids_count =
     (if uidgids = '''' then Inr (0, 0, [])
      else if \<not> strdup_ok E then Inl (Fault NullDeref)
      else
        let (tok, nexttok) = strsep (Some uidgids) in
        bnd (deref tok) (\<lambda>tok.
        let (uid, gid) = pwtoid E tok;
            (tok, nexttok) = strsep nexttok in
        case tok of
          None \<Rightarrow> Inr (uid, gid, [])
        | Some tok \<Rightarrow>
            let gid = snd (pwtoid E tok);
                (gids, nexttok) = gids_loop E gids_count nexttok
            in Inr (uid, gid, gids)))"

text \<open>The shell is run when no command is given; an \<open>exec\<close> that works does not return.\<close>

definition run_shell :: "'e su_env_scheme \<Rightarrow> su_end" where
  "run_shell E = (case exec_error E ''/system/bin/sh'' [''sh''] of None \<Rightarrow> Exec ''/system/bin/sh'' [''sh''] | Some e \<Rightarrow> Exit 1)"

definition run_command :: "'e su_env_scheme \<Rightarrow> string list \<Rightarrow> su_end" where
  "run_command E argv =
     (if length argv < 3 then run_shell E
      else
        let args = (if length argv = 3 then [argv ! 2] else drop 2 argv)
        in case exec_error E (argv ! 2) args of None \<Rightarrow> Exec (argv ! 2) args | Some e \<Rightarrow> Exit (- e))"

text \<open>The array \<open>gids\<close> has ten elements. A caller who is neither root nor the shell is only told so.\<close>

definition su_main :: "'e su_env_scheme \<Rightarrow> u32 \<Rightarrow> string list \<Rightarrow> (su_event list \<times> su_end) res" where
  "su_main E myuid argv =
     bnd (if length argv < 2 then Inr (0, 0, []) else extract_uidgids E (argv ! 1) 10) (\<lambda>(uid, gid, gids).
     let groups = (if gids = [] then [] else [SetGroups gids]) in
     if gids \<noteq> [] \<and> \<not> setgroups_ok E gids then Inr (groups, Exit 1)
     else if \<not> setgid_ok E gid then Inr (groups @ [SetGid gid], Exit 1)
     else if \<not> setuid_ok E uid then Inr (groups @ [SetGid gid, SetUid uid], Exit 1)
     else Inr (groups @ [SetGid gid, SetUid uid], run_command E argv))"

section \<open>Lemmas\<close>

text \<open>A list of numbers as the argument, and the tokens it is cut into.\<close>

fun comma_list :: "string list \<Rightarrow> string" where
  "comma_list [] = ''''"
| "comma_list [t] = t"
| "comma_list (t # ts) = t @ CHR '','' # comma_list ts"

definition rest_text :: "string list \<Rightarrow> string option" where
  "rest_text ts = (if ts = [] then None else Some (comma_list ts))"

lemma strsep_rest:
  assumes "CHR '','' \<notin> set t"
  shows "strsep (rest_text (t # ts)) = (Some t, rest_text ts)"
proof -
  have w: "takeWhile (\<lambda>c. c \<noteq> CHR '','') (t @ r) = t @ takeWhile (\<lambda>c. c \<noteq> CHR '','') r"
    "dropWhile (\<lambda>c. c \<noteq> CHR '','') (t @ r) = dropWhile (\<lambda>c. c \<noteq> CHR '','') r" for r
    using assms by (induction t) auto
  have t: "dropWhile (\<lambda>c. c \<noteq> CHR '','') t = []" "takeWhile (\<lambda>c. c \<noteq> CHR '','') t = t" using w [of "[]"] by simp_all
  show ?thesis by (cases ts) (simp_all add: strsep_def rest_text_def w t)
qed

lemma strsep_none: "strsep (rest_text []) = (None, rest_text [])"
  by (simp add: strsep_def rest_text_def)

lemma gids_loop_rest:
  "\<forall>t\<in>set ts. CHR '','' \<notin> set t \<Longrightarrow>
   gids_loop E n (rest_text ts) = (map (\<lambda>t. snd (pwtoid E t)) (take n ts), rest_text (drop n ts))"
proof (induction n arbitrary: ts)
  case (Suc n)
  then show ?case by (cases ts) (simp_all add: strsep_none strsep_rest)
qed simp

lemma gids_loop_bound: "length (fst (gids_loop E n s)) \<le> n"
  by (induction E n s rule: gids_loop.induct) (auto simp: Let_def split: prod.splits option.splits)

lemma digit_no_comma:
  assumes "d < 10" shows "char_of (48 + d :: nat) \<noteq> CHR '',''"
proof -
  have "of_char (char_of (48 + d) :: char) = 48 + d" using assms by simp
  moreover have "of_char CHR '','' = (44 :: nat)" by simp
  moreover have "48 + d \<noteq> 44" by simp
  ultimately show ?thesis by metis
qed

lemma decimal_no_comma: "CHR '','' \<notin> set (decimal n)"
proof (induction n rule: decimal.induct)
  case (1 n)
  then show ?case using digit_no_comma [of n] digit_no_comma [of "n mod 10"]
    by (cases "n < 10") (auto simp: decimal.simps [of n])
qed

lemma su_atoi_decimal:
  assumes "n < 2 ^ 31"
  shows "su_atoi E (decimal n) = int n"
proof -
  obtain d :: nat and cs where d: "d < 10" "decimal n = char_of (48 + d) # cs" using decimal_Cons by blast
  have c: "of_char (char_of (48 + d) :: char) = 48 + d" using d(1) by simp
  have sign: "char_of (48 + d) \<noteq> CHR ''-''" "char_of (48 + d) \<noteq> CHR ''+''"
    using c by (auto dest: arg_cong [where f = "of_char :: char \<Rightarrow> nat"])
  have "\<not> is_blank (char_of (48 + d))" using c by (simp add: is_blank_def)
  then have "atoi (decimal n) = int n"
    using d(2) sign read_digits_decimal [of n "[]"] by (simp add: atoi_def)
  then show ?thesis using assms by (simp add: su_atoi_def)
qed

lemma pwtoid_decimal:
  "n < 2 ^ 31 \<Longrightarrow> getpwnam E (decimal n) = None \<Longrightarrow> pwtoid E (decimal n) = (of_nat n, of_nat n)"
  by (simp add: pwtoid_def su_atoi_decimal Let_def)

lemma extract_decimals:
  assumes "strdup_ok E" "\<forall>n\<in>set (u # g # gs). n < 2 ^ 31 \<and> getpwnam E (decimal n) = None"
  shows "extract_uidgids E (comma_list (map decimal (u # g # gs))) 10 = Inr (of_nat u, of_nat g, map of_nat (take 10 gs))"
proof -
  let ?s = "comma_list (map decimal (u # g # gs))"
  have "?s \<noteq> ''''" by simp
  moreover have "strsep (Some ?s) = (Some (decimal u), rest_text (map decimal (g # gs)))"
    using strsep_rest [OF decimal_no_comma, of u "map decimal (g # gs)"] by (simp add: rest_text_def)
  moreover have "strsep (rest_text (map decimal (g # gs))) = (Some (decimal g), rest_text (map decimal gs))"
    using strsep_rest [OF decimal_no_comma] by simp
  moreover have "gids_loop E 10 (rest_text (map decimal gs)) = (map of_nat (take 10 gs), rest_text (map decimal (drop 10 gs)))"
  proof -
    have "map (\<lambda>t. snd (pwtoid E t)) (take 10 (map decimal gs)) = map of_nat (take 10 gs)"
      using assms(2) by (auto simp: take_map pwtoid_decimal dest!: in_set_takeD)
    then show ?thesis using gids_loop_rest [of "map decimal gs" E 10] decimal_no_comma by (simp add: drop_map)
  qed
  moreover have "pwtoid E (decimal u) = (of_nat u, of_nat u)" "pwtoid E (decimal g) = (of_nat g, of_nat g)"
    using assms(2) by (simp_all add: pwtoid_decimal)
  ultimately show ?thesis
    unfolding extract_uidgids_def using assms(1) by (simp only: Let_def deref_def bnd_def prod.case option.case sum.case if_False
        simp_thms snd_conv)
qed

text \<open>Whatever the arguments are, the program ends or runs a command, and it never sets more than ten further groups.\<close>

lemma extract_returns:
  assumes "strdup_ok E"
  shows "\<exists>u g gs. extract_uidgids E s n = Inr (u, g, gs) \<and> length gs \<le> n"
proof (cases "s = ''''")
  case False
  obtain tok r where t: "strsep (Some s) = (Some tok, r)" by (simp add: strsep_def)
  obtain tok' r' where t': "strsep r = (tok', r')" by (cases "strsep r")
  show ?thesis
    using False assms t t' gids_loop_bound [of E n r']
    by (cases tok'; cases "pwtoid E tok"; cases "gids_loop E n r'") (simp_all add: extract_uidgids_def deref_def bnd_def)
qed (simp add: extract_uidgids_def)

lemma su_returns:
  assumes "strdup_ok E"
  shows "\<exists>evs e. su_main E myuid argv = Inr (evs, e) \<and> (\<forall>gids. SetGroups gids \<in> set evs \<longrightarrow> length gids \<le> 10)"
proof (cases "length argv < 2")
  case True
  then show ?thesis by (auto simp: su_main_def bnd_def Let_def)
next
  case False
  from extract_returns [OF assms, of "argv ! 1" 10] obtain u g gs where
    "extract_uidgids E (argv ! 1) 10 = Inr (u, g, gs)" "length gs \<le> 10" by blast
  then show ?thesis using False by (auto simp: su_main_def bnd_def Let_def)
qed

section \<open>Main theorem\<close>

text \<open>
  C14. Given a list of numbers that are no user names and a command, \<open>su\<close> sets the numbers after the second as
  further groups, the second number as the group and the first as the user, in this order, and runs the command.
  Of the further groups it sets the first ten, the size of its array, and drops the rest.
  It does so for every caller: the comment says that only root and the shell can use \<open>su\<close>, but the statement that
  refuses other callers is commented out.
\<close>

theorem su_takes_identity:
  assumes "strdup_ok E" "\<forall>n\<in>set (u # g # gs). n < 2 ^ 31 \<and> getpwnam E (decimal n) = None"
    and "\<forall>ids. setgroups_ok E ids" "\<forall>i. setgid_ok E i \<and> setuid_ok E i" "exec_error E cmd (cmd # args) = None"
  shows "su_main E myuid (prog # comma_list (map decimal (u # g # gs)) # cmd # args) =
    Inr ((if gs = [] then [] else [SetGroups (map of_nat (take 10 gs))]) @ [SetGid (of_nat g), SetUid (of_nat u)], Exec cmd (cmd # args))"
proof -
  let ?argv = "prog # comma_list (map decimal (u # g # gs)) # cmd # args"
  have "run_command E ?argv = Exec cmd (cmd # args)" using assms(5) by (cases args) (simp_all add: run_command_def)
  moreover have "extract_uidgids E (?argv ! 1) 10 = Inr (of_nat u, of_nat g, map of_nat (take 10 gs))"
    using extract_decimals [OF assms(1,2)] by simp
  ultimately show ?thesis using assms(3,4) by (simp add: su_main_def bnd_def Let_def del: comma_list.simps)
qed

definition sample_su_env :: su_env where
  "sample_su_env = \<lparr>getpwnam = (\<lambda>name. if name = ''shell'' then Some (2000, 2000) else None), setgroups_ok = (\<lambda>g. True),
     setgid_ok = (\<lambda>g. True), setuid_ok = (\<lambda>u. True), exec_error = (\<lambda>p a. None), strdup_ok = True, atoi_outside = (\<lambda>s. 0)\<rparr>"

theorem su_takes_identity_witness:
  "su_main sample_su_env 10057 [''su'', ''0,0,3006,3007'', ''ls'', ''-l''] =
     Inr ([SetGroups [3006, 3007], SetGid 0, SetUid 0], Exec ''ls'' [''ls'', ''-l''])"
proof -
  have d: "decimal 0 = ''0''" "decimal 3006 = ''3006''" "decimal 3007 = ''3007''" by (simp_all add: decimal.simps char_of_def bit_0)
  have n: "\<forall>n\<in>set (0 # 0 # [3006, 3007]). n < 2 ^ 31 \<and> getpwnam sample_su_env (decimal n) = None"
    by (simp add: d sample_su_env_def)
  have e: "strdup_ok sample_su_env" "\<forall>ids. setgroups_ok sample_su_env ids"
    "\<forall>i. setgid_ok sample_su_env i \<and> setuid_ok sample_su_env i" "exec_error sample_su_env ''ls'' [''ls'', ''-l''] = None"
    by (simp_all add: sample_su_env_def)
  from su_takes_identity [OF e(1) n e(2-4), of 10057 "''su''"] show ?thesis by (simp add: d)
qed

end
