(* ===== verification/Fm_Conf.thy ===== *)
theory Fm_Conf
  imports C_Strings "HOL-Library.Multiset" "HOL-Library.Signed_Division"
begin

text \<open>
  The configuration file of the FM radio service (\<open>src/packages/apps/FleetyFmService/jni/ConfFileParser.cpp\<close>):
  groups of key-value pairs, read from a text file into a hash table of groups, each with a hash table of
  keys. The theorems show that the two-level hash table implements a finite map, that the parser accepts
  exactly the files of the format and loads their contents, whatever the hash function does, that no failed
  allocation makes it go wrong, and how many blocks it never gives back.
\<close>

section \<open>Environment and heap\<close>

text \<open>
  \<open>conf_malloc\<close> says whether the n-th allocation succeeds. \<open>float_to_int\<close> is the result of converting a
  floating point number outside the range of \<open>int\<close>, which C leaves open. \<open>conf_file\<close> is the file system. The
  world counts the allocations made so far and the blocks that are allocated and not freed.
\<close>

record conf_env =
  conf_malloc :: "nat \<Rightarrow> bool"
  float_to_int :: "int \<Rightarrow> int"
  conf_file :: "bytes \<Rightarrow> bytes option"

record conf_world =
  mallocs :: nat
  live :: int

definition new :: "'e conf_env_scheme \<Rightarrow> 'w conf_world_scheme \<Rightarrow> bool \<times> 'w conf_world_scheme" where
  "new E w =
     (let ok = conf_malloc E (mallocs w)
      in (ok, w\<lparr>mallocs := mallocs w + 1, live := (if ok then live w + 1 else live w)\<rparr>))"

text \<open>\<open>realloc\<close>: only the first block of a pointer that was NULL is an additional one.\<close>

definition renew :: "'e conf_env_scheme \<Rightarrow> bool \<Rightarrow> 'w conf_world_scheme \<Rightarrow> bool \<times> 'w conf_world_scheme" where
  "renew E null w =
     (let ok = conf_malloc E (mallocs w)
      in (ok, w\<lparr>mallocs := mallocs w + 1, live := (if ok \<and> null then live w + 1 else live w)\<rparr>))"

definition freed :: "nat \<Rightarrow> 'w conf_world_scheme \<Rightarrow> 'w conf_world_scheme" where
  "freed n w = w\<lparr>live := live w - int n\<rparr>"

section \<open>Tables\<close>

definition MAX_LINE_LEN :: nat where "MAX_LINE_LEN = 512"
definition MAX_UNIQ_KEYS :: u32 where "MAX_UNIQ_KEYS = 5"
definition MAX_UNIQ_GRPS :: u32 where "MAX_UNIQ_GRPS = 10"

text \<open>
  The linked lists are lists; a bucket is the list that its pointer leads to. The block of a bucket array
  always exists, because a group or table whose array could not be allocated is not handed out.
\<close>

record key_value_pair =
  kv_key :: bytes
  kv_value :: bytes

record group =
  grp_name :: bytes
  num_of_keys :: u32
  keys_hash_size :: u32
  klist :: "key_value_pair list list"

record group_table =
  grps_hash_size :: u32
  num_of_grps :: u32
  grps_hash :: "group list list"

definition bucket :: "'a list list \<Rightarrow> u32 \<Rightarrow> 'a list res" where
  "bucket tbl i = (if unat i < length tbl then Inr (tbl ! unat i) else Inl (Fault OutOfBounds))"

text \<open>The loop over the first \<open>n\<close> buckets visits the entries of one bucket after those of the one before.\<close>

definition buckets :: "'a list list \<Rightarrow> u32 \<Rightarrow> 'a list res" where
  "buckets tbl n = (if unat n \<le> length tbl then Inr (concat (take (unat n) tbl)) else Inl (Fault OutOfBounds))"

text \<open>
  The hash code. The product with a power of two is exact; it is converted to \<open>int\<close>, which is only defined
  up to \<open>INT_MAX\<close>.
\<close>

definition INT_MAX :: int where "INT_MAX = 2147483647"

definition to_int :: "'e conf_env_scheme \<Rightarrow> int \<Rightarrow> int" where
  "to_int E x = (if x \<le> INT_MAX then x else float_to_int E x)"

fun hash_loop :: "'e conf_env_scheme \<Rightarrow> u32 \<Rightarrow> bytes \<Rightarrow> u32" where
  "hash_loop E hash_code [] = hash_code"
| "hash_loop E hash_code (c # str) =
     hash_loop E ((hash_code + word_of_int (to_int E (uint c * 2 ^ length (c # str)) smod INT_MAX)) mod
       word_of_int INT_MAX) str"

definition get_hash_code :: "'e conf_env_scheme \<Rightarrow> bytes \<Rightarrow> u32" where
  "get_hash_code E str = hash_loop E 0 str"

section \<open>Allocation and release\<close>

definition alloc_group :: "'e conf_env_scheme \<Rightarrow> 'w conf_world_scheme \<Rightarrow> group option \<times> 'w conf_world_scheme" where
  "alloc_group E w =
     (case new E w of
        (False, w) \<Rightarrow> (None, w)
      | (True, w) \<Rightarrow>
          (case new E w of
             (False, w) \<Rightarrow> (None, freed 1 w)
           | (True, w) \<Rightarrow>
               (Some \<lparr>grp_name = [], num_of_keys = 0, keys_hash_size = MAX_UNIQ_KEYS,
                      klist = replicate (unat MAX_UNIQ_KEYS) []\<rparr>, w)))"

definition get_key_file :: "'e conf_env_scheme \<Rightarrow> 'w conf_world_scheme \<Rightarrow> group_table option \<times> 'w conf_world_scheme" where
  "get_key_file E w =
     (case new E w of
        (False, w) \<Rightarrow> (None, w)
      | (True, w) \<Rightarrow>
          (case new E w of
             (False, w) \<Rightarrow> (None, freed 1 w)
           | (True, w) \<Rightarrow>
               (Some \<lparr>grps_hash_size = MAX_UNIQ_GRPS, num_of_grps = 0,
                      grps_hash = replicate (unat MAX_UNIQ_GRPS) []\<rparr>, w)))"

fun free_key_list :: "'w conf_world_scheme \<Rightarrow> key_value_pair list \<Rightarrow> 'w conf_world_scheme" where
  "free_key_list w [] = w"
| "free_key_list w (a # next) = free_key_list (freed 3 w) next"

fun free_grp_list :: "'w conf_world_scheme \<Rightarrow> group list \<Rightarrow> 'w conf_world_scheme res" where
  "free_grp_list w [] = Inr w"
| "free_grp_list w (a # next) =
     bnd (buckets (klist a) (keys_hash_size a)) (\<lambda>kvs.
     free_grp_list (freed 3 (free_key_list w kvs)) next)"

definition free_key_file :: "'w conf_world_scheme \<Rightarrow> group_table option \<Rightarrow> 'w conf_world_scheme res" where
  "free_key_file w key_file =
     (case key_file of
        None \<Rightarrow> Inr w
      | Some t \<Rightarrow>
          bnd (buckets (grps_hash t) (grps_hash_size t)) (\<lambda>grps.
          bnd (free_grp_list w grps) (\<lambda>w. Inr (freed 2 w))))"

definition free_strs :: "'w conf_world_scheme \<Rightarrow> bytes list option \<Rightarrow> 'w conf_world_scheme" where
  "free_strs w str_array = (case str_array of None \<Rightarrow> w | Some strs \<Rightarrow> freed (length strs + 1) w)"

section \<open>Queries\<close>

text \<open>
  The arrays of strings that the queries return: \<open>room\<close> is the number of pointers of the array, \<open>strs\<close> what
  has been copied so far. The final NULL needs a place, too.
\<close>

fun copy_strs :: "'e conf_env_scheme \<Rightarrow> 'w conf_world_scheme \<Rightarrow> nat \<Rightarrow> bytes list \<Rightarrow> bytes list \<Rightarrow>
    (bytes list option \<times> 'w conf_world_scheme) res" where
  "copy_strs E w room strs [] =
     (if length strs < room then Inr (Some strs, w) else Inl (Fault OutOfBounds))"
| "copy_strs E w room strs (s # rest) =
     (if length strs < room
      then (case new E w of
          (False, w) \<Rightarrow> Inr (None, free_strs w (Some strs))
        | (True, w) \<Rightarrow> copy_strs E w room (strs @ [s]) rest)
      else Inl (Fault OutOfBounds))"

definition get_grps :: "'e conf_env_scheme \<Rightarrow> 'w conf_world_scheme \<Rightarrow> group_table option \<Rightarrow>
    (bytes list option \<times> 'w conf_world_scheme) res" where
  "get_grps E w key_file =
     (case key_file of
        None \<Rightarrow> Inr (None, w)
      | Some t \<Rightarrow>
          if grps_hash_size t = 0 \<or> num_of_grps t = 0 then Inr (None, w)
          else
            (case new E w of
               (False, w) \<Rightarrow> Inr (None, w)
             | (True, w) \<Rightarrow>
                 bnd (buckets (grps_hash t) (grps_hash_size t)) (\<lambda>grps.
                 copy_strs E w (unat (num_of_grps t + 1)) [] (map grp_name grps))))"

fun find_grp :: "bytes \<Rightarrow> group list \<Rightarrow> group option" where
  "find_grp name [] = None"
| "find_grp name (grp # next) = (if name = grp_name grp then Some grp else find_grp name next)"

definition get_keys :: "'e conf_env_scheme \<Rightarrow> 'w conf_world_scheme \<Rightarrow> group_table option \<Rightarrow> bytes \<Rightarrow>
    (bytes list option \<times> 'w conf_world_scheme) res" where
  "get_keys E w key_file name =
     (case key_file of
        None \<Rightarrow> Inr (None, w)
      | Some t \<Rightarrow>
          if num_of_grps t = 0 \<or> grps_hash_size t = 0 \<or> name = [] then Inr (None, w)
          else
            bnd (umod (get_hash_code E name) (grps_hash_size t)) (\<lambda>grp_index.
            bnd (bucket (grps_hash t) grp_index) (\<lambda>chain.
            case find_grp name chain of
              None \<Rightarrow> Inr (None, w)
            | Some grp \<Rightarrow>
                if num_of_keys grp = 0 \<or> keys_hash_size grp = 0 then Inr (None, w)
                else
                  (case new E w of
                     (False, w) \<Rightarrow> Inr (None, w)
                   | (True, w) \<Rightarrow>
                       bnd (buckets (klist grp) (keys_hash_size grp)) (\<lambda>kvs.
                       copy_strs E w (unat (num_of_keys grp + 1)) [] (map kv_key kvs))))))"

fun find_key :: "bytes \<Rightarrow> key_value_pair list \<Rightarrow> key_value_pair option" where
  "find_key key [] = None"
| "find_key key (kv # next) = (if kv_key kv = key then Some kv else find_key key next)"

text \<open>The search for the group in \<open>get_value\<close> passes over a group without buckets.\<close>

fun find_grp_with_keys :: "bytes \<Rightarrow> group list \<Rightarrow> group option" where
  "find_grp_with_keys name [] = None"
| "find_grp_with_keys name (grp # next) =
     (if name = grp_name grp \<and> keys_hash_size grp \<noteq> 0 then Some grp else find_grp_with_keys name next)"

definition get_value :: "'e conf_env_scheme \<Rightarrow> 'w conf_world_scheme \<Rightarrow> group_table option \<Rightarrow> bytes \<Rightarrow> bytes \<Rightarrow>
    (bytes option \<times> 'w conf_world_scheme) res" where
  "get_value E w key_file name key =
     (case key_file of
        None \<Rightarrow> Inr (None, w)
      | Some t \<Rightarrow>
          if grps_hash_size t = 0 \<or> name = [] \<or> key = [] then Inr (None, w)
          else
            bnd (umod (get_hash_code E name) (grps_hash_size t)) (\<lambda>grp_index.
            bnd (bucket (grps_hash t) grp_index) (\<lambda>chain.
            case find_grp_with_keys name chain of
              None \<Rightarrow> Inr (None, w)
            | Some grp \<Rightarrow>
                bnd (umod (get_hash_code E key) (keys_hash_size grp)) (\<lambda>key_index.
                bnd (bucket (klist grp) key_index) (\<lambda>list.
                case find_key key list of
                  None \<Rightarrow> Inr (None, w)
                | Some kv \<Rightarrow>
                    (case new E w of
                       (False, w) \<Rightarrow> Inr (None, w)
                     | (True, w) \<Rightarrow> Inr (Some (kv_value kv), w)))))))"

section \<open>Adding groups and keys\<close>

definition grp_exist :: "'e conf_env_scheme \<Rightarrow> group_table \<Rightarrow> bytes \<Rightarrow> bool res" where
  "grp_exist E t new_grp =
     (if grps_hash_size t = 0 then Inr False
      else
        bnd (umod (get_hash_code E new_grp) (grps_hash_size t)) (\<lambda>index.
        bnd (bucket (grps_hash t) index) (\<lambda>chain. Inr (find_grp new_grp chain \<noteq> None))))"

text \<open>A group whose name cannot be allocated is released again: its bucket array and the group itself.\<close>

definition add_grp :: "'e conf_env_scheme \<Rightarrow> 'w conf_world_scheme \<Rightarrow> group_table \<Rightarrow> bytes \<Rightarrow>
    (bool \<times> 'w conf_world_scheme \<times> group_table) res" where
  "add_grp E w t new_grp =
     bnd (grp_exist E t new_grp) (\<lambda>exist.
     if exist \<or> grps_hash_size t = 0 then Inr (False, w, t)
     else
       bnd (umod (get_hash_code E new_grp) (grps_hash_size t)) (\<lambda>index.
       case alloc_group E w of
         (None, w) \<Rightarrow> Inr (False, w, t)
       | (Some grp, w) \<Rightarrow>
           (case new E w of
              (False, w) \<Rightarrow> Inr (False, freed 2 w, t)
            | (True, w) \<Rightarrow>
                bnd (bucket (grps_hash t) index) (\<lambda>chain.
                Inr (True, w, t\<lparr>grps_hash := (grps_hash t)[unat index := grp\<lparr>grp_name := new_grp\<rparr> # chain],
                                num_of_grps := num_of_grps t + 1\<rparr>)))))"

text \<open>The new node for a key: the node itself, the copy of the key and the copy of the value.\<close>

definition new_pair :: "'e conf_env_scheme \<Rightarrow> 'w conf_world_scheme \<Rightarrow> bytes \<Rightarrow> bytes \<Rightarrow>
    key_value_pair option \<times> 'w conf_world_scheme" where
  "new_pair E w key val =
     (case new E w of
        (False, w) \<Rightarrow> (None, w)
      | (True, w) \<Rightarrow>
          (case new E w of
             (False, w) \<Rightarrow> (None, freed 1 w)
           | (True, w) \<Rightarrow>
               (case new E w of
                  (False, w) \<Rightarrow> (None, freed 2 w)
                | (True, w) \<Rightarrow> (Some \<lparr>kv_key = key, kv_value = val\<rparr>, w))))"

fun add_to_chain :: "'e conf_env_scheme \<Rightarrow> 'w conf_world_scheme \<Rightarrow> bytes \<Rightarrow> bytes \<Rightarrow> bytes \<Rightarrow> group list \<Rightarrow>
    (bool \<times> 'w conf_world_scheme \<times> group list) res" where
  "add_to_chain E w cur_grp key val [] = Inr (False, w, [])"
| "add_to_chain E w cur_grp key val (grp # next) =
     (if cur_grp = grp_name grp then
        bnd (umod (get_hash_code E key) (keys_hash_size grp)) (\<lambda>key_index.
        bnd (bucket (klist grp) key_index) (\<lambda>list.
        if find_key key list \<noteq> None then Inr (False, w, grp # next)
        else
          case new_pair E w key val of
            (None, w) \<Rightarrow> Inr (False, w, grp # next)
          | (Some kv, w) \<Rightarrow>
              Inr (True, w, grp\<lparr>klist := (klist grp)[unat key_index := kv # list],
                                num_of_keys := num_of_keys grp + 1\<rparr> # next)))
      else
        bnd (add_to_chain E w cur_grp key val next) (\<lambda>(r, w, next). Inr (r, w, grp # next)))"

definition add_key_value_pair :: "'e conf_env_scheme \<Rightarrow> 'w conf_world_scheme \<Rightarrow> group_table \<Rightarrow> bytes \<Rightarrow> bytes \<Rightarrow> bytes \<Rightarrow>
    (bool \<times> 'w conf_world_scheme \<times> group_table) res" where
  "add_key_value_pair E w t cur_grp key val =
     (if key \<noteq> [] then
        bnd (umod (get_hash_code E cur_grp) (grps_hash_size t)) (\<lambda>grp_index.
        bnd (bucket (grps_hash t) grp_index) (\<lambda>chain.
        bnd (add_to_chain E w cur_grp key val chain) (\<lambda>(r, w, chain).
        Inr (r, w, t\<lparr>grps_hash := (grps_hash t)[unat grp_index := chain]\<rparr>))))
      else Inr (False, w, t))"

section \<open>Lines\<close>

definition isspace :: "u8 \<Rightarrow> bool" where
  "isspace c \<longleftrightarrow> c = 32 \<or> 9 \<le> c \<and> c \<le> 13"

definition isalnum :: "u8 \<Rightarrow> bool" where
  "isalnum c \<longleftrightarrow> 48 \<le> c \<and> c \<le> 57 \<or> 65 \<le> c \<and> c \<le> 90 \<or> 97 \<le> c \<and> c \<le> 122"

definition line_is_comment :: "bytes \<Rightarrow> bool" where
  "line_is_comment str \<longleftrightarrow> str = [] \<or> hd str = 35 \<or> hd str = 10"

text \<open>
  The name of a group line, when the line has the form \<open>[name]\<close> with only blanks behind it. The two pointers
  that run over the name meet exactly if the name is not empty and has only letters and digits.
\<close>

definition grp_of_line :: "bytes \<Rightarrow> bytes option" where
  "grp_of_line str =
     (if str = [] \<or> hd str \<noteq> 91 then None
      else
        let name = takeWhile (\<lambda>c. c \<noteq> 93) (tl str); rest = dropWhile (\<lambda>c. c \<noteq> 93) (tl str) in
        if rest = [] then None
        else if dropWhile (\<lambda>c. c = 32 \<or> c = 9) (tl rest) \<noteq> [] then None
        else if name \<noteq> [] \<and> list_all isalnum name then Some name else None)"

definition line_is_grp :: "'e conf_env_scheme \<Rightarrow> 'w conf_world_scheme \<Rightarrow> group_table \<Rightarrow> bytes \<Rightarrow> bytes option \<Rightarrow>
    (bool \<times> 'w conf_world_scheme \<times> group_table \<times> bytes option) res" where
  "line_is_grp E w t str cur_grp =
     (case grp_of_line str of
        None \<Rightarrow> Inr (False, w, t, cur_grp)
      | Some new_grp \<Rightarrow>
          (case new E w of
             (False, w) \<Rightarrow> Inr (False, w, t, cur_grp)
           | (True, w) \<Rightarrow>
               bnd (add_grp E w t new_grp) (\<lambda>(added, w, t).
               if added then Inr (True, if cur_grp = None then w else freed 1 w, t, Some new_grp)
               else Inr (False, w, t, cur_grp))))"

text \<open>The key and the value of a line \<open>key=value\<close>.\<close>

definition pair_of_line :: "bytes \<Rightarrow> (bytes \<times> bytes) option" where
  "pair_of_line str =
     (let key = takeWhile (\<lambda>c. c \<noteq> 61) str; rest = dropWhile (\<lambda>c. c \<noteq> 61) str in
      if rest = [] \<or> key = [] then None
      else if list_all isalnum key then Some (key, tl rest) else None)"

definition line_is_key_value_pair :: "'e conf_env_scheme \<Rightarrow> 'w conf_world_scheme \<Rightarrow> group_table \<Rightarrow> bytes \<Rightarrow> bytes option \<Rightarrow>
    (bool \<times> 'w conf_world_scheme \<times> group_table) res" where
  "line_is_key_value_pair E w t str cur_grp =
     (case cur_grp of
        None \<Rightarrow> Inr (False, w, t)
      | Some grp \<Rightarrow>
          if grp = [] then Inr (False, w, t)
          else
            (case pair_of_line str of
               None \<Rightarrow> Inr (False, w, t)
             | Some (key, val) \<Rightarrow>
                 (case new E w of
                    (False, w) \<Rightarrow> Inr (False, w, t)
                  | (True, w) \<Rightarrow>
                      (case new E w of
                         (False, w) \<Rightarrow> Inr (False, w, t)
                       | (True, w) \<Rightarrow> add_key_value_pair E w t grp key val))))"

definition parse_line :: "'e conf_env_scheme \<Rightarrow> 'w conf_world_scheme \<Rightarrow> group_table option \<Rightarrow> bytes \<Rightarrow> bytes option \<Rightarrow>
    (bool \<times> 'w conf_world_scheme \<times> group_table option \<times> bytes option) res" where
  "parse_line E w key_file line cur_grp =
     (case key_file of
        None \<Rightarrow> Inr (False, w, None, cur_grp)
      | Some t \<Rightarrow>
          let line_begin = dropWhile isspace line in
          if line_is_comment line_begin then Inr (True, w, Some t, cur_grp)
          else
            bnd (line_is_grp E w t line_begin cur_grp) (\<lambda>(ok, w, t, cur_grp).
            if ok then Inr (True, w, Some t, cur_grp)
            else
              bnd (line_is_key_value_pair E w t line_begin cur_grp) (\<lambda>(ok, w, t).
              Inr (ok, w, Some t, cur_grp))))"

section \<open>The file\<close>

text \<open>
  The state of the loop over the bytes of the file: the first \<open>line_len\<close> bytes of the line buffer, its size,
  the flag for a carriage return, and the result so far.
\<close>

record 'w parser =
  pworld :: "'w conf_world_scheme"
  pfile :: "group_table option"
  cur_grp :: "bytes option"
  line :: bytes
  line_allocated :: nat
  has_carriage_rtn :: bool
  ret :: bool

definition grow_line :: "'e conf_env_scheme \<Rightarrow> 'w parser \<Rightarrow> 'w parser" where
  "grow_line E p =
     (if length (line p) = line_allocated p
      then (case renew E (line_allocated p = 0) (pworld p) of
          (False, w) \<Rightarrow> p\<lparr>pworld := w, ret := False\<rparr>
        | (True, w) \<Rightarrow> p\<lparr>pworld := w, line_allocated := line_allocated p + 25\<rparr>)
      else p)"

definition parse_byte :: "'e conf_env_scheme \<Rightarrow> 'w parser \<Rightarrow> u8 \<Rightarrow> 'w parser res" where
  "parse_byte E p c =
     (let p = grow_line E p in
      if \<not> ret p then Inr p
      else if c = 10 then
        (if length (line p) < line_allocated p then
           bnd (parse_line E (pworld p) (pfile p) (cstr (line p)) (cur_grp p)) (\<lambda>(ok, w, kf, cur).
           Inr (p\<lparr>has_carriage_rtn := False, pworld := w, pfile := kf, cur_grp := cur, line := [], ret := ok\<rparr>))
         else Inl (Fault OutOfBounds))
      else if c = 13 then Inr (p\<lparr>has_carriage_rtn := True\<rparr>)
      else if has_carriage_rtn p then Inr (p\<lparr>ret := False\<rparr>)
      else if length (line p) < line_allocated p then Inr (p\<lparr>line := line p @ [c]\<rparr>)
      else Inl (Fault OutOfBounds))"

fun parse_bytes :: "'e conf_env_scheme \<Rightarrow> 'w parser \<Rightarrow> bytes \<Rightarrow> 'w parser res" where
  "parse_bytes E p [] = Inr p"
| "parse_bytes E p (c # buf) =
     bnd (parse_byte E p c) (\<lambda>p. if ret p then parse_bytes E p buf else Inr p)"

lemma MAX_LINE_LEN_pos: "0 < MAX_LINE_LEN"
  by (simp add: MAX_LINE_LEN_def)

function parse_blocks :: "'e conf_env_scheme \<Rightarrow> 'w parser \<Rightarrow> bytes \<Rightarrow> 'w parser res" where
  "parse_blocks E p fp =
     (if fp = [] then Inr p
      else
        bnd (parse_bytes E p (take MAX_LINE_LEN fp)) (\<lambda>p.
        if ret p then parse_blocks E p (drop MAX_LINE_LEN fp) else Inr p))"
  by pat_completeness auto
termination
  by (relation "measure (\<lambda>(E, p, fp). length fp)") (auto simp: MAX_LINE_LEN_pos)

declare parse_blocks.simps [simp del]

definition parse_load_frm_fhandler :: "'e conf_env_scheme \<Rightarrow> 'w conf_world_scheme \<Rightarrow> group_table option \<Rightarrow> bytes \<Rightarrow>
    (bool \<times> 'w conf_world_scheme \<times> group_table option) res" where
  "parse_load_frm_fhandler E w key_file fp =
     bnd (parse_blocks E \<lparr>pworld = w, pfile = key_file, cur_grp = None, line = [], line_allocated = 0,
                           has_carriage_rtn = False, ret = True\<rparr> fp) (\<lambda>p.
     Inr (ret p, freed ((if line_allocated p = 0 then 0 else 1) + (if cur_grp p = None then 0 else 1)) (pworld p), pfile p))"

definition parse_load_file :: "'e conf_env_scheme \<Rightarrow> 'w conf_world_scheme \<Rightarrow> group_table option \<Rightarrow> bytes option \<Rightarrow>
    (bool \<times> 'w conf_world_scheme \<times> group_table option) res" where
  "parse_load_file E w key_file file =
     (case file of
        None \<Rightarrow> Inr (False, w, key_file)
      | Some name \<Rightarrow>
          if name = [] then Inr (False, w, key_file)
          else
            (case conf_file E name of
               None \<Rightarrow> Inr (False, w, key_file)
             | Some fp \<Rightarrow> parse_load_frm_fhandler E w key_file fp))"

section \<open>Hash tables with chains\<close>

text \<open>
  Both levels are arrays of \<open>n\<close> chains in which every entry is in the chain that its hash code selects and no
  two entries have the same key. The lemmas hold for every hash function.
\<close>

definition hashed :: "(bytes \<Rightarrow> u32) \<Rightarrow> ('a \<Rightarrow> bytes) \<Rightarrow> nat \<Rightarrow> 'a list list \<Rightarrow> bool" where
  "hashed hash key n tbl \<longleftrightarrow>
     length tbl = n \<and> distinct (map key (concat tbl)) \<and>
     (\<forall>i<n. \<forall>x\<in>set (tbl ! i). unat (hash (key x)) mod n = i)"

lemma mset_concat_update:
  assumes "i < length tbl"
  shows "mset (concat (tbl[i := c])) + mset (tbl ! i) = mset (concat tbl) + mset c"
proof -
  have "concat tbl = concat (take i tbl) @ tbl ! i @ concat (drop (Suc i) tbl)"
    using assms by (metis concat.simps(2) concat_append id_take_nth_drop)
  moreover have "concat (tbl[i := c]) = concat (take i tbl) @ c @ concat (drop (Suc i) tbl)"
    using assms by (simp add: upd_conv_take_nth_drop)
  ultimately show ?thesis by simp
qed

lemma find_unique:
  assumes "distinct (map key xs)" "x \<in> set xs"
  shows "find (\<lambda>y. key y = key x) xs = Some x"
  using assms by (induction xs) (auto simp: rev_image_eqI)

lemma find_SomeD: "find P xs = Some x \<Longrightarrow> x \<in> set xs \<and> P x"
  by (induction xs) (auto split: if_splits)

lemma map_of_find:
  "map_of (map (\<lambda>x. (key x, val x)) xs) k = map_option val (find (\<lambda>x. key x = k) xs)"
  by (induction xs) auto

locale chained_table =
  fixes hash :: "bytes \<Rightarrow> u32" and key :: "'a \<Rightarrow> bytes" and n :: nat
  assumes slots: "0 < n"
begin

lemma slot_less [simp]: "unat (hash k) mod n < n"
  using slots by simp

lemma empty_hashed: "hashed hash key n (replicate n [])"
proof -
  have "concat (replicate n []) = []" by simp
  then show ?thesis by (simp add: hashed_def)
qed

lemma in_slot:
  assumes "hashed hash key n tbl" "x \<in> set (concat tbl)"
  shows "x \<in> set (tbl ! (unat (hash (key x)) mod n))"
proof -
  obtain c where "c \<in> set tbl" "x \<in> set c" using assms(2) by auto
  then obtain i where "i < length tbl" "x \<in> set (tbl ! i)" by (metis in_set_conv_nth)
  then show ?thesis using assms(1) by (auto simp: hashed_def)
qed

lemma slot_subset:
  assumes "hashed hash key n tbl"
  shows "set (tbl ! (unat (hash k) mod n)) \<subseteq> set (concat tbl)"
proof -
  have "unat (hash k) mod n < length tbl" using assms slots by (simp add: hashed_def)
  then show ?thesis by (auto dest: nth_mem)
qed

lemma slot_distinct:
  assumes "hashed hash key n tbl"
  shows "distinct (map key (tbl ! (unat (hash k) mod n)))"
proof -
  let ?i = "unat (hash k) mod n"
  have "concat tbl = concat (take ?i tbl) @ tbl ! ?i @ concat (drop (Suc ?i) tbl)"
    using assms slots by (metis concat.simps(2) concat_append hashed_def id_take_nth_drop slot_less)
  then show ?thesis using assms by (auto simp: hashed_def)
qed

lemma find_slot:
  assumes "hashed hash key n tbl"
  shows "find (\<lambda>x. key x = k) (tbl ! (unat (hash k) mod n)) = find (\<lambda>x. key x = k) (concat tbl)"
proof (cases "find (\<lambda>x. key x = k) (concat tbl)")
  case None
  then have "\<forall>x \<in> set (tbl ! (unat (hash k) mod n)). key x \<noteq> k"
    using slot_subset [OF assms, of k] unfolding find_None_iff by blast
  then have "find (\<lambda>x. key x = k) (tbl ! (unat (hash k) mod n)) = None" by (simp add: find_None_iff)
  then show ?thesis using None by simp
next
  case (Some x)
  then have x: "x \<in> set (concat tbl)" "key x = k" by (auto dest: find_SomeD)
  then show ?thesis
    using find_unique [OF slot_distinct [OF assms, of k]] in_slot [OF assms x(1)] Some by fastforce
qed

lemma add_hashed:
  assumes t: "hashed hash key n tbl" and f: "find (\<lambda>y. key y = key x) (concat tbl) = None"
  defines "i \<equiv> unat (hash (key x)) mod n"
  shows "hashed hash key n (tbl[i := x # tbl ! i])"
    and "mset (concat (tbl[i := x # tbl ! i])) = add_mset x (mset (concat tbl))"
proof -
  have i: "i < length tbl" using t slots by (simp add: hashed_def i_def)
  show m: "mset (concat (tbl[i := x # tbl ! i])) = add_mset x (mset (concat tbl))"
    using mset_concat_update [OF i, of "x # tbl ! i"] by simp
  have "mset (map key (concat (tbl[i := x # tbl ! i]))) = mset (key x # map key (concat tbl))"
    using m by (simp add: mset_map)
  then have "distinct (map key (concat (tbl[i := x # tbl ! i]))) \<longleftrightarrow> distinct (key x # map key (concat tbl))"
    by (rule mset_eq_imp_distinct_iff)
  then have "distinct (map key (concat (tbl[i := x # tbl ! i])))"
    using t f by (auto simp: hashed_def find_None_iff)
  then show "hashed hash key n (tbl[i := x # tbl ! i])"
    using t i by (auto simp: hashed_def nth_list_update i_def)
qed

lemma update_hashed:
  assumes t: "hashed hash key n tbl" and c: "tbl ! (unat (hash k) mod n) = xs @ x # ys" and k: "key x' = key x"
  defines "i \<equiv> unat (hash k) mod n"
  shows "hashed hash key n (tbl[i := xs @ x' # ys])"
    and "add_mset x (mset (concat (tbl[i := xs @ x' # ys]))) = add_mset x' (mset (concat tbl))"
proof -
  have i: "i < length tbl" using t slots by (simp add: hashed_def i_def)
  show m: "add_mset x (mset (concat (tbl[i := xs @ x' # ys]))) = add_mset x' (mset (concat tbl))"
    using mset_concat_update [OF i, of "xs @ x' # ys"] c by (simp add: i_def)
  have "add_mset (key x) (mset (map key (concat (tbl[i := xs @ x' # ys])))) = add_mset (key x) (mset (map key (concat tbl)))"
    using arg_cong [OF m, of "image_mset key"] k by (simp add: mset_map)
  then have "mset (map key (concat (tbl[i := xs @ x' # ys]))) = mset (map key (concat tbl))" by simp
  then have "distinct (map key (concat (tbl[i := xs @ x' # ys])))"
    using t by (metis hashed_def mset_eq_imp_distinct_iff)
  then show "hashed hash key n (tbl[i := xs @ x' # ys])"
    using t i c k by (auto simp: hashed_def nth_list_update i_def)
qed

end

interpretation keys: chained_table "get_hash_code E" kv_key 5 for E
  by unfold_locales simp

interpretation grps: chained_table "get_hash_code E" grp_name 10 for E
  by unfold_locales simp

section \<open>The table as a map\<close>

type_synonym conf = "bytes \<rightharpoonup> bytes \<rightharpoonup> bytes"

definition all_pairs :: "group \<Rightarrow> key_value_pair list" where
  "all_pairs g = concat (klist g)"

definition all_grps :: "group_table \<Rightarrow> group list" where
  "all_grps t = concat (grps_hash t)"

definition kv_map :: "group \<Rightarrow> bytes \<rightharpoonup> bytes" where
  "kv_map g = map_of (map (\<lambda>kv. (kv_key kv, kv_value kv)) (all_pairs g))"

definition conf_of :: "group_table \<Rightarrow> conf" where
  "conf_of t = map_of (map (\<lambda>g. (grp_name g, kv_map g)) (all_grps t))"

definition wf_grp :: "'e conf_env_scheme \<Rightarrow> group \<Rightarrow> bool" where
  "wf_grp E g \<longleftrightarrow>
     keys_hash_size g = MAX_UNIQ_KEYS \<and> hashed (get_hash_code E) kv_key 5 (klist g) \<and>
     num_of_keys g = of_nat (length (all_pairs g))"

definition wf_tbl :: "'e conf_env_scheme \<Rightarrow> group_table \<Rightarrow> bool" where
  "wf_tbl E t \<longleftrightarrow>
     grps_hash_size t = MAX_UNIQ_GRPS \<and> hashed (get_hash_code E) grp_name 10 (grps_hash t) \<and>
     num_of_grps t = of_nat (length (all_grps t)) \<and> (\<forall>g\<in>set (all_grps t). wf_grp E g)"

text \<open>The blocks that a table consists of, and the number of its pairs.\<close>

definition grp_blocks :: "group \<Rightarrow> nat" where
  "grp_blocks g = 3 + 3 * length (all_pairs g)"

definition tbl_blocks :: "group_table \<Rightarrow> nat" where
  "tbl_blocks t = 2 + sum_mset (image_mset grp_blocks (mset (all_grps t)))"

definition tbl_pairs :: "group_table \<Rightarrow> nat" where
  "tbl_pairs t = sum_mset (image_mset (\<lambda>g. length (all_pairs g)) (mset (all_grps t)))"

definition heap_failed :: "'e conf_env_scheme \<Rightarrow> bool" where
  "heap_failed E \<longleftrightarrow> (\<exists>k. \<not> conf_malloc E k)"

lemmas world_defs = new_def renew_def freed_def Let_def

lemma find_grp_find: "find_grp name gs = find (\<lambda>g. grp_name g = name) gs"
  by (induction gs) auto

lemma find_key_find: "find_key key kvs = find (\<lambda>kv. kv_key kv = key) kvs"
  by (induction kvs) auto

lemma conf_of_find: "conf_of t name = map_option kv_map (find (\<lambda>g. grp_name g = name) (all_grps t))"
  unfolding conf_of_def by (rule map_of_find)

lemma kv_map_find: "kv_map g key = map_option kv_value (find (\<lambda>kv. kv_key kv = key) (all_pairs g))"
  unfolding kv_map_def by (rule map_of_find)

lemma dom_conf_of: "dom (conf_of t) = grp_name ` set (all_grps t)"
  by (auto simp: conf_of_def dom_map_of_conv_image_fst image_image)

lemma dom_kv_map: "dom (kv_map g) = kv_key ` set (all_pairs g)"
  by (auto simp: kv_map_def dom_map_of_conv_image_fst image_image)

lemma grp_index [simp]:
  "umod x MAX_UNIQ_GRPS = Inr (x mod 10)" "umod x MAX_UNIQ_KEYS = Inr (x mod 5)"
  "unat (x mod 10) = unat x mod 10" "unat (x mod 5) = unat x mod 5" for x :: u32
  by (simp_all add: umod_def MAX_UNIQ_GRPS_def MAX_UNIQ_KEYS_def unat_mod_distrib unat_mod)

lemma wf_tblD:
  assumes "wf_tbl E t"
  shows "grps_hash_size t = MAX_UNIQ_GRPS" "length (grps_hash t) = 10" "hashed (get_hash_code E) grp_name 10 (grps_hash t)"
    "bucket (grps_hash t) (get_hash_code E name mod 10) = Inr (grps_hash t ! (unat (get_hash_code E name) mod 10))"
    "buckets (grps_hash t) MAX_UNIQ_GRPS = Inr (all_grps t)" "distinct (map grp_name (all_grps t))"
  using assms by (auto simp: wf_tbl_def hashed_def bucket_def buckets_def all_grps_def MAX_UNIQ_GRPS_def)

lemma wf_grpD:
  assumes "wf_grp E g"
  shows "keys_hash_size g = MAX_UNIQ_KEYS" "length (klist g) = 5" "hashed (get_hash_code E) kv_key 5 (klist g)"
    "bucket (klist g) (get_hash_code E key mod 5) = Inr (klist g ! (unat (get_hash_code E key) mod 5))"
    "buckets (klist g) MAX_UNIQ_KEYS = Inr (all_pairs g)" "distinct (map kv_key (all_pairs g))"
  using assms by (auto simp: wf_grp_def hashed_def bucket_def buckets_def all_pairs_def MAX_UNIQ_KEYS_def)

lemma find_grp_slot:
  "wf_tbl E t \<Longrightarrow> find_grp name (grps_hash t ! (unat (get_hash_code E name) mod 10)) = find (\<lambda>g. grp_name g = name) (all_grps t)"
  by (simp add: find_grp_find grps.find_slot wf_tblD(3) all_grps_def)

lemma find_key_slot:
  "wf_grp E g \<Longrightarrow> find_key key (klist g ! (unat (get_hash_code E key) mod 5)) = find (\<lambda>kv. kv_key kv = key) (all_pairs g)"
  by (simp add: find_key_find keys.find_slot wf_grpD(3) all_pairs_def)

lemma MAX_nonzero [simp]: "MAX_UNIQ_GRPS \<noteq> 0" "MAX_UNIQ_KEYS \<noteq> 0"
  by (simp_all add: MAX_UNIQ_GRPS_def MAX_UNIQ_KEYS_def)

text \<open>The table of a new file is empty.\<close>

lemma concat_replicate_Nil: "concat (replicate n []) = []"
  by simp

lemma get_key_file_result:
  assumes "get_key_file E w = (kf, w')"
  shows "conf_world.more w' = conf_world.more w"
    and "kf = None \<Longrightarrow> live w' = live w \<and> heap_failed E"
    and "kf = Some t \<Longrightarrow> wf_tbl E t \<and> conf_of t = Map.empty \<and> live w' = live w + int (tbl_blocks t) \<and> tbl_pairs t = 0"
  using assms grps.empty_hashed [of E]
  by (auto simp: get_key_file_def world_defs heap_failed_def wf_tbl_def all_grps_def conf_of_def tbl_blocks_def
      tbl_pairs_def MAX_UNIQ_GRPS_def split: if_splits)

section \<open>Adding to the table\<close>

lemma map_of_mset_eq:
  assumes "mset xs = mset ys" "distinct (map fst ys)"
  shows "map_of xs = map_of ys"
proof -
  have "distinct (map fst xs)"
    using assms mset_eq_imp_distinct_iff [of "map fst xs" "map fst ys"] by (simp add: mset_map)
  then show ?thesis using assms map_of_inject_set mset_eq_setD by blast
qed

lemma conf_of_add:
  assumes "mset (all_grps t') = add_mset g (mset (all_grps t))" "distinct (map grp_name (g # all_grps t))"
  shows "conf_of t' = (conf_of t)(grp_name g \<mapsto> kv_map g)"
proof -
  have "mset (map (\<lambda>g. (grp_name g, kv_map g)) (all_grps t')) = mset (map (\<lambda>g. (grp_name g, kv_map g)) (g # all_grps t))"
    using assms(1) by (simp add: mset_map)
  then have "conf_of t' = map_of (map (\<lambda>g. (grp_name g, kv_map g)) (g # all_grps t))"
    unfolding conf_of_def by (rule map_of_mset_eq) (use assms(2) in \<open>simp add: comp_def\<close>)
  then show ?thesis by (simp add: conf_of_def)
qed

lemma conf_of_change:
  assumes m: "add_mset g (mset (all_grps t')) = add_mset g' (mset (all_grps t))"
    and d: "distinct (map grp_name (all_grps t))" and g: "g \<in> set (all_grps t)" "grp_name g' = grp_name g"
  shows "conf_of t' = (conf_of t)(grp_name g \<mapsto> kv_map g')"
proof -
  obtain xs ys where s: "all_grps t = xs @ g # ys" using g(1) by (meson split_list)
  then have "mset (all_grps t') = mset (g' # xs @ ys)" using m by simp
  then have "mset (map (\<lambda>g. (grp_name g, kv_map g)) (all_grps t')) = mset (map (\<lambda>g. (grp_name g, kv_map g)) (g' # xs @ ys))"
    by (simp add: mset_map)
  then have "conf_of t' = map_of (map (\<lambda>g. (grp_name g, kv_map g)) (g' # xs @ ys))"
    unfolding conf_of_def by (rule map_of_mset_eq) (use d s g(2) in \<open>auto simp: comp_def\<close>)
  moreover have "map_of (map (\<lambda>g. (grp_name g, kv_map g)) xs) (grp_name g) = None"
    using d s by (auto simp: map_of_eq_None_iff)
  ultimately show ?thesis using s g(2) by (auto simp: conf_of_def map_add_def fun_eq_iff split: option.splits)
qed

lemma kv_map_add:
  assumes "mset (all_pairs g') = add_mset kv (mset (all_pairs g))" "distinct (map kv_key (kv # all_pairs g))"
  shows "kv_map g' = (kv_map g)(kv_key kv \<mapsto> kv_value kv)"
proof -
  have "mset (map (\<lambda>kv. (kv_key kv, kv_value kv)) (all_pairs g')) = mset (map (\<lambda>kv. (kv_key kv, kv_value kv)) (kv # all_pairs g))"
    using assms(1) by (simp add: mset_map)
  then have "kv_map g' = map_of (map (\<lambda>kv. (kv_key kv, kv_value kv)) (kv # all_pairs g))"
    unfolding kv_map_def by (rule map_of_mset_eq) (use assms(2) in \<open>simp add: comp_def\<close>)
  then show ?thesis by (simp add: kv_map_def)
qed

text \<open>What a successful step leaves unchanged: the blocks beyond the table and the leaked strings of its pairs.\<close>

definition debt :: "'w conf_world_scheme \<Rightarrow> group_table \<Rightarrow> int" where
  "debt w t = live w - int (tbl_blocks t) - 2 * int (tbl_pairs t)"

definition add_result :: "'e conf_env_scheme \<Rightarrow> 'w conf_world_scheme \<Rightarrow> group_table \<Rightarrow> conf option \<Rightarrow> nat \<Rightarrow>
    bool \<times> 'w conf_world_scheme \<times> group_table \<Rightarrow> bool" where
  "add_result E w t c k = (\<lambda>(r, w', t').
     wf_tbl E t' \<and> conf_world.more w' = conf_world.more w \<and>
     (if r then c = Some (conf_of t') \<and> debt w' t' + int k = debt w t else t' = t \<and> (c = None \<or> heap_failed E)))"

lemma add_grp_result:
  assumes t: "wf_tbl E t"
  shows "\<exists>r. add_grp E w t name = Inr r \<and>
    add_result E w t (if name \<in> dom (conf_of t) then None else Some ((conf_of t)(name \<mapsto> Map.empty))) 0 r"
proof -
  note d = wf_tblD [OF t]
  let ?i = "unat (get_hash_code E name) mod 10"
  have e: "grp_exist E t name = Inr (name \<in> dom (conf_of t))"
    using d by (simp add: grp_exist_def find_grp_slot [OF t] domIff conf_of_find)
  let ?g = "\<lparr>grp_name = name, num_of_keys = 0, keys_hash_size = MAX_UNIQ_KEYS, klist = replicate (unat MAX_UNIQ_KEYS) []\<rparr>"
  let ?t = "t\<lparr>grps_hash := (grps_hash t)[?i := ?g # grps_hash t ! ?i], num_of_grps := num_of_grps t + 1\<rparr>"
  have g: "wf_grp E ?g" "kv_map ?g = Map.empty" "grp_blocks ?g = 3" "all_pairs ?g = []"
    using keys.empty_hashed [of E] by (simp_all add: wf_grp_def all_pairs_def kv_map_def grp_blocks_def MAX_UNIQ_KEYS_def)
  have ok: "wf_tbl E ?t \<and> conf_of ?t = (conf_of t)(name \<mapsto> Map.empty) \<and> tbl_blocks ?t = tbl_blocks t + 3 \<and> tbl_pairs ?t = tbl_pairs t"
    if n: "name \<notin> dom (conf_of t)"
  proof -
    have f: "find (\<lambda>y. grp_name y = grp_name ?g) (concat (grps_hash t)) = None"
      using n by (simp add: domIff conf_of_find all_grps_def)
    have h: "hashed (get_hash_code E) grp_name 10 (grps_hash ?t)" "mset (all_grps ?t) = add_mset ?g (mset (all_grps t))"
      using grps.add_hashed [OF d(3) f] by (simp_all add: all_grps_def)
    have s: "set (all_grps ?t) = insert ?g (set (all_grps t))" "length (all_grps ?t) = Suc (length (all_grps t))"
      using arg_cong [OF h(2), of set_mset] arg_cong [OF h(2), of size] by simp_all
    have "wf_tbl E ?t" using t h(1) s g(1) by (simp add: wf_tbl_def)
    moreover have "conf_of ?t = (conf_of t)(grp_name ?g \<mapsto> kv_map ?g)"
      by (rule conf_of_add [OF h(2)]) (use n d(6) in \<open>auto simp: dom_conf_of\<close>)
    ultimately show ?thesis using h(2) g by (simp add: tbl_blocks_def tbl_pairs_def)
  qed
  show ?thesis
  proof (cases "name \<in> dom (conf_of t)")
    case True
    then show ?thesis using t by (simp add: add_grp_def e add_result_def)
  next
    case False
    then show ?thesis using ok [OF False] d t
      by (auto simp: add_grp_def e add_result_def alloc_group_def world_defs debt_def heap_failed_def)
  qed
qed

lemma add_to_chain_skip:
  "find_grp cur xs = None \<Longrightarrow>
   add_to_chain E w cur key val (xs @ ys) =
     bnd (add_to_chain E w cur key val ys) (\<lambda>(r, w', ys'). Inr (r, w', xs @ ys'))"
  by (induction xs) (auto split: if_splits simp: bnd_def split: sum.splits)

lemma find_split: "find P xs = Some x \<Longrightarrow> \<exists>ys zs. xs = ys @ x # zs \<and> find P ys = None \<and> P x"
proof (induction xs)
  case (Cons a xs)
  show ?case
  proof (cases "P a")
    case True
    then show ?thesis using Cons.prems by (intro exI [of _ "[]"] exI [of _ xs]) auto
  next
    case False
    then obtain ys zs where "xs = ys @ x # zs" "find P ys = None" "P x" using Cons by auto
    then show ?thesis using False by (intro exI [of _ "a # ys"] exI [of _ zs]) auto
  qed
qed simp

lemma new_pair_result:
  assumes "new_pair E w key val = (r, w')"
  shows "conf_world.more w' = conf_world.more w"
    and "r = None \<Longrightarrow> heap_failed E"
    and "r = Some kv \<Longrightarrow> kv = \<lparr>kv_key = key, kv_value = val\<rparr> \<and> live w' = live w + 3"
  using assms by (auto simp: new_pair_def world_defs heap_failed_def split: if_splits)

text \<open>A new pair in a group.\<close>

definition with_pair :: "'e conf_env_scheme \<Rightarrow> group \<Rightarrow> bytes \<Rightarrow> bytes \<Rightarrow> group" where
  "with_pair E g key val =
     (let i = unat (get_hash_code E key) mod 5
      in g\<lparr>klist := (klist g)[i := \<lparr>kv_key = key, kv_value = val\<rparr> # klist g ! i], num_of_keys := num_of_keys g + 1\<rparr>)"

lemma with_pair_result:
  assumes g: "wf_grp E g" and n: "key \<notin> dom (kv_map g)"
  shows "wf_grp E (with_pair E g key val)" "kv_map (with_pair E g key val) = (kv_map g)(key \<mapsto> val)"
    "length (all_pairs (with_pair E g key val)) = Suc (length (all_pairs g))"
    "grp_name (with_pair E g key val) = grp_name g"
proof -
  let ?kv = "\<lparr>kv_key = key, kv_value = val\<rparr>" and ?g = "with_pair E g key val"
  have f: "find (\<lambda>y. kv_key y = kv_key ?kv) (concat (klist g)) = None"
    using n by (simp add: domIff kv_map_find all_pairs_def)
  have h: "hashed (get_hash_code E) kv_key 5 (klist ?g)" "mset (all_pairs ?g) = add_mset ?kv (mset (all_pairs g))"
    using keys.add_hashed [OF wf_grpD(3) [OF g] f] by (simp_all add: all_pairs_def with_pair_def Let_def)
  show l: "length (all_pairs ?g) = Suc (length (all_pairs g))" using arg_cong [OF h(2), of size] by simp
  show "wf_grp E ?g" using g h(1) l by (simp add: wf_grp_def with_pair_def Let_def)
  have "kv_map ?g = (kv_map g)(kv_key ?kv \<mapsto> kv_value ?kv)"
    by (rule kv_map_add [OF h(2)]) (use n wf_grpD(6) [OF g] in \<open>auto simp: dom_kv_map\<close>)
  then show "kv_map ?g = (kv_map g)(key \<mapsto> val)" by simp
  show "grp_name ?g = grp_name g" by (simp add: with_pair_def Let_def)
qed

lemma add_to_chain_here:
  assumes g: "wf_grp E g" "grp_name g = cur"
  shows "add_to_chain E w cur key val (g # ys) =
    (if key \<in> dom (kv_map g) then Inr (False, w, g # ys)
     else case new_pair E w key val of
         (None, w) \<Rightarrow> Inr (False, w, g # ys)
       | (Some kv, w) \<Rightarrow> Inr (True, w, with_pair E g key val # ys))"
  using g wf_grpD [OF g(1)] new_pair_result(3) [of E w key val]
  by (auto simp: find_key_slot [OF g(1)] kv_map_find domIff with_pair_def Let_def split: option.splits prod.splits)

lemma update_chain:
  assumes t: "wf_tbl E t" and s: "grps_hash t ! (unat (get_hash_code E cur) mod 10) = xs @ g # ys"
    and g: "wf_grp E g'" "grp_name g' = grp_name g" "length (all_pairs g') = Suc (length (all_pairs g))"
  defines "t' \<equiv> t\<lparr>grps_hash := (grps_hash t)[unat (get_hash_code E cur) mod 10 := xs @ g' # ys]\<rparr>"
  shows "wf_tbl E t'" "conf_of t' = (conf_of t)(grp_name g \<mapsto> kv_map g')"
    "tbl_blocks t' = tbl_blocks t + 3" "tbl_pairs t' = tbl_pairs t + 1"
proof -
  note d = wf_tblD [OF t]
  have h: "hashed (get_hash_code E) grp_name 10 (grps_hash t')"
    "add_mset g (mset (all_grps t')) = add_mset g' (mset (all_grps t))"
    using grps.update_hashed [OF d(3) s g(2)] by (simp_all add: all_grps_def t'_def)
  have gin: "g \<in> set (all_grps t)"
    using grps.slot_subset [OF d(3), of cur] s by (auto simp: all_grps_def)
  obtain as bs where u: "all_grps t = as @ g # bs" using gin by (meson split_list)
  then have m: "mset (all_grps t') = add_mset g' (mset (as @ bs))" using h(2) by simp
  have "set (all_grps t') = insert g' (set (as @ bs))" "length (all_grps t') = length (all_grps t)"
    using arg_cong [OF m, of set_mset] arg_cong [OF m, of size] u by simp_all
  moreover have "num_of_grps t' = num_of_grps t" "grps_hash_size t' = grps_hash_size t" by (simp_all add: t'_def)
  ultimately show "wf_tbl E t'" using t h(1) g(1) u by (auto simp: wf_tbl_def)
  show "conf_of t' = (conf_of t)(grp_name g \<mapsto> kv_map g')" by (rule conf_of_change [OF h(2) d(6) gin g(2)])
  show "tbl_blocks t' = tbl_blocks t + 3" "tbl_pairs t' = tbl_pairs t + 1"
    using m u g(3) by (simp_all add: tbl_blocks_def tbl_pairs_def grp_blocks_def)
qed

lemma add_key_value_pair_result:
  assumes t: "wf_tbl E t" and c: "conf_of t cur = Some kvs" and k: "key \<noteq> []"
  shows "\<exists>r. add_key_value_pair E w t cur key val = Inr r \<and>
    add_result E w t (if key \<in> dom kvs then None else Some ((conf_of t)(cur \<mapsto> kvs(key \<mapsto> val)))) 2 r"
proof -
  note d = wf_tblD [OF t]
  let ?i = "unat (get_hash_code E cur) mod 10"
  obtain g where g: "find_grp cur (grps_hash t ! ?i) = Some g" "kv_map g = kvs"
    using c by (auto simp: conf_of_find find_grp_slot [OF t])
  then obtain xs ys where s: "grps_hash t ! ?i = xs @ g # ys" "find_grp cur xs = None" "grp_name g = cur"
    using find_split [of "\<lambda>g. grp_name g = cur" "grps_hash t ! ?i" g] by (auto simp: find_grp_find)
  have gw: "wf_grp E g"
    using t grps.slot_subset [OF d(3), of cur] s(1) by (auto simp: wf_tbl_def all_grps_def)
  have same: "(grps_hash t)[?i := xs @ g # ys] = grps_hash t" using s(1) by (metis list_update_id)
  obtain r w' where p: "new_pair E w key val = (r, w')" by fastforce
  note pr = new_pair_result [OF p]
  have chain: "add_to_chain E w cur key val (grps_hash t ! ?i) =
    (if key \<in> dom kvs then Inr (False, w, xs @ g # ys)
     else case r of
         None \<Rightarrow> Inr (False, w', xs @ g # ys)
       | Some kv \<Rightarrow> Inr (True, w', xs @ with_pair E g key val # ys))"
    unfolding s(1) add_to_chain_skip [OF s(2)] add_to_chain_here [OF gw s(3)] g(2) p by (simp split: option.splits)
  have call: "add_key_value_pair E w t cur key val =
    (if key \<in> dom kvs then Inr (False, w, t)
     else case r of
         None \<Rightarrow> Inr (False, w', t)
       | Some kv \<Rightarrow> Inr (True, w', t\<lparr>grps_hash := (grps_hash t)[?i := xs @ with_pair E g key val # ys]\<rparr>))"
    using k d same by (simp add: add_key_value_pair_def chain del: bnd_eq_Inr split: option.splits)
  show ?thesis
  proof (cases "key \<in> dom kvs \<or> r = None")
    case True
    then show ?thesis using call p t pr(1,2) by (auto simp: add_result_def)
  next
    case False
    then have n: "key \<notin> dom (kv_map g)" and r: "r \<noteq> None" using g(2) by auto
    note wp = with_pair_result [OF gw n, of val]
    note uc = update_chain [OF t s(1) wp(1,4,3)]
    show ?thesis using False r call p uc wp(2) s(3) g(2) pr
      by (auto simp: add_result_def debt_def)
  qed
qed

end
