(* ===== verification/Fm_Format.thy ===== *)
theory Fm_Format
  imports Fm_Conf
begin

text \<open>
  What the parser of \<open>src/packages/apps/FleetyFmService/jni/ConfFileParser.cpp\<close> accepts and loads. The format is
  defined without the hash table, as a function from the bytes of the file to a map; the parser is shown to
  agree with it on every file, and the query functions to read the map.
\<close>

section \<open>The format\<close>

text \<open>
  The meaning of a line for the contents and the current group: nothing, a new group, or a new pair in the
  current group. \<open>None\<close> rejects the file.
\<close>

definition conf_line :: "conf \<Rightarrow> bytes option \<Rightarrow> bytes \<Rightarrow> (conf \<times> bytes option) option" where
  "conf_line c g l =
     (let str = dropWhile isspace l in
      if line_is_comment str then Some (c, g)
      else
        case grp_of_line str of
          Some name \<Rightarrow> if name \<in> dom c then None else Some (c(name \<mapsto> Map.empty), Some name)
        | None \<Rightarrow>
            (case g of
               None \<Rightarrow> None
             | Some name \<Rightarrow>
                 (case pair_of_line str of
                    None \<Rightarrow> None
                  | Some (key, val) \<Rightarrow>
                      if key \<in> dom (the (c name)) then None
                      else Some (c(name \<mapsto> (the (c name))(key \<mapsto> val)), Some name))))"

text \<open>
  Carriage returns are only allowed at the end of a line. What follows the last newline is not a line: it is
  only checked for carriage returns.
\<close>

definition cr_ok :: "bytes \<Rightarrow> bool" where
  "cr_ok l \<longleftrightarrow> list_all (\<lambda>c. c = 13) (dropWhile (\<lambda>c. c \<noteq> 13) l)"

definition before_cr :: "bytes \<Rightarrow> bytes" where
  "before_cr l = takeWhile (\<lambda>c. c \<noteq> 13) l"

lemma line_shorter: "dropWhile P d \<noteq> [] \<Longrightarrow> length (dropWhile P d) - Suc 0 < length d"
  using length_dropWhile_le [of P d] by (cases "dropWhile P d") auto

function conf_load :: "conf \<Rightarrow> bytes option \<Rightarrow> bytes \<Rightarrow> conf option" where
  "conf_load c g d =
     (let l = takeWhile (\<lambda>c. c \<noteq> 10) d; r = dropWhile (\<lambda>c. c \<noteq> 10) d in
      if \<not> cr_ok l then None
      else if r = [] then Some c
      else case conf_line c g (cstr (before_cr l)) of None \<Rightarrow> None | Some (c, g) \<Rightarrow> conf_load c g (tl r))"
  by pat_completeness auto
termination
  by (relation "measure (\<lambda>(c, g, d). length d)") (auto intro!: line_shorter)

declare conf_load.simps [simp del]

lemma pair_of_line_key: "pair_of_line s = Some (k, v) \<Longrightarrow> k \<noteq> []"
  by (auto simp: pair_of_line_def Let_def split: if_splits)

lemma grp_of_line_name: "grp_of_line s = Some n \<Longrightarrow> n \<noteq> []"
  by (auto simp: grp_of_line_def Let_def split: if_splits)

lemma grp_line_no_pair: "grp_of_line s = Some n \<Longrightarrow> pair_of_line s = None"
proof (cases s)
  case (Cons c r)
  assume "grp_of_line s = Some n"
  then have "c = 91" using Cons by (auto simp: grp_of_line_def split: if_splits)
  then show ?thesis using Cons by (simp add: pair_of_line_def Let_def isalnum_def)
qed (simp add: grp_of_line_def)

section \<open>The parser and the format\<close>

definition cur_ok :: "group_table \<Rightarrow> bytes option \<Rightarrow> bool" where
  "cur_ok t cur \<longleftrightarrow> (case cur of None \<Rightarrow> True | Some g \<Rightarrow> g \<noteq> [] \<and> g \<in> dom (conf_of t))"

definition cur_block :: "bytes option \<Rightarrow> int" where
  "cur_block cur = (if cur = None then 0 else 1)"

lemma new_cases:
  obtains (ok) "new E w = (True, w\<lparr>mallocs := mallocs w + 1, live := live w + 1\<rparr>)"
  | (failed) w' where "new E w = (False, w')" "conf_world.more w' = conf_world.more w" "heap_failed E"
  by (cases "conf_malloc E (mallocs w)") (auto simp: new_def Let_def heap_failed_def)

definition line_result where
  "line_result E w t cur l = (\<lambda>(ok, w', kf, cur').
     \<exists>t'. kf = Some t' \<and> wf_tbl E t' \<and> cur_ok t' cur' \<and> conf_world.more w' = conf_world.more w \<and>
     (if ok then conf_line (conf_of t) cur l = Some (conf_of t', cur') \<and> debt w' t' - cur_block cur' = debt w t - cur_block cur
      else conf_line (conf_of t) cur l = None \<or> heap_failed E))"

definition grp_line_result where
  "grp_line_result E w t cur str = (\<lambda>(ok, w', t', cur').
     wf_tbl E t' \<and> conf_world.more w' = conf_world.more w \<and>
     (if ok then cur_ok t' cur' \<and> debt w' t' - cur_block cur' = debt w t - cur_block cur \<and>
        (\<exists>n. grp_of_line str = Some n \<and> n \<notin> dom (conf_of t) \<and> conf_of t' = (conf_of t)(n \<mapsto> Map.empty) \<and> cur' = Some n)
      else t' = t \<and> cur' = cur \<and>
        (w' = w \<and> grp_of_line str = None \<or> (\<exists>n. grp_of_line str = Some n \<and> (n \<in> dom (conf_of t) \<or> heap_failed E)))))"

definition pair_line_result where
  "pair_line_result E w t cur str = (\<lambda>(ok, w', t').
     wf_tbl E t' \<and> cur_ok t' cur \<and> conf_world.more w' = conf_world.more w \<and>
     (if ok then debt w' t' = debt w t \<and>
        (\<exists>g k v. cur = Some g \<and> pair_of_line str = Some (k, v) \<and> k \<notin> dom (the (conf_of t g)) \<and>
          conf_of t' = (conf_of t)(g \<mapsto> (the (conf_of t g))(k \<mapsto> v)))
      else t' = t \<and> (cur = None \<or> pair_of_line str = None \<or> heap_failed E \<or>
        (\<exists>g k v. cur = Some g \<and> pair_of_line str = Some (k, v) \<and> k \<in> dom (the (conf_of t g))))))"

lemma line_is_grp_result:
  assumes t: "wf_tbl E t" and c: "cur_ok t cur"
  shows "\<exists>r. line_is_grp E w t str cur = Inr r \<and> grp_line_result E w t cur str r"
proof (cases "grp_of_line str")
  case None
  then show ?thesis using t c by (simp add: line_is_grp_def grp_line_result_def)
next
  case (Some n)
  show ?thesis
  proof (cases E w rule: new_cases)
    case ok
    let ?w = "w\<lparr>mallocs := mallocs w + 1, live := live w + 1\<rparr>"
    obtain r w' t' where a: "add_grp E ?w t n = Inr (r, w', t')"
      "add_result E ?w t (if n \<in> dom (conf_of t) then None else Some ((conf_of t)(n \<mapsto> Map.empty))) 0 (r, w', t')"
      using add_grp_result [OF t, of ?w n] by auto
    let ?w' = "if cur = None then w' else freed 1 w'"
    show ?thesis
    proof (cases r)
      case True
      then have n: "n \<notin> dom (conf_of t)" "conf_of t' = (conf_of t)(n \<mapsto> Map.empty)" "debt w' t' = debt ?w t" "wf_tbl E t'"
        "conf_world.more w' = conf_world.more w"
        using a(2) by (auto simp: add_result_def split: if_splits)
      have "line_is_grp E w t str cur = Inr (True, ?w', t', Some n)"
        using Some ok a(1) True by (simp add: line_is_grp_def)
      moreover have "debt ?w' t' - cur_block (Some n) = debt w t - cur_block cur"
        using n(3) by (simp add: debt_def cur_block_def freed_def)
      moreover have "cur_ok t' (Some n)" using n(2) grp_of_line_name [OF Some] by (simp add: cur_ok_def)
      ultimately show ?thesis using n Some by (simp add: grp_line_result_def freed_def)
    next
      case False
      then have "line_is_grp E w t str cur = Inr (False, w', t', cur)"
        using Some ok a(1) by (simp add: line_is_grp_def)
      then show ?thesis using t False a(2) Some by (simp add: grp_line_result_def add_result_def split: if_splits)
    qed
  next
    case (failed w')
    then show ?thesis using Some t by (simp add: line_is_grp_def grp_line_result_def)
  qed
qed

lemma line_is_key_value_pair_result:
  assumes t: "wf_tbl E t" and c: "cur_ok t cur"
  shows "\<exists>r. line_is_key_value_pair E w t str cur = Inr r \<and> pair_line_result E w t cur str r"
proof (cases "cur = None \<or> pair_of_line str = None")
  case True
  then show ?thesis using t c by (auto simp: line_is_key_value_pair_def pair_line_result_def split: option.splits)
next
  case False
  then obtain g k v where s: "cur = Some g" "pair_of_line str = Some (k, v)" "g \<noteq> []" and d: "g \<in> dom (conf_of t)"
    using c by (auto simp: cur_ok_def)
  then obtain kvs where kvs: "conf_of t g = Some kvs" by auto
  show ?thesis
  proof (cases "conf_malloc E (mallocs w) \<and> conf_malloc E (mallocs w + 1)")
    case True
    let ?w = "w\<lparr>mallocs := mallocs w + 2, live := live w + 2\<rparr>"
    obtain r w' t' where a: "add_key_value_pair E ?w t g k v = Inr (r, w', t')"
      "add_result E ?w t (if k \<in> dom kvs then None else Some ((conf_of t)(g \<mapsto> kvs(k \<mapsto> v)))) 2 (r, w', t')"
      using add_key_value_pair_result [OF t kvs pair_of_line_key [OF s(2)], of ?w v] by auto
    have call: "line_is_key_value_pair E w t str cur = Inr (r, w', t')"
      using True s a(1) by (simp add: line_is_key_value_pair_def world_defs add.commute)
    have "conf_of t' = (conf_of t)(g \<mapsto> kvs(k \<mapsto> v)) \<or> t' = t"
      using a(2) by (auto simp: add_result_def split: if_splits)
    then have "cur_ok t' cur" using d s(1,3) by (auto simp: cur_ok_def)
    then show ?thesis using t call a(2) s kvs
      by (cases r) (simp_all add: pair_line_result_def add_result_def debt_def split: if_splits)
  next
    case False
    then have "heap_failed E" by (auto simp: heap_failed_def)
    moreover have "\<exists>w'. line_is_key_value_pair E w t str cur = Inr (False, w', t) \<and> conf_world.more w' = conf_world.more w"
      using False s by (simp add: line_is_key_value_pair_def world_defs)
    ultimately show ?thesis using t c by (auto simp: pair_line_result_def)
  qed
qed

lemma parse_line_result:
  assumes t: "wf_tbl E t" and c: "cur_ok t cur"
  shows "\<exists>r. parse_line E w (Some t) l cur = Inr r \<and> line_result E w t cur l r"
proof (cases "line_is_comment (dropWhile isspace l)")
  case True
  then show ?thesis using t c by (simp add: parse_line_def line_result_def conf_line_def)
next
  case nc: False
  let ?s = "dropWhile isspace l"
  obtain ok w1 t1 cur1 where g: "line_is_grp E w t ?s cur = Inr (ok, w1, t1, cur1)"
    "grp_line_result E w t cur ?s (ok, w1, t1, cur1)"
    using line_is_grp_result [OF t c, of w ?s] by auto
  show ?thesis
  proof (cases ok)
    case True
    then obtain n where n: "grp_of_line ?s = Some n" "n \<notin> dom (conf_of t)" "conf_of t1 = (conf_of t)(n \<mapsto> Map.empty)" "cur1 = Some n"
      using g(2) by (auto simp: grp_line_result_def)
    then have "conf_line (conf_of t) cur l = Some (conf_of t1, cur1)" using nc by (simp add: conf_line_def)
    then show ?thesis using True g nc by (simp add: parse_line_def line_result_def grp_line_result_def)
  next
    case False
    then have e: "t1 = t" "cur1 = cur" and w1: "conf_world.more w1 = conf_world.more w"
      and gl: "w1 = w \<and> grp_of_line ?s = None \<or> (\<exists>n. grp_of_line ?s = Some n \<and> (n \<in> dom (conf_of t) \<or> heap_failed E))"
      using g(2) by (auto simp: grp_line_result_def)
    obtain ok2 w2 t2 where p: "line_is_key_value_pair E w1 t ?s cur = Inr (ok2, w2, t2)"
      "pair_line_result E w1 t cur ?s (ok2, w2, t2)"
      using line_is_key_value_pair_result [OF t c, of w1 ?s] by auto
    have "parse_line E w (Some t) l cur = Inr (ok2, w2, Some t2, cur)"
      using nc g(1) p(1) False e by (simp add: parse_line_def)
    moreover have "line_result E w t cur l (ok2, w2, Some t2, cur)"
    proof (cases ok2)
      case True
      then obtain g k v where q: "cur = Some g" "pair_of_line ?s = Some (k, v)" "k \<notin> dom (the (conf_of t g))"
        "conf_of t2 = (conf_of t)(g \<mapsto> (the (conf_of t g))(k \<mapsto> v))"
        using p(2) by (auto simp: pair_line_result_def)
      then have "grp_of_line ?s = None" "w1 = w" using gl by (auto dest: grp_line_no_pair)
      then have "conf_line (conf_of t) cur l = Some (conf_of t2, cur)" using nc q by (simp add: conf_line_def)
      then show ?thesis using True p(2) \<open>w1 = w\<close> by (simp add: line_result_def pair_line_result_def)
    next
      case False
      then have "conf_line (conf_of t) cur l = None \<or> heap_failed E"
        using nc p(2) gl by (auto simp: conf_line_def pair_line_result_def Let_def split: option.splits)
      then show ?thesis using t c False p(2) w1 by (simp add: line_result_def pair_line_result_def)
    qed
    ultimately show ?thesis by blast
  qed
qed

section \<open>The loop over the file\<close>

text \<open>The text of the current line, with one carriage return if one was seen.\<close>

definition line_text :: "'w parser \<Rightarrow> bytes" where
  "line_text p = line p @ (if has_carriage_rtn p then [13] else [])"

definition line_ok :: "'w parser \<Rightarrow> bool" where
  "line_ok p \<longleftrightarrow> length (line p) \<le> line_allocated p \<and> 13 \<notin> set (line p)"

text \<open>Steps inside a line change only the line buffer.\<close>

definition same_line :: "'w parser \<Rightarrow> 'w parser \<Rightarrow> bool" where
  "same_line p p' \<longleftrightarrow>
     pfile p' = pfile p \<and> cur_grp p' = cur_grp p \<and> conf_world.more (pworld p') = conf_world.more (pworld p) \<and>
     live (pworld p') - (if line_allocated p' = 0 then 0 else 1) = live (pworld p) - (if line_allocated p = 0 then 0 else 1)"

lemma same_line_trans: "same_line p q \<Longrightarrow> same_line q r \<Longrightarrow> same_line p r"
  by (simp add: same_line_def)

lemma before_cr_append: "13 \<notin> set l \<Longrightarrow> before_cr (l @ r) = l @ before_cr r"
  by (induction l) (auto simp: before_cr_def)

lemma cr_ok_append: "13 \<notin> set l \<Longrightarrow> cr_ok (l @ r) = cr_ok r"
  by (induction l) (auto simp: cr_ok_def)

lemma grow_line_result:
  assumes "ret p" "line_ok p"
  shows "same_line p (grow_line E p)" "line (grow_line E p) = line p" "has_carriage_rtn (grow_line E p) = has_carriage_rtn p"
    "if ret (grow_line E p) then length (line p) < line_allocated (grow_line E p) else heap_failed E"
    "line_ok (grow_line E p)"
  using assms
  by (cases "conf_malloc E (mallocs (pworld p))"; auto simp: grow_line_def same_line_def line_ok_def renew_def Let_def heap_failed_def)+

lemma parse_byte_result:
  assumes p: "ret p" "line_ok p" and c: "c \<noteq> 10"
  shows "\<exists>p'. parse_byte E p c = Inr p' \<and> same_line p p' \<and> line_ok p' \<and>
    (if ret p' then \<forall>l. cr_ok (line_text p' @ l) = cr_ok (line_text p @ c # l) \<and>
        before_cr (line_text p' @ l) = before_cr (line_text p @ c # l)
     else heap_failed E \<or> (\<forall>l. \<not> cr_ok (line_text p @ c # l)))"
proof -
  note g = grow_line_result [OF p, of E]
  let ?q = "grow_line E p"
  have n: "13 \<notin> set (line p)" using p(2) by (simp add: line_ok_def)
  show ?thesis
  proof (cases "ret ?q")
    case False
    then show ?thesis using g by (simp add: parse_byte_def)
  next
    case True
    then have a: "length (line p) < line_allocated ?q" using g(4) by simp
    consider "c = 13" | "c \<noteq> 13" "has_carriage_rtn p" | "c \<noteq> 13" "\<not> has_carriage_rtn p" by blast
    then show ?thesis
    proof cases
      case 1
      then have "parse_byte E p c = Inr (?q\<lparr>has_carriage_rtn := True\<rparr>)" using True by (simp add: parse_byte_def)
      moreover have "\<forall>l. cr_ok (13 # l) = cr_ok (13 # 13 # l) \<and> before_cr (13 # l) = before_cr (13 # 13 # l)"
        by (simp add: cr_ok_def before_cr_def)
      ultimately show ?thesis using 1 True g n
        by (auto simp: same_line_def line_ok_def line_text_def cr_ok_append before_cr_append)
    next
      case 2
      then have "parse_byte E p c = Inr (?q\<lparr>ret := False\<rparr>)" using True c g(3) by (simp add: parse_byte_def)
      moreover have "\<not> cr_ok (13 # c # l)" for l using 2 by (simp add: cr_ok_def)
      ultimately show ?thesis using 2 g n
        by (auto simp: same_line_def line_ok_def line_text_def cr_ok_append)
    next
      case 3
      then have "parse_byte E p c = Inr (?q\<lparr>line := line ?q @ [c]\<rparr>)" using True c g(2,3) a by (simp add: parse_byte_def)
      then show ?thesis using 3 True g n a
        by (auto simp: same_line_def line_ok_def line_text_def)
    qed
  qed
qed

lemma parse_line_bytes:
  assumes "ret p" "line_ok p" "10 \<notin> set l"
  shows "\<exists>p'. parse_bytes E p l = Inr p' \<and> same_line p p' \<and> line_ok p' \<and>
    (if ret p' then cr_ok (line_text p @ l) \<and> line p' = before_cr (line_text p @ l)
     else heap_failed E \<or> \<not> cr_ok (line_text p @ l))"
  using assms
proof (induction l arbitrary: p)
  case Nil
  then have "13 \<notin> set (line p)" by (simp add: line_ok_def)
  then have "cr_ok (line_text p)" "before_cr (line_text p) = line p"
    using before_cr_append [of "line p" "[]"] cr_ok_append [of "line p" "[]"]
    by (auto simp: line_text_def cr_ok_append before_cr_append) (auto simp: cr_ok_def before_cr_def)
  then show ?case using Nil by (simp add: same_line_def)
next
  case (Cons c l)
  obtain q where q: "parse_byte E p c = Inr q" "same_line p q" "line_ok q"
    "if ret q then \<forall>l. cr_ok (line_text q @ l) = cr_ok (line_text p @ c # l) \<and>
        before_cr (line_text q @ l) = before_cr (line_text p @ c # l)
     else heap_failed E \<or> (\<forall>l. \<not> cr_ok (line_text p @ c # l))"
    using parse_byte_result [of p c E] Cons.prems by auto
  show ?case
  proof (cases "ret q")
    case True
    then show ?thesis using Cons.IH [of q] Cons.prems q by (auto intro: same_line_trans)
  next
    case False
    then show ?thesis using q by auto
  qed
qed

lemma parse_bytes_append:
  "ret p \<Longrightarrow> parse_bytes E p (xs @ ys) = bnd (parse_bytes E p xs) (\<lambda>p. if ret p then parse_bytes E p ys else Inr p)"
  by (induction xs arbitrary: p) (auto simp: bnd_assoc intro!: bnd_cong)

lemma parse_blocks_bytes: "ret p \<Longrightarrow> parse_blocks E p d = parse_bytes E p d"
proof (induction E p d rule: parse_blocks.induct)
  case (1 E p d)
  show ?case
  proof (cases "d = []")
    case True
    then show ?thesis by (simp add: parse_blocks.simps)
  next
    case False
    have "parse_bytes E p d = bnd (parse_bytes E p (take MAX_LINE_LEN d)) (\<lambda>p. if ret p then parse_bytes E p (drop MAX_LINE_LEN d) else Inr p)"
      using parse_bytes_append [OF 1(2), of E "take MAX_LINE_LEN d" "drop MAX_LINE_LEN d"] by simp
    then show ?thesis
      unfolding parse_blocks.simps [of E p d] using False 1(1) by (auto intro!: bnd_cong)
  qed
qed

text \<open>What the loop establishes, from the beginning of a line on.\<close>

definition blocks_left :: "'w parser \<Rightarrow> group_table \<Rightarrow> int" where
  "blocks_left p t = debt (pworld p) t - cur_block (cur_grp p) - (if line_allocated p = 0 then 0 else 1)"

definition at_line :: "'e conf_env_scheme \<Rightarrow> 'w parser \<Rightarrow> group_table \<Rightarrow> bool" where
  "at_line E p t \<longleftrightarrow> ret p \<and> line p = [] \<and> \<not> has_carriage_rtn p \<and> pfile p = Some t \<and> wf_tbl E t \<and> cur_ok t (cur_grp p)"

definition loaded where
  "loaded E p t d p' \<longleftrightarrow>
     (\<exists>t'. pfile p' = Some t' \<and> wf_tbl E t' \<and> conf_world.more (pworld p') = conf_world.more (pworld p) \<and>
      (if ret p' then conf_load (conf_of t) (cur_grp p) d = Some (conf_of t') \<and> blocks_left p' t' = blocks_left p t
       else conf_load (conf_of t) (cur_grp p) d = None \<or> heap_failed E))"

lemma at_line_ok: "at_line E p t \<Longrightarrow> ret p \<and> line_ok p \<and> line_text p = []"
  by (simp add: at_line_def line_ok_def line_text_def)

lemma same_line_blocks: "same_line p q \<Longrightarrow> blocks_left q t = blocks_left p t"
  by (simp add: same_line_def blocks_left_def debt_def)

lemma parse_newline:
  assumes p: "ret q" "line_ok q" "pfile q = Some t" "wf_tbl E t" "cur_ok t (cur_grp q)"
  shows "\<exists>p'. parse_byte E q 10 = Inr p' \<and>
    (if ret p' then \<exists>t'. at_line E p' t' \<and> conf_line (conf_of t) (cur_grp q) (cstr (line q)) = Some (conf_of t', cur_grp p') \<and>
        blocks_left p' t' = blocks_left q t
     else conf_line (conf_of t) (cur_grp q) (cstr (line q)) = None \<or> heap_failed E) \<and>
    conf_world.more (pworld p') = conf_world.more (pworld q) \<and> (\<exists>t'. pfile p' = Some t' \<and> wf_tbl E t')"
proof -
  let ?g = "grow_line E q"
  note g = grow_line_result [OF p(1,2), of E]
  show ?thesis
  proof (cases "ret ?g")
    case False
    then show ?thesis using g p by (simp add: parse_byte_def same_line_def)
  next
    case True
    have s: "pfile ?g = Some t" "cur_grp ?g = cur_grp q" "line ?g = line q"
      using g(1,2) p(3) by (simp_all add: same_line_def)
    obtain ok w' t' cur' where r: "parse_line E (pworld ?g) (Some t) (cstr (line q)) (cur_grp q) = Inr (ok, w', Some t', cur')"
      and lr: "line_result E (pworld ?g) t (cur_grp q) (cstr (line q)) (ok, w', Some t', cur')"
      using parse_line_result [OF p(4,5), of "pworld ?g" "cstr (line q)"] by (auto simp: line_result_def)
    let ?p = "?g\<lparr>has_carriage_rtn := False, pworld := w', pfile := Some t', cur_grp := cur', line := [], ret := ok\<rparr>"
    have call: "parse_byte E q 10 = Inr ?p" using True g(4) s r by (simp add: parse_byte_def)
    have "blocks_left ?p t' = blocks_left ?g t" if ok using lr that s by (simp add: line_result_def blocks_left_def)
    then have "blocks_left ?p t' = blocks_left q t" if ok using that same_line_blocks [OF g(1), of t] by simp
    moreover have "conf_world.more w' = conf_world.more (pworld q)"
      using lr g(1) by (simp add: line_result_def same_line_def)
    ultimately show ?thesis unfolding call using lr by (auto simp: line_result_def at_line_def)
  qed
qed

lemma parse_file_loaded:
  assumes "at_line E p t"
  shows "\<exists>p'. parse_bytes E p d = Inr p' \<and> loaded E p t d p'"
  using assms
proof (induction d arbitrary: p t rule: length_induct)
  case (1 d)
  let ?l = "takeWhile (\<lambda>c. c \<noteq> 10) d" and ?r = "dropWhile (\<lambda>c. c \<noteq> 10) d"
  have d: "d = ?l @ ?r" by simp
  have l: "10 \<notin> set ?l" by (auto dest: set_takeWhileD)
  note p = at_line_ok [OF 1(2)]
  have t: "pfile p = Some t" "wf_tbl E t" "cur_ok t (cur_grp p)" using 1(2) by (auto simp: at_line_def)
  obtain q where q: "parse_bytes E p ?l = Inr q" "same_line p q" "line_ok q"
    and lq: "if ret q then cr_ok ?l \<and> line q = before_cr ?l else heap_failed E \<or> \<not> cr_ok ?l"
    using parse_line_bytes [of p ?l E, unfolded conjunct2 [OF conjunct2 [OF p]] append_Nil] p l by blast
  have s: "pfile q = Some t" "cur_grp q = cur_grp p" "conf_world.more (pworld q) = conf_world.more (pworld p)"
    using q(2) t(1) by (simp_all add: same_line_def)
  have run: "parse_bytes E p d = (if ret q then parse_bytes E q ?r else Inr q)"
    using parse_bytes_append [of p E ?l ?r] p q(1) by simp
  note load = conf_load.simps [of "conf_of t" "cur_grp p" d]
  show ?case
  proof (cases "ret q \<and> ?r \<noteq> []")
    case False
    then have "parse_bytes E p d = Inr q" using run by (auto simp del: dropWhile_eq_Nil_conv)
    moreover have "conf_load (conf_of t) (cur_grp p) d = (if cr_ok ?l then Some (conf_of t) else None)" if "ret q"
      using that False by (simp add: load Let_def del: dropWhile_eq_Nil_conv)
    moreover have "conf_load (conf_of t) (cur_grp p) d = None" if "\<not> cr_ok ?l" using that by (simp add: load Let_def)
    ultimately show ?thesis
      using lq s t(2) same_line_blocks [OF q(2), of t] by (cases "ret q") (auto simp: loaded_def)
  next
    case True
    then obtain r where r: "?r = 10 # r" using hd_dropWhile [of "\<lambda>c. c \<noteq> 10" d] by (cases ?r) auto
    obtain p' where p': "parse_byte E q 10 = Inr p'"
      and c: "if ret p' then \<exists>t'. at_line E p' t' \<and> conf_line (conf_of t) (cur_grp q) (cstr (line q)) = Some (conf_of t', cur_grp p') \<and>
          blocks_left p' t' = blocks_left q t
        else conf_line (conf_of t) (cur_grp q) (cstr (line q)) = None \<or> heap_failed E"
      and m: "conf_world.more (pworld p') = conf_world.more (pworld q)" "\<exists>t'. pfile p' = Some t' \<and> wf_tbl E t'"
      using parse_newline [of q t E] q(3) s(1,2) t True by auto
    have run': "parse_bytes E p d = (if ret p' then parse_bytes E p' r else Inr p')" using run True p' r by simp
    show ?thesis
    proof (cases "ret p'")
      case False
      then show ?thesis using run' c m s lq True r by (auto simp: loaded_def load Let_def)
    next
      case ret: True
      then obtain t' where t': "at_line E p' t'" "conf_line (conf_of t) (cur_grp p) (cstr (before_cr ?l)) = Some (conf_of t', cur_grp p')"
        "blocks_left p' t' = blocks_left p t"
        using c True lq s(2) same_line_blocks [OF q(2), of t] by auto
      have "length r < length d" using d r by (metis add_Suc_right length_Cons length_append less_add_Suc2)
      then obtain e where e: "parse_bytes E p' r = Inr e" "loaded E p' t' r e" using 1(1) t'(1) by blast
      have "conf_load (conf_of t) (cur_grp p) d = conf_load (conf_of t') (cur_grp p') r"
        using t'(2) lq True r by (simp add: load Let_def)
      then show ?thesis using run' ret e t'(3) m(1) s(3) by (auto simp: loaded_def)
    qed
  qed
qed

lemma parse_load_result:
  assumes t: "wf_tbl E t"
  shows "\<exists>ok w' t'. parse_load_frm_fhandler E w (Some t) d = Inr (ok, w', Some t') \<and> wf_tbl E t' \<and>
    conf_world.more w' = conf_world.more w \<and>
    (if ok then conf_load (conf_of t) None d = Some (conf_of t') \<and> debt w' t' = debt w t
     else conf_load (conf_of t) None d = None \<or> heap_failed E)"
proof -
  let ?p = "\<lparr>pworld = w, pfile = Some t, cur_grp = None, line = [], line_allocated = 0, has_carriage_rtn = False, ret = True\<rparr>"
  have a: "at_line E ?p t" using t by (simp add: at_line_def cur_ok_def)
  obtain p' where p': "parse_bytes E ?p d = Inr p'" "loaded E ?p t d p'" using parse_file_loaded [OF a, of d] by blast
  have b: "parse_blocks E ?p d = Inr p'" using p'(1) parse_blocks_bytes [of ?p E d] by simp
  obtain t' where t': "pfile p' = Some t'" "wf_tbl E t'" "conf_world.more (pworld p') = conf_world.more w"
    "if ret p' then conf_load (conf_of t) None d = Some (conf_of t') \<and> blocks_left p' t' = blocks_left ?p t
     else conf_load (conf_of t) None d = None \<or> heap_failed E"
    using p'(2) unfolding loaded_def parser.select_convs by blast
  show ?thesis using t' unfolding parse_load_frm_fhandler_def b
    by (auto simp: blocks_left_def debt_def freed_def cur_block_def)
qed

section \<open>Queries and release\<close>

lemma free_key_list_freed: "free_key_list w kvs = freed (3 * length kvs) w"
  by (induction kvs arbitrary: w) (simp_all add: freed_def)

lemma free_grp_list_freed:
  "\<forall>g\<in>set gs. wf_grp E g \<Longrightarrow> free_grp_list w gs = Inr (freed (sum_mset (image_mset grp_blocks (mset gs))) w)"
proof (induction gs arbitrary: w)
  case (Cons g gs)
  then have "wf_grp E g" by simp
  note d = wf_grpD [OF this]
  show ?case using Cons d by (simp add: free_key_list_freed grp_blocks_def freed_def algebra_simps)
qed (simp add: freed_def)

lemma free_key_file_freed:
  assumes "wf_tbl E t"
  shows "free_key_file w (Some t) = Inr (freed (tbl_blocks t) w)"
proof -
  have "\<forall>g\<in>set (all_grps t). wf_grp E g" using assms by (simp add: wf_tbl_def)
  then show ?thesis using wf_tblD [OF assms] free_grp_list_freed [of "all_grps t" E w]
    by (simp add: free_key_file_def tbl_blocks_def freed_def algebra_simps)
qed

definition strs_of :: "bytes list option \<Rightarrow> bytes set \<Rightarrow> bool" where
  "strs_of r S \<longleftrightarrow> (case r of None \<Rightarrow> S = {} | Some xs \<Rightarrow> distinct xs \<and> set xs = S)"

definition strs_blocks :: "bytes list option \<Rightarrow> int" where
  "strs_blocks r = (case r of None \<Rightarrow> 0 | Some xs \<Rightarrow> int (length xs) + 1)"

lemma free_strs_blocks: "live (free_strs w r) = live w - strs_blocks r" "conf_world.more (free_strs w r) = conf_world.more w"
  by (auto simp: free_strs_def strs_blocks_def freed_def split: option.splits)

text \<open>Copying strings: with room for all of them, it succeeds or gives everything back.\<close>

lemma copy_strs_result:
  assumes "length strs + length rest < room"
  shows "\<exists>r w'. copy_strs E w room strs rest = Inr (r, w') \<and> conf_world.more w' = conf_world.more w \<and>
    (r = None \<and> heap_failed E \<or> r = Some (strs @ rest)) \<and>
    live w' = live w - (int (length strs) + 1) + strs_blocks r"
  using assms
proof (induction rest arbitrary: strs w)
  case Nil
  then show ?case by (simp add: strs_blocks_def)
next
  case (Cons s rest)
  show ?case
  proof (cases "conf_malloc E (mallocs w)")
    case True
    then show ?thesis using Cons.IH [of "strs @ [s]" "w\<lparr>mallocs := mallocs w + 1, live := live w + 1\<rparr>"] Cons.prems
      by (auto simp: world_defs)
  next
    case False
    then show ?thesis using Cons.prems by (auto simp: world_defs heap_failed_def free_strs_def strs_blocks_def)
  qed
qed

lemma copied_strs:
  assumes "length xs < 2 ^ 32 - 1" "xs \<noteq> []" "distinct xs" "room = unat (of_nat (length xs) + 1 :: u32)"
  shows "\<exists>r w'. (case new E w of (False, w) \<Rightarrow> Inr (None, w) | (True, w) \<Rightarrow> copy_strs E w room [] xs) = Inr (r, w') \<and>
    conf_world.more w' = conf_world.more w \<and> live w' = live w + strs_blocks r \<and> (strs_of r (set xs) \<or> r = None \<and> heap_failed E)"
proof -
  have "(of_nat (length xs) + 1 :: u32) = of_nat (Suc (length xs))" by simp
  also have "unat \<dots> = Suc (length xs)" using assms(1) by (simp only: unat_of_nat) simp
  finally have room: "room = Suc (length xs)" using assms(4) by simp
  show ?thesis
  proof (cases "conf_malloc E (mallocs w)")
    case True
    let ?w = "w\<lparr>mallocs := mallocs w + 1, live := live w + 1\<rparr>"
    obtain r w' where "copy_strs E ?w room [] xs = Inr (r, w')" "conf_world.more w' = conf_world.more ?w"
      "r = None \<and> heap_failed E \<or> r = Some xs" "live w' = live ?w - 1 + strs_blocks r"
      using copy_strs_result [of "[]" xs room E ?w] room by auto
    then show ?thesis using True assms(3) by (auto simp: world_defs strs_of_def split: if_splits)
  next
    case False
    then show ?thesis by (auto simp: world_defs strs_blocks_def heap_failed_def)
  qed
qed

definition small_tbl :: "group_table \<Rightarrow> bool" where
  "small_tbl t \<longleftrightarrow> length (all_grps t) < 2 ^ 32 - 1 \<and> (\<forall>g\<in>set (all_grps t). length (all_pairs g) < 2 ^ 32 - 1)"

lemma of_nat_zero_iff: "n < 2 ^ 32 \<Longrightarrow> (of_nat n :: u32) = 0 \<longleftrightarrow> n = 0"
  by (simp add: unat_eq_zero [symmetric] unat_of_nat)

lemma get_grps_result:
  assumes t: "wf_tbl E t" "small_tbl t"
  shows "\<exists>r w'. get_grps E w (Some t) = Inr (r, w') \<and> conf_world.more w' = conf_world.more w \<and>
    live w' = live w + strs_blocks r \<and> (strs_of r (dom (conf_of t)) \<or> r = None \<and> heap_failed E)"
proof -
  note d = wf_tblD [OF t(1)]
  have n: "num_of_grps t = of_nat (length (all_grps t))" "length (all_grps t) < 2 ^ 32 - 1"
    using t by (auto simp: wf_tbl_def small_tbl_def)
  then have z: "num_of_grps t = 0 \<longleftrightarrow> all_grps t = []" using of_nat_zero_iff [of "length (all_grps t)"] by auto
  show ?thesis
  proof (cases "all_grps t = []")
    case True
    then show ?thesis using z by (simp add: get_grps_def strs_of_def strs_blocks_def dom_conf_of)
  next
    case False
    then have "get_grps E w (Some t) = (case new E w of (False, w) \<Rightarrow> Inr (None, w)
        | (True, w) \<Rightarrow> copy_strs E w (unat (num_of_grps t + 1)) [] (map grp_name (all_grps t)))"
      using z d by (simp add: get_grps_def split: prod.split bool.split)
    then show ?thesis
      using copied_strs [of "map grp_name (all_grps t)" "unat (num_of_grps t + 1)" E w] d(6) n False
      by (simp add: dom_conf_of)
  qed
qed

definition conf_keys :: "conf \<Rightarrow> bytes \<Rightarrow> bytes set" where
  "conf_keys c name = (case c name of None \<Rightarrow> {} | Some m \<Rightarrow> dom m)"

definition conf_value :: "conf \<Rightarrow> bytes \<Rightarrow> bytes \<Rightarrow> bytes option" where
  "conf_value c name key = (case c name of None \<Rightarrow> None | Some m \<Rightarrow> m key)"

lemma get_keys_result:
  assumes t: "wf_tbl E t" "small_tbl t"
  shows "\<exists>r w'. get_keys E w (Some t) name = Inr (r, w') \<and> conf_world.more w' = conf_world.more w \<and>
    live w' = live w + strs_blocks r \<and> (strs_of r (if name = [] then {} else conf_keys (conf_of t) name) \<or> r = None \<and> heap_failed E)"
proof -
  note d = wf_tblD [OF t(1)]
  have n: "num_of_grps t = of_nat (length (all_grps t))" "length (all_grps t) < 2 ^ 32 - 1"
    using t by (auto simp: wf_tbl_def small_tbl_def)
  then have z: "num_of_grps t = 0 \<longleftrightarrow> all_grps t = []" using of_nat_zero_iff [of "length (all_grps t)"] by auto
  let ?f = "find (\<lambda>g. grp_name g = name) (all_grps t)"
  show ?thesis
  proof (cases "name = [] \<or> all_grps t = [] \<or> ?f = None")
    case True
    then have "get_keys E w (Some t) name = Inr (None, w)" using z d by (auto simp: get_keys_def find_grp_slot [OF t(1)])
    moreover have "name = [] \<or> conf_keys (conf_of t) name = {}" using True by (auto simp: conf_keys_def conf_of_find)
    ultimately show ?thesis by (auto simp: strs_of_def strs_blocks_def)
  next
    case False
    then obtain g where g: "?f = Some g" by auto
    then have gin: "g \<in> set (all_grps t)" by (auto dest: find_SomeD)
    then have gw: "wf_grp E g" and sm: "length (all_pairs g) < 2 ^ 32 - 1" using t by (auto simp: wf_tbl_def small_tbl_def)
    note dg = wf_grpD [OF gw]
    have m: "num_of_keys g = of_nat (length (all_pairs g))" using gw by (simp add: wf_grp_def)
    then have zg: "num_of_keys g = 0 \<longleftrightarrow> all_pairs g = []" using of_nat_zero_iff [of "length (all_pairs g)"] sm by auto
    have S: "conf_keys (conf_of t) name = kv_key ` set (all_pairs g)" using g by (simp add: conf_keys_def conf_of_find dom_kv_map)
    show ?thesis
    proof (cases "all_pairs g = []")
      case True
      then have "get_keys E w (Some t) name = Inr (None, w)"
        using False z zg d g by (simp add: get_keys_def find_grp_slot [OF t(1)])
      then show ?thesis using True S by (auto simp: strs_of_def strs_blocks_def)
    next
      case ne: False
      then have "get_keys E w (Some t) name = (case new E w of (False, w) \<Rightarrow> Inr (None, w)
          | (True, w) \<Rightarrow> copy_strs E w (unat (num_of_keys g + 1)) [] (map kv_key (all_pairs g)))"
        using False z zg d g dg by (simp add: get_keys_def find_grp_slot [OF t(1)] split: prod.split bool.split)
      then show ?thesis
        using copied_strs [of "map kv_key (all_pairs g)" "unat (num_of_keys g + 1)" E w] ne dg m sm S False by simp
    qed
  qed
qed

lemma find_grp_with_keys_find:
  "\<forall>g\<in>set gs. wf_grp E g \<Longrightarrow> find_grp_with_keys name gs = find_grp name gs"
  by (induction gs) (auto simp: wf_grp_def)

lemma get_value_result:
  assumes t: "wf_tbl E t"
  shows "\<exists>r w'. get_value E w (Some t) name key = Inr (r, w') \<and> conf_world.more w' = conf_world.more w \<and>
    live w' = live w + (if r = None then 0 else 1) \<and>
    (r = (if name = [] \<or> key = [] then None else conf_value (conf_of t) name key) \<or> r = None \<and> heap_failed E)"
proof -
  note d = wf_tblD [OF t]
  let ?chain = "grps_hash t ! (unat (get_hash_code E name) mod 10)"
  let ?f = "find (\<lambda>g. grp_name g = name) (all_grps t)"
  have "\<forall>g\<in>set ?chain. wf_grp E g" using t grps.slot_subset [OF d(3), of name] by (auto simp: wf_tbl_def all_grps_def)
  then have f: "find_grp_with_keys name ?chain = ?f"
    using find_grp_with_keys_find find_grp_slot [OF t] by metis
  show ?thesis
  proof (cases "name = [] \<or> key = [] \<or> ?f = None")
    case True
    then have "get_value E w (Some t) name key = Inr (None, w)" using d by (auto simp: get_value_def f)
    then show ?thesis using True by (auto simp: conf_value_def conf_of_find)
  next
    case False
    then obtain g where g: "?f = Some g" by auto
    then have gw: "wf_grp E g" using t by (auto simp: wf_tbl_def dest: find_SomeD)
    note dg = wf_grpD [OF gw]
    have v: "conf_value (conf_of t) name key = map_option kv_value (find (\<lambda>kv. kv_key kv = key) (all_pairs g))"
      using g by (simp add: conf_value_def conf_of_find kv_map_find)
    show ?thesis
    proof (cases "find (\<lambda>kv. kv_key kv = key) (all_pairs g)")
      case None
      then show ?thesis using False d dg g v by (simp add: get_value_def f find_key_slot [OF gw])
    next
      case (Some kv)
      then have "get_value E w (Some t) name key = (case new E w of (False, w) \<Rightarrow> Inr (None, w) | (True, w) \<Rightarrow> Inr (Some (kv_value kv), w))"
        using False d dg g by (simp add: get_value_def f find_key_slot [OF gw])
      then show ?thesis using Some v False
        by (cases "conf_malloc E (mallocs w)") (auto simp: world_defs heap_failed_def)
    qed
  qed
qed

section \<open>The loaded map\<close>

text \<open>Groups and keys of a file have names, and there are not more of them than bytes.\<close>

definition conf_bound :: "nat \<Rightarrow> conf \<Rightarrow> bool" where
  "conf_bound n c \<longleftrightarrow>
     finite (dom c) \<and> card (dom c) \<le> n \<and> [] \<notin> dom c \<and>
     (\<forall>m\<in>ran c. finite (dom m) \<and> card (dom m) \<le> n \<and> [] \<notin> dom m)"

lemma card_insert_bound: "card A \<le> n \<Longrightarrow> card (insert a A) \<le> Suc n"
  by (cases "finite A") (simp_all add: card_insert_if)

lemma conf_bound_Suc: "conf_bound n c \<Longrightarrow> conf_bound (Suc n) c"
  by (auto simp: conf_bound_def)

lemma conf_bound_upd:
  assumes "conf_bound n c" "name \<noteq> []" "finite (dom m)" "card (dom m) \<le> Suc n" "[] \<notin> dom m"
  shows "conf_bound (Suc n) (c(name \<mapsto> m))"
proof -
  have "m' = m \<or> m' \<in> ran c" if "m' \<in> ran (c(name \<mapsto> m))" for m'
    using that by (auto simp: ran_def split: if_splits)
  then have "finite (dom m') \<and> card (dom m') \<le> Suc n \<and> [] \<notin> dom m'" if "m' \<in> ran (c(name \<mapsto> m))" for m'
    using that assms conf_bound_Suc [OF assms(1)] unfolding conf_bound_def by blast
  moreover have "finite (dom (c(name \<mapsto> m)))" "card (dom (c(name \<mapsto> m))) \<le> Suc n" "[] \<notin> dom (c(name \<mapsto> m))"
    using assms(1,2) by (simp_all add: conf_bound_def card_insert_bound)
  ultimately show ?thesis unfolding conf_bound_def by blast
qed

lemma conf_line_bound:
  assumes "conf_line c g l = Some (c', g')" "conf_bound n c" "g \<noteq> None \<Longrightarrow> the g \<in> dom c"
  shows "conf_bound (Suc n) c' \<and> (g' \<noteq> None \<longrightarrow> the g' \<in> dom c')"
proof -
  let ?s = "dropWhile isspace l"
  consider "c' = c" "g' = g"
    | name where "grp_of_line ?s = Some name" "c' = c(name \<mapsto> Map.empty)" "g' = Some name"
    | name k v where "g = Some name" "pair_of_line ?s = Some (k, v)" "c' = c(name \<mapsto> (the (c name))(k \<mapsto> v))" "g' = g"
    using assms(1) by (auto simp: conf_line_def Let_def split: if_splits option.splits)
  then show ?thesis
  proof cases
    case 1
    then show ?thesis using assms(2,3) conf_bound_Suc by blast
  next
    case (2 name)
    then show ?thesis using conf_bound_upd [OF assms(2) grp_of_line_name [OF 2(1)], of Map.empty] by simp
  next
    case (3 name k v)
    then obtain m where m: "c name = Some m" using assms(3) by auto
    then have "finite (dom m)" "card (dom m) \<le> n" "[] \<notin> dom m" "name \<noteq> []"
      using assms(2) by (auto simp: conf_bound_def ran_def)
    then have "conf_bound (Suc n) (c(name \<mapsto> m(k \<mapsto> v)))"
      using pair_of_line_key [OF 3(2)] by (intro conf_bound_upd [OF assms(2)]) (simp_all add: card_insert_bound)
    then show ?thesis using 3 m by simp
  qed
qed

lemma conf_load_bound:
  "conf_load c g d = Some c' \<Longrightarrow> conf_bound n c \<Longrightarrow> g \<noteq> None \<longrightarrow> the g \<in> dom c \<Longrightarrow> conf_bound (n + length d) c'"
proof (induction c g d arbitrary: n rule: conf_load.induct)
  case (1 c g d)
  let ?l = "takeWhile (\<lambda>c. c \<noteq> 10) d" and ?r = "dropWhile (\<lambda>c. c \<noteq> 10) d"
  note load = conf_load.simps [of c g d]
  have mono: "conf_bound k e \<Longrightarrow> k \<le> j \<Longrightarrow> conf_bound j e" for k j e by (auto simp: conf_bound_def)
  show ?case
  proof (cases "?r = []")
    case True
    then have "c' = c" using 1(2) by (auto simp: load Let_def simp del: dropWhile_eq_Nil_conv split: if_splits)
    then show ?thesis using 1(3) mono by auto
  next
    case False
    then obtain c1 g1 where s: "cr_ok ?l" "conf_line c g (cstr (before_cr ?l)) = Some (c1, g1)" "conf_load c1 g1 (tl ?r) = Some c'"
      using 1(2) by (auto simp: load Let_def simp del: dropWhile_eq_Nil_conv split: if_splits option.splits)
    have b: "conf_bound (Suc n) c1 \<and> (g1 \<noteq> None \<longrightarrow> the g1 \<in> dom c1)"
      using conf_line_bound [OF s(2) 1(3)] 1(4) by blast
    then have "conf_bound (Suc n + length (tl ?r)) c'"
      using 1(1) [OF refl refl _ False s(2) refl s(3)] s(1) by blast
    moreover have "Suc n + length (tl ?r) \<le> n + length d"
      using False line_shorter [of "\<lambda>c. c \<noteq> 10" d] by simp
    ultimately show ?thesis using mono by blast
  qed
qed

lemma length_distinct_image: "distinct (map f xs) \<Longrightarrow> length xs = card (f ` set xs)"
  by (metis distinct_card length_map set_map)

lemma length_all_grps: "wf_tbl E t \<Longrightarrow> length (all_grps t) = card (dom (conf_of t))"
  using wf_tblD(6) [of E t] by (simp add: dom_conf_of length_distinct_image)

lemma length_all_pairs: "wf_grp E g \<Longrightarrow> length (all_pairs g) = card (dom (kv_map g))"
  using wf_grpD(6) [of E g] by (simp add: dom_kv_map length_distinct_image)

lemma kv_map_in_conf: "wf_tbl E t \<Longrightarrow> g \<in> set (all_grps t) \<Longrightarrow> conf_of t (grp_name g) = Some (kv_map g)"
  using find_unique [OF wf_tblD(6), of E t g] by (simp add: conf_of_find)

lemma small_of_bound:
  assumes "wf_tbl E t" "conf_bound n (conf_of t)" "n < 2 ^ 32 - 1"
  shows "small_tbl t"
proof -
  have "length (all_pairs g) \<le> n" if g: "g \<in> set (all_grps t)" for g
  proof -
    have "wf_grp E g" using assms(1) g by (simp add: wf_tbl_def)
    moreover have "kv_map g \<in> ran (conf_of t)" using kv_map_in_conf [OF assms(1) g] by (rule ranI)
    ultimately show ?thesis using assms(2) by (simp add: length_all_pairs conf_bound_def)
  qed
  then show ?thesis using assms length_all_grps [OF assms(1)] by (fastforce simp: small_tbl_def conf_bound_def)
qed

text \<open>A table that was loaded from a file.\<close>

definition stores :: "'e conf_env_scheme \<Rightarrow> group_table \<Rightarrow> conf \<Rightarrow> bool" where
  "stores E t c \<longleftrightarrow> wf_tbl E t \<and> small_tbl t \<and> conf_of t = c \<and> [] \<notin> dom c \<and> (\<forall>m\<in>ran c. [] \<notin> dom m)"

lemma stores_value:
  assumes "stores E t c"
  shows "\<exists>r w'. get_value E w (Some t) g k = Inr (r, w') \<and> conf_world.more w' = conf_world.more w \<and>
    live w' = live w + (if r = None then 0 else 1) \<and> (r = conf_value c g k \<or> r = None \<and> heap_failed E)"
proof -
  have "g = [] \<or> k = [] \<Longrightarrow> conf_value c g k = None"
    using assms by (auto simp: stores_def conf_value_def ran_def dom_def split: option.splits)
  then have "(if g = [] \<or> k = [] then None else conf_value (conf_of t) g k) = conf_value c g k"
    using assms by (simp add: stores_def)
  then show ?thesis using get_value_result [of E t w g k] assms by (simp add: stores_def)
qed

lemma stores_keys:
  assumes "stores E t c"
  shows "\<exists>r w'. get_keys E w (Some t) g = Inr (r, w') \<and> conf_world.more w' = conf_world.more w \<and>
    live w' = live w + strs_blocks r \<and> (strs_of r (conf_keys c g) \<or> r = None \<and> heap_failed E)"
proof -
  have "g = [] \<Longrightarrow> conf_keys c g = {}"
    using assms by (auto simp: stores_def conf_keys_def dom_def split: option.splits)
  then have "(if g = [] then {} else conf_keys (conf_of t) g) = conf_keys c g" using assms by (simp add: stores_def)
  then show ?thesis using get_keys_result [of E t w g] assms by (simp add: stores_def)
qed

lemma stores_grps:
  assumes "stores E t c"
  shows "\<exists>r w'. get_grps E w (Some t) = Inr (r, w') \<and> conf_world.more w' = conf_world.more w \<and>
    live w' = live w + strs_blocks r \<and> (strs_of r (dom c) \<or> r = None \<and> heap_failed E)"
  using get_grps_result [of E t w] assms by (simp add: stores_def)

text \<open>The two blocks of a pair that the parser never frees.\<close>

definition conf_pairs :: "conf \<Rightarrow> nat" where
  "conf_pairs c = (\<Sum>g\<in>dom c. card (dom (the (c g))))"

lemma tbl_pairs_conf:
  assumes "wf_tbl E t"
  shows "tbl_pairs t = conf_pairs (conf_of t)"
proof -
  have d: "distinct (map grp_name (all_grps t))" by (rule wf_tblD(6) [OF assms])
  then have i: "inj_on grp_name (set (all_grps t))" by (simp add: distinct_map)
  have "tbl_pairs t = (\<Sum>g\<in>set (all_grps t). length (all_pairs g))"
    using d by (simp add: tbl_pairs_def sum_mset_sum_list mset_map [symmetric] sum_list_distinct_conv_sum_set distinct_map del: mset_map)
  also have "\<dots> = (\<Sum>g\<in>set (all_grps t). card (dom (the (conf_of t (grp_name g)))))"
    using assms length_all_pairs [of E] by (intro sum.cong) (auto simp: kv_map_in_conf wf_tbl_def)
  also have "\<dots> = conf_pairs (conf_of t)"
    by (simp add: conf_pairs_def dom_conf_of sum.reindex [OF i])
  finally show ?thesis .
qed

lemma parse_bytes_without_table:
  assumes "ret p" "line_ok p" "pfile p = None"
  shows "\<exists>p'. parse_bytes E p d = Inr p' \<and> pfile p' = None \<and> conf_world.more (pworld p') = conf_world.more (pworld p)"
  using assms
proof (induction d arbitrary: p)
  case (Cons c d)
  have "\<exists>q. parse_byte E p c = Inr q \<and> line_ok q \<and> pfile q = None \<and> conf_world.more (pworld q) = conf_world.more (pworld p)"
  proof (cases "c = 10")
    case True
    then show ?thesis using grow_line_result [OF Cons.prems(1,2), of E] Cons.prems(3)
      by (cases "ret (grow_line E p)") (simp_all add: parse_byte_def parse_line_def same_line_def line_ok_def)
  next
    case False
    then show ?thesis using parse_byte_result [OF Cons.prems(1,2), of c E] Cons.prems(3) by (auto simp: same_line_def)
  qed
  then obtain q where q: "parse_byte E p c = Inr q" "line_ok q" "pfile q = None" "conf_world.more (pworld q) = conf_world.more (pworld p)"
    by blast
  then show ?case using Cons.IH [of q] by (cases "ret q") auto
qed simp

lemma parse_without_table:
  "\<exists>ok w'. parse_load_frm_fhandler E w None d = Inr (ok, w', None) \<and> conf_world.more w' = conf_world.more w"
proof -
  let ?p = "\<lparr>pworld = w, pfile = None, cur_grp = None, line = [], line_allocated = 0, has_carriage_rtn = False, ret = True\<rparr>"
  obtain p' where "parse_bytes E ?p d = Inr p'" "pfile p' = None" "conf_world.more (pworld p') = conf_world.more w"
    using parse_bytes_without_table [of ?p E d] by (auto simp: line_ok_def)
  then show ?thesis using parse_blocks_bytes [of ?p E d] by (simp add: parse_load_frm_fhandler_def freed_def)
qed

lemma parse_load_file_stores:
  assumes k: "get_key_file E w = (kf, w1)" and d: "conf_file E name = Some d" "name \<noteq> []" "length d < 2 ^ 32 - 1"
  shows "\<exists>ok w2 kf'. parse_load_file E w1 kf (Some name) = Inr (ok, w2, kf') \<and>
    conf_world.more w2 = conf_world.more w \<and>
    (if ok \<and> kf' \<noteq> None
     then \<exists>t c. kf' = Some t \<and> conf_load Map.empty None d = Some c \<and> stores E t c \<and>
       live w2 = live w + int (tbl_blocks t) + 2 * int (conf_pairs c)
     else (kf' = None \<or> (\<exists>t. kf' = Some t \<and> wf_tbl E t)) \<and> (conf_load Map.empty None d = None \<or> heap_failed E))"
proof (cases kf)
  case None
  then have "heap_failed E" using get_key_file_result(2) [OF k] by simp
  then show ?thesis using None d get_key_file_result(1) [OF k] parse_without_table [of E w1 d]
    by (auto simp: parse_load_file_def)
next
  case (Some t)
  note g = get_key_file_result [OF k]
  have t: "wf_tbl E t" "conf_of t = Map.empty" "live w1 = live w + int (tbl_blocks t)" "tbl_pairs t = 0"
    using g(3) Some by auto
  obtain ok w2 t' where p: "parse_load_frm_fhandler E w1 (Some t) d = Inr (ok, w2, Some t')" "wf_tbl E t'"
    "conf_world.more w2 = conf_world.more w1"
    and r: "if ok then conf_load Map.empty None d = Some (conf_of t') \<and> debt w2 t' = debt w1 t
      else conf_load Map.empty None d = None \<or> heap_failed E"
    using parse_load_result [OF t(1), of w1 d, unfolded t(2)] by blast
  have call: "parse_load_file E w1 kf (Some name) = Inr (ok, w2, Some t')" using p(1) d Some by (simp add: parse_load_file_def)
  show ?thesis
  proof (cases ok)
    case True
    then have l: "conf_load Map.empty None d = Some (conf_of t')" "debt w2 t' = debt w1 t" using r by auto
    have b: "conf_bound (0 + length d) (conf_of t')"
      by (rule conf_load_bound [OF l(1)]) (simp_all add: conf_bound_def ran_def)
    have "stores E t' (conf_of t')"
      using b small_of_bound [OF p(2) b] p(2) d(3) by (auto simp: stores_def conf_bound_def)
    moreover have "live w2 = live w + int (tbl_blocks t') + 2 * int (conf_pairs (conf_of t'))"
      using l(2) t(3,4) tbl_pairs_conf [OF p(2)] by (simp add: debt_def)
    ultimately show ?thesis using call True l(1) p(3) g(1) by auto
  next
    case False
    then show ?thesis using call r p g(1) by auto
  qed
qed

section \<open>Writing a file\<close>

text \<open>The text of a list of groups with their pairs.\<close>

definition pairs_text :: "(bytes \<times> bytes) list \<Rightarrow> bytes" where
  "pairs_text kvs = concat (map (\<lambda>(k, v). k @ [61] @ v @ [10]) kvs)"

definition conf_text :: "(bytes \<times> (bytes \<times> bytes) list) list \<Rightarrow> bytes" where
  "conf_text cs = concat (map (\<lambda>(g, kvs). [91] @ g @ [93, 10] @ pairs_text kvs) cs)"

definition is_name :: "bytes \<Rightarrow> bool" where
  "is_name s \<longleftrightarrow> s \<noteq> [] \<and> list_all isalnum s"

definition is_value :: "bytes \<Rightarrow> bool" where
  "is_value v \<longleftrightarrow> list_all (\<lambda>c. c \<noteq> 0 \<and> c \<noteq> 10 \<and> c \<noteq> 13) v"

definition writable :: "(bytes \<times> (bytes \<times> bytes) list) list \<Rightarrow> bool" where
  "writable cs \<longleftrightarrow>
     distinct (map fst cs) \<and>
     list_all (\<lambda>(g, kvs). is_name g \<and> distinct (map fst kvs) \<and> list_all (\<lambda>(k, v). is_name k \<and> is_value v) kvs) cs"

lemma alnum_other: "isalnum c \<Longrightarrow> c \<noteq> 0 \<and> c \<noteq> 10 \<and> c \<noteq> 13 \<and> c \<noteq> 35 \<and> c \<noteq> 61 \<and> c \<noteq> 91 \<and> c \<noteq> 93 \<and> \<not> isspace c"
  by (auto simp: isalnum_def isspace_def word_le_nat_alt)

lemma name_set: "list_all isalnum s \<Longrightarrow> x \<in> set s \<Longrightarrow> isalnum x"
  by (simp add: list_all_iff)

lemma name_hd: "is_name s \<Longrightarrow> \<exists>c r. s = c # r \<and> isalnum c \<and> list_all isalnum r"
  by (cases s) (auto simp: is_name_def)

lemma takeWhile_upto: "(\<And>x. x \<in> set s \<Longrightarrow> x \<noteq> y) \<Longrightarrow> takeWhile (\<lambda>c. c \<noteq> y) (s @ y # r) = s"
  by (induction s) auto

lemma dropWhile_upto: "(\<And>x. x \<in> set s \<Longrightarrow> x \<noteq> y) \<Longrightarrow> dropWhile (\<lambda>c. c \<noteq> y) (s @ y # r) = y # r"
  by (induction s) auto

lemma conf_load_line:
  assumes "\<And>x. x \<in> set l \<Longrightarrow> x \<noteq> 0 \<and> x \<noteq> 10 \<and> x \<noteq> 13"
  shows "conf_load c g (l @ 10 # r) = (case conf_line c g l of None \<Rightarrow> None | Some (c, g) \<Rightarrow> conf_load c g r)"
proof -
  have "cr_ok l" using assms cr_ok_append [of l "[]"] by (auto simp: cr_ok_def)
  moreover have "before_cr l = l" "cstr l = l"
    unfolding before_cr_def cstr_def takeWhile_eq_all_conv using assms by auto
  moreover have "takeWhile (\<lambda>c. c \<noteq> 10) (l @ 10 # r) = l" "dropWhile (\<lambda>c. c \<noteq> 10) (l @ 10 # r) = 10 # r"
    using assms by (auto intro!: takeWhile_upto dropWhile_upto)
  ultimately show ?thesis by (simp add: conf_load.simps [of c g "l @ 10 # r"] Let_def split: option.split prod.split)
qed

lemma conf_line_pair:
  assumes "is_name k"
  shows "conf_line c (Some g) (k @ 61 # v) =
    (if k \<in> dom (the (c g)) then None else Some (c(g \<mapsto> (the (c g))(k \<mapsto> v)), Some g))"
proof -
  obtain a r where k: "k = a # r" "isalnum a" "list_all isalnum r" using name_hd [OF assms] by blast
  note o = alnum_other [OF k(2)]
  have "pair_of_line (k @ 61 # v) = Some (k, v)"
    using takeWhile_upto [of k 61 v] dropWhile_upto [of k 61 v] assms alnum_other
    by (auto simp: pair_of_line_def is_name_def Let_def list_all_iff)
  then show ?thesis using k(1) o by (simp add: conf_line_def line_is_comment_def grp_of_line_def)
qed

lemma conf_line_grp:
  assumes "is_name n"
  shows "conf_line c g (91 # n @ [93]) = (if n \<in> dom c then None else Some (c(n \<mapsto> Map.empty), Some n))"
proof -
  have "takeWhile (\<lambda>c. c \<noteq> 93) (n @ [93]) = n" "dropWhile (\<lambda>c. c \<noteq> 93) (n @ [93]) = [93]"
    using takeWhile_upto [of n 93 "[]"] dropWhile_upto [of n 93 "[]"] assms alnum_other
    by (auto simp: is_name_def list_all_iff)
  then have "grp_of_line (91 # n @ [93]) = Some n" using assms by (simp add: grp_of_line_def is_name_def)
  then show ?thesis by (simp add: conf_line_def line_is_comment_def isspace_def word_le_nat_alt)
qed

lemma conf_load_pairs:
  assumes "list_all (\<lambda>(k, v). is_name k \<and> is_value v) kvs" "distinct (map fst kvs)" "c g = Some m" "dom m \<inter> fst ` set kvs = {}"
  shows "conf_load c (Some g) (pairs_text kvs @ r) = conf_load (c(g \<mapsto> m ++ map_of kvs)) (Some g) r"
  using assms
proof (induction kvs arbitrary: c m)
  case Nil
  then have "c(g \<mapsto> m) = c" by auto
  then show ?case by (simp add: pairs_text_def)
next
  case (Cons kv kvs)
  obtain k v where kv: "kv = (k, v)" by (cases kv)
  have n: "is_name k" "is_value v" using Cons.prems(1) kv by auto
  have t: "pairs_text (kv # kvs) @ r = (k @ 61 # v) @ 10 # pairs_text kvs @ r" by (simp add: pairs_text_def kv)
  have l: "conf_load c (Some g) (pairs_text (kv # kvs) @ r) = conf_load (c(g \<mapsto> m(k \<mapsto> v))) (Some g) (pairs_text kvs @ r)"
    unfolding t by (subst conf_load_line)
      (use n Cons.prems(3,4) kv alnum_other in \<open>auto simp: conf_line_pair is_name_def is_value_def list_all_iff\<close>)
  have m: "m(k \<mapsto> v) ++ map_of kvs = m ++ map_of (kv # kvs)"
    using Cons.prems(2) kv by (auto simp: map_add_def fun_eq_iff map_of_eq_None_iff image_iff split: option.splits)
  have "dom m \<inter> fst ` set kvs = {}" "k \<notin> fst ` set kvs" using Cons.prems(2,4) kv by auto
  then have d: "dom (m(k \<mapsto> v)) \<inter> fst ` set kvs = {}" by simp
  have "conf_load c' (Some g) (pairs_text kvs @ r) = conf_load (c'(g \<mapsto> m' ++ map_of kvs)) (Some g) r"
    if "c' g = Some m'" "dom m' \<inter> fst ` set kvs = {}" for c' m'
    using Cons.IH [of c' m'] Cons.prems(1,2) that by (simp add: fun_upd_def)
  from this [OF _ d, of "c(g \<mapsto> m(k \<mapsto> v))"]
  have "conf_load c (Some g) (pairs_text (kv # kvs) @ r) = conf_load (c(g \<mapsto> m ++ map_of (kv # kvs))) (Some g) r"
    using l m by simp
  then show ?case by (simp add: fun_upd_def)
qed

definition conf_map :: "(bytes \<times> (bytes \<times> bytes) list) list \<Rightarrow> conf" where
  "conf_map cs = map_of (map (\<lambda>(g, kvs). (g, map_of kvs)) cs)"

lemma dom_conf_map: "dom (conf_map cs) = fst ` set cs"
  by (force simp: conf_map_def dom_map_of_conv_image_fst)

lemma conf_load_text:
  assumes "writable cs" "dom c \<inter> fst ` set cs = {}"
  shows "conf_load c g (conf_text cs) = Some (c ++ conf_map cs)"
  using assms
proof (induction cs arbitrary: c g)
  case Nil
  then show ?case by (simp add: conf_text_def conf_load.simps conf_map_def cr_ok_def)
next
  case (Cons p cs)
  obtain n kvs where p: "p = (n, kvs)" by (cases p)
  have n: "is_name n" "list_all (\<lambda>(k, v). is_name k \<and> is_value v) kvs" "distinct (map fst kvs)" "writable cs" "n \<notin> dom c" "n \<notin> fst ` set cs"
    using Cons.prems p by (auto simp: writable_def)
  have t: "conf_text (p # cs) = (91 # n @ [93]) @ 10 # pairs_text kvs @ conf_text cs" by (simp add: conf_text_def p)
  have "conf_load c g (conf_text (p # cs)) = conf_load (c(n \<mapsto> Map.empty)) (Some n) (pairs_text kvs @ conf_text cs)"
    unfolding t by (subst conf_load_line)
      (use n(1,5) alnum_other in \<open>auto simp: conf_line_grp is_name_def list_all_iff\<close>)
  also have "\<dots> = conf_load (c(n \<mapsto> map_of kvs)) (Some n) (conf_text cs)"
    using conf_load_pairs [OF n(2,3), of "c(n \<mapsto> Map.empty)" n Map.empty] by simp
  also have "\<dots> = Some (c(n \<mapsto> map_of kvs) ++ conf_map cs)"
  proof (rule Cons.IH [OF n(4)])
    have "dom c \<inter> fst ` set cs = {}" using Cons.prems(2) by auto
    then show "dom (c(n \<mapsto> map_of kvs)) \<inter> fst ` set cs = {}" using n(6) by simp
  qed
  also have "c(n \<mapsto> map_of kvs) ++ conf_map cs = c ++ conf_map (p # cs)"
    using n(6) by (simp add: map_add_upd_left dom_conf_map) (simp add: conf_map_def p)
  finally show ?case .
qed

text \<open>The names in a file have only letters and digits, and no value is longer than the file.\<close>

definition conf_all :: "nat \<Rightarrow> conf \<Rightarrow> bool" where
  "conf_all n c \<longleftrightarrow>
     (\<forall>g m. c g = Some m \<longrightarrow> is_name g \<and> (\<forall>k v. m k = Some v \<longrightarrow> is_name k \<and> length v \<le> n))"

lemma conf_line_all:
  assumes "conf_line c g l = Some (c', g')" "conf_all n c" "g \<noteq> None \<Longrightarrow> the g \<in> dom c" "length l \<le> n"
  shows "conf_all n c' \<and> (g' \<noteq> None \<longrightarrow> the g' \<in> dom c')"
proof -
  let ?s = "dropWhile isspace l"
  consider "c' = c" "g' = g"
    | name where "grp_of_line ?s = Some name" "c' = c(name \<mapsto> Map.empty)" "g' = Some name"
    | name k v where "g = Some name" "pair_of_line ?s = Some (k, v)" "c' = c(name \<mapsto> (the (c name))(k \<mapsto> v))" "g' = g"
    using assms(1) by (auto simp: conf_line_def Let_def split: if_splits option.splits)
  then show ?thesis
  proof cases
    case 1
    then show ?thesis using assms(2,3) by blast
  next
    case (2 name)
    then have "is_name name" by (auto simp: grp_of_line_def is_name_def Let_def split: if_splits)
    then show ?thesis using 2 assms(2) by (simp add: conf_all_def)
  next
    case (3 name k v)
    then obtain m where m: "c name = Some m" using assms(3) by auto
    have "length v \<le> length (dropWhile (\<lambda>c. c \<noteq> 61) ?s)" "is_name k"
      using 3(2) by (auto simp: pair_of_line_def is_name_def Let_def split: if_splits)
    moreover have "length (dropWhile (\<lambda>c. c \<noteq> 61) ?s) \<le> length l"
      using length_dropWhile_le [of "\<lambda>c. c \<noteq> 61" ?s] length_dropWhile_le [of isspace l] by linarith
    ultimately show ?thesis using 3 m assms(2,4) by (simp add: conf_all_def)
  qed
qed

lemma conf_load_all:
  "conf_load c g d = Some c' \<Longrightarrow> conf_all n c \<Longrightarrow> g \<noteq> None \<longrightarrow> the g \<in> dom c \<Longrightarrow> length d \<le> n \<Longrightarrow> conf_all n c'"
proof (induction c g d rule: conf_load.induct)
  case (1 c g d)
  let ?l = "takeWhile (\<lambda>c. c \<noteq> 10) d" and ?r = "dropWhile (\<lambda>c. c \<noteq> 10) d"
  note load = conf_load.simps [of c g d]
  show ?case
  proof (cases "?r = []")
    case True
    then have "c' = c" using 1(2) by (auto simp: load Let_def simp del: dropWhile_eq_Nil_conv split: if_splits)
    then show ?thesis using 1(3) by simp
  next
    case False
    then obtain c1 g1 where s: "cr_ok ?l" "conf_line c g (cstr (before_cr ?l)) = Some (c1, g1)" "conf_load c1 g1 (tl ?r) = Some c'"
      using 1(2) by (auto simp: load Let_def simp del: dropWhile_eq_Nil_conv split: if_splits option.splits)
    have "length (cstr (before_cr ?l)) \<le> length d"
      unfolding cstr_def before_cr_def using length_takeWhile_le le_trans by blast
    then have b: "conf_all n c1 \<and> (g1 \<noteq> None \<longrightarrow> the g1 \<in> dom c1)"
      using conf_line_all [OF s(2) 1(3)] 1(4,5) by fastforce
    moreover have "length (tl ?r) \<le> n" using False line_shorter [of "\<lambda>c. c \<noteq> 10" d] 1(5) by simp
    ultimately show ?thesis using 1(1) [OF refl refl _ False s(2) refl s(3)] s(1) by blast
  qed
qed

section \<open>Main theorems\<close>

lemma load_succeeds:
  assumes "\<not> heap_failed E" "conf_file E name = Some d" "name \<noteq> []" "length d < 2 ^ 32 - 1" "get_key_file E w = (kf, w1)"
  shows "\<exists>ok w2 t. parse_load_file E w1 kf (Some name) = Inr (ok, w2, Some t) \<and>
    (case conf_load Map.empty None d of
       None \<Rightarrow> \<not> ok
     | Some c \<Rightarrow> ok \<and> stores E t c \<and> live w2 = live w + int (tbl_blocks t) + 2 * int (conf_pairs c))"
proof -
  have "kf \<noteq> None" using get_key_file_result(2) [OF assms(5)] assms(1) by blast
  moreover obtain ok w2 kf' where p: "parse_load_file E w1 kf (Some name) = Inr (ok, w2, kf')"
    and r: "if ok \<and> kf' \<noteq> None
     then \<exists>t c. kf' = Some t \<and> conf_load Map.empty None d = Some c \<and> stores E t c \<and>
       live w2 = live w + int (tbl_blocks t) + 2 * int (conf_pairs c)
     else (kf' = None \<or> (\<exists>t. kf' = Some t \<and> wf_tbl E t)) \<and> (conf_load Map.empty None d = None \<or> heap_failed E)"
    using parse_load_file_stores [OF assms(5,2,3,4)] by blast
  moreover have "kf' \<noteq> None"
  proof -
    obtain t where t: "kf = Some t" using \<open>kf \<noteq> None\<close> by blast
    then have "wf_tbl E t" using get_key_file_result(3) [OF assms(5)] by blast
    then obtain ok' w' t' where "parse_load_frm_fhandler E w1 (Some t) d = Inr (ok', w', Some t')"
      using parse_load_result [of E t w1 d] by blast
    then show ?thesis using p t assms(2,3) by (auto simp: parse_load_file_def)
  qed
  ultimately show ?thesis using assms(1) by (auto split: option.split if_splits)
qed

text \<open>
  C24. When memory suffices, the parser accepts exactly the files of the format, and afterwards the hash table
  is the map that the file describes: a value is found exactly under its group and key, and the arrays of keys
  and of groups have every name once. This holds whatever the conversion of a hash value that is out of range to \<open>int\<close> gives.
\<close>

theorem conf_file_refines:
  assumes "\<not> heap_failed E" "conf_file E name = Some d" "name \<noteq> []" "length d < 2 ^ 32 - 1" "get_key_file E w = (kf, w1)"
  shows "case conf_load Map.empty None d of
      None \<Rightarrow> \<exists>w2 t. parse_load_file E w1 kf (Some name) = Inr (False, w2, Some t)
    | Some c \<Rightarrow> \<exists>w2 t. parse_load_file E w1 kf (Some name) = Inr (True, w2, Some t) \<and>
        (\<forall>v g k. \<exists>v'. get_value E (v :: 'w conf_world_scheme) (Some t) g k = Inr (conf_value c g k, v')) \<and>
        (\<forall>v g. \<exists>r v'. get_keys E (v :: 'w conf_world_scheme) (Some t) g = Inr (r, v') \<and> strs_of r (conf_keys c g)) \<and>
        (\<forall>v. \<exists>r v'. get_grps E (v :: 'w conf_world_scheme) (Some t) = Inr (r, v') \<and> strs_of r (dom c))"
proof (cases "conf_load Map.empty None d")
  case None
  then show ?thesis using load_succeeds [OF assms] by auto
next
  case (Some c)
  then obtain w2 t where p: "parse_load_file E w1 kf (Some name) = Inr (True, w2, Some t)" "stores E t c"
    using load_succeeds [OF assms] by auto
  have "\<exists>v'. get_value E v (Some t) g k = Inr (conf_value c g k, v')" for v :: "'w conf_world_scheme" and g k
    using stores_value [OF p(2), of v g k] assms(1) by auto
  moreover have "\<exists>r v'. get_keys E v (Some t) g = Inr (r, v') \<and> strs_of r (conf_keys c g)" for v :: "'w conf_world_scheme" and g
    using stores_keys [OF p(2), of v g] assms(1) by auto
  moreover have "\<exists>r v'. get_grps E v (Some t) = Inr (r, v') \<and> strs_of r (dom c)" for v :: "'w conf_world_scheme"
    using stores_grps [OF p(2), of v] assms(1) by auto
  ultimately show ?thesis using p(1) Some by auto
qed

definition example_conf :: "(bytes \<times> (bytes \<times> bytes) list) list" where
  "example_conf = [([65, 66], [([107], [49]), ([108], [50, 51])]), ([67], [([107], [52])])]"

definition example_conf_env :: conf_env where
  "example_conf_env = \<lparr>conf_malloc = (\<lambda>_. True), float_to_int = (\<lambda>_. INT_MAX), conf_file = (\<lambda>_. Some (conf_text example_conf))\<rparr>"

definition example_conf_world :: conf_world where
  "example_conf_world = \<lparr>mallocs = 0, live = 0\<rparr>"

lemma example_conf_ok:
  "writable example_conf" "\<not> heap_failed example_conf_env" "length (conf_text example_conf) < 2 ^ 32 - 1"
  "conf_file example_conf_env [102] = Some (conf_text example_conf)"
  by (simp_all add: writable_def example_conf_def is_name_def is_value_def isalnum_def word_le_nat_alt example_conf_env_def
      heap_failed_def conf_text_def pairs_text_def)

theorem conf_file_refines_witness:
  "\<exists>kf w1 w2 t. get_key_file example_conf_env example_conf_world = (kf, w1) \<and>
    parse_load_file example_conf_env w1 kf (Some [102]) = Inr (True, w2, Some t) \<and>
    (\<exists>v'. get_value example_conf_env w2 (Some t) [65, 66] [108] = Inr (Some [50, 51], v')) \<and>
    (\<exists>v'. get_value example_conf_env w2 (Some t) [67] [108] = Inr (None, v'))"
proof -
  obtain kf w1 where k: "get_key_file example_conf_env example_conf_world = (kf, w1)" by fastforce
  have l: "conf_load Map.empty None (conf_text example_conf) = Some (conf_map example_conf)"
    using conf_load_text [OF example_conf_ok(1), of Map.empty None] by simp
  have v: "conf_value (conf_map example_conf) [65, 66] [108] = Some [50, 51]" "conf_value (conf_map example_conf) [67] [108] = None"
    by (simp_all add: conf_value_def conf_map_def example_conf_def)
  obtain w2 t where p: "parse_load_file example_conf_env w1 kf (Some [102]) = Inr (True, w2, Some t)"
    and q: "\<forall>v g k. \<exists>v'. get_value example_conf_env (v :: conf_world) (Some t) g k = Inr (conf_value (conf_map example_conf) g k, v')"
    using conf_file_refines [OF example_conf_ok(2,4) _ example_conf_ok(3) k] by (auto simp: l)
  have "\<exists>v'. get_value example_conf_env w2 (Some t) [65, 66] [108] = Inr (Some [50, 51], v')"
    "\<exists>v'. get_value example_conf_env w2 (Some t) [67] [108] = Inr (None, v')"
    using q v by metis+
  then show ?thesis using k p by blast
qed

text \<open>
  A configuration that was written as text is read back: every value is found under its group and its key.
\<close>

lemma conf_text_roundtrip:
  assumes "\<not> heap_failed E" "writable cs" "length (conf_text cs) < 2 ^ 32 - 1"
    and "conf_file E name = Some (conf_text cs)" "name \<noteq> []" "get_key_file E w = (kf, w1)"
    and "(g, kvs) \<in> set cs" "(k, v) \<in> set kvs"
  shows "\<exists>w2 t w3. parse_load_file E w1 kf (Some name) = Inr (True, w2, Some t) \<and>
    get_value E w2 (Some t) g k = Inr (Some v, w3)"
proof -
  have l: "conf_load Map.empty None (conf_text cs) = Some (conf_map cs)"
    using conf_load_text [OF assms(2), of Map.empty None] by simp
  then obtain w2 t where p: "parse_load_file E w1 kf (Some name) = Inr (True, w2, Some t)" "stores E t (conf_map cs)"
    using load_succeeds [OF assms(1,4,5,3,6)] by auto
  have "conf_map cs g = Some (map_of kvs)"
    unfolding conf_map_def
    by (rule map_of_is_SomeI) (use assms(2,7) in \<open>auto simp: writable_def comp_def case_prod_unfold image_iff intro!: bexI [of _ "(g, kvs)"]\<close>)
  moreover have "map_of kvs k = Some v"
    by (rule map_of_is_SomeI) (use assms(2,7,8) in \<open>auto simp: writable_def list_all_iff\<close>)
  ultimately have "conf_value (conf_map cs) g k = Some v" by (simp add: conf_value_def)
  then show ?thesis using p stores_value [OF p(2), of w2 g k] assms(1) by auto
qed

lemma conf_text_roundtrip_example:
  "\<exists>kf w1 w2 t w3. get_key_file example_conf_env example_conf_world = (kf, w1) \<and>
    parse_load_file example_conf_env w1 kf (Some [102]) = Inr (True, w2, Some t) \<and>
    get_value example_conf_env w2 (Some t) [67] [107] = Inr (Some [52], w3)"
proof -
  obtain kf w1 where k: "get_key_file example_conf_env example_conf_world = (kf, w1)" by fastforce
  have m: "([67], [([107], [52])]) \<in> set example_conf" by (simp add: example_conf_def)
  show ?thesis
    using conf_text_roundtrip [OF example_conf_ok(2,1,3,4) _ k m, of "[107]" "[52]"] k by auto
qed

text \<open>
  The parser keeps its own copies of the key and of the value of every pair and never frees them: after the
  table has been released, two blocks are left for each pair of the file.
\<close>

lemma pairs_leak:
  assumes "\<not> heap_failed E" "conf_file E name = Some d" "name \<noteq> []" "length d < 2 ^ 32 - 1" "get_key_file E w = (kf, w1)"
    and "conf_load Map.empty None d = Some c"
  shows "\<exists>w2 t w3. parse_load_file E w1 kf (Some name) = Inr (True, w2, Some t) \<and>
    free_key_file w2 (Some t) = Inr w3 \<and> live w3 = live w + 2 * int (conf_pairs c)"
proof -
  obtain w2 t where p: "parse_load_file E w1 kf (Some name) = Inr (True, w2, Some t)" "stores E t c"
    "live w2 = live w + int (tbl_blocks t) + 2 * int (conf_pairs c)"
    using load_succeeds [OF assms(1-5)] assms(6) by auto
  then show ?thesis using free_key_file_freed [of E t w2] by (simp add: stores_def freed_def)
qed

end
