(* ===== verification/Fm_Radio.thy ===== *)
theory Fm_Radio
  imports Fm_Conf
begin

text \<open>
  The calls of the FM radio service to the radio driver: the ioctl interface
  (\<open>src/packages/apps/FleetyFmService/jni/FmIoctlsInterface.cpp\<close>, \<open>FmConst.h\<close>), the performance parameters
  (\<open>FmPerformanceParams.cpp\<close>) and the native functions of the Java service (\<open>android_hardware_fm.cpp\<close>). The
  theorems show that a tuned frequency is read back, that opening the radio ends after a bounded wait with a
  usable descriptor or a closed one, and the exact block that carries the list of the hybrid search.
\<close>

section \<open>Driver and properties\<close>

text \<open>
  Everything that the service asks of the system is logged. The driver and the property service are functions
  of what has happened so far. A reply has the result of the \<open>ioctl\<close> and the fields that the driver fills in.
\<close>

datatype fm_request =
    QueryCap | SFrequency u32 | GFrequency | SCtrl u32 s32 | GCtrl u32 | SExtCtrls u32 bytes
  | SHwFreqSeek u32 | STuner u32 u32 "u32 option" | GTuner | DqBuf u32

datatype fm_event =
    OpenDev bytes | Ioctl s32 fm_request | ReadDev s32 s32 | PropertySet string string | SchedYield | Usleep nat | CloseDev s32

record fm_reply =
  rret :: int
  rversion :: u32
  rfrequency :: u32
  rvalue :: s32
  rsignal :: s32
  rlow :: u32
  rhigh :: u32
  rused :: s32

text \<open>
  The control numbers and masks of the kernel headers that are not part of the program are parameters.
\<close>

record fm_env = conf_env +
  fm_open :: "bytes \<Rightarrow> s32"
  fm_driver :: "fm_event list \<Rightarrow> s32 \<Rightarrow> fm_request \<Rightarrow> fm_reply"
  fm_read :: "s32 \<Rightarrow> s32 \<Rightarrow> s32"
  fm_prop :: "fm_event list \<Rightarrow> string \<Rightarrow> string"
  fm_calibration :: "bytes option"
  tx_pty :: u32
  tx_pi :: u32
  tx_radio_text :: u32
  stop_rt :: u32
  tx_ps_name :: u32
  stop_ps_name :: u32
  update_spur_table :: u32
  tx_setpsrepeatcount :: u32
  tune_power_level :: u32
  MASK_PTY :: s32
  MASK_PI :: s32
  MASK_TXREPCOUNT :: s32

text \<open>
  The place that \<open>strtok\<close> remembers from one call to the next, for the whole process: none, the rest of a string,
  or a place in a string that has been freed.
\<close>

datatype tok_place = Nowhere | Within bytes | Dangling

record fm_world = conf_world +
  fm_log :: "fm_event list"
  strtok_at :: tok_place

definition logged :: "fm_event \<Rightarrow> 'w fm_world_scheme \<Rightarrow> 'w fm_world_scheme" where
  "logged ev w = w\<lparr>fm_log := fm_log w @ [ev]\<rparr>"

definition fm_ioctl :: "'e fm_env_scheme \<Rightarrow> 'w fm_world_scheme \<Rightarrow> s32 \<Rightarrow> fm_request \<Rightarrow> fm_reply \<times> 'w fm_world_scheme" where
  "fm_ioctl E w fd rq = (fm_driver E (fm_log w) fd rq, logged (Ioctl fd rq) w)"

section \<open>The ioctl interface\<close>

definition FM_SUCCESS :: int where "FM_SUCCESS = 0"
definition FM_FAILURE :: int where "FM_FAILURE = - 1"
definition IOCTL_SUCC :: int where "IOCTL_SUCC = 0"
definition TUNE_MULT :: u32 where "TUNE_MULT = 16"
definition CAL_DATA_SIZE :: nat where "CAL_DATA_SIZE = 23"
definition STD_BUF_SIZE :: u32 where "STD_BUF_SIZE = 256"

definition V4L2_CTRL_CLASS_USER :: u32 where "V4L2_CTRL_CLASS_USER = 0x00980000"
definition V4L2_CID_PRV_BASE :: u32 where "V4L2_CID_PRV_BASE = 0x8000000"
definition V4L2_CID_PRV_SRCHON :: u32 where "V4L2_CID_PRV_SRCHON = V4L2_CID_PRV_BASE + 3"
definition V4L2_CID_PRV_REGION :: u32 where "V4L2_CID_PRV_REGION = V4L2_CID_PRV_BASE + 7"
definition V4L2_CID_PRV_INTDET :: u32 where "V4L2_CID_PRV_INTDET = V4L2_CID_PRV_BASE + 25"
definition V4L2_CID_PRV_ON_CHANNEL_THRESHOLD :: u32 where "V4L2_CID_PRV_ON_CHANNEL_THRESHOLD = V4L2_CID_PRV_BASE + 0x2D"
definition V4L2_CID_PRV_OFF_CHANNEL_THRESHOLD :: u32 where "V4L2_CID_PRV_OFF_CHANNEL_THRESHOLD = V4L2_CID_PRV_BASE + 0x2E"
definition V4L2_CID_PRV_SINR_THRESHOLD :: u32 where "V4L2_CID_PRV_SINR_THRESHOLD = V4L2_CID_PRV_BASE + 0x2F"
definition V4L2_CID_PRV_SINR_SAMPLES :: u32 where "V4L2_CID_PRV_SINR_SAMPLES = V4L2_CID_PRV_BASE + 0x30"
definition V4L2_CID_PRV_AF_RMSSI_TH :: u32 where "V4L2_CID_PRV_AF_RMSSI_TH = V4L2_CID_PRV_BASE + 0x36"
definition V4L2_CID_PRV_AF_RMSSI_SAMPLES :: u32 where "V4L2_CID_PRV_AF_RMSSI_SAMPLES = V4L2_CID_PRV_BASE + 0x37"
definition V4L2_CID_PRV_GOOD_CH_RMSSI_TH :: u32 where "V4L2_CID_PRV_GOOD_CH_RMSSI_TH = V4L2_CID_PRV_BASE + 0x38"
definition V4L2_CID_PRV_SRCHALGOTYPE :: u32 where "V4L2_CID_PRV_SRCHALGOTYPE = V4L2_CID_PRV_BASE + 0x39"
definition V4L2_CID_PRV_CF0TH12 :: u32 where "V4L2_CID_PRV_CF0TH12 = V4L2_CID_PRV_BASE + 0x3A"
definition V4L2_CID_PRV_SINRFIRSTSTAGE :: u32 where "V4L2_CID_PRV_SINRFIRSTSTAGE = V4L2_CID_PRV_BASE + 0x3B"
definition V4L2_CID_PRV_RMSSIFIRSTSTAGE :: u32 where "V4L2_CID_PRV_RMSSIFIRSTSTAGE = V4L2_CID_PRV_BASE + 0x3C"
definition V4L2_CID_PRV_IRIS_WRITE_DEFAULT :: u32 where "V4L2_CID_PRV_IRIS_WRITE_DEFAULT = V4L2_CTRL_CLASS_USER + 0x929"
definition V4L2_CID_PRV_SET_CALIBRATION :: u32 where "V4L2_CID_PRV_SET_CALIBRATION = V4L2_CTRL_CLASS_USER + 0x92A"

definition fm_result :: "fm_reply \<Rightarrow> int" where
  "fm_result r = (if rret r < IOCTL_SUCC then FM_FAILURE else FM_SUCCESS)"

definition get_cur_freq :: "'e fm_env_scheme \<Rightarrow> 'w fm_world_scheme \<Rightarrow> s32 \<Rightarrow> int \<times> u32 \<times> 'w fm_world_scheme" where
  "get_cur_freq E w fd =
     (let (r, w) = fm_ioctl E w fd GFrequency in (fm_result r, rfrequency r div TUNE_MULT, w))"

definition set_freq :: "'e fm_env_scheme \<Rightarrow> 'w fm_world_scheme \<Rightarrow> s32 \<Rightarrow> u32 \<Rightarrow> int \<times> 'w fm_world_scheme" where
  "set_freq E w fd freq =
     (let (r, w) = fm_ioctl E w fd (SFrequency (freq * TUNE_MULT)) in (fm_result r, w))"

text \<open>The control is set at most three times, until the driver accepts it.\<close>

fun set_control_loop :: "nat \<Rightarrow> 'e fm_env_scheme \<Rightarrow> 'w fm_world_scheme \<Rightarrow> s32 \<Rightarrow> u32 \<Rightarrow> s32 \<Rightarrow> int \<times> 'w fm_world_scheme" where
  "set_control_loop 0 E w fd cid val = (FM_FAILURE, w)"
| "set_control_loop (Suc n) E w fd cid val =
     (let (r, w) = fm_ioctl E w fd (SCtrl cid val) in
      if rret r < IOCTL_SUCC then set_control_loop n E w fd cid val else (FM_SUCCESS, w))"

definition set_control :: "'e fm_env_scheme \<Rightarrow> 'w fm_world_scheme \<Rightarrow> s32 \<Rightarrow> u32 \<Rightarrow> s32 \<Rightarrow> int \<times> 'w fm_world_scheme" where
  "set_control E w fd cid val = set_control_loop 3 E w fd cid val"

definition set_calibration :: "'e fm_env_scheme \<Rightarrow> 'w fm_world_scheme \<Rightarrow> s32 \<Rightarrow> int \<times> 'w fm_world_scheme" where
  "set_calibration E w fd =
     (case fm_calibration E of
        None \<Rightarrow> (FM_SUCCESS, w)
      | Some d \<Rightarrow>
          if length d < CAL_DATA_SIZE then (FM_FAILURE, w)
          else let (r, w) = fm_ioctl E w fd (SExtCtrls V4L2_CID_PRV_SET_CALIBRATION (take CAL_DATA_SIZE d)) in (fm_result r, w))"

definition get_control :: "'e fm_env_scheme \<Rightarrow> 'w fm_world_scheme \<Rightarrow> s32 \<Rightarrow> u32 \<Rightarrow> int \<times> s32 \<times> 'w fm_world_scheme" where
  "get_control E w fd cid = (let (r, w) = fm_ioctl E w fd (GCtrl cid) in (fm_result r, rvalue r, w))"

definition start_search :: "'e fm_env_scheme \<Rightarrow> 'w fm_world_scheme \<Rightarrow> s32 \<Rightarrow> u32 \<Rightarrow> int \<times> 'w fm_world_scheme" where
  "start_search E w fd dir = (let (r, w) = fm_ioctl E w fd (SHwFreqSeek dir) in (fm_result r, w))"

text \<open>
  The audio mode in the structure is not initialised (\<open>None\<close>). The result of setting the tuner is overwritten by
  that of setting the region.
\<close>

definition set_band :: "'e fm_env_scheme \<Rightarrow> 'w fm_world_scheme \<Rightarrow> s32 \<Rightarrow> u32 \<Rightarrow> u32 \<Rightarrow> int \<times> 'w fm_world_scheme" where
  "set_band E w fd low high =
     (let (r, w) = fm_ioctl E w fd (STuner (low * TUNE_MULT) (high * TUNE_MULT) None);
          (ret, w) = set_control E w fd V4L2_CID_PRV_REGION 0
      in (if ret < IOCTL_SUCC then FM_FAILURE else FM_SUCCESS, w))"

definition get_rmssi :: "'e fm_env_scheme \<Rightarrow> 'w fm_world_scheme \<Rightarrow> s32 \<Rightarrow> int \<times> s32 \<times> 'w fm_world_scheme" where
  "get_rmssi E w fd = (let (r, w) = fm_ioctl E w fd GTuner in (fm_result r, rsignal r, w))"

definition get_upperband_limit :: "'e fm_env_scheme \<Rightarrow> 'w fm_world_scheme \<Rightarrow> s32 \<Rightarrow> int \<times> u32 \<times> 'w fm_world_scheme" where
  "get_upperband_limit E w fd = (let (r, w) = fm_ioctl E w fd GTuner in (fm_result r, rhigh r div TUNE_MULT, w))"

definition get_lowerband_limit :: "'e fm_env_scheme \<Rightarrow> 'w fm_world_scheme \<Rightarrow> s32 \<Rightarrow> int \<times> u32 \<times> 'w fm_world_scheme" where
  "get_lowerband_limit E w fd = (let (r, w) = fm_ioctl E w fd GTuner in (fm_result r, rlow r div TUNE_MULT, w))"

definition set_audio_mode :: "'e fm_env_scheme \<Rightarrow> 'w fm_world_scheme \<Rightarrow> s32 \<Rightarrow> u32 \<Rightarrow> int \<times> 'w fm_world_scheme" where
  "set_audio_mode E w fd mode =
     (let (r, w) = fm_ioctl E w fd GTuner in
      if rret r < IOCTL_SUCC then (FM_FAILURE, w)
      else let (r, w) = fm_ioctl E w fd (STuner (rlow r) (rhigh r) (Some mode)) in (fm_result r, w))"

definition get_buffer :: "'e fm_env_scheme \<Rightarrow> 'w fm_world_scheme \<Rightarrow> s32 \<Rightarrow> bool \<Rightarrow> u32 \<Rightarrow> u32 \<Rightarrow> s32 \<times> 'w fm_world_scheme" where
  "get_buffer E w fd null len index =
     (if len < STD_BUF_SIZE \<or> null then (word_of_int FM_FAILURE, w)
      else let (r, w) = fm_ioctl E w fd (DqBuf index) in (if rret r < IOCTL_SUCC then word_of_int FM_FAILURE else rused r, w))"

definition set_ext_control :: "'e fm_env_scheme \<Rightarrow> 'w fm_world_scheme \<Rightarrow> s32 \<Rightarrow> u32 \<Rightarrow> bytes \<Rightarrow> int \<times> 'w fm_world_scheme" where
  "set_ext_control E w fd cid data = (let (r, w) = fm_ioctl E w fd (SExtCtrls cid data) in (fm_result r, w))"

section \<open>Performance parameters\<close>

text \<open>
  The setters narrow their argument to the type of the parameter and hand it on as an \<open>int\<close>; the getters
  narrow what they read. An argument of type \<open>signed char\<close> is extended with its sign.
\<close>

definition SetAfRmssiTh :: "'e fm_env_scheme \<Rightarrow> s32 \<Rightarrow> u16 \<Rightarrow> 'w fm_world_scheme \<Rightarrow> int \<times> 'w fm_world_scheme" where
  "SetAfRmssiTh E fd th w = set_control E w fd V4L2_CID_PRV_AF_RMSSI_TH (ucast th)"

definition SetAfRmssiSamplesCnt :: "'e fm_env_scheme \<Rightarrow> s32 \<Rightarrow> u8 \<Rightarrow> 'w fm_world_scheme \<Rightarrow> int \<times> 'w fm_world_scheme" where
  "SetAfRmssiSamplesCnt E fd cnt w = set_control E w fd V4L2_CID_PRV_AF_RMSSI_SAMPLES (ucast cnt)"

definition SetGoodChannelRmssiTh :: "'e fm_env_scheme \<Rightarrow> s32 \<Rightarrow> u8 \<Rightarrow> 'w fm_world_scheme \<Rightarrow> int \<times> 'w fm_world_scheme" where
  "SetGoodChannelRmssiTh E fd th w = set_control E w fd V4L2_CID_PRV_GOOD_CH_RMSSI_TH (scast th)"

definition SetSrchAlgoType :: "'e fm_env_scheme \<Rightarrow> s32 \<Rightarrow> u8 \<Rightarrow> 'w fm_world_scheme \<Rightarrow> int \<times> 'w fm_world_scheme" where
  "SetSrchAlgoType E fd algo w = set_control E w fd V4L2_CID_PRV_SRCHALGOTYPE (ucast algo)"

definition SetSinrFirstStage :: "'e fm_env_scheme \<Rightarrow> s32 \<Rightarrow> u8 \<Rightarrow> 'w fm_world_scheme \<Rightarrow> int \<times> 'w fm_world_scheme" where
  "SetSinrFirstStage E fd th w = set_control E w fd V4L2_CID_PRV_SINRFIRSTSTAGE (scast th)"

definition SetRmssiFirstStage :: "'e fm_env_scheme \<Rightarrow> s32 \<Rightarrow> u8 \<Rightarrow> 'w fm_world_scheme \<Rightarrow> int \<times> 'w fm_world_scheme" where
  "SetRmssiFirstStage E fd th w = set_control E w fd V4L2_CID_PRV_RMSSIFIRSTSTAGE (scast th)"

definition SetCf0Th12 :: "'e fm_env_scheme \<Rightarrow> s32 \<Rightarrow> s32 \<Rightarrow> 'w fm_world_scheme \<Rightarrow> int \<times> 'w fm_world_scheme" where
  "SetCf0Th12 E fd th w = set_control E w fd V4L2_CID_PRV_CF0TH12 th"

definition SetSinrSamplesCnt :: "'e fm_env_scheme \<Rightarrow> s32 \<Rightarrow> u8 \<Rightarrow> 'w fm_world_scheme \<Rightarrow> int \<times> 'w fm_world_scheme" where
  "SetSinrSamplesCnt E fd cnt w = set_control E w fd V4L2_CID_PRV_SINR_SAMPLES (ucast cnt)"

definition SetIntfLowTh :: "'e fm_env_scheme \<Rightarrow> s32 \<Rightarrow> u8 \<Rightarrow> 'w fm_world_scheme \<Rightarrow> int \<times> 'w fm_world_scheme" where
  "SetIntfLowTh E fd th w = set_control E w fd V4L2_CID_PRV_ON_CHANNEL_THRESHOLD (ucast th)"

definition SetIntfHighTh :: "'e fm_env_scheme \<Rightarrow> s32 \<Rightarrow> u8 \<Rightarrow> 'w fm_world_scheme \<Rightarrow> int \<times> 'w fm_world_scheme" where
  "SetIntfHighTh E fd th w = set_control E w fd V4L2_CID_PRV_OFF_CHANNEL_THRESHOLD (ucast th)"

definition SetSinrFinalStage :: "'e fm_env_scheme \<Rightarrow> s32 \<Rightarrow> u8 \<Rightarrow> 'w fm_world_scheme \<Rightarrow> int \<times> 'w fm_world_scheme" where
  "SetSinrFinalStage E fd th w = set_control E w fd V4L2_CID_PRV_SINR_THRESHOLD (scast th)"

definition get_param :: "'e fm_env_scheme \<Rightarrow> u32 \<Rightarrow> s32 \<Rightarrow> 'w fm_world_scheme \<Rightarrow> int \<times> 'a::len word option \<times> 'w fm_world_scheme" where
  "get_param E cid fd w =
     (let (ret, val, w) = get_control E w fd cid in (ret, if ret = FM_SUCCESS then Some (ucast val) else None, w))"

definition GetAfRmssiTh :: "'e fm_env_scheme \<Rightarrow> s32 \<Rightarrow> 'w fm_world_scheme \<Rightarrow> int \<times> u16 option \<times> 'w fm_world_scheme" where
  "GetAfRmssiTh E fd w = get_param E V4L2_CID_PRV_AF_RMSSI_TH fd w"

definition GetAfRmssiSamplesCnt :: "'e fm_env_scheme \<Rightarrow> s32 \<Rightarrow> 'w fm_world_scheme \<Rightarrow> int \<times> u8 option \<times> 'w fm_world_scheme" where
  "GetAfRmssiSamplesCnt E fd w = get_param E V4L2_CID_PRV_AF_RMSSI_SAMPLES fd w"

definition GetGoodChannelRmssiTh :: "'e fm_env_scheme \<Rightarrow> s32 \<Rightarrow> 'w fm_world_scheme \<Rightarrow> int \<times> u8 option \<times> 'w fm_world_scheme" where
  "GetGoodChannelRmssiTh E fd w = get_param E V4L2_CID_PRV_GOOD_CH_RMSSI_TH fd w"

definition GetSrchAlgoType :: "'e fm_env_scheme \<Rightarrow> s32 \<Rightarrow> 'w fm_world_scheme \<Rightarrow> int \<times> u8 option \<times> 'w fm_world_scheme" where
  "GetSrchAlgoType E fd w = get_param E V4L2_CID_PRV_SRCHALGOTYPE fd w"

definition GetSinrFirstStage :: "'e fm_env_scheme \<Rightarrow> s32 \<Rightarrow> 'w fm_world_scheme \<Rightarrow> int \<times> u8 option \<times> 'w fm_world_scheme" where
  "GetSinrFirstStage E fd w = get_param E V4L2_CID_PRV_SINRFIRSTSTAGE fd w"

definition GetRmssiFirstStage :: "'e fm_env_scheme \<Rightarrow> s32 \<Rightarrow> 'w fm_world_scheme \<Rightarrow> int \<times> u8 option \<times> 'w fm_world_scheme" where
  "GetRmssiFirstStage E fd w = get_param E V4L2_CID_PRV_RMSSIFIRSTSTAGE fd w"

definition GetCf0Th12 :: "'e fm_env_scheme \<Rightarrow> s32 \<Rightarrow> 'w fm_world_scheme \<Rightarrow> int \<times> s32 option \<times> 'w fm_world_scheme" where
  "GetCf0Th12 E fd w = get_param E V4L2_CID_PRV_CF0TH12 fd w"

definition GetSinrSamplesCnt :: "'e fm_env_scheme \<Rightarrow> s32 \<Rightarrow> 'w fm_world_scheme \<Rightarrow> int \<times> u8 option \<times> 'w fm_world_scheme" where
  "GetSinrSamplesCnt E fd w = get_param E V4L2_CID_PRV_SINR_SAMPLES fd w"

definition GetIntfLowTh :: "'e fm_env_scheme \<Rightarrow> s32 \<Rightarrow> 'w fm_world_scheme \<Rightarrow> int \<times> u8 option \<times> 'w fm_world_scheme" where
  "GetIntfLowTh E fd w = get_param E V4L2_CID_PRV_ON_CHANNEL_THRESHOLD fd w"

definition GetIntfHighTh :: "'e fm_env_scheme \<Rightarrow> s32 \<Rightarrow> 'w fm_world_scheme \<Rightarrow> int \<times> u8 option \<times> 'w fm_world_scheme" where
  "GetIntfHighTh E fd w = get_param E V4L2_CID_PRV_OFF_CHANNEL_THRESHOLD fd w"

definition GetIntfDet :: "'e fm_env_scheme \<Rightarrow> s32 \<Rightarrow> 'w fm_world_scheme \<Rightarrow> int \<times> u8 option \<times> 'w fm_world_scheme" where
  "GetIntfDet E fd w = get_param E V4L2_CID_PRV_INTDET fd w"

definition GetSinrFinalStage :: "'e fm_env_scheme \<Rightarrow> s32 \<Rightarrow> 'w fm_world_scheme \<Rightarrow> int \<times> u8 option \<times> 'w fm_world_scheme" where
  "GetSinrFinalStage E fd w = get_param E V4L2_CID_PRV_SINR_THRESHOLD fd w"

text \<open>
  The list of the hybrid search. \<open>data\<close> is the block as far as it is filled; the two pointers may be NULL, and
  each round of the loop reads one frequency and one level through them.
\<close>

function hybrid_loop :: "u32 \<Rightarrow> bytes \<Rightarrow> u32 list option \<Rightarrow> u8 list option \<Rightarrow> bytes res" where
  "hybrid_loop n data freqs sinrs =
     (if of_nat (length data) < n * 3 + 2 then
        (case (freqs, sinrs) of
           (Some (f # fs), Some (s # ss)) \<Rightarrow>
             if length data + 3 \<le> unat (n * 3 + 3) then
               let freq = (f - 76000) div 50 in
               hybrid_loop n (data @ [ucast freq, ucast (drop_bit 8 freq), s]) (Some fs) (Some ss)
             else Inl (Fault OutOfBounds)
         | (Some _, Some _) \<Rightarrow> Inl (Fault OutOfBounds)
         | _ \<Rightarrow> Inr data)
      else Inr data)"
  by pat_completeness auto
termination
  by (relation "measure (\<lambda>(n, data, freqs, sinrs). length (the freqs))") (auto split: option.splits)

declare hybrid_loop.simps [simp del]

definition SetHybridSrchList :: "'e fm_env_scheme \<Rightarrow> s32 \<Rightarrow> u32 list option \<Rightarrow> u8 list option \<Rightarrow> u32 \<Rightarrow> 'w fm_world_scheme \<Rightarrow>
    (int \<times> 'w fm_world_scheme) res" where
  "SetHybridSrchList E fd freqs sinrs n w =
     (if n = 0 then Inr (FM_FAILURE, w)
      else
        (case new E w of
           (False, w) \<Rightarrow> Inr (FM_FAILURE, w)
         | (True, w) \<Rightarrow>
             if unat (n * 3 + 3) < 3 then Inl (Fault OutOfBounds)
             else
               bnd (hybrid_loop n [0x40, ucast (n * 3 + 1), ucast n] freqs sinrs) (\<lambda>data.
               let (ret, w) = (if of_nat (length data) = n * 3 + 3
                               then set_ext_control E w fd V4L2_CID_PRV_IRIS_WRITE_DEFAULT data else (FM_FAILURE, w))
               in Inr (ret, freed 1 w))))"

section \<open>Native functions\<close>

definition FM_JNI_SUCCESS :: s32 where "FM_JNI_SUCCESS = 0"
definition FM_JNI_FAILURE :: s32 where "FM_JNI_FAILURE = - 1"
definition WAIT_TIMEOUT :: nat where "WAIT_TIMEOUT = 200000"
definition TX_RT_LENGTH :: nat where "TX_RT_LENGTH = 63"
definition PS_LEN :: nat where "PS_LEN = 9"
definition HIGH_BAND :: s32 where "HIGH_BAND = 2"
definition LOW_BAND :: s32 where "LOW_BAND = 1"

definition jni_status :: "int \<times> 'w \<Rightarrow> s32 \<times> 'w" where
  "jni_status = (\<lambda>(err, w). (if err < 0 then FM_JNI_FAILURE else FM_JNI_SUCCESS, w))"

definition jni_value :: "int \<times> s32 \<times> 'w \<Rightarrow> s32 \<times> 'w" where
  "jni_value = (\<lambda>(err, val, w). (if err < 0 then FM_JNI_FAILURE else val, w))"

definition not_rome :: "'e fm_env_scheme \<Rightarrow> 'w fm_world_scheme \<Rightarrow> bool" where
  "not_rome E w \<longleftrightarrow> fm_prop E (fm_log w) ''qcom.bluetooth.soc'' \<noteq> ''rome''"

text \<open>The loop that waits until the firmware loader has set \<open>hw.fm.init\<close>, at most \<open>n\<close> times.\<close>

fun wait_init :: "nat \<Rightarrow> 'e fm_env_scheme \<Rightarrow> 'w fm_world_scheme \<Rightarrow> bool \<times> 'w fm_world_scheme" where
  "wait_init 0 E w = (False, w)"
| "wait_init (Suc n) E w =
     (if fm_prop E (fm_log w) ''hw.fm.init'' = ''1'' then (True, w)
      else wait_init n E (logged (Usleep WAIT_TIMEOUT) w))"

definition acquireFdNative :: "'e fm_env_scheme \<Rightarrow> 'w fm_world_scheme \<Rightarrow> bytes option \<Rightarrow> s32 \<times> 'w fm_world_scheme" where
  "acquireFdNative E w path =
     (case path of
        None \<Rightarrow> (FM_JNI_FAILURE, w)
      | Some radio_path \<Rightarrow>
          let fd = fm_open E radio_path; w = logged (OpenDev radio_path) w in
          if fd <s 0 then (FM_JNI_FAILURE, w)
          else
            let (cap, w) = fm_ioctl E w fd QueryCap in
            if rret cap \<ge> 0 then
              let w = logged (PropertySet ''hw.fm.version'' (print_int (sint (rversion cap)))) w in
              if not_rome E w then
                let w = logged SchedYield (logged (PropertySet ''ctl.start'' ''fm_dl'')
                          (logged (PropertySet ''hw.fm.int'' ''0'') (logged (PropertySet ''hw.fm.mode'' ''normal'') w)));
                    (init_success, w) = wait_init 45 E w in
                if \<not> init_success then (FM_JNI_FAILURE, logged (CloseDev fd) (logged (PropertySet ''ctl.stop'' ''fm_dl'') w))
                else (fd, w)
              else (fd, w)
            else (FM_JNI_FAILURE, w))"

definition closeFdNative :: "'e fm_env_scheme \<Rightarrow> 'w fm_world_scheme \<Rightarrow> s32 \<Rightarrow> s32 \<times> 'w fm_world_scheme" where
  "closeFdNative E w fd =
     (let w = (if not_rome E w then logged (PropertySet ''ctl.stop'' ''fm_dl'') w else w)
      in (FM_JNI_SUCCESS, logged (CloseDev fd) w))"

definition getFreqNative :: "'e fm_env_scheme \<Rightarrow> 'w fm_world_scheme \<Rightarrow> s32 \<Rightarrow> s32 \<times> 'w fm_world_scheme" where
  "getFreqNative E w fd = (if 0 \<le>s fd then jni_value (get_cur_freq E w fd) else (FM_JNI_FAILURE, w))"

definition setFreqNative :: "'e fm_env_scheme \<Rightarrow> 'w fm_world_scheme \<Rightarrow> s32 \<Rightarrow> s32 \<Rightarrow> s32 \<times> 'w fm_world_scheme" where
  "setFreqNative E w fd freq =
     (if 0 \<le>s fd \<and> 0 <s freq then jni_status (set_freq E w fd freq) else (FM_JNI_FAILURE, w))"

definition setControlNative :: "'e fm_env_scheme \<Rightarrow> 'w fm_world_scheme \<Rightarrow> s32 \<Rightarrow> s32 \<Rightarrow> s32 \<Rightarrow> s32 \<times> 'w fm_world_scheme" where
  "setControlNative E w fd cid val =
     (if 0 \<le>s fd \<and> 0 \<le>s cid then jni_status (set_control E w fd cid val) else (FM_JNI_FAILURE, w))"

definition SetCalibrationNative :: "'e fm_env_scheme \<Rightarrow> 'w fm_world_scheme \<Rightarrow> s32 \<Rightarrow> s32 \<times> 'w fm_world_scheme" where
  "SetCalibrationNative E w fd = (if 0 \<le>s fd then jni_status (set_calibration E w fd) else (FM_JNI_FAILURE, w))"

definition getControlNative :: "'e fm_env_scheme \<Rightarrow> 'w fm_world_scheme \<Rightarrow> s32 \<Rightarrow> s32 \<Rightarrow> s32 \<times> 'w fm_world_scheme" where
  "getControlNative E w fd cid =
     (if 0 \<le>s fd \<and> 0 \<le>s cid then jni_value (get_control E w fd cid) else (FM_JNI_FAILURE, w))"

definition startSearchNative :: "'e fm_env_scheme \<Rightarrow> 'w fm_world_scheme \<Rightarrow> s32 \<Rightarrow> s32 \<Rightarrow> s32 \<times> 'w fm_world_scheme" where
  "startSearchNative E w fd dir =
     (if 0 \<le>s fd \<and> 0 \<le>s dir then jni_status (start_search E w fd dir) else (FM_JNI_FAILURE, w))"

definition cancelSearchNative :: "'e fm_env_scheme \<Rightarrow> 'w fm_world_scheme \<Rightarrow> s32 \<Rightarrow> s32 \<times> 'w fm_world_scheme" where
  "cancelSearchNative E w fd =
     (if 0 \<le>s fd then jni_status (set_control E w fd V4L2_CID_PRV_SRCHON 0) else (FM_JNI_FAILURE, w))"

definition getRSSINative :: "'e fm_env_scheme \<Rightarrow> 'w fm_world_scheme \<Rightarrow> s32 \<Rightarrow> s32 \<times> 'w fm_world_scheme" where
  "getRSSINative E w fd = (if 0 \<le>s fd then jni_value (get_rmssi E w fd) else (FM_JNI_FAILURE, w))"

definition setBandNative :: "'e fm_env_scheme \<Rightarrow> 'w fm_world_scheme \<Rightarrow> s32 \<Rightarrow> s32 \<Rightarrow> s32 \<Rightarrow> s32 \<times> 'w fm_world_scheme" where
  "setBandNative E w fd low high =
     (if 0 \<le>s fd \<and> 0 \<le>s low \<and> 0 \<le>s high then jni_status (set_band E w fd low high) else (FM_JNI_FAILURE, w))"

definition getLowerBandNative :: "'e fm_env_scheme \<Rightarrow> 'w fm_world_scheme \<Rightarrow> s32 \<Rightarrow> s32 \<times> 'w fm_world_scheme" where
  "getLowerBandNative E w fd = (if 0 \<le>s fd then jni_value (get_lowerband_limit E w fd) else (FM_JNI_FAILURE, w))"

definition getUpperBandNative :: "'e fm_env_scheme \<Rightarrow> 'w fm_world_scheme \<Rightarrow> s32 \<Rightarrow> s32 \<times> 'w fm_world_scheme" where
  "getUpperBandNative E w fd = (if 0 \<le>s fd then jni_value (get_upperband_limit E w fd) else (FM_JNI_FAILURE, w))"

definition setMonoStereoNative :: "'e fm_env_scheme \<Rightarrow> 'w fm_world_scheme \<Rightarrow> s32 \<Rightarrow> s32 \<Rightarrow> s32 \<times> 'w fm_world_scheme" where
  "setMonoStereoNative E w fd val = (if 0 \<le>s fd then jni_status (set_audio_mode E w fd val) else (FM_JNI_FAILURE, w))"

text \<open>\<open>null\<close> says that the elements of the array could not be obtained.\<close>

definition getBufferNative :: "'e fm_env_scheme \<Rightarrow> 'w fm_world_scheme \<Rightarrow> s32 \<Rightarrow> bool \<Rightarrow> s32 \<Rightarrow> s32 \<times> 'w fm_world_scheme" where
  "getBufferNative E w fd null index =
     (if 0 \<le>s fd \<and> 0 \<le>s index then
        let (err, w) = get_buffer E w fd null STD_BUF_SIZE index in (if err <s 0 then FM_JNI_FAILURE else err, w)
      else (FM_JNI_FAILURE, w))"

definition getRawRdsNative :: "'e fm_env_scheme \<Rightarrow> 'w fm_world_scheme \<Rightarrow> s32 \<Rightarrow> s32 \<Rightarrow> s32 \<times> 'w fm_world_scheme" where
  "getRawRdsNative E w fd cnt = (fm_read E fd cnt, logged (ReadDev fd cnt) w)"

definition setNotchFilterNative :: "'e fm_env_scheme \<Rightarrow> 'w fm_world_scheme \<Rightarrow> s32 \<Rightarrow> s32 \<Rightarrow> bool \<Rightarrow> s32 \<times> 'w fm_world_scheme" where
  "setNotchFilterNative E w fd cid aValue =
     (if not_rome E w then
        let w = logged (PropertySet ''hw.fm.mode'' (if aValue then ''wa_enable'' else ''wa_disable'')) (logged (PropertySet ''hw.fm.init'' ''0'') w);
            w = logged SchedYield (logged (PropertySet ''ctl.start'' ''fm_dl'') w);
            (init_success, w) = wait_init 10 E w;
            notch = fm_prop E (fm_log w) ''notch.value'';
            band = (if take 4 notch = ''HIGH'' then HIGH_BAND else if take 3 notch = ''LOW'' then LOW_BAND else 0) in
        if 0 \<le>s fd \<and> 0 \<le>s cid then jni_status (set_control E w fd cid band) else (FM_JNI_FAILURE, w)
      else (0, w))"

definition setAnalogModeNative :: "'e fm_env_scheme \<Rightarrow> 'w fm_world_scheme \<Rightarrow> bool \<Rightarrow> s32 \<times> 'w fm_world_scheme" where
  "setAnalogModeNative E w aValue =
     (if not_rome E w then
        let w = logged (PropertySet ''hw.fm.isAnalog'' (if aValue then ''true'' else ''false'')) (logged (PropertySet ''hw.fm.init'' ''0'') w);
            w = logged SchedYield (logged (PropertySet ''ctl.start'' ''fm_dl'') (logged (PropertySet ''hw.fm.mode'' ''config_dac'') w));
            (ok, w) = wait_init 10 E w
        in (if ok then 1 else 0, w)
      else (0, w))"

definition setPTYNative :: "'e fm_env_scheme \<Rightarrow> 'w fm_world_scheme \<Rightarrow> s32 \<Rightarrow> s32 \<Rightarrow> s32 \<times> 'w fm_world_scheme" where
  "setPTYNative E w fd pty =
     (if 0 \<le>s fd then jni_status (set_control E w fd (tx_pty E) (pty AND MASK_PTY E)) else (FM_JNI_FAILURE, w))"

definition setPINative :: "'e fm_env_scheme \<Rightarrow> 'w fm_world_scheme \<Rightarrow> s32 \<Rightarrow> s32 \<Rightarrow> s32 \<times> 'w fm_world_scheme" where
  "setPINative E w fd pi =
     (if 0 \<le>s fd then jni_status (set_control E w fd (tx_pi E) (pi AND MASK_PI E)) else (FM_JNI_FAILURE, w))"

definition startRTNative :: "'e fm_env_scheme \<Rightarrow> 'w fm_world_scheme \<Rightarrow> s32 \<Rightarrow> bytes option \<Rightarrow> s32 \<times> 'w fm_world_scheme" where
  "startRTNative E w fd radio_text =
     (case radio_text of
        None \<Rightarrow> (FM_JNI_FAILURE, w)
      | Some rt_string \<Rightarrow>
          if TX_RT_LENGTH < length rt_string then (FM_JNI_FAILURE, w)
          else
            (case new E w of
               (False, w) \<Rightarrow> (FM_JNI_FAILURE, w)
             | (True, w) \<Rightarrow>
                 let (r, w) = fm_ioctl E w fd (SExtCtrls (tx_radio_text E) (rt_string @ [0])); w = freed 1 w
                 in (if rret r < 0 then FM_JNI_FAILURE else FM_JNI_SUCCESS, w)))"

definition stopRTNative :: "'e fm_env_scheme \<Rightarrow> 'w fm_world_scheme \<Rightarrow> s32 \<Rightarrow> s32 \<times> 'w fm_world_scheme" where
  "stopRTNative E w fd = (if 0 \<le>s fd then jni_status (set_control E w fd (stop_rt E) 0) else (FM_JNI_FAILURE, w))"

definition startPSNative :: "'e fm_env_scheme \<Rightarrow> 'w fm_world_scheme \<Rightarrow> s32 \<Rightarrow> bytes option \<Rightarrow> s32 \<times> 'w fm_world_scheme" where
  "startPSNative E w fd buff =
     (case buff of
        None \<Rightarrow> (FM_JNI_FAILURE, w)
      | Some ps_string \<Rightarrow>
          if 0 < length ps_string \<and> length ps_string + 1 = PS_LEN then
            (case new E w of
               (False, w) \<Rightarrow> (FM_JNI_FAILURE, w)
             | (True, w) \<Rightarrow>
                 let (r, w) = fm_ioctl E w fd (SExtCtrls (tx_ps_name E) (ps_string @ [0])); w = freed 1 w
                 in (if rret r < 0 then FM_JNI_FAILURE else FM_JNI_SUCCESS, w))
          else (FM_JNI_FAILURE, w))"

definition stopPSNative :: "'e fm_env_scheme \<Rightarrow> 'w fm_world_scheme \<Rightarrow> s32 \<Rightarrow> s32 \<times> 'w fm_world_scheme" where
  "stopPSNative E w fd = (if 0 \<le>s fd then jni_status (set_control E w fd (stop_ps_name E) 0) else (FM_JNI_FAILURE, w))"

definition configureSpurTable :: "'e fm_env_scheme \<Rightarrow> 'w fm_world_scheme \<Rightarrow> s32 \<Rightarrow> s32 \<times> 'w fm_world_scheme" where
  "configureSpurTable E w fd = (if 0 \<le>s fd then jni_status (set_control E w fd (update_spur_table E) 0) else (FM_JNI_FAILURE, w))"

definition setPSRepeatCountNative :: "'e fm_env_scheme \<Rightarrow> 'w fm_world_scheme \<Rightarrow> s32 \<Rightarrow> s32 \<Rightarrow> s32 \<times> 'w fm_world_scheme" where
  "setPSRepeatCountNative E w fd repCount =
     (if 0 \<le>s fd then jni_status (set_control E w fd (tx_setpsrepeatcount E) (repCount AND MASK_TXREPCOUNT E)) else (FM_JNI_FAILURE, w))"

definition setTxPowerLevelNative :: "'e fm_env_scheme \<Rightarrow> 'w fm_world_scheme \<Rightarrow> s32 \<Rightarrow> s32 \<Rightarrow> s32 \<times> 'w fm_world_scheme" where
  "setTxPowerLevelNative E w fd powLevel =
     (if 0 \<le>s fd then jni_status (set_control E w fd (tune_power_level E) powLevel) else (FM_JNI_FAILURE, w))"

definition V4L2_CID_PRIVATE_IRIS_SET_SPURTABLE :: u32 where
  "V4L2_CID_PRIVATE_IRIS_SET_SPURTABLE = V4L2_CTRL_CLASS_USER + 0x92D"

text \<open>
  The number of entries is given apart from the array. A negative one is a huge size for \<open>malloc\<close>, and the loop
  does not run.
\<close>

definition setSpurDataNative :: "'e fm_env_scheme \<Rightarrow> 'w fm_world_scheme \<Rightarrow> s32 \<Rightarrow> u16 list option \<Rightarrow> s32 \<Rightarrow> (s32 \<times> 'w fm_world_scheme) res" where
  "setSpurDataNative E w fd buff cnt =
     (case buff of
        None \<Rightarrow> Inr (FM_JNI_FAILURE, w)
      | Some spur_data \<Rightarrow>
          (case new E w of
             (False, w) \<Rightarrow> Inr (FM_JNI_FAILURE, w)
           | (True, w) \<Rightarrow>
               let n = nat (sint cnt) in
               if length spur_data < n then Inl (Fault OutOfBounds)
               else
                 let (r, w) = fm_ioctl E w fd (SExtCtrls V4L2_CID_PRIVATE_IRIS_SET_SPURTABLE (map ucast (take n spur_data)));
                     w = freed 1 w
                 in Inr (if rret r < 0 then FM_JNI_FAILURE else FM_JNI_SUCCESS, w)))"

section \<open>Controls\<close>

text \<open>What a call adds to the log.\<close>

lemma fm_log_logged [simp]: "fm_log (logged ev w) = fm_log w @ [ev]"
  by (simp add: logged_def)

lemma conf_fields_logged [simp]: "mallocs (logged ev w) = mallocs w" "live (logged ev w) = live w"
  by (simp_all add: logged_def)

lemma set_control_loop_log:
  "0 < n \<Longrightarrow> \<exists>k. 0 < k \<and> k \<le> n \<and> fm_log (snd (set_control_loop n E w fd cid val)) = fm_log w @ replicate k (Ioctl fd (SCtrl cid val))"
proof (induction n arbitrary: w)
  case (Suc n)
  show ?case
  proof (cases "rret (fm_driver E (fm_log w) fd (SCtrl cid val)) < IOCTL_SUCC \<and> 0 < n")
    case True
    then obtain k where "0 < k" "k \<le> n"
      "fm_log (snd (set_control_loop n E (logged (Ioctl fd (SCtrl cid val)) w) fd cid val)) =
       fm_log (logged (Ioctl fd (SCtrl cid val)) w) @ replicate k (Ioctl fd (SCtrl cid val))"
      using Suc.IH by blast
    then show ?thesis using True by (intro exI [of _ "Suc k"]) (simp add: fm_ioctl_def)
  next
    case False
    then show ?thesis by (intro exI [of _ 1]) (auto simp: fm_ioctl_def split: if_splits)
  qed
qed simp

lemma set_control_loop_heap:
  "mallocs (snd (set_control_loop n E w fd cid val)) = mallocs w \<and> live (snd (set_control_loop n E w fd cid val)) = live w"
  by (induction n arbitrary: w) (simp_all add: fm_ioctl_def Let_def)

lemma set_control_log:
  "\<exists>k. 0 < k \<and> k \<le> 3 \<and> fm_log (snd (set_control E w fd cid val)) = fm_log w @ replicate k (Ioctl fd (SCtrl cid val))"
  unfolding set_control_def by (rule set_control_loop_log) simp

lemma set_control_heap:
  "mallocs (snd (set_control E w fd cid val)) = mallocs w" "live (snd (set_control E w fd cid val)) = live w"
  unfolding set_control_def by (simp_all add: set_control_loop_heap)

lemma get_param_log: "fm_log (snd (snd (get_param E cid fd w))) = fm_log w @ [Ioctl fd (GCtrl cid)]"
  and get_param_heap: "mallocs (snd (snd (get_param E cid fd w))) = mallocs w" "live (snd (snd (get_param E cid fd w))) = live w"
  by (simp_all add: get_param_def get_control_def fm_ioctl_def Let_def)

section \<open>The list of the hybrid search\<close>

definition hybrid_entry :: "u32 \<Rightarrow> u8 \<Rightarrow> bytes" where
  "hybrid_entry f s = [ucast ((f - 76000) div 50), ucast (drop_bit 8 ((f - 76000) div 50)), s]"

definition hybrid_block :: "u32 list \<Rightarrow> u8 list \<Rightarrow> bytes" where
  "hybrid_block fs ss =
     [0x40, of_nat (3 * length fs + 1), of_nat (length fs)] @ concat (map (\<lambda>(f, s). hybrid_entry f s) (zip fs ss))"

lemma length_hybrid_block: "length fs = length ss \<Longrightarrow> length (hybrid_block fs ss) = 3 * length fs + 3"
proof -
  have "length (concat (map (\<lambda>(f, s). hybrid_entry f s) ps)) = 3 * length ps" for ps
    by (induction ps) (auto simp: hybrid_entry_def)
  then show "length fs = length ss \<Longrightarrow> ?thesis" by (simp add: hybrid_block_def)
qed

lemma unat_size3:
  fixes n :: u32
  assumes "unat n < 2 ^ 30" "k < 2 ^ 28"
  shows "unat (n * 3 + of_nat k) = 3 * unat n + k"
proof -
  have "n * 3 + of_nat k = of_nat (3 * unat n + k)" by simp
  moreover have "3 * unat n + k < 2 ^ 32" using assms by simp
  ultimately show ?thesis by (simp only: unat_of_nat) simp
qed

lemma hybrid_loop_result:
  assumes "length fs = length ss" "length data + 3 * length fs = 3 * unat n + 3" "unat n < 2 ^ 30"
  shows "hybrid_loop n data (Some fs) (Some ss) = Inr (data @ concat (map (\<lambda>(f, s). hybrid_entry f s) (zip fs ss)))"
  using assms
proof (induction fs arbitrary: data ss)
  case (Cons f fs)
  obtain s ss' where ss: "ss = s # ss'" using Cons.prems(1) by (cases ss) auto
  have n: "unat (n * 3 + 2) = 3 * unat n + 2" "unat (n * 3 + 3) = 3 * unat n + 3"
    using unat_size3 [OF Cons.prems(3), of 2] unat_size3 [OF Cons.prems(3), of 3] by simp_all
  have "length data < 2 ^ 32" using Cons.prems(2,3) by simp
  then have l: "unat (of_nat (length data) :: u32) = length data" by (simp add: unat_of_nat)
  have "of_nat (length data) < n * 3 + 2" using Cons.prems(2) n(1) l by (simp add: word_less_nat_alt)
  moreover have "length data + 3 \<le> unat (n * 3 + 3)" using Cons.prems(2) n(2) by simp
  ultimately have "hybrid_loop n data (Some (f # fs)) (Some ss) = hybrid_loop n (data @ hybrid_entry f s) (Some fs) (Some ss')"
    unfolding ss hybrid_loop.simps [of n data "Some (f # fs)"] by (simp add: hybrid_entry_def Let_def)
  also have "\<dots> = Inr ((data @ hybrid_entry f s) @ concat (map (\<lambda>(f, s). hybrid_entry f s) (zip fs ss')))"
    using Cons.prems ss by (intro Cons.IH) (simp_all add: hybrid_entry_def)
  finally show ?case using ss by simp
next
  case Nil
  have n: "unat (n * 3 + 2) = 3 * unat n + 2" using unat_size3 [OF Nil.prems(3), of 2] by simp
  have "length data < 2 ^ 32" using Nil.prems(2,3) by simp
  then have l: "unat (of_nat (length data) :: u32) = length data" by (simp add: unat_of_nat)
  have "\<not> of_nat (length data) < n * 3 + 2" using Nil.prems(2) n l by (simp add: word_less_nat_alt)
  then show ?case by (simp add: hybrid_loop.simps [of n data "Some []"])
qed

lemma SetHybridSrchList_result:
  assumes l: "length fs = length ss" "0 < length fs" "length fs < 2 ^ 30" "n = of_nat (length fs)"
  shows "\<exists>ret w'. SetHybridSrchList E fd (Some fs) (Some ss) n w = Inr (ret, w') \<and> live w' = live w \<and>
    (if conf_malloc E (mallocs w) then fm_log w' = fm_log w @ [Ioctl fd (SExtCtrls V4L2_CID_PRV_IRIS_WRITE_DEFAULT (hybrid_block fs ss))]
     else ret = FM_FAILURE \<and> fm_log w' = fm_log w)"
proof -
  have u: "unat n = length fs" using l(3,4) by (simp add: unat_of_nat)
  then have n: "unat (n * 3 + 3) = 3 * length fs + 3" using unat_size3 [of n 3] l(3) by simp
  have z: "n \<noteq> 0" using l(2) u by auto
  have c: "(ucast m :: u8) = of_nat (unat m)" for m :: u32 by simp
  have h: "[0x40, ucast (n * 3 + 1), ucast n] = [0x40 :: u8, of_nat (3 * length fs + 1), of_nat (length fs)]"
    unfolding c using u unat_size3 [of n 1] l(3) by simp
  have "hybrid_loop n [0x40, ucast (n * 3 + 1), ucast n] (Some fs) (Some ss) = Inr (hybrid_block fs ss)"
    unfolding h hybrid_block_def by (rule hybrid_loop_result) (use l u in simp_all)
  moreover have "of_nat (length (hybrid_block fs ss)) = n * 3 + 3"
    using length_hybrid_block [OF l(1)] l(4) by simp
  ultimately show ?thesis using z n
    by (cases "conf_malloc E (mallocs w)")
      (simp_all add: SetHybridSrchList_def world_defs set_ext_control_def fm_ioctl_def logged_def)
qed

fun decode_entries :: "bytes \<Rightarrow> (u32 \<times> u8) list" where
  "decode_entries (lo # hi # s # rest) = (76000 + 50 * (ucast lo + 256 * ucast hi), s) # decode_entries rest"
| "decode_entries rest = []"

definition fm_channel :: "u32 \<Rightarrow> bool" where
  "fm_channel f \<longleftrightarrow> (\<exists>k<2 ^ 16. f = 76000 + 50 * of_nat k)"

lemma two_bytes:
  fixes v :: u32
  assumes "v < 2 ^ 16"
  shows "ucast (ucast v :: u8) + 256 * ucast (ucast (drop_bit 8 v) :: u8) = v"
proof -
  have "unat v < 2 ^ 16" using assms by (simp add: word_less_nat_alt)
  moreover have "unat (ucast (ucast v :: u8) :: u32) = unat v mod 2 ^ 8"
    by (simp add: unsigned_ucast_eq take_bit_eq_mod unat_mod)
  moreover have "unat (ucast (ucast (drop_bit 8 v) :: u8) :: u32) = unat v div 2 ^ 8 mod 2 ^ 8"
    by (simp add: unsigned_ucast_eq take_bit_eq_mod unsigned_drop_bit_eq drop_bit_eq_div unat_mod unat_div)
  ultimately have "unat (ucast (ucast v :: u8) + 256 * ucast (ucast (drop_bit 8 v) :: u8) :: u32) = unat v"
    by (simp add: unat_word_ariths)
  then show ?thesis by (rule unsigned_word_eqI)
qed

lemma decode_hybrid_entry:
  assumes "fm_channel f"
  shows "decode_entries (hybrid_entry f s @ rest) = (f, s) # decode_entries rest"
proof -
  obtain k where k: "k < 2 ^ 16" "f = 76000 + 50 * of_nat k" using assms by (auto simp: fm_channel_def)
  have "unat (50 * of_nat k :: u32) = 50 * k" using k(1) by (simp add: unat_word_ariths unat_of_nat)
  then have "unat ((f - 76000) div 50) = k" using k(2) by (simp add: unat_div)
  then have v: "(f - 76000) div 50 = of_nat k" by (metis of_nat_unat ucast_id)
  moreover have "(of_nat k :: u32) < 2 ^ 16" using k(1) by (simp add: word_less_nat_alt unat_of_nat)
  ultimately show ?thesis using k(2) two_bytes [of "of_nat k"] by (simp add: hybrid_entry_def)
qed

lemma decode_hybrid_entries:
  "\<forall>f\<in>set fs. fm_channel f \<Longrightarrow> decode_entries (concat (map (\<lambda>(f, s). hybrid_entry f s) (zip fs ss))) = zip fs ss"
proof (induction fs arbitrary: ss)
  case (Cons f fs)
  then show ?case by (cases ss) (simp_all add: decode_hybrid_entry)
qed simp

text \<open>A driver that accepts every request and remembers the frequency.\<close>

definition last_frequency :: "fm_event list \<Rightarrow> u32" where
  "last_frequency h = fold (\<lambda>ev f. case ev of Ioctl fd (SFrequency g) \<Rightarrow> g | _ \<Rightarrow> f) h 0"

definition example_fm_env :: fm_env where
  "example_fm_env =
     \<lparr>conf_malloc = (\<lambda>_. True), float_to_int = (\<lambda>_. INT_MAX), conf_file = (\<lambda>_. None),
      fm_open = (\<lambda>_. 5),
      fm_driver = (\<lambda>h fd rq. \<lparr>rret = 0, rversion = 7, rfrequency = last_frequency h, rvalue = 0, rsignal = 0, rlow = 0, rhigh = 0, rused = 0\<rparr>),
      fm_read = (\<lambda>_ _. 0), fm_prop = (\<lambda>_ _. ''1''), fm_calibration = None, tx_pty = 0, tx_pi = 1, tx_radio_text = 2, stop_rt = 3,
      tx_ps_name = 4, stop_ps_name = 5, update_spur_table = 6, tx_setpsrepeatcount = 7, tune_power_level = 8,
      MASK_PTY = 31, MASK_PI = 65535, MASK_TXREPCOUNT = 15\<rparr>"

definition example_fm_world :: fm_world where
  "example_fm_world = \<lparr>mallocs = 0, live = 0, fm_log = [], strtok_at = Nowhere\<rparr>"

text \<open>
  C25. The list of the hybrid search reaches the driver: the block has the right length fields and decodes to
  exactly the given stations and levels, for up to 84 stations on the 50 kHz raster.
\<close>

theorem hybrid_list_sent:
  assumes "length fs = length ss" "0 < length fs" "length fs \<le> 84" "\<forall>f\<in>set fs. fm_channel f" "conf_malloc E (mallocs w)"
  shows "\<exists>ret w' block. SetHybridSrchList E fd (Some fs) (Some ss) (of_nat (length fs)) w = Inr (ret, w') \<and>
    fm_log w' = fm_log w @ [Ioctl fd (SExtCtrls V4L2_CID_PRV_IRIS_WRITE_DEFAULT block)] \<and>
    unat (block ! 1) = length (drop 2 block) \<and> unat (block ! 2) = length fs \<and> decode_entries (drop 3 block) = zip fs ss"
proof -
  have "unat (of_nat (3 * length fs + 1) :: u8) = 3 * length fs + 1" "unat (of_nat (length fs) :: u8) = length fs"
    unfolding unat_of_nat using assms(3) by simp_all
  then have "unat (hybrid_block fs ss ! 1) = length (drop 2 (hybrid_block fs ss))" "unat (hybrid_block fs ss ! 2) = length fs"
    "decode_entries (drop 3 (hybrid_block fs ss)) = zip fs ss"
    using length_hybrid_block [OF assms(1)] decode_hybrid_entries [OF assms(4), of ss] by (simp_all add: hybrid_block_def)
  then show ?thesis
    using SetHybridSrchList_result [OF assms(1,2) _ refl, of E fd w] assms(3,5) by auto
qed

theorem hybrid_list_sent_witness:
  "\<exists>ret w' block. SetHybridSrchList example_fm_env 5 (Some [87500, 101700]) (Some [10, 12]) 2 example_fm_world = Inr (ret, w') \<and>
    fm_log w' = [Ioctl 5 (SExtCtrls V4L2_CID_PRV_IRIS_WRITE_DEFAULT block)] \<and>
    decode_entries (drop 3 block) = [(87500, 10), (101700, 12)]"
proof -
  have "fm_channel 87500" unfolding fm_channel_def by (rule exI [of _ 230]) simp
  moreover have "fm_channel 101700" unfolding fm_channel_def by (rule exI [of _ 514]) simp
  ultimately show ?thesis
    using hybrid_list_sent [of "[87500, 101700]" "[10, 12]" example_fm_env example_fm_world 5]
    by (auto simp: example_fm_env_def example_fm_world_def)
qed

section \<open>Tuning\<close>

text \<open>A driver that accepts a frequency and reports it.\<close>

definition keeps_frequency :: "'e fm_env_scheme \<Rightarrow> s32 \<Rightarrow> bool" where
  "keeps_frequency E fd \<longleftrightarrow>
     (\<forall>h f. 0 \<le> rret (fm_driver E h fd (SFrequency f)) \<and>
        0 \<le> rret (fm_driver E (h @ [Ioctl fd (SFrequency f)]) fd GFrequency) \<and>
        rfrequency (fm_driver E (h @ [Ioctl fd (SFrequency f)]) fd GFrequency) = f)"

text \<open>
  A frequency that was set is read back, as long as its multiple in the unit of the driver fits in 32 bits;
  without a descriptor or with a frequency that is not positive nothing is asked of the driver.
\<close>

lemma tune_roundtrip:
  assumes "keeps_frequency E fd" "unat freq < 2 ^ 28"
  shows "(if 0 \<le>s fd \<and> 0 <s freq
     then \<exists>w1 w2. setFreqNative E w fd freq = (FM_JNI_SUCCESS, w1) \<and> getFreqNative E w1 fd = (freq, w2)
     else setFreqNative E w fd freq = (FM_JNI_FAILURE, w))"
proof -
  have "unat (freq * TUNE_MULT) = unat freq * 16"
    using assms(2) by (simp add: TUNE_MULT_def unat_word_ariths)
  then have "unat (freq * TUNE_MULT div TUNE_MULT) = unat freq" by (simp add: unat_div TUNE_MULT_def)
  then have "freq * TUNE_MULT div TUNE_MULT = freq" by (rule unsigned_word_eqI)
  moreover have "\<not> rret (fm_driver E h fd (SFrequency f)) < 0"
    "\<not> rret (fm_driver E (h @ [Ioctl fd (SFrequency f)]) fd GFrequency) < 0"
    "rfrequency (fm_driver E (h @ [Ioctl fd (SFrequency f)]) fd GFrequency) = f" for h f
    using assms(1) by (auto simp: keeps_frequency_def not_less)
  ultimately show ?thesis
    by (simp add: setFreqNative_def getFreqNative_def set_freq_def get_cur_freq_def fm_ioctl_def jni_status_def jni_value_def
        fm_result_def IOCTL_SUCC_def FM_SUCCESS_def FM_FAILURE_def)
qed

lemma tune_roundtrip_example:
  "\<exists>w1 w2. setFreqNative example_fm_env example_fm_world 5 101700 = (FM_JNI_SUCCESS, w1) \<and> getFreqNative example_fm_env w1 5 = (101700, w2)"
proof -
  have "keeps_frequency example_fm_env 5"
    by (simp add: keeps_frequency_def example_fm_env_def last_frequency_def)
  then show ?thesis
    using tune_roundtrip [of example_fm_env 5 101700 example_fm_world] by (simp add: word_sle_eq word_sless_alt)
qed

section \<open>Opening the radio\<close>

definition waits :: "fm_event list \<Rightarrow> nat" where
  "waits evs = length (filter (\<lambda>ev. ev = Usleep WAIT_TIMEOUT) evs)"

lemma wait_init_log:
  "\<exists>k\<le>n. fm_log (snd (wait_init n E w)) = fm_log w @ replicate k (Usleep WAIT_TIMEOUT) \<and>
     (fst (wait_init n E w) \<longleftrightarrow> fm_prop E (fm_log w @ replicate k (Usleep WAIT_TIMEOUT)) ''hw.fm.init'' = ''1'' \<and> k < n)"
proof (induction n arbitrary: w)
  case (Suc n)
  show ?case
  proof (cases "fm_prop E (fm_log w) ''hw.fm.init'' = ''1''")
    case True
    then show ?thesis by (intro exI [of _ 0]) simp
  next
    case False
    obtain k where "k \<le> n" "fm_log (snd (wait_init n E (logged (Usleep WAIT_TIMEOUT) w))) = fm_log (logged (Usleep WAIT_TIMEOUT) w) @ replicate k (Usleep WAIT_TIMEOUT)"
      "fst (wait_init n E (logged (Usleep WAIT_TIMEOUT) w)) \<longleftrightarrow> fm_prop E (fm_log (logged (Usleep WAIT_TIMEOUT) w) @ replicate k (Usleep WAIT_TIMEOUT)) ''hw.fm.init'' = ''1'' \<and> k < n"
      using Suc.IH by blast
    then show ?thesis using False by (intro exI [of _ "Suc k"]) simp
  qed
qed simp

text \<open>
  C26. Opening the radio ends after at most 45 waits of 200 ms. Either it returns the open descriptor, which was
  not closed in between, or it returns the failure value in one of three ways: the device could not be opened, and
  nothing else was done; the device did not report its capabilities, and the descriptor is then left open, the
  query being the last action on it; or loading the firmware failed, and closing the descriptor is the last action.
\<close>

theorem acquire_ends:
  "\<exists>r w' evs. acquireFdNative E w (Some path) = (r, w') \<and> fm_log w' = fm_log w @ OpenDev path # evs \<and> waits evs \<le> 45 \<and>
    (if 0 \<le>s r then r = fm_open E path \<and> (\<forall>fd. CloseDev fd \<notin> set evs)
     else r = FM_JNI_FAILURE \<and>
       (fm_open E path <s 0 \<and> evs = [] \<or>
        rret (fm_driver E (fm_log w @ [OpenDev path]) (fm_open E path) QueryCap) < 0 \<and> evs = [Ioctl (fm_open E path) QueryCap] \<or>
        last evs = CloseDev (fm_open E path)))"
proof -
  let ?fd = "fm_open E path" and ?w0 = "logged (OpenDev path) w"
  let ?cap = "fm_driver E (fm_log ?w0) ?fd QueryCap"
  let ?v = "PropertySet ''hw.fm.version'' (print_int (sint (rversion ?cap)))"
  let ?w1 = "logged ?v (logged (Ioctl ?fd QueryCap) ?w0)"
  let ?w2 = "logged SchedYield (logged (PropertySet ''ctl.start'' ''fm_dl'')
    (logged (PropertySet ''hw.fm.int'' ''0'') (logged (PropertySet ''hw.fm.mode'' ''normal'') ?w1)))"
  have neg: "\<not> 0 \<le>s FM_JNI_FAILURE" by (simp add: FM_JNI_FAILURE_def word_sle_eq)
  consider (no_dev) "?fd <s 0" | (no_cap) "0 \<le>s ?fd" "rret ?cap < 0" | (rome) "0 \<le>s ?fd" "0 \<le> rret ?cap" "\<not> not_rome E ?w1"
    | (load) "0 \<le>s ?fd" "0 \<le> rret ?cap" "not_rome E ?w1"
    by (meson not_le signed.leI)
  then show ?thesis
  proof cases
    case no_dev
    then show ?thesis using neg by (simp add: acquireFdNative_def waits_def)
  next
    case no_cap
    then have "\<not> ?fd <s 0" by (simp add: word_sle_eq word_sless_alt)
    then show ?thesis using no_cap neg by (simp add: acquireFdNative_def waits_def fm_ioctl_def)
  next
    case rome
    then have "\<not> ?fd <s 0" by (simp add: word_sle_eq word_sless_alt)
    then have "acquireFdNative E w (Some path) = (?fd, ?w1)" using rome by (simp add: acquireFdNative_def fm_ioctl_def Let_def)
    then show ?thesis using rome(1) by (simp add: waits_def)
  next
    case load
    then have n: "\<not> ?fd <s 0" by (simp add: word_sle_eq word_sless_alt)
    obtain ok w3 where wi: "wait_init 45 E ?w2 = (ok, w3)" by fastforce
    obtain k where k: "k \<le> 45" "fm_log w3 = fm_log ?w2 @ replicate k (Usleep WAIT_TIMEOUT)"
      using wait_init_log [of 45 E ?w2] wi by auto
    have call: "acquireFdNative E w (Some path) =
      (if ok then (?fd, w3) else (FM_JNI_FAILURE, logged (CloseDev ?fd) (logged (PropertySet ''ctl.stop'' ''fm_dl'') w3)))"
      using load n wi by (simp add: acquireFdNative_def fm_ioctl_def Let_def)
    show ?thesis using call k load(1) neg by (cases ok) (auto simp: waits_def)
  qed
qed

end
