(* ===== verification/Fm_Ths.thy ===== *)
theory Fm_Ths
  imports Fm_Format Fm_Radio
begin

text \<open>
  The thresholds of the FM radio (\<open>src/packages/apps/FleetyFmService/jni/ConfigFmThs.cpp\<close> and \<open>ConfigFmThs.h\<close>): the
  configuration file is loaded, the names of its groups and keys are looked up in sorted tables, and every
  value in its range is given to the driver. The theorems show that the binary search finds exactly the names
  of a sorted table, that no file, no failed allocation and no refusal of the driver makes a first load go
  wrong, which controls the driver is asked to set, and that a load after a failed allocation may read freed memory
  because \<open>strtok\<close> remembers its place from one load to the next.
\<close>

section \<open>Names and numbers\<close>

definition ascii :: "string \<Rightarrow> bytes" where
  "ascii s = map of_char s"

text \<open>\<open>strcmp\<close> on strings without their terminator, which is smaller than every character.\<close>

fun strcmp :: "bytes \<Rightarrow> bytes \<Rightarrow> int" where
  "strcmp [] [] = 0"
| "strcmp [] (y # ys) = - uint y"
| "strcmp (x # xs) [] = uint x"
| "strcmp (x # xs) (y # ys) = (if x = y then strcmp xs ys else uint x - uint y)"

text \<open>
  \<open>bsearch\<close> of the C library, on a table of names: \<open>lim\<close> entries from \<open>base\<close> on are left to search.
\<close>

function bsearch_loop :: "bytes \<Rightarrow> (bytes \<times> nat) list \<Rightarrow> nat \<Rightarrow> nat \<Rightarrow> (bytes \<times> nat) option" where
  "bsearch_loop key tbl base lim =
     (if lim = 0 then None
      else
        let p = base + lim div 2; cmp = strcmp key (fst (tbl ! p)) in
        if cmp = 0 then Some (tbl ! p)
        else if 0 < cmp then bsearch_loop key tbl (p + 1) ((lim - 1) div 2)
        else bsearch_loop key tbl base (lim div 2))"
  by pat_completeness auto
termination
  by (relation "measure (\<lambda>(key, tbl, base, lim). lim)") auto

declare bsearch_loop.simps [simp del]

definition bsearch :: "bytes \<Rightarrow> (bytes \<times> nat) list \<Rightarrow> (bytes \<times> nat) option" where
  "bsearch key tbl = bsearch_loop key tbl 0 (length tbl)"

text \<open>\<open>atoi\<close> on a byte string; the value of a number outside the range of \<open>int\<close> is left open by C.\<close>

record fm_ths_env = fm_env +
  atoi_overflow :: "int \<Rightarrow> s32"

definition c_atoi :: "'e fm_ths_env_scheme \<Rightarrow> bytes \<Rightarrow> int" where
  "c_atoi E s =
     (let v = atoi (map (\<lambda>c. char_of (unat c)) s)
      in if - (2 ^ 31) \<le> v \<and> v < 2 ^ 31 then v else sint (atoi_overflow E v))"

section \<open>Tables\<close>

text \<open>The entries pair a name with the number of the enumeration.\<close>

definition AF_THS :: nat where "AF_THS = 0"
definition SRCH_THS :: nat where "SRCH_THS = 1"
definition HYBRD_SRCH_LIST :: nat where "HYBRD_SRCH_LIST = 2"

definition SRCH_ALGO_TYPE :: nat where "SRCH_ALGO_TYPE = 0"
definition CF0_TH :: nat where "CF0_TH = 1"
definition SINR_FIRST_STAGE :: nat where "SINR_FIRST_STAGE = 2"
definition SINR :: nat where "SINR = 3"
definition RMSSI_FIRST_STAGE :: nat where "RMSSI_FIRST_STAGE = 4"
definition INTF_LOW_TH :: nat where "INTF_LOW_TH = 5"
definition INTF_HIGH_TH :: nat where "INTF_HIGH_TH = 6"
definition SINR_SAMPLES :: nat where "SINR_SAMPLES = 7"

definition AF_RMSSI_TH :: nat where "AF_RMSSI_TH = 0"
definition AF_RMSSI_SAMPLES :: nat where "AF_RMSSI_SAMPLES = 1"
definition GOOD_CH_RMSSI_TH :: nat where "GOOD_CH_RMSSI_TH = 2"

definition FREQ_LIST :: nat where "FREQ_LIST = 0"
definition SINR_LIST :: nat where "SINR_LIST = 1"

definition GRPS_MAP :: "(bytes \<times> nat) list" where
  "GRPS_MAP = [(ascii ''AFTHRESHOLDS'', AF_THS), (ascii ''HYBRIDSEARCHLIST'', HYBRD_SRCH_LIST), (ascii ''SEARCHTHRESHOLDS'', SRCH_THS)]"

definition SEACH_PARAMS_MAP :: "(bytes \<times> nat) list" where
  "SEACH_PARAMS_MAP =
     [(ascii ''Cf0Th12'', CF0_TH), (ascii ''IntfHighTh'', INTF_HIGH_TH), (ascii ''IntfLowTh'', INTF_LOW_TH),
      (ascii ''RmssiFirstStage'', RMSSI_FIRST_STAGE), (ascii ''SearchAlgoType'', SRCH_ALGO_TYPE), (ascii ''Sinr'', SINR),
      (ascii ''SinrFirstStage'', SINR_FIRST_STAGE), (ascii ''SinrSamplesCnt'', SINR_SAMPLES)]"

definition AF_PARAMS_MAP :: "(bytes \<times> nat) list" where
  "AF_PARAMS_MAP =
     [(ascii ''AfRmssiSamplesCnt'', AF_RMSSI_SAMPLES), (ascii ''AfRmssiTh'', AF_RMSSI_TH), (ascii ''GoodChRmssiTh'', GOOD_CH_RMSSI_TH)]"

definition HYBRD_SRCH_MAP :: "(bytes \<times> nat) list" where
  "HYBRD_SRCH_MAP = [(ascii ''Freqs'', FREQ_LIST), (ascii ''Sinrs'', SINR_LIST)]"

section \<open>Setting thresholds\<close>

text \<open>A setter is followed by the getter of the same parameter, whose result is only printed.\<close>

definition set_then_get :: "('w \<Rightarrow> int \<times> 'w) \<Rightarrow> ('w \<Rightarrow> int \<times> 'a \<times> 'w) \<Rightarrow> 'w \<Rightarrow> 'w" where
  "set_then_get set_fn get_fn w = (let (ret, w) = set_fn w in if ret = FM_FAILURE then w else snd (snd (get_fn w)))"

definition in_range :: "int \<Rightarrow> int \<Rightarrow> int \<Rightarrow> bool" where
  "in_range lo hi value \<longleftrightarrow> lo \<le> value \<and> value \<le> hi"

definition set_af_value :: "'e fm_ths_env_scheme \<Rightarrow> s32 \<Rightarrow> nat \<Rightarrow> int \<Rightarrow> fm_world \<Rightarrow> fm_world" where
  "set_af_value E fd num value w =
     (if num = AF_RMSSI_TH then
        (if in_range 0 65535 value then set_then_get (SetAfRmssiTh E fd (word_of_int value)) (GetAfRmssiTh E fd) w else w)
      else if num = AF_RMSSI_SAMPLES then
        (if in_range 0 255 value then set_then_get (SetAfRmssiSamplesCnt E fd (word_of_int value)) (GetAfRmssiSamplesCnt E fd) w else w)
      else if num = GOOD_CH_RMSSI_TH then
        (if in_range (- 128) 127 value then set_then_get (SetGoodChannelRmssiTh E fd (word_of_int value)) (GetGoodChannelRmssiTh E fd) w else w)
      else w)"

definition set_srch_value :: "'e fm_ths_env_scheme \<Rightarrow> s32 \<Rightarrow> nat \<Rightarrow> int \<Rightarrow> fm_world \<Rightarrow> fm_world" where
  "set_srch_value E fd num value w =
     (if num = SINR_FIRST_STAGE then
        (if in_range (- 128) 127 value then set_then_get (SetSinrFirstStage E fd (word_of_int value)) (GetSinrFirstStage E fd) w else w)
      else if num = RMSSI_FIRST_STAGE then
        (if in_range (- 128) 127 value then set_then_get (SetRmssiFirstStage E fd (word_of_int value)) (GetRmssiFirstStage E fd) w else w)
      else if num = INTF_LOW_TH then
        (if in_range 0 255 value then set_then_get (SetIntfLowTh E fd (word_of_int value)) (GetIntfLowTh E fd) w else w)
      else if num = INTF_HIGH_TH then
        (if in_range 0 255 value then set_then_get (SetIntfHighTh E fd (word_of_int value)) (GetIntfHighTh E fd) w else w)
      else if num = CF0_TH then set_then_get (SetCf0Th12 E fd (word_of_int value)) (GetCf0Th12 E fd) w
      else if num = SRCH_ALGO_TYPE then
        (if in_range 0 1 value then set_then_get (SetSrchAlgoType E fd (word_of_int value)) (GetSrchAlgoType E fd) w else w)
      else if num = SINR_SAMPLES then
        (if in_range 0 255 value then set_then_get (SetSinrSamplesCnt E fd (word_of_int value)) (GetSinrSamplesCnt E fd) w else w)
      else if num = SINR then
        (if in_range (- 128) 127 value then set_then_get (SetSinrFinalStage E fd (word_of_int value)) (GetSinrFinalStage E fd) w else w)
      else w)"

text \<open>The loop over the keys of a group of thresholds. The value is freed in any case.\<close>

fun ths_loop :: "'e fm_ths_env_scheme \<Rightarrow> group_table option \<Rightarrow> bytes \<Rightarrow> (bytes \<times> nat) list \<Rightarrow> (nat \<Rightarrow> int \<Rightarrow> fm_world \<Rightarrow> fm_world) \<Rightarrow>
    fm_world \<Rightarrow> bytes list \<Rightarrow> fm_world res" where
  "ths_loop E keyfile grp tbl set_value w [] = Inr w"
| "ths_loop E keyfile grp tbl set_value w (key # keys) =
     (case bsearch key tbl of
        None \<Rightarrow> ths_loop E keyfile grp tbl set_value w keys
      | Some (name, num) \<Rightarrow>
          bnd (get_value E w keyfile grp name) (\<lambda>(key_value, w).
          case key_value of
            None \<Rightarrow> ths_loop E keyfile grp tbl set_value w keys
          | Some s \<Rightarrow>
              let w = (if s \<noteq> [] then set_value num (c_atoi E s) w else w)
              in ths_loop E keyfile grp tbl set_value (freed 1 w) keys))"

definition set_ths :: "'e fm_ths_env_scheme \<Rightarrow> group_table option \<Rightarrow> bytes \<Rightarrow> (bytes \<times> nat) list \<Rightarrow> (nat \<Rightarrow> int \<Rightarrow> fm_world \<Rightarrow> fm_world) \<Rightarrow>
    fm_world \<Rightarrow> fm_world res" where
  "set_ths E keyfile grp tbl set_value w =
     (if keyfile = None then Inr w
      else
        bnd (get_keys E w keyfile grp) (\<lambda>(keys, w).
        bnd (case keys of None \<Rightarrow> Inr w | Some ks \<Rightarrow> ths_loop E keyfile grp tbl set_value w ks) (\<lambda>w.
        Inr (free_strs w keys))))"

definition set_af_ths :: "'e fm_ths_env_scheme \<Rightarrow> group_table option \<Rightarrow> s32 \<Rightarrow> fm_world \<Rightarrow> fm_world res" where
  "set_af_ths E keyfile fd w = set_ths E keyfile (fst (GRPS_MAP ! 0)) AF_PARAMS_MAP (set_af_value E fd) w"

definition set_srch_ths :: "'e fm_ths_env_scheme \<Rightarrow> group_table option \<Rightarrow> s32 \<Rightarrow> fm_world \<Rightarrow> fm_world res" where
  "set_srch_ths E keyfile fd w = set_ths E keyfile (fst (GRPS_MAP ! 2)) SEACH_PARAMS_MAP (set_srch_value E fd) w"

section \<open>The hybrid search list\<close>

text \<open>
  \<open>strtok\<close> with the delimiter \<open>","\<close>. The argument is the string to begin with, or NULL to go on where the last call
  stopped, whoever made it; \<open>saved\<close> is that place.
\<close>

definition next_item :: "bytes \<Rightarrow> bytes option \<times> tok_place" where
  "next_item s =
     (let s = dropWhile (\<lambda>c. c = 44) s; tok = takeWhile (\<lambda>c. c \<noteq> 44) s; rest = dropWhile (\<lambda>c. c \<noteq> 44) s in
      if s = [] then (None, Nowhere) else (Some tok, if rest = [] then Nowhere else Within (tl rest)))"

definition comma_tok :: "bytes option \<Rightarrow> tok_place \<Rightarrow> (bytes option \<times> tok_place) res" where
  "comma_tok str saved =
     (case str of
        Some s \<Rightarrow> Inr (next_item s)
      | None \<Rightarrow>
          (case saved of
             Nowhere \<Rightarrow> Inr (None, Nowhere)
           | Within s \<Rightarrow> Inr (next_item s)
           | Dangling \<Rightarrow> Inl (Fault UseAfterFree)))"

definition tok_left :: "tok_place \<Rightarrow> nat" where
  "tok_left saved = (case saved of Within r \<Rightarrow> Suc (length r) | _ \<Rightarrow> 0)"

lemma next_item_shorter:
  assumes "next_item s = (item, saved)"
  shows "tok_left saved + (if item = None then 0 else 1) \<le> Suc (length s)" "item = None \<Longrightarrow> saved = Nowhere" "saved \<noteq> Dangling"
proof -
  define u where "u = dropWhile (\<lambda>c. c = 44) s"
  define v where "v = dropWhile (\<lambda>c. c \<noteq> 44) u"
  have "length u \<le> length s" "length v \<le> length u" unfolding u_def v_def by (rule length_dropWhile_le)+
  moreover have "next_item s = (if u = [] then (None, Nowhere) else (Some (takeWhile (\<lambda>c. c \<noteq> 44) u), if v = [] then Nowhere else Within (tl v)))"
    unfolding next_item_def Let_def u_def v_def ..
  ultimately show "tok_left saved + (if item = None then 0 else 1) \<le> Suc (length s)" "item = None \<Longrightarrow> saved = Nowhere" "saved \<noteq> Dangling"
    using assms by (cases u; cases v; auto simp: tok_left_def)+
qed

lemma comma_tok_next:
  assumes "comma_tok None saved = Inr (item, saved')"
  shows "tok_left saved' + (if item = None then 0 else 1) \<le> tok_left saved" "item = None \<Longrightarrow> saved' = Nowhere" "saved' \<noteq> Dangling"
  using assms next_item_shorter [of _ item saved'] by (cases saved; auto simp: comma_tok_def tok_left_def)+

lemma comma_tok_measure:
  "comma_tok None saved = Inr p \<Longrightarrow> (case p of (item, saved') \<Rightarrow> tok_left saved' + (if item = None then 0 else 1)) \<le> tok_left saved"
  by (cases p) (simp add: comma_tok_next(1))

text \<open>
  The loop over the items. \<open>arr\<close> is the array, NULL before the first item; its size doubles when it is full. When
  it cannot grow, it is freed and the number of items so far is returned; \<open>strtok\<close> then remembers a place within
  the string.
\<close>

function extract_loop :: "'e fm_ths_env_scheme \<Rightarrow> (int \<Rightarrow> 'a) \<Rightarrow> fm_world \<Rightarrow> nat \<Rightarrow> 'a list option \<Rightarrow> nat \<Rightarrow> bytes option \<Rightarrow> tok_place \<Rightarrow>
    (nat \<times> 'a list option \<times> fm_world \<times> tok_place) res" where
  "extract_loop E conv w sz arr len item saved =
     (case item of
        None \<Rightarrow> Inr (len, arr, w, saved)
      | Some tok \<Rightarrow>
          let x = conv (c_atoi E tok);
              full = (sz = len);
              sz = (if full then (if sz = 0 then 1 else 2 * sz) else sz);
              (ok, w) = (if full then renew E (arr = None) w else (True, w)) in
          if \<not> ok then Inr (len, None, if arr = None then w else freed 1 w, saved)
          else
            (case comma_tok None saved of
               Inl e \<Rightarrow> Inl e
             | Inr (item, saved) \<Rightarrow>
                 extract_loop E conv w sz (Some ((case arr of None \<Rightarrow> [] | Some a \<Rightarrow> a) @ [x])) (len + 1) item saved))"
  by pat_completeness auto
termination
  by (relation "measure (\<lambda>(E, conv, w, sz, arr, len, item, saved). tok_left saved + (if item = None then 0 else 1))")
    (simp_all add: less_Suc_eq_le comma_tok_measure)

declare extract_loop.simps [simp del]

definition extract_comma_sep_freqs :: "'e fm_ths_env_scheme \<Rightarrow> fm_world \<Rightarrow> bytes option \<Rightarrow> (nat \<times> u32 list option \<times> fm_world) res" where
  "extract_comma_sep_freqs E w freqs =
     bnd (comma_tok freqs (strtok_at w)) (\<lambda>(next_freq, saved).
     bnd (extract_loop E word_of_int w 0 None 0 next_freq saved) (\<lambda>(len, freqs_arr, w, saved).
     Inr (len, freqs_arr, w\<lparr>strtok_at := saved\<rparr>)))"

definition extract_comma_sep_sinrs :: "'e fm_ths_env_scheme \<Rightarrow> fm_world \<Rightarrow> bytes option \<Rightarrow> (nat \<times> u8 list option \<times> fm_world) res" where
  "extract_comma_sep_sinrs E w sinrs =
     bnd (comma_tok sinrs (strtok_at w)) (\<lambda>(next_sinr, saved).
     bnd (extract_loop E word_of_int w 0 None 0 next_sinr saved) (\<lambda>(len, sinrs_arr, w, saved).
     Inr (len, sinrs_arr, w\<lparr>strtok_at := saved\<rparr>)))"

text \<open>
  The loop over the keys of the list group collects the two values. A value that is empty is not freed.
\<close>

fun hybrd_loop :: "'e fm_ths_env_scheme \<Rightarrow> group_table option \<Rightarrow> bytes option \<Rightarrow> bytes option \<Rightarrow> fm_world \<Rightarrow> bytes list \<Rightarrow>
    (bytes option \<times> bytes option \<times> fm_world) res" where
  "hybrd_loop E keyfile freqs sinrs w [] = Inr (freqs, sinrs, w)"
| "hybrd_loop E keyfile freqs sinrs w (key # keys) =
     (case bsearch key HYBRD_SRCH_MAP of
        None \<Rightarrow> hybrd_loop E keyfile freqs sinrs w keys
      | Some (name, num) \<Rightarrow>
          bnd (get_value E w keyfile (fst (GRPS_MAP ! 1)) name) (\<lambda>(key_value, w).
          if key_value \<noteq> None \<and> key_value \<noteq> Some [] then
            (if num = FREQ_LIST then hybrd_loop E keyfile key_value sinrs w keys
             else if num = SINR_LIST then hybrd_loop E keyfile freqs key_value w keys
             else hybrd_loop E keyfile freqs sinrs (freed 1 w) keys)
          else hybrd_loop E keyfile freqs sinrs w keys))"

definition free_opt :: "'a option \<Rightarrow> 'w conf_world_scheme \<Rightarrow> 'w conf_world_scheme" where
  "free_opt p w = (if p = None then w else freed 1 w)"

text \<open>
  The strings of both lists are freed at the end. A place that \<open>strtok\<close> still remembers then lies in one of them.
\<close>

definition free_lists :: "bytes option \<Rightarrow> bytes option \<Rightarrow> fm_world \<Rightarrow> fm_world" where
  "free_lists freqs sinrs w =
     (let w = free_opt sinrs (free_opt freqs w)
      in case strtok_at w of Within _ \<Rightarrow> w\<lparr>strtok_at := Dangling\<rparr> | _ \<Rightarrow> w)"

definition set_hybrd_list :: "'e fm_ths_env_scheme \<Rightarrow> group_table option \<Rightarrow> s32 \<Rightarrow> fm_world \<Rightarrow> fm_world res" where
  "set_hybrd_list E keyfile fd w =
     bnd (if keyfile = None then Inr (None, None, w)
          else
            bnd (get_keys E w keyfile (fst (GRPS_MAP ! 1))) (\<lambda>(keys, w).
            case keys of
              None \<Rightarrow> Inr (None, None, w)
            | Some ks \<Rightarrow>
                bnd (hybrd_loop E keyfile None None w ks) (\<lambda>(freqs, sinrs, w). Inr (freqs, sinrs, free_strs w keys)))) (\<lambda>(freqs, sinrs, w).
     bnd (extract_comma_sep_freqs E w freqs) (\<lambda>(freq_cnt, freqs_array, w).
     bnd (extract_comma_sep_sinrs E w sinrs) (\<lambda>(sinr_cnt, sinrs_array, w).
     bnd (if freq_cnt = sinr_cnt \<and> 0 < sinr_cnt
          then bnd (SetHybridSrchList E fd freqs_array sinrs_array (of_nat freq_cnt) w) (\<lambda>(ret, w). Inr w)
          else Inr w) (\<lambda>w.
     Inr (free_opt sinrs_array (free_opt freqs_array (free_lists freqs sinrs w)))))))"

section \<open>The whole configuration\<close>

fun grps_loop :: "'e fm_ths_env_scheme \<Rightarrow> group_table option \<Rightarrow> s32 \<Rightarrow> fm_world \<Rightarrow> bytes list \<Rightarrow> fm_world res" where
  "grps_loop E keyfile fd w [] = Inr w"
| "grps_loop E keyfile fd w (grp # grps) =
     bnd (case bsearch grp GRPS_MAP of
            None \<Rightarrow> Inr w
          | Some (name, num) \<Rightarrow>
              if num = AF_THS then set_af_ths E keyfile fd w
              else if num = SRCH_THS then set_srch_ths E keyfile fd w
              else if num = HYBRD_SRCH_LIST then set_hybrd_list E keyfile fd w
              else Inr w) (\<lambda>w.
     grps_loop E keyfile fd w grps)"

definition SetRxSearchAfThs :: "'e fm_ths_env_scheme \<Rightarrow> bytes \<Rightarrow> s32 \<Rightarrow> fm_world \<Rightarrow> fm_world res" where
  "SetRxSearchAfThs E file fd w =
     (let (keyfile, w) = get_key_file E w in
      bnd (parse_load_file E w keyfile (Some file)) (\<lambda>(ok, w, keyfile).
      bnd (if \<not> ok then Inr w
           else
             bnd (get_grps E w keyfile) (\<lambda>(grps, w).
             bnd (case grps of None \<Rightarrow> Inr w | Some gs \<Rightarrow> grps_loop E keyfile fd w gs) (\<lambda>w.
             Inr (free_strs w grps)))) (\<lambda>w.
      free_key_file w keyfile)))"

definition FM_PERFORMANCE_PARAMS :: bytes where
  "FM_PERFORMANCE_PARAMS = ascii ''/etc/fm/fm_srch_af_th.conf''"

definition configurePerformanceParams :: "'e fm_ths_env_scheme \<Rightarrow> s32 \<Rightarrow> fm_world \<Rightarrow> fm_world res" where
  "configurePerformanceParams E fd w = SetRxSearchAfThs E FM_PERFORMANCE_PARAMS fd w"

section \<open>The binary search\<close>

definition char_less :: "(u8 \<times> u8) set" where
  "char_less = {(a, b). a < b}"

lemma strcmp_lexord:
  "0 \<notin> set x \<Longrightarrow> 0 \<notin> set y \<Longrightarrow>
   (strcmp x y < 0 \<longleftrightarrow> (x, y) \<in> lexord char_less) \<and> (0 < strcmp x y \<longleftrightarrow> (y, x) \<in> lexord char_less) \<and> (strcmp x y = 0 \<longleftrightarrow> x = y)"
proof (induction x y rule: strcmp.induct)
  case (2 y ys)
  then have "0 < uint y" by (metis less_le list.set_intros(1) uint_0_iff uint_ge_0)
  then show ?case by simp
next
  case (3 x xs)
  then have "0 < uint x" by (metis less_le list.set_intros(1) uint_0_iff uint_ge_0)
  then show ?case by simp
next
  case (4 x xs y ys)
  then show ?case by (auto simp: char_less_def word_less_def word_uint_eq_iff)
qed simp

lemma lexord_char_trans: "(x, y) \<in> lexord char_less \<Longrightarrow> (y, z) \<in> lexord char_less \<Longrightarrow> (x, z) \<in> lexord char_less"
  by (rule lexord_trans) (auto simp: char_less_def trans_def)

lemma lexord_char_irrefl: "(x, x) \<notin> lexord char_less"
  by (rule lexord_irreflexive) (simp add: char_less_def)

definition sorted_table :: "(bytes \<times> nat) list \<Rightarrow> bool" where
  "sorted_table tbl \<longleftrightarrow>
     sorted_wrt (\<lambda>a b. (fst a, fst b) \<in> lexord char_less) tbl \<and> list_all (\<lambda>e. 0 \<notin> set (fst e)) tbl"

lemma sorted_table_nth:
  assumes "sorted_table tbl" "i < j" "j < length tbl"
  shows "(fst (tbl ! i), fst (tbl ! j)) \<in> lexord char_less"
  using assms by (simp add: sorted_table_def sorted_wrt_iff_nth_less)

lemma bsearch_loop_result:
  assumes "sorted_table tbl" "0 \<notin> set key" "base + lim \<le> length tbl"
  shows "case bsearch_loop key tbl base lim of
      Some e \<Rightarrow> e \<in> set tbl \<and> fst e = key
    | None \<Rightarrow> \<forall>i. base \<le> i \<and> i < base + lim \<longrightarrow> fst (tbl ! i) \<noteq> key"
  using assms
proof (induction key tbl base lim rule: bsearch_loop.induct)
  case (1 key tbl base lim)
  let ?p = "base + lim div 2"
  note loop = bsearch_loop.simps [of key tbl base lim]
  show ?case
  proof (cases "lim = 0")
    case True
    then show ?thesis by (auto simp: bsearch_loop.simps [of key tbl base 0])
  next
    case False
    then have p: "?p < length tbl" using 1(5) by simp
    then have z: "0 \<notin> set (fst (tbl ! ?p))" using 1(3) nth_mem [OF p] by (simp add: sorted_table_def list_all_iff)
    note c = strcmp_lexord [OF 1(4) z]
    consider "strcmp key (fst (tbl ! ?p)) = 0" | "0 < strcmp key (fst (tbl ! ?p))" | "strcmp key (fst (tbl ! ?p)) < 0" by linarith
    then show ?thesis
    proof cases
      case 1
      then have "bsearch_loop key tbl base lim = Some (tbl ! ?p)" using False by (simp add: loop Let_def)
      moreover have "fst (tbl ! ?p) = key" using 1 c by blast
      ultimately show ?thesis using p by simp
    next
      case 2
      have w: "?p + 1 + (lim - 1) div 2 = base + lim" using False by presburger
      have low: "fst (tbl ! i) \<noteq> key" if "i \<le> ?p" for i
      proof (cases "i = ?p")
        case True
        then show ?thesis using 2 c lexord_char_irrefl by auto
      next
        case False
        then have "(fst (tbl ! i), fst (tbl ! ?p)) \<in> lexord char_less" using sorted_table_nth [OF 1(3)] that p by simp
        then show ?thesis using 2 c lexord_char_trans lexord_char_irrefl by blast
      qed
      have "bsearch_loop key tbl base lim = bsearch_loop key tbl (?p + 1) ((lim - 1) div 2)" using False 2 by (simp add: loop Let_def)
      moreover have "case bsearch_loop key tbl (?p + 1) ((lim - 1) div 2) of Some e \<Rightarrow> e \<in> set tbl \<and> fst e = key
        | None \<Rightarrow> \<forall>i. ?p + 1 \<le> i \<and> i < ?p + 1 + (lim - 1) div 2 \<longrightarrow> fst (tbl ! i) \<noteq> key"
        by (rule 1(1) [OF False refl refl]) (use 2 1(3-5) w in auto)
      ultimately show ?thesis using low unfolding w by (auto split: option.splits) (metis not_less_eq_eq)
    next
      case 3
      have high: "fst (tbl ! i) \<noteq> key" if "?p \<le> i" "i < base + lim" for i
      proof (cases "i = ?p")
        case True
        then show ?thesis using 3 c lexord_char_irrefl by auto
      next
        case False
        then have "(fst (tbl ! ?p), fst (tbl ! i)) \<in> lexord char_less" using sorted_table_nth [OF 1(3)] that 1(5) by simp
        then show ?thesis using 3 c lexord_char_trans lexord_char_irrefl by blast
      qed
      have "bsearch_loop key tbl base lim = bsearch_loop key tbl base (lim div 2)" using False 3 by (simp add: loop Let_def)
      moreover have "case bsearch_loop key tbl base (lim div 2) of Some e \<Rightarrow> e \<in> set tbl \<and> fst e = key
        | None \<Rightarrow> \<forall>i. base \<le> i \<and> i < ?p \<longrightarrow> fst (tbl ! i) \<noteq> key"
        using 1(2) [OF False refl refl] 3 1(3-5) by simp
      ultimately show ?thesis using high by (auto split: option.splits) (metis not_less)
    qed
  qed
qed

lemma sorted_table_distinct: "sorted_table tbl \<Longrightarrow> distinct (map fst tbl)"
proof -
  assume "sorted_table tbl"
  then have "sorted_wrt (\<lambda>a b. fst a \<noteq> fst b) tbl"
    using lexord_char_irrefl by (auto simp: sorted_table_def intro: sorted_wrt_mono_rel [rotated])
  then show ?thesis by (simp add: sorted_wrt_map distinct_conv_nth sorted_wrt_iff_nth_less) (metis nat_neq_iff)
qed

lemma bsearch_map_of:
  assumes "sorted_table tbl" "0 \<notin> set key"
  shows "bsearch key tbl = map_option (Pair key) (map_of tbl key)"
proof (cases "bsearch_loop key tbl 0 (length tbl)")
  case None
  then have "\<forall>i<length tbl. fst (tbl ! i) \<noteq> key" using bsearch_loop_result [OF assms, of 0 "length tbl"] by simp
  then have "key \<notin> fst ` set tbl" by (metis imageE in_set_conv_nth)
  then show ?thesis using None by (simp add: bsearch_def map_of_eq_None_iff)
next
  case (Some e)
  then have e: "e \<in> set tbl" "fst e = key" using bsearch_loop_result [OF assms, of 0 "length tbl"] by auto
  have "map_of tbl key = Some (snd e)" using e sorted_table_distinct [OF assms(1)] by (metis map_of_is_SomeI prod.collapse)
  then show ?thesis using Some e(2) by (cases e) (simp add: bsearch_def)
qed

lemma tables_sorted:
  "sorted_table GRPS_MAP" "sorted_table SEACH_PARAMS_MAP" "sorted_table AF_PARAMS_MAP" "sorted_table HYBRD_SRCH_MAP"
  by (simp_all add: sorted_table_def GRPS_MAP_def SEACH_PARAMS_MAP_def AF_PARAMS_MAP_def HYBRD_SRCH_MAP_def ascii_def char_less_def)

section \<open>What the driver is asked to set\<close>

definition ctrls :: "fm_event list \<Rightarrow> (s32 \<times> u32 \<times> s32) set" where
  "ctrls evs = {(fd, cid, val). Ioctl fd (SCtrl cid val) \<in> set evs}"

text \<open>
  A step asks for the controls in \<open>S\<close>: for no others, and for all of them unless memory is short.
\<close>

definition asks :: "'e conf_env_scheme \<Rightarrow> (s32 \<times> u32 \<times> s32) set \<Rightarrow> fm_world \<Rightarrow> fm_world \<Rightarrow> bool" where
  "asks E S w w' \<longleftrightarrow>
     (\<exists>evs. fm_log w' = fm_log w @ evs \<and> ctrls evs \<subseteq> S \<and> (heap_failed E \<or> ctrls evs = S))"

lemma ctrls_append [simp]: "ctrls (a @ b) = ctrls a \<union> ctrls b"
  by (auto simp: ctrls_def)

lemma asks_trans: "asks E S w w1 \<Longrightarrow> asks E T w1 w2 \<Longrightarrow> asks E (S \<union> T) w w2"
  unfolding asks_def by (elim exE, rule_tac x = "evs @ evsa" in exI) auto

lemma asks_same: "fm_log w' = fm_log w \<Longrightarrow> asks E {} w w'"
  by (simp add: asks_def ctrls_def)

lemma asks_failed: "heap_failed E \<Longrightarrow> fm_log w' = fm_log w \<Longrightarrow> asks E S w w'"
  by (auto simp: asks_def ctrls_def)

lemma asks_log: "asks E S w1 w2 \<Longrightarrow> fm_log w1 = fm_log w \<Longrightarrow> fm_log w' = fm_log w2 \<Longrightarrow> asks E S w w'"
  by (simp add: asks_def)

lemma log_more: "conf_world.more w' = conf_world.more (w :: fm_world) \<Longrightarrow> fm_log w' = fm_log w"
  by (cases w; cases w') simp

lemma tok_more: "conf_world.more w' = conf_world.more (w :: fm_world) \<Longrightarrow> strtok_at w' = strtok_at w"
  by (cases w; cases w') simp

lemma fm_log_freed [simp]: "fm_log (freed n w) = fm_log w" "strtok_at (freed n w) = strtok_at w"
  by (simp_all add: freed_def)

lemma fm_log_free_strs [simp]: "fm_log (free_strs w r) = fm_log w" "strtok_at (free_strs w r) = strtok_at w"
  by (simp_all add: free_strs_def split: option.split)

lemma fm_log_free_opt [simp]: "fm_log (free_opt p w) = fm_log w" "strtok_at (free_opt p w) = strtok_at w"
  by (simp_all add: free_opt_def)

lemma fm_log_free_lists [simp]: "fm_log (free_lists f g w) = fm_log w"
  by (simp add: free_lists_def Let_def split: tok_place.split)

lemma set_then_get_asks:
  "asks E {(fd, cid, val)} w (set_then_get (\<lambda>w. set_control E' w fd cid val) (get_param E' cid' fd) w)"
proof -
  obtain k where k: "0 < k" "fm_log (snd (set_control E' w fd cid val)) = fm_log w @ replicate k (Ioctl fd (SCtrl cid val))"
    using set_control_log [of E' w fd cid val] by auto
  obtain ret w1 where s: "set_control E' w fd cid val = (ret, w1)" by fastforce
  have "ctrls (replicate k (Ioctl fd (SCtrl cid val))) = {(fd, cid, val)}" using k(1) by (auto simp: ctrls_def)
  moreover have "ctrls [Ioctl fd (GCtrl cid')] = {}" by (simp add: ctrls_def)
  ultimately show ?thesis
    using k(2) s by (auto simp: asks_def set_then_get_def get_param_log)
qed

lemma narrow_int:
  "in_range 0 65535 v \<Longrightarrow> (ucast (word_of_int v :: u16) :: s32) = word_of_int v"
  "in_range 0 255 v \<Longrightarrow> (ucast (word_of_int v :: u8) :: s32) = word_of_int v"
  "in_range 0 1 v \<Longrightarrow> (ucast (word_of_int v :: u8) :: s32) = word_of_int v"
  "in_range (- 128) 127 v \<Longrightarrow> (scast (word_of_int v :: u8) :: s32) = word_of_int v"
  by (simp_all add: in_range_def unsigned_of_int take_bit_int_eq_self signed_of_int signed_take_bit_int_eq_self)

lemma setters_eta:
  "SetAfRmssiTh E fd ts = (\<lambda>w. set_control E w fd V4L2_CID_PRV_AF_RMSSI_TH (ucast ts))"
  "SetAfRmssiSamplesCnt E fd th = (\<lambda>w. set_control E w fd V4L2_CID_PRV_AF_RMSSI_SAMPLES (ucast th))"
  "SetGoodChannelRmssiTh E fd th = (\<lambda>w. set_control E w fd V4L2_CID_PRV_GOOD_CH_RMSSI_TH (scast th))"
  "SetSrchAlgoType E fd th = (\<lambda>w. set_control E w fd V4L2_CID_PRV_SRCHALGOTYPE (ucast th))"
  "SetSinrFirstStage E fd th = (\<lambda>w. set_control E w fd V4L2_CID_PRV_SINRFIRSTSTAGE (scast th))"
  "SetRmssiFirstStage E fd th = (\<lambda>w. set_control E w fd V4L2_CID_PRV_RMSSIFIRSTSTAGE (scast th))"
  "SetCf0Th12 E fd ti = (\<lambda>w. set_control E w fd V4L2_CID_PRV_CF0TH12 ti)"
  "SetSinrSamplesCnt E fd th = (\<lambda>w. set_control E w fd V4L2_CID_PRV_SINR_SAMPLES (ucast th))"
  "SetIntfLowTh E fd th = (\<lambda>w. set_control E w fd V4L2_CID_PRV_ON_CHANNEL_THRESHOLD (ucast th))"
  "SetIntfHighTh E fd th = (\<lambda>w. set_control E w fd V4L2_CID_PRV_OFF_CHANNEL_THRESHOLD (ucast th))"
  "SetSinrFinalStage E fd th = (\<lambda>w. set_control E w fd V4L2_CID_PRV_SINR_THRESHOLD (scast th))"
  by (simp_all add: fun_eq_iff SetAfRmssiTh_def SetAfRmssiSamplesCnt_def SetGoodChannelRmssiTh_def SetSrchAlgoType_def SetSinrFirstStage_def SetRmssiFirstStage_def SetCf0Th12_def SetSinrSamplesCnt_def SetIntfLowTh_def SetIntfHighTh_def SetSinrFinalStage_def)

lemma getters_eta:
  "GetAfRmssiTh E fd = get_param E V4L2_CID_PRV_AF_RMSSI_TH fd"
  "GetAfRmssiSamplesCnt E fd = get_param E V4L2_CID_PRV_AF_RMSSI_SAMPLES fd"
  "GetGoodChannelRmssiTh E fd = get_param E V4L2_CID_PRV_GOOD_CH_RMSSI_TH fd"
  "GetSrchAlgoType E fd = get_param E V4L2_CID_PRV_SRCHALGOTYPE fd"
  "GetSinrFirstStage E fd = get_param E V4L2_CID_PRV_SINRFIRSTSTAGE fd"
  "GetRmssiFirstStage E fd = get_param E V4L2_CID_PRV_RMSSIFIRSTSTAGE fd"
  "GetCf0Th12 E fd = get_param E V4L2_CID_PRV_CF0TH12 fd"
  "GetSinrSamplesCnt E fd = get_param E V4L2_CID_PRV_SINR_SAMPLES fd"
  "GetIntfLowTh E fd = get_param E V4L2_CID_PRV_ON_CHANNEL_THRESHOLD fd"
  "GetIntfHighTh E fd = get_param E V4L2_CID_PRV_OFF_CHANNEL_THRESHOLD fd"
  "GetSinrFinalStage E fd = get_param E V4L2_CID_PRV_SINR_THRESHOLD fd"
  by (simp_all add: fun_eq_iff GetAfRmssiTh_def GetAfRmssiSamplesCnt_def GetGoodChannelRmssiTh_def GetSrchAlgoType_def GetSinrFirstStage_def GetRmssiFirstStage_def GetCf0Th12_def GetSinrSamplesCnt_def GetIntfLowTh_def GetIntfHighTh_def GetSinrFinalStage_def)

definition one_ctrl :: "s32 \<Rightarrow> u32 \<Rightarrow> int \<Rightarrow> int \<Rightarrow> int \<Rightarrow> (s32 \<times> u32 \<times> s32) set" where
  "one_ctrl fd cid lo hi v = (if in_range lo hi v then {(fd, cid, word_of_int v)} else {})"

text \<open>The thresholds: the group and the key, the control of the driver, and the range of its value.\<close>

definition thresholds :: "(bytes \<times> bytes \<times> u32 \<times> int \<times> int) list" where
  "thresholds =
     [(ascii ''AFTHRESHOLDS'', ascii ''AfRmssiTh'', V4L2_CID_PRV_AF_RMSSI_TH, 0, 65535),
      (ascii ''AFTHRESHOLDS'', ascii ''AfRmssiSamplesCnt'', V4L2_CID_PRV_AF_RMSSI_SAMPLES, 0, 255),
      (ascii ''AFTHRESHOLDS'', ascii ''GoodChRmssiTh'', V4L2_CID_PRV_GOOD_CH_RMSSI_TH, - 128, 127),
      (ascii ''SEARCHTHRESHOLDS'', ascii ''SinrFirstStage'', V4L2_CID_PRV_SINRFIRSTSTAGE, - 128, 127),
      (ascii ''SEARCHTHRESHOLDS'', ascii ''RmssiFirstStage'', V4L2_CID_PRV_RMSSIFIRSTSTAGE, - 128, 127),
      (ascii ''SEARCHTHRESHOLDS'', ascii ''IntfLowTh'', V4L2_CID_PRV_ON_CHANNEL_THRESHOLD, 0, 255),
      (ascii ''SEARCHTHRESHOLDS'', ascii ''IntfHighTh'', V4L2_CID_PRV_OFF_CHANNEL_THRESHOLD, 0, 255),
      (ascii ''SEARCHTHRESHOLDS'', ascii ''Cf0Th12'', V4L2_CID_PRV_CF0TH12, - (2 ^ 31), 2 ^ 31 - 1),
      (ascii ''SEARCHTHRESHOLDS'', ascii ''SearchAlgoType'', V4L2_CID_PRV_SRCHALGOTYPE, 0, 1),
      (ascii ''SEARCHTHRESHOLDS'', ascii ''SinrSamplesCnt'', V4L2_CID_PRV_SINR_SAMPLES, 0, 255),
      (ascii ''SEARCHTHRESHOLDS'', ascii ''Sinr'', V4L2_CID_PRV_SINR_THRESHOLD, - 128, 127)]"

definition af_ctrls :: "s32 \<Rightarrow> nat \<Rightarrow> int \<Rightarrow> (s32 \<times> u32 \<times> s32) set" where
  "af_ctrls fd num v =
     (if num = AF_RMSSI_TH then one_ctrl fd V4L2_CID_PRV_AF_RMSSI_TH 0 65535 v
      else if num = AF_RMSSI_SAMPLES then one_ctrl fd V4L2_CID_PRV_AF_RMSSI_SAMPLES 0 255 v
      else if num = GOOD_CH_RMSSI_TH then one_ctrl fd V4L2_CID_PRV_GOOD_CH_RMSSI_TH (- 128) 127 v else {})"

definition srch_ctrls :: "s32 \<Rightarrow> nat \<Rightarrow> int \<Rightarrow> (s32 \<times> u32 \<times> s32) set" where
  "srch_ctrls fd num v =
     (if num = SINR_FIRST_STAGE then one_ctrl fd V4L2_CID_PRV_SINRFIRSTSTAGE (- 128) 127 v
      else if num = RMSSI_FIRST_STAGE then one_ctrl fd V4L2_CID_PRV_RMSSIFIRSTSTAGE (- 128) 127 v
      else if num = INTF_LOW_TH then one_ctrl fd V4L2_CID_PRV_ON_CHANNEL_THRESHOLD 0 255 v
      else if num = INTF_HIGH_TH then one_ctrl fd V4L2_CID_PRV_OFF_CHANNEL_THRESHOLD 0 255 v
      else if num = CF0_TH then {(fd, V4L2_CID_PRV_CF0TH12, word_of_int v)}
      else if num = SRCH_ALGO_TYPE then one_ctrl fd V4L2_CID_PRV_SRCHALGOTYPE 0 1 v
      else if num = SINR_SAMPLES then one_ctrl fd V4L2_CID_PRV_SINR_SAMPLES 0 255 v
      else if num = SINR then one_ctrl fd V4L2_CID_PRV_SINR_THRESHOLD (- 128) 127 v else {})"

lemma set_af_value_asks: "asks E (af_ctrls fd num v) w (set_af_value E' fd num v w)"
  by (auto simp: set_af_value_def af_ctrls_def one_ctrl_def setters_eta getters_eta narrow_int
      intro!: set_then_get_asks asks_same)

lemma set_srch_value_asks: "asks E (srch_ctrls fd num v) w (set_srch_value E' fd num v w)"
  by (auto simp: set_srch_value_def srch_ctrls_def one_ctrl_def setters_eta getters_eta narrow_int
      intro!: set_then_get_asks asks_same)

lemma set_control_loop_tok: "strtok_at (snd (set_control_loop n E w fd cid val)) = strtok_at w"
  by (induction n arbitrary: w) (simp_all add: fm_ioctl_def logged_def Let_def)

lemma set_then_get_tok:
  "strtok_at (set_then_get (\<lambda>w. set_control E' w fd cid val) (get_param E' cid' fd) w) = strtok_at w"
  using set_control_loop_tok [of 3 E' w fd cid val]
  by (auto simp: set_then_get_def set_control_def get_param_def get_control_def fm_ioctl_def logged_def Let_def split: prod.split)

lemma set_value_tok [simp]:
  "strtok_at (set_af_value E fd num v w) = strtok_at w" "strtok_at (set_srch_value E fd num v w) = strtok_at w"
  by (simp_all add: set_af_value_def set_srch_value_def setters_eta getters_eta set_then_get_tok)

text \<open>The controls for one key of a group.\<close>

definition key_ctrls :: "'e fm_ths_env_scheme \<Rightarrow> conf \<Rightarrow> bytes \<Rightarrow> (bytes \<times> nat) list \<Rightarrow> (nat \<Rightarrow> int \<Rightarrow> (s32 \<times> u32 \<times> s32) set) \<Rightarrow> bytes \<Rightarrow>
    (s32 \<times> u32 \<times> s32) set" where
  "key_ctrls E c grp tbl val key =
     (case map_of tbl key of
        None \<Rightarrow> {}
      | Some num \<Rightarrow> (case conf_value c grp key of None \<Rightarrow> {} | Some s \<Rightarrow> if s = [] then {} else val num (c_atoi E s)))"

lemma ths_loop_asks:
  assumes t: "stores E t c" "sorted_table tbl" and v: "\<And>num x w. asks E (val num x) w (set_value num x w)"
    and k: "\<forall>key\<in>set keys. 0 \<notin> set key"
  shows "\<exists>w'. ths_loop E (Some t) grp tbl set_value w keys = Inr w' \<and> asks E (\<Union>key\<in>set keys. key_ctrls E c grp tbl val key) w w'"
  using k
proof (induction keys arbitrary: w)
  case Nil
  then show ?case by (simp add: asks_same)
next
  case (Cons key keys)
  have b: "bsearch key tbl = map_option (Pair key) (map_of tbl key)" using Cons.prems by (intro bsearch_map_of [OF t(2)]) simp
  obtain r w1 where g: "get_value E w (Some t) grp key = Inr (r, w1)" "conf_world.more w1 = conf_world.more w"
    "r = conf_value c grp key \<or> r = None \<and> heap_failed E"
    using stores_value [OF t(1), of w grp key] by auto
  have l: "fm_log w1 = fm_log w" using g(2) by (rule log_more)
  let ?w2 = "case map_of tbl key of None \<Rightarrow> w
    | Some num \<Rightarrow> (case r of None \<Rightarrow> w1 | Some s \<Rightarrow> freed 1 (if s \<noteq> [] then set_value num (c_atoi E s) w1 else w1))"
  have a: "asks E (key_ctrls E c grp tbl val key) w ?w2"
  proof (cases "map_of tbl key")
    case None
    then show ?thesis by (simp add: key_ctrls_def asks_same)
  next
    case (Some num)
    have "asks E (val num x) w (freed 1 (set_value num x w1))" for x
      by (rule asks_log [OF v l]) simp
    moreover have "asks E {} w (freed 1 w1)" "asks E {} w w1" using l by (simp_all add: asks_same)
    moreover have "heap_failed E \<Longrightarrow> asks E S w w1" for S using l by (simp add: asks_failed)
    ultimately show ?thesis using Some g(3) by (cases r; cases "conf_value c grp key") (auto simp: key_ctrls_def)
  qed
  have "ths_loop E (Some t) grp tbl set_value w (key # keys) = ths_loop E (Some t) grp tbl set_value ?w2 keys"
    using b g(1) by (cases "map_of tbl key"; cases r) (simp_all add: Let_def)
  moreover obtain w' where "ths_loop E (Some t) grp tbl set_value ?w2 keys = Inr w'" "asks E (\<Union>key\<in>set keys. key_ctrls E c grp tbl val key) ?w2 w'"
    using Cons.IH [of ?w2] Cons.prems by auto
  ultimately show ?case using asks_trans [OF a] by auto
qed

lemma keys_names:
  assumes "conf_all n c" "key \<in> conf_keys c grp"
  shows "0 \<notin> set key"
proof -
  have "is_name key" using assms by (auto simp: conf_keys_def conf_all_def split: option.splits)
  then show ?thesis using alnum_other by (auto simp: is_name_def list_all_iff)
qed

lemma grps_names:
  assumes "conf_all n c" "grp \<in> dom c"
  shows "0 \<notin> set grp"
proof -
  have "is_name grp" using assms by (auto simp: conf_all_def)
  then show ?thesis using alnum_other by (auto simp: is_name_def list_all_iff)
qed

lemma set_ths_asks:
  assumes t: "stores E t c" "sorted_table tbl" and v: "\<And>num x w. asks E (val num x) w (set_value num x w)"
    and c: "conf_all n c"
  shows "\<exists>w'. set_ths E (Some t) grp tbl set_value w = Inr w' \<and> asks E (\<Union>key\<in>conf_keys c grp. key_ctrls E c grp tbl val key) w w'"
proof -
  obtain r w1 where g: "get_keys E w (Some t) grp = Inr (r, w1)" "conf_world.more w1 = conf_world.more w"
    "strs_of r (conf_keys c grp) \<or> r = None \<and> heap_failed E"
    using stores_keys [OF t(1), of w grp] by auto
  have l: "fm_log w1 = fm_log w" using g(2) by (rule log_more)
  show ?thesis
  proof (cases r)
    case None
    then have "set_ths E (Some t) grp tbl set_value w = Inr w1" using g(1) by (simp add: set_ths_def free_strs_def)
    moreover have "conf_keys c grp = {} \<or> heap_failed E" using g(3) None by (auto simp: strs_of_def)
    ultimately show ?thesis using l by (auto intro: asks_same asks_failed)
  next
    case (Some ks)
    then have ks: "set ks = conf_keys c grp" using g(3) by (auto simp: strs_of_def)
    obtain w2 where p: "ths_loop E (Some t) grp tbl set_value w1 ks = Inr w2"
      and a: "asks E (\<Union>key\<in>set ks. key_ctrls E c grp tbl val key) w1 w2"
      using ths_loop_asks [of E t c tbl val set_value ks grp w1, OF t v] keys_names [OF c] ks by auto
    have "set_ths E (Some t) grp tbl set_value w = Inr (free_strs w2 (Some ks))" using g(1) Some p by (simp add: set_ths_def)
    moreover have "asks E (\<Union>key\<in>set ks. key_ctrls E c grp tbl val key) w (free_strs w2 (Some ks))"
      by (rule asks_log [OF a l]) simp
    ultimately show ?thesis using ks by auto
  qed
qed

text \<open>The thresholds do not touch the place of \<open>strtok\<close>.\<close>

lemma ths_loop_tok:
  assumes t: "stores E t c" and v: "\<And>num x w. strtok_at (set_value num x w) = strtok_at w"
    and "ths_loop E (Some t) grp tbl set_value w keys = Inr w'"
  shows "strtok_at w' = strtok_at w"
  using assms(3)
proof (induction keys arbitrary: w)
  case (Cons key keys)
  show ?case
  proof (cases "bsearch key tbl")
    case (Some e)
    then obtain name num where e: "bsearch key tbl = Some (name, num)" by (cases e) simp
    obtain r w1 where g: "get_value E w (Some t) grp name = Inr (r, w1)" "conf_world.more w1 = conf_world.more w"
      using stores_value [OF t, of w grp name] by auto
    show ?thesis
    proof (cases r)
      case None
      then show ?thesis using Cons e g(1) tok_more [OF g(2)] by auto
    next
      case s: (Some s)
      have "strtok_at w' = strtok_at (freed 1 (if s \<noteq> [] then set_value num (c_atoi E s) w1 else w1))"
        using Cons.prems e g(1) s by (intro Cons.IH) (simp add: Let_def)
      then show ?thesis using tok_more [OF g(2)] v by (simp split: if_splits)
    qed
  qed (use Cons in simp)
qed simp

lemma set_ths_tok:
  assumes t: "stores E t c" and v: "\<And>num x w. strtok_at (set_value num x w) = strtok_at w"
    and s: "set_ths E (Some t) grp tbl set_value w = Inr w'"
  shows "strtok_at w' = strtok_at w"
proof -
  obtain r w1 where g: "get_keys E w (Some t) grp = Inr (r, w1)" "conf_world.more w1 = conf_world.more w"
    using stores_keys [OF t, of w grp] by auto
  show ?thesis
  proof (cases r)
    case None
    then show ?thesis using s g(1) tok_more [OF g(2)] by (auto simp: set_ths_def)
  next
    case (Some ks)
    then obtain w2 where "ths_loop E (Some t) grp tbl set_value w1 ks = Inr w2" "w' = free_strs w2 r" using s g(1) by (auto simp: set_ths_def)
    then show ?thesis using ths_loop_tok [OF t v] tok_more [OF g(2)] by simp
  qed
qed

section \<open>The list of the hybrid search\<close>

definition text_left :: "bytes option \<Rightarrow> nat" where
  "text_left str = (case str of None \<Rightarrow> 0 | Some r \<Rightarrow> Suc (length r))"

lemma extract_loop_result:
  assumes "case arr of None \<Rightarrow> len = 0 | Some a \<Rightarrow> length a = len" "saved \<noteq> Dangling" "item = None \<longrightarrow> saved = Nowhere"
  shows "\<exists>len' arr' w' saved'. extract_loop E conv w sz arr len item saved = Inr (len', arr', w', saved') \<and>
    fm_log w' = fm_log w \<and> (case arr' of None \<Rightarrow> True | Some a \<Rightarrow> length a = len') \<and>
    len' \<le> len + tok_left saved + (if item = None then 0 else 1) \<and> tok_left saved' \<le> tok_left saved \<and>
    saved' \<noteq> Dangling \<and> (heap_failed E \<or> saved' = Nowhere)"
  using assms
proof (induction E conv w sz arr len item saved rule: extract_loop.induct)
  case (1 E conv w sz arr len item saved)
  note e = extract_loop.simps [of E conv w sz arr len item saved]
  show ?case
  proof (cases item)
    case None
    then show ?thesis unfolding e using 1(2-4) by (auto split: option.splits)
  next
    case (Some tok)
    let ?sz = "if sz = len then if sz = 0 then 1 else 2 * sz else sz"
    let ?arr = "Some ((case arr of None \<Rightarrow> [] | Some a \<Rightarrow> a) @ [conv (c_atoi E tok)])"
    obtain ok w1 where k: "(if sz = len then renew E (arr = None) w else (True, w)) = (ok, w1)" by fastforce
    then have l: "fm_log w1 = fm_log w" "ok \<or> heap_failed E"
      by (auto simp: renew_def new_def Let_def heap_failed_def split: if_splits)
    show ?thesis
    proof (cases ok)
      case False
      then show ?thesis unfolding e using Some k l 1(3) by simp
    next
      case True
      obtain item' saved1 where c: "comma_tok None saved = Inr (item', saved1)"
        using 1(3) by (cases saved; auto simp: comma_tok_def) (metis surj_pair)
      note n = comma_tok_next [OF c]
      have a: "case ?arr of None \<Rightarrow> len + 1 = 0 | Some a \<Rightarrow> length a = len + 1" using 1(2) by (auto split: option.split)
      have r: "extract_loop E conv w sz arr len item saved = extract_loop E conv w1 ?sz ?arr (len + 1) item' saved1"
        unfolding e using Some k c True by simp
      have "\<exists>len' arr' w' saved'. extract_loop E conv w1 ?sz ?arr (len + 1) item' saved1 = Inr (len', arr', w', saved') \<and>
        fm_log w' = fm_log w1 \<and> (case arr' of None \<Rightarrow> True | Some a \<Rightarrow> length a = len') \<and>
        len' \<le> len + 1 + tok_left saved1 + (if item' = None then 0 else 1) \<and> tok_left saved' \<le> tok_left saved1 \<and>
        saved' \<noteq> Dangling \<and> (heap_failed E \<or> saved' = Nowhere)"
        by (rule 1(1) [OF Some refl refl refl refl k [symmetric] _ c refl a n(3)]) (use True n(2) in auto)
      then show ?thesis unfolding r using l(1) Some n(1) by fastforce
    qed
  qed
qed

text \<open>The two extractions differ in the type of the items only.\<close>

definition extraction :: "'e fm_ths_env_scheme \<Rightarrow> (int \<Rightarrow> 'a) \<Rightarrow> fm_world \<Rightarrow> bytes option \<Rightarrow> (nat \<times> 'a list option \<times> fm_world) res" where
  "extraction E conv w str =
     bnd (comma_tok str (strtok_at w)) (\<lambda>(item, saved).
     bnd (extract_loop E conv w 0 None 0 item saved) (\<lambda>(len, arr, w, saved).
     Inr (len, arr, w\<lparr>strtok_at := saved\<rparr>)))"

lemma extractions:
  "extract_comma_sep_freqs E w str = extraction E word_of_int w str" "extract_comma_sep_sinrs E w str = extraction E word_of_int w str"
  by (simp_all add: extract_comma_sep_freqs_def extract_comma_sep_sinrs_def extraction_def)

lemma extraction_result:
  assumes "text_left str \<le> Suc n" "tok_left (strtok_at w) \<le> Suc n" "strtok_at w \<noteq> Dangling"
  shows "\<exists>len arr w'. extraction E conv w str = Inr (len, arr, w') \<and> fm_log w' = fm_log w \<and>
    (case arr of None \<Rightarrow> True | Some a \<Rightarrow> length a = len) \<and> len \<le> Suc n \<and> tok_left (strtok_at w') \<le> Suc n \<and>
    strtok_at w' \<noteq> Dangling \<and> (heap_failed E \<or> strtok_at w' = Nowhere)"
proof -
  let ?at = "case str of None \<Rightarrow> strtok_at w | Some s \<Rightarrow> Within s"
  have "comma_tok str (strtok_at w) = comma_tok None ?at" by (simp add: comma_tok_def split: option.split)
  moreover have "\<exists>item saved. comma_tok None ?at = Inr (item, saved)"
    using assms(3) by (cases ?at) (auto simp: comma_tok_def split: option.splits)
  ultimately obtain item saved where c: "comma_tok str (strtok_at w) = Inr (item, saved)" "comma_tok None ?at = Inr (item, saved)" by auto
  note n = comma_tok_next [OF c(2)]
  have "tok_left ?at \<le> Suc n" using assms(1,2) by (auto simp: tok_left_def text_left_def split: option.split)
  then show ?thesis
    using extract_loop_result [where arr = None and len = 0 and sz = 0 and w = w and E = E and conv = conv and item = item and saved = saved] n c(1)
    by (auto simp: extraction_def)
qed

text \<open>The file names no frequencies for the hybrid search.\<close>

definition no_freqs :: "conf \<Rightarrow> bool" where
  "no_freqs c \<longleftrightarrow> conf_value c (ascii ''HYBRIDSEARCHLIST'') (ascii ''Freqs'') \<in> {None, Some []}"

lemma hybrd_loop_result:
  assumes t: "stores E t c" and c: "conf_all n c" and k: "\<forall>key\<in>set keys. 0 \<notin> set key"
    and v: "text_left freqs \<le> Suc n" "text_left sinrs \<le> Suc n"
  shows "\<exists>freqs' sinrs' w'. hybrd_loop E (Some t) freqs sinrs w keys = Inr (freqs', sinrs', w') \<and> fm_log w' = fm_log w \<and>
    strtok_at w' = strtok_at w \<and> text_left freqs' \<le> Suc n \<and> text_left sinrs' \<le> Suc n \<and> (no_freqs c \<and> freqs = None \<longrightarrow> freqs' = None)"
  using k v
proof (induction keys arbitrary: freqs sinrs w)
  case Nil
  then show ?case by simp
next
  case (Cons key keys)
  let ?g = "fst (GRPS_MAP ! 1)"
  have b: "bsearch key HYBRD_SRCH_MAP = map_option (Pair key) (map_of HYBRD_SRCH_MAP key)"
    using Cons.prems by (intro bsearch_map_of [OF tables_sorted(4)]) simp
  obtain r w1 where g: "get_value E w (Some t) ?g key = Inr (r, w1)" "conf_world.more w1 = conf_world.more w"
    "r = conf_value c ?g key \<or> r = None"
    using stores_value [OF t, of w ?g key] by auto
  have l: "fm_log w1 = fm_log w" "strtok_at w1 = strtok_at w" using g(2) by (rule log_more, rule tok_more)
  have r: "text_left r \<le> Suc n"
    using g(3) c by (auto simp: text_left_def conf_value_def conf_all_def split: option.splits)
  have "\<exists>f s w2. hybrd_loop E (Some t) freqs sinrs w (key # keys) = hybrd_loop E (Some t) f s w2 keys \<and> fm_log w2 = fm_log w \<and>
    strtok_at w2 = strtok_at w \<and> text_left f \<le> Suc n \<and> text_left s \<le> Suc n \<and> (no_freqs c \<and> freqs = None \<longrightarrow> f = None)"
  proof (cases "map_of HYBRD_SRCH_MAP key")
    case None
    then show ?thesis using b Cons.prems by auto
  next
    case (Some num)
    have f: "no_freqs c \<and> num = FREQ_LIST \<Longrightarrow> r = None \<or> r = Some []"
      using Some g(3) by (auto simp: no_freqs_def HYBRD_SRCH_MAP_def GRPS_MAP_def SINR_LIST_def FREQ_LIST_def split: if_splits)
    have "hybrd_loop E (Some t) freqs sinrs w (key # keys) =
      (if r \<noteq> None \<and> r \<noteq> Some [] then
         if num = FREQ_LIST then hybrd_loop E (Some t) r sinrs w1 keys
         else if num = SINR_LIST then hybrd_loop E (Some t) freqs r w1 keys
         else hybrd_loop E (Some t) freqs sinrs (freed 1 w1) keys
       else hybrd_loop E (Some t) freqs sinrs w1 keys)" using b g(1) Some by simp
    then show ?thesis using l r f Cons.prems by (metis fm_log_freed)
  qed
  then obtain f s w2 where "hybrd_loop E (Some t) freqs sinrs w (key # keys) = hybrd_loop E (Some t) f s w2 keys"
    "fm_log w2 = fm_log w" "strtok_at w2 = strtok_at w" "text_left f \<le> Suc n" "text_left s \<le> Suc n" "no_freqs c \<and> freqs = None \<longrightarrow> f = None" by blast
  then show ?case using Cons.IH [of f s w2] Cons.prems(1) by auto
qed

text \<open>With one list missing nothing is read through it; with two lists of the given length the block is filled to its end.\<close>

lemma hybrid_asks:
  assumes n: "0 < n" "n < 2 ^ 30"
    and l: "case fa of None \<Rightarrow> True | Some a \<Rightarrow> length a = n" "case sa of None \<Rightarrow> True | Some a \<Rightarrow> length a = n"
  shows "\<exists>ret w'. SetHybridSrchList E' fd fa sa (of_nat n) w = Inr (ret, w') \<and> asks E {} w w'"
proof (cases "fa = None \<or> sa = None")
  case True
  have u: "unat (of_nat n :: u32) = n" using n(2) by (simp add: unat_of_nat)
  then have "unat ((of_nat n :: u32) * 3 + 3) = 3 * n + 3" using unat_size3 [of "of_nat n" 3] n(2) by simp
  moreover have "hybrid_loop m data fa sa = Inr data" for m data
    unfolding hybrid_loop.simps [of m data fa sa] using True by (auto split: option.split list.split)
  moreover have "(of_nat n :: u32) \<noteq> 0" using u n(1) by auto
  moreover have "asks E {} w w'" if "fm_log w' = fm_log w \<or> (\<exists>cid d. fm_log w' = fm_log w @ [Ioctl fd (SExtCtrls cid d)])" for w'
    using that by (auto simp: asks_def ctrls_def)
  ultimately show ?thesis
    by (cases "conf_malloc E' (mallocs w)")
      (simp_all add: SetHybridSrchList_def world_defs set_ext_control_def fm_ioctl_def logged_def)
next
  case False
  then obtain fs ss where s: "fa = Some fs" "sa = Some ss" by auto
  then have h: "length fs = length ss" "0 < length fs" "length fs < 2 ^ 30" "of_nat n = of_nat (length fs)" using n l by simp_all
  obtain ret w' where "SetHybridSrchList E' fd fa sa (of_nat n) w = Inr (ret, w')"
    "fm_log w' = fm_log w \<or> fm_log w' = fm_log w @ [Ioctl fd (SExtCtrls V4L2_CID_PRV_IRIS_WRITE_DEFAULT (hybrid_block fs ss))]"
    using SetHybridSrchList_result [OF h, of E' fd w] s by (auto split: if_splits)
  then show ?thesis by (auto simp: asks_def ctrls_def)
qed

lemma SetHybridSrchList_tok: "SetHybridSrchList E fd fa sa n w = Inr (res, w') \<Longrightarrow> strtok_at w' = strtok_at (w :: fm_world)"
  by (auto simp: SetHybridSrchList_def world_defs set_ext_control_def fm_ioctl_def logged_def split: if_splits)

text \<open>The strings of the two lists, as the loop over the keys leaves them.\<close>

definition hybrd_texts :: "'e fm_ths_env_scheme \<Rightarrow> group_table option \<Rightarrow> fm_world \<Rightarrow> (bytes option \<times> bytes option \<times> fm_world) res" where
  "hybrd_texts E keyfile w =
     (if keyfile = None then Inr (None, None, w)
      else
        bnd (get_keys E w keyfile (fst (GRPS_MAP ! 1))) (\<lambda>(keys, w).
        case keys of
          None \<Rightarrow> Inr (None, None, w)
        | Some ks \<Rightarrow>
            bnd (hybrd_loop E keyfile None None w ks) (\<lambda>(freqs, sinrs, w). Inr (freqs, sinrs, free_strs w keys))))"

lemma set_hybrd_list_texts:
  "set_hybrd_list E keyfile fd w =
     bnd (hybrd_texts E keyfile w) (\<lambda>(freqs, sinrs, w).
     bnd (extract_comma_sep_freqs E w freqs) (\<lambda>(freq_cnt, freqs_array, w).
     bnd (extract_comma_sep_sinrs E w sinrs) (\<lambda>(sinr_cnt, sinrs_array, w).
     bnd (if freq_cnt = sinr_cnt \<and> 0 < sinr_cnt
          then bnd (SetHybridSrchList E fd freqs_array sinrs_array (of_nat freq_cnt) w) (\<lambda>(ret, w). Inr w)
          else Inr w) (\<lambda>w.
     Inr (free_opt sinrs_array (free_opt freqs_array (free_lists freqs sinrs w)))))))"
  unfolding set_hybrd_list_def hybrd_texts_def ..

lemma hybrd_texts_result:
  assumes t: "stores E t c" and c: "conf_all n c"
  shows "\<exists>freqs sinrs w'. hybrd_texts E (Some t) w = Inr (freqs, sinrs, w') \<and> fm_log w' = fm_log w \<and> strtok_at w' = strtok_at w \<and>
    text_left freqs \<le> Suc n \<and> text_left sinrs \<le> Suc n \<and> (no_freqs c \<longrightarrow> freqs = None)"
proof -
  let ?g = "fst (GRPS_MAP ! 1)"
  obtain r w1 where g: "get_keys E w (Some t) ?g = Inr (r, w1)" "conf_world.more w1 = conf_world.more w"
    "strs_of r (conf_keys c ?g) \<or> r = None \<and> heap_failed E"
    using stores_keys [OF t, of w ?g] by auto
  have l: "fm_log w1 = fm_log w" "strtok_at w1 = strtok_at w" using g(2) by (rule log_more, rule tok_more)
  show ?thesis
  proof (cases r)
    case None
    then show ?thesis using l g(1) by (simp add: hybrd_texts_def text_left_def)
  next
    case (Some ks)
    then have "\<forall>key\<in>set ks. 0 \<notin> set key" using g(3) keys_names [OF c] by (auto simp: strs_of_def)
    from hybrd_loop_result [OF t c this, of None None w1] show ?thesis
      using l g(1) Some by (auto simp: hybrd_texts_def text_left_def)
  qed
qed

text \<open>
  After the list \<open>strtok\<close> remembers no place, or one in a freed string; the latter only if memory was short.
\<close>

definition settled :: "'e fm_ths_env_scheme \<Rightarrow> fm_world \<Rightarrow> bool" where
  "settled E w \<longleftrightarrow> strtok_at w = Nowhere \<or> strtok_at w = Dangling \<and> heap_failed E"

lemma set_hybrd_list_asks:
  assumes t: "stores E t c" and c: "conf_all n c" "n < 2 ^ 30 - 1" and n: "strtok_at w = Nowhere"
  shows "\<exists>w'. set_hybrd_list E (Some t) fd w = Inr w' \<and> asks E {} w w' \<and> settled E w'"
proof -
  obtain freqs sinrs w2 where q: "hybrd_texts E (Some t) w = Inr (freqs, sinrs, w2)" "fm_log w2 = fm_log w" "strtok_at w2 = Nowhere"
    "text_left freqs \<le> Suc n" "text_left sinrs \<le> Suc n"
    using hybrd_texts_result [OF t c(1), of w] n by auto
  obtain fn fa w3 where f: "extract_comma_sep_freqs E w2 freqs = Inr (fn, fa, w3)" "fm_log w3 = fm_log w2"
    "case fa of None \<Rightarrow> True | Some a \<Rightarrow> length a = fn" "fn \<le> Suc n" "tok_left (strtok_at w3) \<le> Suc n" "strtok_at w3 \<noteq> Dangling"
    unfolding extractions using extraction_result [OF q(4), of w2 E word_of_int] q(3) by (auto simp: tok_left_def)
  obtain sn sa w4 where s: "extract_comma_sep_sinrs E w3 sinrs = Inr (sn, sa, w4)" "fm_log w4 = fm_log w3"
    "case sa of None \<Rightarrow> True | Some a \<Rightarrow> length a = sn" "strtok_at w4 \<noteq> Dangling" "heap_failed E \<or> strtok_at w4 = Nowhere"
    unfolding extractions using extraction_result [OF q(5) f(5,6), of E word_of_int] by auto
  have l4: "fm_log w4 = fm_log w" using q(2) f(2) s(2) by simp
  let ?send = "if fn = sn \<and> 0 < sn then bnd (SetHybridSrchList E fd fa sa (of_nat fn) w4) (\<lambda>(ret, w). Inr w) else Inr w4"
  have "\<exists>w5. ?send = Inr w5 \<and> asks E {} w4 w5"
    using hybrid_asks [of fn fa sa E fd w4 E] f(3,4) s(3) c(2) by (auto simp: asks_same)
  then obtain w5 where w5: "?send = Inr w5" "asks E {} w4 w5" by blast
  have w5t: "strtok_at w5 = strtok_at w4" using w5(1) SetHybridSrchList_tok by (auto split: if_splits)
  let ?w6 = "free_opt sa (free_opt fa (free_lists freqs sinrs w5))"
  have "set_hybrd_list E (Some t) fd w = Inr ?w6"
    using q(1) f(1) s(1) w5(1) by (simp add: set_hybrd_list_texts)
  moreover have "asks E {} w ?w6" by (rule asks_log [OF w5(2) l4]) simp
  moreover have "settled E ?w6" using s(4,5) w5t by (auto simp: settled_def free_lists_def Let_def split: tok_place.split)
  ultimately show ?thesis by blast
qed

lemma set_hybrd_list_faults:
  assumes "stores E t c" "conf_all n c" "no_freqs c" "strtok_at w = Dangling"
  shows "set_hybrd_list E (Some t) fd w = Inl (Fault UseAfterFree)"
proof -
  obtain sinrs w2 where "hybrd_texts E (Some t) w = Inr (None, sinrs, w2)" "strtok_at w2 = Dangling"
    using hybrd_texts_result [OF assms(1,2), of w] assms(3,4) by auto
  then show ?thesis by (simp add: set_hybrd_list_texts extract_comma_sep_freqs_def comma_tok_def)
qed

section \<open>The whole file\<close>

definition value_ctrls :: "'e fm_ths_env_scheme \<Rightarrow> conf \<Rightarrow> bytes \<Rightarrow> bytes \<Rightarrow> (int \<Rightarrow> 'c set) \<Rightarrow> 'c set" where
  "value_ctrls E c grp key f = (case conf_value c grp key of None \<Rightarrow> {} | Some s \<Rightarrow> if s = [] then {} else f (c_atoi E s))"

lemma key_ctrls_table:
  assumes "sorted_table tbl"
  shows "(\<Union>key\<in>conf_keys c grp. key_ctrls E c grp tbl val key) = (\<Union>(key, num)\<in>set tbl. value_ctrls E c grp key (val num))"
proof -
  have k: "key_ctrls E c grp tbl val key = \<Union> {value_ctrls E c grp key (val num) | num. (key, num) \<in> set tbl}" for key
  proof -
    have "(key, num) \<in> set tbl \<longleftrightarrow> map_of tbl key = Some num" for num
      using sorted_table_distinct [OF assms] by simp
    then show ?thesis by (cases "map_of tbl key") (simp_all add: key_ctrls_def value_ctrls_def)
  qed
  have "value_ctrls E c grp key f = {}" if "key \<notin> conf_keys c grp" for key and f :: "int \<Rightarrow> (s32 \<times> u32 \<times> s32) set"
    using that by (auto simp: value_ctrls_def conf_keys_def conf_value_def split: option.split)
  then show ?thesis unfolding k by blast
qed

definition wanted :: "'e fm_ths_env_scheme \<Rightarrow> s32 \<Rightarrow> conf \<Rightarrow> (s32 \<times> u32 \<times> s32) set" where
  "wanted E fd c = (\<Union>(grp, key, cid, lo, hi)\<in>set thresholds. value_ctrls E c grp key (one_ctrl fd cid lo hi))"

lemma wanted_eq:
  "wanted E fd c = {(fd, cid, word_of_int (c_atoi E s)) | cid s grp key lo hi. (grp, key, cid, lo, hi) \<in> set thresholds \<and>
     conf_value c grp key = Some s \<and> s \<noteq> [] \<and> lo \<le> c_atoi E s \<and> c_atoi E s \<le> hi}"
proof -
  have "value_ctrls E c grp key (one_ctrl fd cid lo hi) = {(fd, cid, word_of_int (c_atoi E s)) | s.
      conf_value c grp key = Some s \<and> s \<noteq> [] \<and> lo \<le> c_atoi E s \<and> c_atoi E s \<le> hi}" for grp key cid lo hi
    by (auto simp: value_ctrls_def one_ctrl_def in_range_def split: option.split)
  then show ?thesis unfolding wanted_def by blast
qed

definition grp_ctrls :: "'e fm_ths_env_scheme \<Rightarrow> conf \<Rightarrow> s32 \<Rightarrow> bytes \<Rightarrow> (s32 \<times> u32 \<times> s32) set" where
  "grp_ctrls E c fd grp =
     (if grp = fst (GRPS_MAP ! 0) then \<Union>key\<in>conf_keys c grp. key_ctrls E c grp AF_PARAMS_MAP (af_ctrls fd) key
      else if grp = fst (GRPS_MAP ! 2) then \<Union>key\<in>conf_keys c grp. key_ctrls E c grp SEACH_PARAMS_MAP (srch_ctrls fd) key
      else {})"

lemmas number_defs = AF_THS_def SRCH_THS_def HYBRD_SRCH_LIST_def SRCH_ALGO_TYPE_def CF0_TH_def SINR_FIRST_STAGE_def SINR_def
  RMSSI_FIRST_STAGE_def INTF_LOW_TH_def INTF_HIGH_TH_def SINR_SAMPLES_def AF_RMSSI_TH_def AF_RMSSI_SAMPLES_def GOOD_CH_RMSSI_TH_def

lemma c_atoi_range: "in_range (- (2 ^ 31)) (2 ^ 31 - 1) (c_atoi E s)"
proof -
  have "in_range (- (2 ^ 31)) (2 ^ 31 - 1) (sint (v :: s32))" for v
    using sint_greater_eq [of v] sint_less [of v] by (simp add: in_range_def)
  then show ?thesis by (auto simp: c_atoi_def Let_def) (simp add: in_range_def)
qed

lemma af_ctrls_num:
  "af_ctrls fd AF_RMSSI_TH = one_ctrl fd V4L2_CID_PRV_AF_RMSSI_TH 0 65535"
  "af_ctrls fd AF_RMSSI_SAMPLES = one_ctrl fd V4L2_CID_PRV_AF_RMSSI_SAMPLES 0 255"
  "af_ctrls fd GOOD_CH_RMSSI_TH = one_ctrl fd V4L2_CID_PRV_GOOD_CH_RMSSI_TH (- 128) 127"
  by (simp_all add: fun_eq_iff af_ctrls_def number_defs)

lemma srch_ctrls_num:
  "srch_ctrls fd SINR_FIRST_STAGE = one_ctrl fd V4L2_CID_PRV_SINRFIRSTSTAGE (- 128) 127"
  "srch_ctrls fd RMSSI_FIRST_STAGE = one_ctrl fd V4L2_CID_PRV_RMSSIFIRSTSTAGE (- 128) 127"
  "srch_ctrls fd INTF_LOW_TH = one_ctrl fd V4L2_CID_PRV_ON_CHANNEL_THRESHOLD 0 255"
  "srch_ctrls fd INTF_HIGH_TH = one_ctrl fd V4L2_CID_PRV_OFF_CHANNEL_THRESHOLD 0 255"
  "srch_ctrls fd SRCH_ALGO_TYPE = one_ctrl fd V4L2_CID_PRV_SRCHALGOTYPE 0 1"
  "srch_ctrls fd SINR_SAMPLES = one_ctrl fd V4L2_CID_PRV_SINR_SAMPLES 0 255"
  "srch_ctrls fd SINR = one_ctrl fd V4L2_CID_PRV_SINR_THRESHOLD (- 128) 127"
  by (simp_all add: fun_eq_iff srch_ctrls_def number_defs)

lemma srch_ctrls_cf0:
  "value_ctrls E c grp key (srch_ctrls fd CF0_TH) = value_ctrls E c grp key (one_ctrl fd V4L2_CID_PRV_CF0TH12 (- (2 ^ 31)) (2 ^ 31 - 1))"
  using c_atoi_range [of E]
  by (simp add: value_ctrls_def srch_ctrls_def one_ctrl_def number_defs del: of_int_power power_numeral split: option.split)

lemma grp_names:
  "fst (GRPS_MAP ! 0) = ascii ''AFTHRESHOLDS''" "fst (GRPS_MAP ! 1) = ascii ''HYBRIDSEARCHLIST''"
  "fst (GRPS_MAP ! 2) = ascii ''SEARCHTHRESHOLDS''"
  "ascii ''AFTHRESHOLDS'' \<noteq> ascii ''SEARCHTHRESHOLDS''" "ascii ''AFTHRESHOLDS'' \<noteq> ascii ''HYBRIDSEARCHLIST''"
  "ascii ''HYBRIDSEARCHLIST'' \<noteq> ascii ''SEARCHTHRESHOLDS''"
  by (simp_all add: GRPS_MAP_def ascii_def)

lemma UN_two:
  assumes "\<And>g. g \<notin> D \<or> g \<noteq> a \<and> g \<noteq> b \<Longrightarrow> f g = {}"
  shows "(\<Union>g\<in>D. f g) = f a \<union> f b"
proof
  show "(\<Union>g\<in>D. f g) \<subseteq> f a \<union> f b"
  proof (rule UN_least)
    show "f g \<subseteq> f a \<union> f b" for g using assms [of g] by (cases "g = a \<or> g = b") auto
  qed
  show "f a \<union> f b \<subseteq> (\<Union>g\<in>D. f g)" using assms [of a] assms [of b] by (cases "a \<in> D"; cases "b \<in> D") auto
qed

lemma wanted_grps: "(\<Union>grp\<in>dom c. grp_ctrls E c fd grp) = wanted E fd c"
proof -
  let ?a = "fst (GRPS_MAP ! 0)" and ?s = "fst (GRPS_MAP ! 2)"
  have "grp_ctrls E c fd grp = {}" if "grp \<notin> dom c \<or> grp \<noteq> ?a \<and> grp \<noteq> ?s" for grp
    using that by (auto simp: grp_ctrls_def conf_keys_def domIff)
  then have "(\<Union>grp\<in>dom c. grp_ctrls E c fd grp) = grp_ctrls E c fd ?a \<union> grp_ctrls E c fd ?s" by (rule UN_two)
  also have "\<dots> = wanted E fd c"
  proof -
    have "grp_ctrls E c fd ?a = (\<Union>(key, num)\<in>set AF_PARAMS_MAP. value_ctrls E c (ascii ''AFTHRESHOLDS'') key (af_ctrls fd num))"
      by (simp add: grp_ctrls_def key_ctrls_table [OF tables_sorted(3)] grp_names(1))
    moreover have "grp_ctrls E c fd ?s = (\<Union>(key, num)\<in>set SEACH_PARAMS_MAP. value_ctrls E c (ascii ''SEARCHTHRESHOLDS'') key (srch_ctrls fd num))"
      using grp_names(1,3,4) by (simp add: grp_ctrls_def key_ctrls_table [OF tables_sorted(2)])
    ultimately show ?thesis
      unfolding wanted_def thresholds_def AF_PARAMS_MAP_def SEACH_PARAMS_MAP_def
      by (simp only: list.set UN_insert UN_empty prod.case af_ctrls_num srch_ctrls_num srch_ctrls_cf0 Un_empty_right Un_ac)
  qed
  finally show ?thesis .
qed

definition grp_step :: "'e fm_ths_env_scheme \<Rightarrow> group_table option \<Rightarrow> s32 \<Rightarrow> fm_world \<Rightarrow> bytes \<Rightarrow> fm_world res" where
  "grp_step E keyfile fd w grp =
     (case bsearch grp GRPS_MAP of
        None \<Rightarrow> Inr w
      | Some (name, num) \<Rightarrow>
          if num = AF_THS then set_af_ths E keyfile fd w
          else if num = SRCH_THS then set_srch_ths E keyfile fd w
          else if num = HYBRD_SRCH_LIST then set_hybrd_list E keyfile fd w
          else Inr w)"

lemma grps_loop_step: "grps_loop E keyfile fd w (grp # grps) = bnd (grp_step E keyfile fd w grp) (\<lambda>w. grps_loop E keyfile fd w grps)"
  by (simp add: grp_step_def)

lemma grp_step_cases:
  assumes "0 \<notin> set grp"
  shows "grp_step E keyfile fd w grp =
    (if grp = fst (GRPS_MAP ! 0) then set_af_ths E keyfile fd w
     else if grp = fst (GRPS_MAP ! 1) then set_hybrd_list E keyfile fd w
     else if grp = fst (GRPS_MAP ! 2) then set_srch_ths E keyfile fd w else Inr w)"
proof -
  have "bsearch grp GRPS_MAP = map_option (Pair grp) (map_of GRPS_MAP grp)"
    using assms by (rule bsearch_map_of [OF tables_sorted(1)])
  then show ?thesis by (simp add: grp_step_def GRPS_MAP_def number_defs)
qed

lemma grp_step_asks:
  assumes t: "stores E t c" and c: "conf_all n c" "n < 2 ^ 30 - 1" and g: "0 \<notin> set grp"
    and n: "grp = fst (GRPS_MAP ! 1) \<Longrightarrow> strtok_at w = Nowhere"
  shows "\<exists>w'. grp_step E (Some t) fd w grp = Inr w' \<and> asks E (grp_ctrls E c fd grp) w w' \<and>
    (if grp = fst (GRPS_MAP ! 1) then settled E w' else strtok_at w' = strtok_at w)"
proof -
  note defs = grp_ctrls_def grp_names grp_names(2) [unfolded One_nat_def] grp_names(4-6) [symmetric] number_defs
  consider "grp = fst (GRPS_MAP ! 0)" | "grp = fst (GRPS_MAP ! 1)" | "grp = fst (GRPS_MAP ! 2)"
    | "grp \<notin> {fst (GRPS_MAP ! 0), fst (GRPS_MAP ! 1), fst (GRPS_MAP ! 2)}" by blast
  then show ?thesis
  proof cases
    case 1
    then show ?thesis unfolding grp_step_cases [OF g]
      using set_ths_asks [where val = "af_ctrls fd" and set_value = "set_af_value E fd" and grp = grp and w = w, OF t tables_sorted(3) _ c(1)]
        set_af_value_asks [of E fd _ _ _ E] set_ths_tok [OF t set_value_tok(1)] by (auto simp: set_af_ths_def defs)
  next
    case 2
    then show ?thesis unfolding grp_step_cases [OF g] using set_hybrd_list_asks [OF t c n, of fd] by (simp add: defs)
  next
    case 3
    then show ?thesis unfolding grp_step_cases [OF g]
      using set_ths_asks [where val = "srch_ctrls fd" and set_value = "set_srch_value E fd" and grp = grp and w = w, OF t tables_sorted(2) _ c(1)]
        set_srch_value_asks [of E fd _ _ _ E] set_ths_tok [OF t set_value_tok(2)] by (auto simp: set_srch_ths_def defs)
  next
    case 4
    then show ?thesis unfolding grp_step_cases [OF g] by (simp add: defs asks_same)
  qed
qed

lemma grps_loop_asks:
  assumes t: "stores E t c" and c: "conf_all n c" "n < 2 ^ 30 - 1" and g: "\<forall>grp\<in>set grps. 0 \<notin> set grp" "distinct grps"
    and n: "settled E w" "fst (GRPS_MAP ! 1) \<in> set grps \<Longrightarrow> strtok_at w = Nowhere"
  shows "\<exists>w'. grps_loop E (Some t) fd w grps = Inr w' \<and> asks E (\<Union>grp\<in>set grps. grp_ctrls E c fd grp) w w' \<and> settled E w'"
  using g n
proof (induction grps arbitrary: w)
  case Nil
  then show ?case by (simp add: asks_same)
next
  case (Cons grp grps)
  obtain w1 where s: "grp_step E (Some t) fd w grp = Inr w1" "asks E (grp_ctrls E c fd grp) w w1"
    "if grp = fst (GRPS_MAP ! 1) then settled E w1 else strtok_at w1 = strtok_at w"
    using grp_step_asks [OF t c, of grp w fd] Cons.prems by auto
  have "settled E w1" "fst (GRPS_MAP ! 1) \<in> set grps \<Longrightarrow> strtok_at w1 = Nowhere"
    using s(3) Cons.prems by (auto simp: settled_def split: if_splits)
  then obtain w' where "grps_loop E (Some t) fd w1 grps = Inr w'" "asks E (\<Union>grp\<in>set grps. grp_ctrls E c fd grp) w1 w'" "settled E w'"
    using Cons.IH [of w1] Cons.prems by auto
  then show ?case unfolding grps_loop_step using s(1) asks_trans [OF s(2)] by auto
qed

lemma grps_loop_faults:
  assumes t: "stores E t c" and c: "conf_all n c" "n < 2 ^ 30 - 1" "no_freqs c" and g: "\<forall>grp\<in>set grps. 0 \<notin> set grp"
    and n: "strtok_at w = Dangling" "fst (GRPS_MAP ! 1) \<in> set grps"
  shows "grps_loop E (Some t) fd w grps = Inl (Fault UseAfterFree)"
  using g n
proof (induction grps arbitrary: w)
  case (Cons grp grps)
  show ?case
  proof (cases "grp = fst (GRPS_MAP ! 1)")
    case True
    have "0 \<notin> set grp" "grp \<noteq> fst (GRPS_MAP ! 0)" using Cons.prems True by (simp_all add: GRPS_MAP_def ascii_def)
    then have "grp_step E (Some t) fd w grp = Inl (Fault UseAfterFree)"
      using set_hybrd_list_faults [OF t c(1,3) Cons.prems(2)] True by (simp add: grp_step_cases)
    then show ?thesis unfolding grps_loop_step by simp
  next
    case False
    then obtain w1 where "grp_step E (Some t) fd w grp = Inr w1" "strtok_at w1 = strtok_at w"
      using grp_step_asks [OF t c(1,2), of grp w fd] Cons.prems by auto
    then show ?thesis unfolding grps_loop_step using Cons.IH [of w1] Cons.prems False by simp
  qed
qed simp

lemma free_key_file_log:
  assumes "kf = None \<or> (\<exists>t. kf = Some t \<and> wf_tbl E t)"
  shows "\<exists>w'. free_key_file w kf = Inr w' \<and> fm_log w' = fm_log w \<and> strtok_at w' = strtok_at w"
proof (cases kf)
  case None
  then show ?thesis by (simp add: free_key_file_def)
next
  case (Some t)
  then have "free_key_file w kf = Inr (freed (tbl_blocks t) w)" using assms free_key_file_freed [of E t w] by simp
  then show ?thesis by simp
qed

text \<open>The file is loaded into a table, or nothing is set.\<close>

lemma SetRxSearchAfThs_load:
  assumes d: "conf_file E file = Some d" "file \<noteq> []" "length d < 2 ^ 30 - 1"
  obtains (loaded) t c w2 where "conf_load Map.empty None d = Some c" "stores E t c" "conf_all (length d) c" "fm_log w2 = fm_log w"
      "strtok_at w2 = strtok_at w"
      "SetRxSearchAfThs E file fd w =
        bnd (get_grps E w2 (Some t)) (\<lambda>(grps, w).
        bnd (case grps of None \<Rightarrow> Inr w | Some gs \<Rightarrow> grps_loop E (Some t) fd w gs) (\<lambda>w.
        Inr (freed (tbl_blocks t) (free_strs w grps))))"
    | (skipped) w' where "SetRxSearchAfThs E file fd w = Inr w'" "fm_log w' = fm_log w" "strtok_at w' = strtok_at w"
      "conf_load Map.empty None d = None \<or> heap_failed E"
proof -
  obtain kf w1 where k: "get_key_file E w = (kf, w1)" by fastforce
  have "length d < 2 ^ 32 - 1" using d(3) by simp
  from parse_load_file_stores [OF k d(1,2) this] obtain ok w2 kf' where p: "parse_load_file E w1 kf (Some file) = Inr (ok, w2, kf')"
    "conf_world.more w2 = conf_world.more w"
    and r: "if ok \<and> kf' \<noteq> None
     then \<exists>t c. kf' = Some t \<and> conf_load Map.empty None d = Some c \<and> stores E t c \<and>
       live w2 = live w + int (tbl_blocks t) + 2 * int (conf_pairs c)
     else (kf' = None \<or> (\<exists>t. kf' = Some t \<and> wf_tbl E t)) \<and> (conf_load Map.empty None d = None \<or> heap_failed E)"
    by blast
  have l: "fm_log w2 = fm_log w" "strtok_at w2 = strtok_at w" using p(2) by (rule log_more, rule tok_more)
  show thesis
  proof (cases "ok \<and> kf' \<noteq> None")
    case False
    obtain w' where "free_key_file w2 kf' = Inr w'" "fm_log w' = fm_log w2" "strtok_at w' = strtok_at w2"
      using free_key_file_log [of kf' E w2] r False by auto
    moreover have "SetRxSearchAfThs E file fd w = free_key_file w2 kf'"
      using k p(1) False by (auto simp: SetRxSearchAfThs_def get_grps_def free_strs_def)
    ultimately show thesis using skipped [of w'] r False l by auto
  next
    case True
    then obtain t c where t: "kf' = Some t" "conf_load Map.empty None d = Some c" "stores E t c" using r by auto
    have a: "conf_all (length d) c" by (rule conf_load_all [OF t(2)]) (simp_all add: conf_all_def)
    have "free_key_file w (Some t) = Inr (freed (tbl_blocks t) w)" for w :: fm_world
      using t(3) free_key_file_freed [of E t] by (simp add: stores_def)
    then show thesis using k p(1) True t(1)
      by (intro loaded [OF t(2,3) a l]) (simp add: SetRxSearchAfThs_def bnd_assoc split_def cong: option.case_cong)
  qed
qed

lemma SetRxSearchAfThs_result:
  assumes d: "conf_file E file = Some d" "file \<noteq> []" "length d < 2 ^ 30 - 1" and n: "strtok_at w = Nowhere"
  shows "\<exists>w'. SetRxSearchAfThs E file fd w = Inr w' \<and>
    asks E (case conf_load Map.empty None d of None \<Rightarrow> {} | Some c \<Rightarrow> wanted E fd c) w w' \<and> settled E w'"
  using d
proof (cases rule: SetRxSearchAfThs_load [where w = w and fd = fd])
  case (loaded t c w2)
  obtain q w3 where g: "get_grps E w2 (Some t) = Inr (q, w3)" "conf_world.more w3 = conf_world.more w2"
    "strs_of q (dom c) \<or> q = None \<and> heap_failed E"
    using stores_grps [OF loaded(2), of w2] by auto
  have l: "fm_log w3 = fm_log w" "strtok_at w3 = Nowhere" using log_more [OF g(2)] tok_more [OF g(2)] loaded(4,5) n by simp_all
  have "\<exists>w4. (case q of None \<Rightarrow> Inr w3 | Some gs \<Rightarrow> grps_loop E (Some t) fd w3 gs) = Inr w4 \<and> asks E (wanted E fd c) w3 w4 \<and> settled E w4"
  proof (cases q)
    case None
    then have "heap_failed E \<or> wanted E fd c = {}" using g(3) wanted_grps [of E c fd] by (auto simp: strs_of_def)
    then show ?thesis using None l by (auto intro: asks_same asks_failed simp: settled_def)
  next
    case (Some gs)
    then have gs: "set gs = dom c" "distinct gs" using g(3) by (auto simp: strs_of_def)
    have "\<forall>grp\<in>set gs. 0 \<notin> set grp" using gs grps_names [OF loaded(3)] by auto
    then show ?thesis using grps_loop_asks [OF loaded(2,3) d(3), of gs w3 fd] Some gs wanted_grps [of E c fd] l by (simp add: settled_def)
  qed
  then obtain w4 where w4: "(case q of None \<Rightarrow> Inr w3 | Some gs \<Rightarrow> grps_loop E (Some t) fd w3 gs) = Inr w4" "asks E (wanted E fd c) w3 w4"
    "settled E w4" by blast
  have "SetRxSearchAfThs E file fd w = Inr (freed (tbl_blocks t) (free_strs w4 q))" using loaded(6) g(1) w4(1) by simp
  moreover have "asks E (wanted E fd c) w (freed (tbl_blocks t) (free_strs w4 q))" by (rule asks_log [OF w4(2) l(1)]) simp
  moreover have "settled E (freed (tbl_blocks t) (free_strs w4 q))" using w4(3) by (simp add: settled_def)
  ultimately show ?thesis using loaded(1) by simp
next
  case (skipped w')
  then show ?thesis using n by (auto intro: asks_same asks_failed simp: settled_def split: option.split)
qed

lemma FM_PERFORMANCE_PARAMS_path: "FM_PERFORMANCE_PARAMS \<noteq> []"
  by (simp add: FM_PERFORMANCE_PARAMS_def ascii_def)

lemma configure_returns:
  assumes "\<And>d. conf_file E FM_PERFORMANCE_PARAMS = Some d \<Longrightarrow> length d < 2 ^ 30 - 1" "strtok_at w = Nowhere"
  shows "\<exists>w'. configurePerformanceParams E fd w = Inr w' \<and> settled E w'"
proof (cases "conf_file E FM_PERFORMANCE_PARAMS")
  case None
  obtain kf w1 where k: "get_key_file E w = (kf, w1)" by fastforce
  have "strtok_at w1 = strtok_at w" using get_key_file_result(1) [OF k] by (rule tok_more)
  moreover have "\<exists>w'. free_key_file w1 kf = Inr w' \<and> strtok_at w' = strtok_at w1"
    using get_key_file_result(3) [OF k] free_key_file_log [of kf E w1] by (cases kf) auto
  moreover have "parse_load_file E w1 kf (Some FM_PERFORMANCE_PARAMS) = Inr (False, w1, kf)" using None by (simp add: parse_load_file_def)
  ultimately show ?thesis using k assms(2) by (auto simp: configurePerformanceParams_def SetRxSearchAfThs_def settled_def)
next
  case (Some d)
  show ?thesis using SetRxSearchAfThs_result [OF Some FM_PERFORMANCE_PARAMS_path assms(1) [OF Some] assms(2), of fd]
    by (auto simp: configurePerformanceParams_def)
qed

lemma configure_faults:
  assumes "\<not> heap_failed E" "conf_file E FM_PERFORMANCE_PARAMS = Some d" "length d < 2 ^ 30 - 1" "conf_load Map.empty None d = Some c"
    and "ascii ''HYBRIDSEARCHLIST'' \<in> dom c" "no_freqs c" "strtok_at w = Dangling"
  shows "configurePerformanceParams E fd w = Inl (Fault UseAfterFree)"
  using assms(2) FM_PERFORMANCE_PARAMS_path assms(3)
proof (cases rule: SetRxSearchAfThs_load [where w = w and fd = fd])
  case (loaded t c' w2)
  then have c: "c' = c" using assms(4) by simp
  obtain gs w3 where g: "get_grps E w2 (Some t) = Inr (Some gs, w3)" "conf_world.more w3 = conf_world.more w2" "set gs = dom c"
    using stores_grps [OF loaded(2), of w2] assms(1,5) c by (auto simp: strs_of_def split: option.splits)
  have "\<forall>grp\<in>set gs. 0 \<notin> set grp" using g(3) grps_names [OF loaded(3)] c by auto
  moreover have "fst (GRPS_MAP ! 1) \<in> set gs" using g(3) assms(5) by (simp add: GRPS_MAP_def)
  ultimately have "grps_loop E (Some t) fd w3 gs = Inl (Fault UseAfterFree)"
    using grps_loop_faults [OF loaded(2,3) assms(3)] assms(6,7) loaded(5) tok_more [OF g(2)] c by simp
  then show ?thesis using loaded(6) g(1) by (simp add: configurePerformanceParams_def)
qed (use assms(1,4) in simp)

section \<open>Main theorems\<close>

text \<open>
  C22. When memory suffices, the driver is asked to set exactly the thresholds that the configuration file
  gives with a value in range, each under its own control and with that value: no threshold of the file is
  lost, none is narrowed on its way through the setters, and nothing else is set. It is supposed
  that \<open>strtok\<close> remembers no place from an earlier load.
\<close>

theorem thresholds_set:
  assumes "\<not> heap_failed E" "conf_file E file = Some d" "file \<noteq> []" "length d < 2 ^ 30 - 1" "conf_load Map.empty None d = Some c"
    and "strtok_at w = Nowhere"
  shows "\<exists>w' evs. SetRxSearchAfThs E file fd w = Inr w' \<and> fm_log w' = fm_log w @ evs \<and>
    {(fd', cid, val). Ioctl fd' (SCtrl cid val) \<in> set evs} =
    {(fd, cid, word_of_int (c_atoi E s)) | cid s grp key lo hi. (grp, key, cid, lo, hi) \<in> set thresholds \<and>
       conf_value c grp key = Some s \<and> s \<noteq> [] \<and> lo \<le> c_atoi E s \<and> c_atoi E s \<le> hi}"
proof -
  obtain w' where w': "SetRxSearchAfThs E file fd w = Inr w'" "asks E (wanted E fd c) w w'"
    using SetRxSearchAfThs_result [OF assms(2-4,6), of fd] unfolding assms(5) by auto
  then obtain evs where "fm_log w' = fm_log w @ evs" "ctrls evs = wanted E fd c" using assms(1) unfolding asks_def by blast
  then show ?thesis using w'(1) unfolding wanted_eq ctrls_def by blast
qed

lemma ascii_chars: "map (\<lambda>c. char_of (unat c)) (ascii s) = s"
proof -
  have "(char_of (unat (of_char c :: u8)) :: char) = c" for c
    unfolding of_nat_of_char [symmetric, where 'a = u8] by (simp add: unat_of_nat del: of_nat_of_char)
  then show ?thesis by (simp add: ascii_def comp_def)
qed

definition example_thresholds :: "(bytes \<times> (bytes \<times> bytes) list) list" where
  "example_thresholds = [(ascii ''AFTHRESHOLDS'', [(ascii ''GoodChRmssiTh'', ascii ''-7''), (ascii ''AfRmssiTh'', ascii ''70000'')])]"

definition example_ths_env :: fm_ths_env where
  "example_ths_env =
     \<lparr>conf_malloc = (\<lambda>_. True), float_to_int = (\<lambda>_. INT_MAX), conf_file = (\<lambda>_. Some (conf_text example_thresholds)),
      fm_open = fm_open example_fm_env, fm_driver = fm_driver example_fm_env, fm_read = fm_read example_fm_env,
      fm_prop = fm_prop example_fm_env, fm_calibration = None, tx_pty = 0, tx_pi = 1, tx_radio_text = 2, stop_rt = 3,
      tx_ps_name = 4, stop_ps_name = 5, update_spur_table = 6, tx_setpsrepeatcount = 7, tune_power_level = 8,
      MASK_PTY = 31, MASK_PI = 65535, MASK_TXREPCOUNT = 15, atoi_overflow = (\<lambda>_. 0)\<rparr>"

lemma example_thresholds_ok:
  "writable example_thresholds" "\<not> heap_failed example_ths_env" "length (conf_text example_thresholds) < 2 ^ 30 - 1"
  "conf_file example_ths_env file = Some (conf_text example_thresholds)"
proof -
  show "writable example_thresholds"
    by (simp add: writable_def example_thresholds_def is_name_def is_value_def isalnum_def ascii_def)
  show "length (conf_text example_thresholds) < 2 ^ 30 - 1"
    by (simp add: example_thresholds_def conf_text_def pairs_text_def ascii_def)
qed (simp_all add: heap_failed_def example_ths_env_def)

theorem thresholds_set_witness:
  "\<exists>w' evs. SetRxSearchAfThs example_ths_env FM_PERFORMANCE_PARAMS 5 example_fm_world = Inr w' \<and> fm_log w' = fm_log example_fm_world @ evs \<and>
    {(fd, cid, val). Ioctl fd (SCtrl cid val) \<in> set evs} = {(5, V4L2_CID_PRV_GOOD_CH_RMSSI_TH, - 7)}"
proof -
  let ?c = "conf_map example_thresholds"
  have l: "conf_load Map.empty None (conf_text example_thresholds) = Some ?c"
    using conf_load_text [OF example_thresholds_ok(1), of Map.empty None] by simp
  have n: "c_atoi example_ths_env (ascii ''-7'') = - 7" "c_atoi example_ths_env (ascii ''70000'') = 70000"
    unfolding c_atoi_def ascii_chars by (simp_all add: atoi_def is_blank_def digit_value_def)
  have v: "conf_value ?c grp key = Some s \<longleftrightarrow> grp = ascii ''AFTHRESHOLDS'' \<and>
      (key = ascii ''GoodChRmssiTh'' \<and> s = ascii ''-7'' \<or> key = ascii ''AfRmssiTh'' \<and> s = ascii ''70000'')" for grp key s
    by (auto simp: conf_value_def conf_map_def example_thresholds_def ascii_def)
  have t: "(ascii ''AFTHRESHOLDS'', ascii ''GoodChRmssiTh'', cid, lo, hi) \<in> set thresholds \<longleftrightarrow>
      cid = V4L2_CID_PRV_GOOD_CH_RMSSI_TH \<and> lo = - 128 \<and> hi = 127"
    "(ascii ''AFTHRESHOLDS'', ascii ''AfRmssiTh'', cid, lo, hi) \<in> set thresholds \<longleftrightarrow>
      cid = V4L2_CID_PRV_AF_RMSSI_TH \<and> lo = 0 \<and> hi = 65535" for cid lo hi
    by (simp_all add: thresholds_def ascii_def)
  have e: "ascii ''-7'' \<noteq> []" "ascii ''70000'' \<noteq> []" "FM_PERFORMANCE_PARAMS \<noteq> []"
    by (simp_all add: FM_PERFORMANCE_PARAMS_def ascii_def)
  have "{(5 :: s32, cid, word_of_int (c_atoi example_ths_env s) :: s32) | cid s grp key lo hi. (grp, key, cid, lo, hi) \<in> set thresholds \<and>
       conf_value ?c grp key = Some s \<and> s \<noteq> [] \<and> lo \<le> c_atoi example_ths_env s \<and> c_atoi example_ths_env s \<le> hi} =
      {(5, V4L2_CID_PRV_GOOD_CH_RMSSI_TH, - 7)}" (is "?S = _")
  proof
    show "?S \<subseteq> {(5, V4L2_CID_PRV_GOOD_CH_RMSSI_TH, - 7)}" unfolding v by (auto simp: t n)
    have "\<exists>s grp key lo hi. (grp, key, V4L2_CID_PRV_GOOD_CH_RMSSI_TH, lo, hi) \<in> set thresholds \<and> conf_value ?c grp key = Some s \<and> s \<noteq> [] \<and>
        lo \<le> c_atoi example_ths_env s \<and> c_atoi example_ths_env s \<le> hi \<and> word_of_int (c_atoi example_ths_env s) = (- 7 :: s32)"
      by (rule exI [of _ "ascii ''-7''"], rule exI [of _ "ascii ''AFTHRESHOLDS''"], rule exI [of _ "ascii ''GoodChRmssiTh''"],
          rule exI [of _ "- 128"], rule exI [of _ 127]) (simp add: t v n e)
    then show "{(5, V4L2_CID_PRV_GOOD_CH_RMSSI_TH, - 7)} \<subseteq> ?S" by (auto; metis)
  qed
  then show ?thesis
    using thresholds_set [OF example_thresholds_ok(2,4) e(3) example_thresholds_ok(3) l, of example_fm_world 5]
    by (simp add: example_fm_world_def)
qed

text \<open>A list of which memory holds no item leaves the place within its string, and the strings are freed.\<close>

lemma cut_list_dangles:
  assumes "\<not> conf_malloc E (mallocs w)" "44 \<notin> set a" "a \<noteq> []"
  shows "\<exists>w'. extract_comma_sep_sinrs E w (Some (a @ 44 # b)) = Inr (0, None, w') \<and> strtok_at (free_lists freqs sinrs w') = Dangling"
proof -
  have d: "dropWhile (\<lambda>c. c = 44) (a @ 44 # b) = a @ 44 # b" using assms(2,3) by (cases a) auto
  have "\<forall>x\<in>set a. x \<noteq> 44" using assms(2) by blast
  then have "next_item (a @ 44 # b) = (Some a, Within b)"
    unfolding next_item_def d Let_def by (simp add: takeWhile_append2 dropWhile_append2)
  then show ?thesis
    using assms(1) by (simp add: extract_comma_sep_sinrs_def comma_tok_def extract_loop.simps [where item = "Some a"] renew_def Let_def
        free_lists_def free_opt_def freed_def)
qed

text \<open>
  C23. Loading the thresholds is safe as long as \<open>strtok\<close> remembers no place from before, as when the process starts:
  whatever the file contains, whichever allocations fail and whatever the driver answers, the load returns, no
  index of the tables, of the hash table or of the two lists is outside its array, and no pointer is followed that
  is NULL or freed. When memory suffices the next load finds the same situation. When an array of the list could
  not grow, the place may be left in a freed string, and then a later load of a file that has the group of the list
  without frequencies reads that string.
\<close>

theorem thresholds_safe:
  assumes "\<And>d. conf_file E FM_PERFORMANCE_PARAMS = Some d \<Longrightarrow> length d < 2 ^ 30 - 1"
  shows "(strtok_at w = Nowhere \<longrightarrow>
      (\<exists>w'. configurePerformanceParams E fd w = Inr w' \<and> (strtok_at w' = Nowhere \<or> strtok_at w' = Dangling \<and> heap_failed E))) \<and>
    (strtok_at w = Dangling \<and> \<not> heap_failed E \<and> conf_file E FM_PERFORMANCE_PARAMS = Some d \<and> conf_load Map.empty None d = Some c \<and>
       ascii ''HYBRIDSEARCHLIST'' \<in> dom c \<and> conf_value c (ascii ''HYBRIDSEARCHLIST'') (ascii ''Freqs'') = None \<longrightarrow>
      configurePerformanceParams E fd w = Inl (Fault UseAfterFree))"
  using configure_returns [OF assms, where w = w and fd = fd] configure_faults [of E d c w fd] assms [of d] by (auto simp: settled_def no_freqs_def)

definition example_list :: "(bytes \<times> (bytes \<times> bytes) list) list" where
  "example_list = [(ascii ''HYBRIDSEARCHLIST'', [(ascii ''Sinrs'', ascii ''10,12'')])]"

definition example_list_env :: fm_ths_env where
  "example_list_env = example_ths_env\<lparr>conf_file := (\<lambda>_. Some (conf_text example_list))\<rparr>"

theorem thresholds_safe_witness:
  "(\<exists>w'. configurePerformanceParams example_ths_env 5 example_fm_world = Inr w' \<and> strtok_at w' = Nowhere) \<and>
   configurePerformanceParams example_list_env 5 (example_fm_world\<lparr>strtok_at := Dangling\<rparr>) = Inl (Fault UseAfterFree)"
proof -
  let ?c = "conf_map example_list"
  have "writable example_list"
    by (simp add: writable_def example_list_def is_name_def is_value_def isalnum_def ascii_def)
  then have l: "conf_load Map.empty None (conf_text example_list) = Some ?c"
    using conf_load_text [of example_list Map.empty None] by simp
  have m: "length (conf_text example_list) < 2 ^ 30 - 1"
    by (simp add: example_list_def conf_text_def pairs_text_def ascii_def)
  have v: "ascii ''HYBRIDSEARCHLIST'' \<in> dom ?c" "conf_value ?c (ascii ''HYBRIDSEARCHLIST'') (ascii ''Freqs'') = None"
    by (simp_all add: conf_value_def conf_map_def example_list_def ascii_def dom_def)
  have e: "\<not> heap_failed example_list_env" "conf_file example_list_env path = Some (conf_text example_list)" for path
    using example_thresholds_ok(2) by (simp_all add: example_list_env_def heap_failed_def)
  show ?thesis
    using thresholds_safe [of example_ths_env example_fm_world 5] example_thresholds_ok(2-4)
      thresholds_safe [of example_list_env "example_fm_world\<lparr>strtok_at := Dangling\<rparr>" 5 "conf_text example_list" ?c] l m v e
    by (simp add: example_fm_world_def)
qed

end
