(* ===== verification/Java_Float.thy ===== *)
theory Java_Float
  imports Main "HOL-Library.Log_Nat" "HOL-Library.Word"
begin

text \<open>
  The single precision numbers of Java, as far as the modelled Java code uses them: multiplication by a
  constant with rounding, and conversion to \<open>int\<close>. The lemmas bound the error of the rounding.
\<close>

section \<open>Floating point numbers\<close>

text \<open>
  The \<open>float\<close> of Java: the finite numbers are rational, and a product is rounded to 24 bits, to the even
  neighbour in the middle. \<open>ilog2\<close> is the exponent of a positive number.
\<close>

datatype jfloat = JNaN | JInf bool | JFin rat

definition ilog2 :: "rat \<Rightarrow> int" where
  "ilog2 x = (if 1 \<le> x then int (floorlog 2 (nat \<lfloor>x\<rfloor>)) - 1 else - int (floorlog 2 (nat (\<lceil>1 / x\<rceil> - 1))))"

definition pow2 :: "int \<Rightarrow> rat" where
  "pow2 e = (if 0 \<le> e then 2 ^ nat e else 1 / 2 ^ nat (- e))"

definition round_even :: "rat \<Rightarrow> int" where
  "round_even x =
     (let n = \<lfloor>x\<rfloor>; d = x - of_int n in
      if d < 1 / 2 then n else if 1 / 2 < d then n + 1 else if even n then n else n + 1)"

definition round_float :: "rat \<Rightarrow> jfloat" where
  "round_float x =
     (if x = 0 then JFin 0
      else
        let u = pow2 (max (- 126) (ilog2 \<bar>x\<bar>) - 23); r = of_int (round_even (\<bar>x\<bar> / u)) * u in
        if 2 ^ 128 \<le> r then JInf (x < 0) else JFin (sgn x * r))"

definition times_1000 :: "jfloat \<Rightarrow> jfloat" where
  "times_1000 f = (case f of JNaN \<Rightarrow> JNaN | JInf neg \<Rightarrow> JInf neg | JFin x \<Rightarrow> round_float (x * 1000))"

text \<open>The conversion to \<open>int\<close> truncates and saturates.\<close>

definition float_int :: "jfloat \<Rightarrow> 32 word" where
  "float_int f =
     (case f of
        JNaN \<Rightarrow> 0
      | JInf neg \<Rightarrow> if neg then word_of_int (- (2 ^ 31)) else word_of_int (2 ^ 31 - 1)
      | JFin x \<Rightarrow>
          let n = (if x < 0 then \<lceil>x\<rceil> else \<lfloor>x\<rfloor>)
          in word_of_int (max (- (2 ^ 31)) (min (2 ^ 31 - 1) n)))"

section \<open>Rounding\<close>

lemma floorlog_unique:
  assumes "2 ^ e \<le> n" "n < 2 ^ (e + 1)"
  shows "floorlog 2 n = e + 1"
proof -
  have "0 < n" using assms(1) by (metis less_le_trans pos2 zero_less_power)
  then have b: "2 ^ (floorlog 2 n - 1) \<le> n" "n < 2 ^ floorlog 2 n" using floorlog_bounds [of n 2] by auto
  have "(2 :: nat) ^ (floorlog 2 n - 1) < 2 ^ (e + 1)" "(2 :: nat) ^ e < 2 ^ floorlog 2 n"
    using le_less_trans [OF b(1) assms(2)] le_less_trans [OF assms(1) b(2)] .
  then have "floorlog 2 n - 1 < e + 1" "e < floorlog 2 n" by (simp_all only: power_strict_increasing_iff one_less_numeral_iff semiring_norm)
  then show ?thesis by simp
qed

lemma ilog2_eq:
  assumes "2 ^ e \<le> x" "x < 2 ^ (e + 1)"
  shows "ilog2 x = int e"
proof -
  have "(2 :: int) ^ e \<le> \<lfloor>x\<rfloor>" "\<lfloor>x\<rfloor> < 2 ^ (e + 1)" using assms by (simp_all add: le_floor_iff floor_less_iff)
  then have "2 ^ e \<le> nat \<lfloor>x\<rfloor>" "nat \<lfloor>x\<rfloor> < 2 ^ (e + 1)" by (simp_all only: nat_less_numeral_power_cancel_iff numeral_power_le_nat_cancel_iff)
  then have "floorlog 2 (nat \<lfloor>x\<rfloor>) = e + 1" by (rule floorlog_unique)
  moreover have "1 \<le> x" using assms(1) order_trans [OF one_le_power [of "2 :: rat" e]] by simp
  ultimately show ?thesis by (simp add: ilog2_def)
qed

lemma round_even_error: "\<bar>of_int (round_even x) - x\<bar> \<le> 1 / 2"
proof -
  have "of_int \<lfloor>x\<rfloor> \<le> x" "x < of_int \<lfloor>x\<rfloor> + 1" by linarith+
  then show ?thesis by (auto simp: round_even_def Let_def)
qed

lemma round_even_near:
  assumes "\<bar>x - of_int n\<bar> < 1 / 2"
  shows "round_even x = n"
proof -
  have "\<bar>of_int (round_even x) - of_int n :: rat\<bar> < 1" using round_even_error [of x] assms by linarith
  then have "\<bar>round_even x - n\<bar> < 1" by (metis of_int_abs of_int_diff of_int_less_1_iff)
  then show ?thesis by simp
qed

lemma round_float_at:
  assumes "2 ^ e \<le> x" "x < 2 ^ (e + 1)" "e < 100"
  defines "u \<equiv> pow2 (int e - 23)"
  shows "\<exists>r. round_float x = JFin r \<and> r = of_int (round_even (x / u)) * u \<and> \<bar>r - x\<bar> \<le> u / 2"
proof -
  have x: "0 < x" using assms(1) by (metis less_le_trans zero_less_numeral zero_less_power)
  have u: "0 < u" "u \<le> 2 ^ 100"
  proof -
    show "0 < u" by (simp add: u_def pow2_def)
    have "(2 :: rat) ^ n \<le> 2 ^ 100" if "n \<le> 100" for n using that by (rule power_increasing) simp
    moreover have "1 / (2 :: rat) ^ n \<le> 1" for n by (simp add: field_simps)
    moreover have "(1 :: rat) \<le> 2 ^ 100" by (rule one_le_power) simp
    moreover have "nat (int e - 23) \<le> 100" using assms(3) by simp
    ultimately show "u \<le> 2 ^ 100" unfolding u_def pow2_def by (cases "0 \<le> int e - 23") (simp_all only: if_True if_False, blast intro: order_trans)
  qed
  let ?r = "of_int (round_even (x / u)) * u"
  have "\<bar>of_int (round_even (x / u)) - x / u\<bar> * u \<le> 1 / 2 * u" by (rule mult_right_mono [OF round_even_error]) (use u in simp)
  moreover have "\<bar>of_int (round_even (x / u)) - x / u\<bar> * u = \<bar>?r - x\<bar>"
  proof -
    have "\<bar>of_int (round_even (x / u)) - x / u\<bar> * u = \<bar>(of_int (round_even (x / u)) - x / u) * u\<bar>" using u(1) by (simp add: abs_mult)
    also have "(of_int (round_even (x / u)) - x / u) * u = ?r - x" using u(1) by (simp add: algebra_simps)
    finally show ?thesis .
  qed
  ultimately have e: "\<bar>?r - x\<bar> \<le> u / 2" by simp
  have "x < 2 ^ 100" by (rule less_le_trans [OF assms(2) power_increasing]) (use assms(3) in simp_all)
  then have "?r < 2 ^ 128" using e u(2) by (simp add: abs_if split: if_splits)
  moreover have "max (- 126) (ilog2 \<bar>x\<bar>) - 23 = int e - 23" using ilog2_eq [OF assms(1,2)] x by simp
  ultimately have "round_float x = JFin ?r" using x by (simp add: round_float_def Let_def u_def)
  then show ?thesis using e by blast
qed

text \<open>
  A number of thousandths between 65.537 and 127.999, rounded to a \<open>float\<close> and multiplied by thousand with
  rounding, is the number of thousandths again: the two errors together stay below half a unit in the last
  place of the product.
\<close>

lemma thousandths_exact:
  assumes "65537 \<le> k" "k < 128000"
  shows "\<exists>f. round_float (of_nat k / 1000) = JFin f \<and> times_1000 (JFin f) = JFin (of_nat k)"
proof -
  let ?x = "of_nat k / 1000 :: rat"
  have k: "65537 \<le> (of_nat k :: rat)" using assms(1) by (metis of_nat_le_iff of_nat_numeral)
  have l: "(of_nat k :: rat) < 128000" using assms(2) by (metis of_nat_less_iff of_nat_numeral)
  have "2 ^ 6 \<le> ?x" "?x < 2 ^ (6 + 1)" using k l by simp_all
  then obtain f where f: "round_float ?x = JFin f" "\<bar>f - ?x\<bar> \<le> pow2 (- 17) / 2"
    using round_float_at [of 6 ?x] by auto
  then have d: "\<bar>f * 1000 - of_nat k\<bar> \<le> 1000 / 2 ^ 18" by (simp add: pow2_def abs_if split: if_splits)
  then have "2 ^ 16 \<le> f * 1000" "f * 1000 < 2 ^ (16 + 1)" using k l by (simp_all add: abs_if split: if_splits)
  then obtain r where r: "round_float (f * 1000) = JFin r" "r = of_int (round_even (f * 1000 / pow2 (- 7))) * pow2 (- 7)"
    using round_float_at [of 16 "f * 1000"] by auto
  have "\<bar>f * 1000 / pow2 (- 7) - of_int (128 * int k)\<bar> < 1 / 2" using d by (simp add: pow2_def abs_if split: if_splits)
  then have "round_even (f * 1000 / pow2 (- 7)) = 128 * int k" by (rule round_even_near)
  then have "r = of_int (128 * int k) * pow2 (- 7)" using r(2) by (simp only:)
  moreover have "pow2 (- 7) = 1 / 128" by (simp add: pow2_def)
  ultimately have "r = of_nat k" by simp
  then have "times_1000 (JFin f) = JFin (of_nat k)" using r(1) by (simp add: times_1000_def)
  then show ?thesis using f(1) by blast
qed

end
