(* ===== verification/Fm_Service.thy ===== *)
theory Fm_Service
  imports Fm_Ths Java_Float
begin

text \<open>
  The Java part of the FM radio service (\<open>src/packages/apps/FleetyFmService/src/com/android/fleety/fm/service/\<close>):
  \<open>FleetyFmServiceUtil\<close> with the static state of the radio, and the listener threads of
  \<open>FleetyFmServiceEventListner\<close> that treat the events of the driver. Every call of an application runs in a thread of
  its own and takes no lock, so opening the device, scanning and listening are programs whose steps interleave. The
  theorems show what a scan returns under every interleaving with the listener, two ways in which it waits
  forever, that openings that do not overlap leave one listener while overlapping ones may leave two, and that the
  frequency of a call arrives at the driver although it is a floating point number on its way.

  A step is one access to a shared field or one native call, and every thread sees the writes of the others in
  order. The fields are not declared \<open>volatile\<close>, so Java does not promise this: a scan that never sees the end
  of the search is allowed too.
\<close>

section \<open>State\<close>

text \<open>
  \<open>fm_data\<close> is what the driver writes into the event buffer, \<open>no_elements\<close> says that the virtual machine does not
  hand out the elements of the array. Both depend on what has been asked of the system so far.
\<close>

record fm_svc_env = fm_ths_env +
  fm_data :: "fm_event list \<Rightarrow> bytes"
  no_elements :: "fm_event list \<Rightarrow> bool"

text \<open>
  Where a listener thread is: created but not started, before the condition of its loop, before the treatment of the
  events that are left in the buffer, within the treatment of a station (the index of the array is known; the message
  is to be printed; the counter is to be read; the counter is to be written), or at its end.
\<close>

datatype listener_pc =
    Created | LoopHead | Treat bytes | StoreFreq s32 bytes | LogFreq bytes | ReadCount bytes | WriteCount s32 bytes | Ended

record fm_thread =
  thr_fd :: s32
  isStop :: bool
  thr_pc :: listener_pc

datatype scan_pc =
    ScanGetFreq | ScanMono | ScanLow | ScanMode | ScanDwell | ScanStart | ResetCount | ResetComplete | WaitComplete
  | CheckCount | NewArray | CopyNext nat "s32 list" | ScanReturned "s32 list" | ScanFailed

text \<open>
  Where a call of \<open>opendev\<close> or \<open>closedev\<close> is. \<open>InStart\<close> is within \<open>startListner\<close> of the given listener object, with
  the descriptor that was passed; \<open>Setup n\<close> is before the n-th native call after it. A call returns, or throws.
\<close>

datatype start_pc = TestThread | StopThread | NewThread | StartThread

datatype call_pc =
    OpenAcquire | OpenCheck | TestEvents | NewEvents | StartOn | StartWith nat | InStart nat s32 start_pc | Setup nat
  | CloseOff | CloseState | Returned bool | Thrown

text \<open>
  \<open>mThread\<close> has the field of that name of every listener object that was created, and \<open>mEvents\<close> is the position of
  the current object; the field itself is the position of a thread in \<open>threads\<close>, the listener threads that were
  created. \<open>scans\<close> are the calls of \<open>autoscan\<close>, \<open>calls\<close> those of \<open>opendev\<close> and \<open>closedev\<close>.
\<close>

record fm_service =
  svc_fd :: s32
  mEvents :: "nat option"
  mThread :: "nat option list"
  threads :: "fm_thread list"
  mStations :: "s32 list"
  mStationCnt :: s32
  mSrchComplete :: bool
  mState :: s32
  scans :: "scan_pc list"
  calls :: "call_pc list"
  svc_world :: fm_world

definition V4L2_DEVICE :: bytes where "V4L2_DEVICE = ascii ''/dev/radio0''"
definition low_band :: s32 where "low_band = 87500"
definition high_band :: s32 where "high_band = 108000"

definition service_start :: "fm_world \<Rightarrow> fm_service" where
  "service_start w =
     \<lparr>svc_fd = 0, mEvents = None, mThread = [], threads = [], mStations = replicate 100 0, mStationCnt = 0,
      mSrchComplete = False, mState = 0, scans = [], calls = [], svc_world = w\<rparr>"

section \<open>Opening and closing\<close>

text \<open>
  The steps of \<open>startListner\<close> with \<open>stopListener\<close>. Each of them reads \<open>mThread\<close> again, and a thread that has been
  started cannot be started again. \<open>interrupt\<close> sets a status that nothing reads.
\<close>

definition startListner :: "nat \<Rightarrow> s32 \<Rightarrow> start_pc \<Rightarrow> fm_service \<Rightarrow> call_pc \<times> fm_service" where
  "startListner obj fd pc st =
     (case pc of
        TestThread \<Rightarrow> (InStart obj fd (if mThread st ! obj = None then NewThread else StopThread), st)
      | StopThread \<Rightarrow>
          (case mThread st ! obj of
             None \<Rightarrow> (Thrown, st)
           | Some i \<Rightarrow> (InStart obj fd NewThread, st\<lparr>threads := (threads st)[i := (threads st ! i)\<lparr>isStop := True\<rparr>]\<rparr>))
      | NewThread \<Rightarrow>
          (InStart obj fd StartThread,
           st\<lparr>threads := threads st @ [\<lparr>thr_fd = fd, isStop = False, thr_pc = Created\<rparr>],
              mThread := (mThread st)[obj := Some (length (threads st))]\<rparr>)
      | StartThread \<Rightarrow>
          (case mThread st ! obj of
             None \<Rightarrow> (Thrown, st)
           | Some i \<Rightarrow>
               if thr_pc (threads st ! i) = Created
               then (Setup 0, st\<lparr>threads := (threads st)[i := (threads st ! i)\<lparr>thr_pc := LoopHead\<rparr>]\<rparr>)
               else (Thrown, st)))"

definition set_ctl :: "'e fm_svc_env_scheme \<Rightarrow> s32 \<Rightarrow> s32 \<Rightarrow> s32 \<Rightarrow> fm_world \<Rightarrow> fm_world" where
  "set_ctl E fd cid val w = snd (setControlNative E w fd cid val)"

definition open_setup :: "'e fm_svc_env_scheme \<Rightarrow> (s32 \<Rightarrow> fm_world \<Rightarrow> fm_world) list" where
  "open_setup E =
     [\<lambda>fd. set_ctl E fd 0x8000004 1,
      \<lambda>fd. set_ctl E fd 0x8000029 0,
      \<lambda>fd w. snd (SetCalibrationNative E w fd),
      \<lambda>fd. set_ctl E fd 0x800000c 1,
      \<lambda>fd. set_ctl E fd 0x800000d 1,
      \<lambda>fd. set_ctl E fd 0x800000e 1,
      \<lambda>fd. set_ctl E fd 0x800002b 0,
      \<lambda>fd w. snd (setBandNative E w fd low_band high_band),
      \<lambda>fd. set_ctl E fd 0x8000007 4,
      \<lambda>fd. set_ctl E fd 0x8000011 0,
      \<lambda>fd. set_ctl E fd 0x800000f 1,
      \<lambda>fd. set_ctl E fd 0x8000010 0xfffffff8,
      \<lambda>fd. set_ctl E fd 0x8000014 1,
      \<lambda>fd. set_ctl E fd 0x800000f 1,
      \<lambda>fd. set_ctl E fd 0x800001b 1,
      \<lambda>fd. set_ctl E fd 0x8000012 0]"

text \<open>The static field \<open>fd\<close> is read again at every use.\<close>

definition opendev_step :: "'e fm_svc_env_scheme \<Rightarrow> call_pc \<Rightarrow> fm_service \<Rightarrow> call_pc \<times> fm_service" where
  "opendev_step E pc st =
     (case pc of
        OpenAcquire \<Rightarrow>
          let (fd, w) = acquireFdNative E (svc_world st) (Some V4L2_DEVICE) in (OpenCheck, st\<lparr>svc_fd := fd, svc_world := w\<rparr>)
      | OpenCheck \<Rightarrow> (if svc_fd st \<le>s 0 then Returned False else TestEvents, st)
      | TestEvents \<Rightarrow> (if mEvents st = None then NewEvents else StartOn, st)
      | NewEvents \<Rightarrow> (StartOn, st\<lparr>mEvents := Some (length (mThread st)), mThread := mThread st @ [None]\<rparr>)
      | StartOn \<Rightarrow> (case mEvents st of None \<Rightarrow> Thrown | Some obj \<Rightarrow> StartWith obj, st)
      | StartWith obj \<Rightarrow> (InStart obj (svc_fd st) TestThread, st)
      | InStart obj fd p \<Rightarrow> startListner obj fd p st
      | Setup n \<Rightarrow>
          if n < length (open_setup E)
          then (Setup (n + 1), st\<lparr>svc_world := (open_setup E ! n) (svc_fd st) (svc_world st)\<rparr>)
          else (Returned True, st\<lparr>mState := 1\<rparr>)
      | _ \<Rightarrow> (pc, st))"

definition closedev_step :: "'e fm_svc_env_scheme \<Rightarrow> call_pc \<Rightarrow> fm_service \<Rightarrow> call_pc \<times> fm_service" where
  "closedev_step E pc st =
     (case pc of
        CloseOff \<Rightarrow> (CloseState, st\<lparr>svc_world := set_ctl E (svc_fd st) 0x8000004 0 (svc_world st)\<rparr>)
      | CloseState \<Rightarrow> (Returned True, st\<lparr>mState := 0\<rparr>)
      | _ \<Rightarrow> (pc, st))"

definition call_step :: "'e fm_svc_env_scheme \<Rightarrow> nat \<Rightarrow> fm_service \<Rightarrow> fm_service" where
  "call_step E i st =
     (let (pc, st) = (if calls st ! i \<in> {CloseOff, CloseState} then closedev_step else opendev_step) E (calls st ! i) st
      in st\<lparr>calls := (calls st)[i := pc]\<rparr>)"

definition opendev :: "fm_service \<Rightarrow> fm_service" where
  "opendev st = st\<lparr>calls := calls st @ [OpenAcquire]\<rparr>"

definition closedev :: "fm_service \<Rightarrow> fm_service" where
  "closedev st = st\<lparr>calls := calls st @ [CloseOff]\<rparr>"

section \<open>Other calls of the service\<close>

definition powerup :: "'e fm_svc_env_scheme \<Rightarrow> jfloat \<Rightarrow> fm_service \<Rightarrow> bool \<times> fm_service" where
  "powerup E frequency st =
     (True, st\<lparr>svc_world := snd (setFreqNative E (svc_world st) (svc_fd st) (float_int (times_1000 frequency)))\<rparr>)"

definition tune :: "'e fm_svc_env_scheme \<Rightarrow> jfloat \<Rightarrow> fm_service \<Rightarrow> bool \<times> fm_service" where
  "tune E frequency st =
     (let freq_hz = float_int (times_1000 frequency);
          (r, w) = setFreqNative E (svc_world st) (svc_fd st) freq_hz
      in (r = 0, st\<lparr>svc_world := w\<rparr>))"

definition stopscan :: "'e fm_svc_env_scheme \<Rightarrow> fm_service \<Rightarrow> bool \<times> fm_service" where
  "stopscan E st = (let (r, w) = cancelSearchNative E (svc_world st) (svc_fd st) in (r = 0, st\<lparr>svc_world := w\<rparr>))"

definition isFMPoweredUp :: "fm_service \<Rightarrow> s32" where
  "isFMPoweredUp st = mState st"

section \<open>The scan\<close>

text \<open>
  One step of the \<open>j\<close>-th call of \<open>autoscan\<close>. The last loop reads the counter before every round; an index outside
  an array ends the call with an exception.
\<close>

definition scan_to :: "nat \<Rightarrow> scan_pc \<Rightarrow> fm_service \<Rightarrow> fm_service" where
  "scan_to j pc st = st\<lparr>scans := (scans st)[j := pc]\<rparr>"

definition autoscan_step :: "'e fm_svc_env_scheme \<Rightarrow> nat \<Rightarrow> fm_service \<Rightarrow> fm_service" where
  "autoscan_step E j st =
     (let w = svc_world st; fd = svc_fd st in
      case scans st ! j of
        ScanGetFreq \<Rightarrow> scan_to j ScanMono (st\<lparr>svc_world := snd (getFreqNative E w fd)\<rparr>)
      | ScanMono \<Rightarrow> scan_to j ScanLow (st\<lparr>svc_world := snd (setMonoStereoNative E w fd 1)\<rparr>)
      | ScanLow \<Rightarrow> scan_to j ScanMode (st\<lparr>svc_world := snd (setFreqNative E w fd low_band)\<rparr>)
      | ScanMode \<Rightarrow> scan_to j ScanDwell (st\<lparr>svc_world := set_ctl E fd 0x8000001 1 w\<rparr>)
      | ScanDwell \<Rightarrow> scan_to j ScanStart (st\<lparr>svc_world := set_ctl E fd 0x8000002 2 w\<rparr>)
      | ScanStart \<Rightarrow> scan_to j ResetCount (st\<lparr>svc_world := snd (startSearchNative E w fd 1)\<rparr>)
      | ResetCount \<Rightarrow> scan_to j ResetComplete (st\<lparr>mStationCnt := 0\<rparr>)
      | ResetComplete \<Rightarrow> scan_to j WaitComplete (st\<lparr>mSrchComplete := False\<rparr>)
      | WaitComplete \<Rightarrow> if mSrchComplete st then scan_to j CheckCount st else st
      | CheckCount \<Rightarrow> if mStationCnt st = 0 then scan_to j (ScanReturned []) st else scan_to j NewArray st
      | NewArray \<Rightarrow> if mStationCnt st <s 0 then scan_to j ScanFailed st else scan_to j (CopyNext (unat (mStationCnt st)) []) st
      | CopyNext n arr \<Rightarrow>
          if int (length arr) < sint (mStationCnt st) then
            (if length arr < n \<and> length arr < length (mStations st)
             then scan_to j (CopyNext n (arr @ [mStations st ! length arr])) st
             else scan_to j ScanFailed st)
          else scan_to j (ScanReturned (arr @ replicate (n - length arr) 0)) st
      | ScanReturned _ \<Rightarrow> st
      | ScanFailed \<Rightarrow> st)"

definition autoscan :: "fm_service \<Rightarrow> fm_service" where
  "autoscan st = st\<lparr>scans := scans st @ [ScanGetFreq]\<rparr>"

section \<open>The listener\<close>

text \<open>
  One iteration asks the driver for events. The rest of the buffer is filled with zeros. An exception in the
  treatment of an event is caught and ends the iteration; the events that are left are lost.
\<close>

definition event_buffer :: "'e fm_svc_env_scheme \<Rightarrow> fm_world \<Rightarrow> bytes" where
  "event_buffer E w = take (unat STD_BUF_SIZE) (fm_data E (fm_log w) @ replicate (unat STD_BUF_SIZE) 0)"

definition listener_fetch :: "'e fm_svc_env_scheme \<Rightarrow> s32 \<Rightarrow> fm_world \<Rightarrow> listener_pc \<times> bool \<times> fm_world" where
  "listener_fetch E fd w =
     (let buff = event_buffer E w;
          (eventCount, w) = getBufferNative E w fd (no_elements E (fm_log w)) 1 in
      if 0 \<le>s eventCount then (Treat (take (unat eventCount) buff), False, w)
      else (LoopHead, True, snd (closeFdNative E w fd)))"

text \<open>The calls that an event other than a station leads to, and whether it stops the thread.\<close>

definition event_calls :: "'e fm_svc_env_scheme \<Rightarrow> s32 \<Rightarrow> u8 \<Rightarrow> fm_world \<Rightarrow> (bool \<times> fm_world) res" where
  "event_calls E fd ev w =
     (if ev = 0 then
        bnd (configurePerformanceParams E fd (set_ctl E fd 0x8000006 0x40 w)) (\<lambda>w. Inr (False, w))
      else if ev = 2 \<or> ev = 8 then Inr (False, snd (getFreqNative E w fd))
      else if ev = 18 then Inr (True, snd (closeFdNative E w fd))
      else if ev = 19 then Inr (False, set_ctl E fd 0x8000006 0 w)
      else Inr (False, w))"

definition listener_to :: "nat \<Rightarrow> listener_pc \<Rightarrow> fm_service \<Rightarrow> fm_service" where
  "listener_to k pc st = st\<lparr>threads := (threads st)[k := (threads st ! k)\<lparr>thr_pc := pc\<rparr>]\<rparr>"

definition listener_stop :: "nat \<Rightarrow> bool \<Rightarrow> fm_service \<Rightarrow> fm_service" where
  "listener_stop k stop st =
     (if stop then st\<lparr>threads := (threads st)[k := (threads st ! k)\<lparr>isStop := True\<rparr>]\<rparr> else st)"

definition in_array :: "s32 \<Rightarrow> 'a list \<Rightarrow> bool" where
  "in_array i xs \<longleftrightarrow> 0 \<le>s i \<and> unat i < length xs"

definition listener_step :: "'e fm_svc_env_scheme \<Rightarrow> nat \<Rightarrow> fm_service \<Rightarrow> fm_service res" where
  "listener_step E k st =
     (let fd = thr_fd (threads st ! k); w = svc_world st in
      case thr_pc (threads st ! k) of
        Created \<Rightarrow> Inr st
      | LoopHead \<Rightarrow>
          if isStop (threads st ! k) then Inr (listener_to k Ended st)
          else let (pc, stop, w) = listener_fetch E fd w in Inr (listener_to k pc (listener_stop k stop (st\<lparr>svc_world := w\<rparr>)))
      | Treat [] \<Rightarrow> Inr (listener_to k LoopHead st)
      | Treat (ev # evs) \<Rightarrow>
          if ev = 1 then
            Inr (listener_to k (if mSrchComplete st then Treat evs else StoreFreq (mStationCnt st) evs) st)
          else
            bnd (event_calls E fd ev w) (\<lambda>(stop, w).
            let st = listener_to k (Treat evs) (listener_stop k stop (st\<lparr>svc_world := w\<rparr>))
            in Inr (if ev = 2 then st\<lparr>mSrchComplete := True\<rparr> else st))
      | StoreFreq i evs \<Rightarrow>
          let (freq, w) = getFreqNative E w fd; st = st\<lparr>svc_world := w\<rparr> in
          if in_array i (mStations st) then Inr (listener_to k (LogFreq evs) (st\<lparr>mStations := (mStations st)[unat i := freq]\<rparr>))
          else Inr (listener_to k LoopHead st)
      | LogFreq evs \<Rightarrow>
          if in_array (mStationCnt st) (mStations st) then Inr (listener_to k (ReadCount evs) st)
          else Inr (listener_to k LoopHead st)
      | ReadCount evs \<Rightarrow> Inr (listener_to k (WriteCount (mStationCnt st) evs) st)
      | WriteCount c evs \<Rightarrow> Inr (listener_to k (Treat evs) (st\<lparr>mStationCnt := c + 1\<rparr>))
      | Ended \<Rightarrow> Inr st)"

section \<open>Playing\<close>

text \<open>
  Starting and stopping are messages to the main thread of \<open>FleetyFmService\<close>, which treats them in order. The
  calls of the audio system are logged: whether the headphones are forced, and whether the FM output is
  connected. An exception of the audio system in \<open>WHAT_START_PLAY\<close> is caught and printed; the calls of the
  audio system return a status and throw none.
\<close>

datatype audio_call = SetForceUse bool | SetDeviceConnection bool

definition WHAT_START_PLAY :: nat where "WHAT_START_PLAY = 1"
definition WHAT_STOP_PLAY :: nat where "WHAT_STOP_PLAY = 2"
definition WHAT_RE_PLAY :: nat where "WHAT_RE_PLAY = 3"

record fm_player =
  play_messages :: "nat list"
  audio_log :: "audio_call list"

definition continueFmPlay :: "fm_player \<Rightarrow> bool \<times> fm_player" where
  "continueFmPlay p = (True, p\<lparr>play_messages := play_messages p @ [WHAT_RE_PLAY]\<rparr>)"

definition startFmPlay :: "fm_player \<Rightarrow> bool \<times> fm_player" where
  "startFmPlay p = (True, p\<lparr>play_messages := play_messages p @ [WHAT_START_PLAY]\<rparr>)"

definition stopFmPlay :: "fm_player \<Rightarrow> bool \<times> fm_player" where
  "stopFmPlay p = (True, p\<lparr>play_messages := play_messages p @ [WHAT_STOP_PLAY]\<rparr>)"

definition setFmSpeakerPhoneOn :: "bool \<Rightarrow> fm_player \<Rightarrow> bool \<times> fm_player" where
  "setFmSpeakerPhoneOn isSpeaker p = (True, p\<lparr>audio_log := audio_log p @ [SetForceUse isSpeaker]\<rparr>)"

definition handleMessage :: "nat \<Rightarrow> fm_player \<Rightarrow> fm_player" where
  "handleMessage what p =
     (let connect = (\<lambda>on p. p\<lparr>audio_log := audio_log p @ [SetDeviceConnection on]\<rparr>) in
      if what = WHAT_RE_PLAY then connect False (snd (setFmSpeakerPhoneOn False p))
      else if what = WHAT_STOP_PLAY then connect False (snd (setFmSpeakerPhoneOn False p))
      else if what = WHAT_START_PLAY then connect True (snd (setFmSpeakerPhoneOn True p))
      else p)"

definition handler_loop :: "fm_player \<Rightarrow> fm_player" where
  "handler_loop p = fold handleMessage (play_messages p) (p\<lparr>play_messages := []\<rparr>)"

text \<open>The message treated last decides: the output is connected after a start, and not after a request to continue.\<close>

lemma handler_last:
  "last (audio_log (handler_loop (snd (startFmPlay p)))) = SetDeviceConnection True"
  "last (audio_log (handler_loop (snd (stopFmPlay p)))) = SetDeviceConnection False"
  "last (audio_log (handler_loop (snd (continueFmPlay p)))) = SetDeviceConnection False"
  by (simp_all add: handler_loop_def startFmPlay_def stopFmPlay_def continueFmPlay_def handleMessage_def setFmSpeakerPhoneOn_def
      WHAT_START_PLAY_def WHAT_STOP_PLAY_def WHAT_RE_PLAY_def)

section \<open>All interleavings\<close>

text \<open>
  The calls of applications, each served by a thread of its own, and the steps of the threads. A call with one
  native call is one step. If openings do not overlap, a call of \<open>opendev\<close> comes only when every other one has
  returned; everything else interleaves freely.
\<close>

datatype fm_call = OpenDevice | CloseDevice | PowerUp jfloat | Tune jfloat | StopScan | AutoScan

definition fm_serve :: "'e fm_svc_env_scheme \<Rightarrow> fm_call \<Rightarrow> fm_service \<Rightarrow> fm_service" where
  "fm_serve E c st =
     (case c of
        OpenDevice \<Rightarrow> opendev st
      | CloseDevice \<Rightarrow> closedev st
      | PowerUp f \<Rightarrow> snd (powerup E f st)
      | Tune f \<Rightarrow> snd (tune E f st)
      | StopScan \<Rightarrow> snd (stopscan E st)
      | AutoScan \<Rightarrow> autoscan st)"

definition in_open :: "call_pc \<Rightarrow> bool" where
  "in_open pc = (case pc of CloseOff \<Rightarrow> False | CloseState \<Rightarrow> False | Returned _ \<Rightarrow> False | Thrown \<Rightarrow> False | _ \<Rightarrow> True)"

inductive thread_step :: "'e fm_svc_env_scheme \<Rightarrow> fm_service \<Rightarrow> fm_service \<Rightarrow> bool" for E where
  listens: "k < length (threads st) \<Longrightarrow> listener_step E k st = Inr st' \<Longrightarrow> thread_step E st st'"
| scans: "j < length (scans st) \<Longrightarrow> thread_step E st (autoscan_step E j st)"

inductive fm_reachable :: "'e fm_svc_env_scheme \<Rightarrow> bool \<Rightarrow> fm_service \<Rightarrow> bool" for E overlap where
  started: "fm_reachable E overlap (service_start w)"
| served: "fm_reachable E overlap st \<Longrightarrow> c = OpenDevice \<and> \<not> overlap \<longrightarrow> (\<forall>pc\<in>set (calls st). \<not> in_open pc) \<Longrightarrow>
    fm_reachable E overlap (fm_serve E c st)"
| stepped: "fm_reachable E overlap st \<Longrightarrow> thread_step E st st' \<Longrightarrow> fm_reachable E overlap st'"
| called: "fm_reachable E overlap st \<Longrightarrow> i < length (calls st) \<Longrightarrow> fm_reachable E overlap (call_step E i st)"

section \<open>What a scan finds\<close>


definition finished :: "scan_pc \<Rightarrow> bool" where
  "finished pc = (case pc of ScanReturned _ \<Rightarrow> True | ScanFailed \<Rightarrow> True | _ \<Rightarrow> False)"

text \<open>Only listener \<open>k\<close> and scan \<open>j\<close> are still running.\<close>

definition only_running :: "nat \<Rightarrow> nat \<Rightarrow> fm_service \<Rightarrow> bool" where
  "only_running k j st \<longleftrightarrow>
     k < length (threads st) \<and> j < length (scans st) \<and>
     (\<forall>i < length (threads st). i \<noteq> k \<longrightarrow> thr_pc (threads st ! i) = Ended) \<and>
     (\<forall>i < length (scans st). i \<noteq> j \<longrightarrow> finished (scans st ! i))"






lemma count_word:
  assumes "n \<le> 100"
  shows "0 \<le>s (of_nat n :: s32)" "unat (of_nat n :: s32) = n" "sint (of_nat n :: s32) = int n"
proof -
  show "unat (of_nat n :: s32) = n" using assms by (simp add: unat_of_nat)
  show s: "sint (of_nat n :: s32) = int n"
    using assms by (simp add: signed_of_nat signed_take_bit_int_eq_self)
  then show "0 \<le>s (of_nat n :: s32)" by (simp add: word_sle_eq)
qed

lemma listener_to_fields [simp]:
  "mSrchComplete (listener_to k pc st) = mSrchComplete st" "mStations (listener_to k pc st) = mStations st"
  "mStationCnt (listener_to k pc st) = mStationCnt st" "scans (listener_to k pc st) = scans st"
  "svc_world (listener_to k pc st) = svc_world st" "length (threads (listener_to k pc st)) = length (threads st)"
  "i \<noteq> k \<Longrightarrow> threads (listener_to k pc st) ! i = threads st ! i"
  "k < length (threads st) \<Longrightarrow> threads (listener_to k pc st) ! k = (threads st ! k)\<lparr>thr_pc := pc\<rparr>"
  by (simp_all add: listener_to_def)

lemma listener_stop_fields [simp]:
  "mSrchComplete (listener_stop k s st) = mSrchComplete st" "mStations (listener_stop k s st) = mStations st"
  "mStationCnt (listener_stop k s st) = mStationCnt st" "scans (listener_stop k s st) = scans st"
  "svc_world (listener_stop k s st) = svc_world st" "length (threads (listener_stop k s st)) = length (threads st)"
  "i \<noteq> k \<Longrightarrow> threads (listener_stop k s st) ! i = threads st ! i"
  "k < length (threads st) \<Longrightarrow> thr_fd (threads (listener_stop k s st) ! k) = thr_fd (threads st ! k)"
  "k < length (threads st) \<Longrightarrow> thr_pc (threads (listener_stop k s st) ! k) = thr_pc (threads st ! k)"
  "k < length (threads st) \<Longrightarrow> isStop (threads (listener_stop k s st) ! k) = (isStop (threads st ! k) \<or> s)"
  by (simp_all add: listener_stop_def)

lemma listener_frame:
  assumes "listener_step E k st = Inr st'"
  shows "length (threads st') = length (threads st)" "scans st' = scans st" "i \<noteq> k \<Longrightarrow> threads st' ! i = threads st ! i"
  using assms
  by (auto simp: listener_step_def Let_def split: listener_pc.splits list.splits prod.splits if_splits)









lemma scan_to_fields [simp]:
  "mSrchComplete (scan_to j pc st) = mSrchComplete st" "mStations (scan_to j pc st) = mStations st"
  "mStationCnt (scan_to j pc st) = mStationCnt st" "threads (scan_to j pc st) = threads st"
  "svc_world (scan_to j pc st) = svc_world st" "length (scans (scan_to j pc st)) = length (scans st)"
  "i \<noteq> j \<Longrightarrow> scans (scan_to j pc st) ! i = scans st ! i"
  "j < length (scans st) \<Longrightarrow> scans (scan_to j pc st) ! j = pc"
  by (simp_all add: scan_to_def)



lemma quiet_step:
  "thr_pc (threads st ! k) = Ended \<Longrightarrow> listener_step E k st = Inr st' \<Longrightarrow> st' = st"
  "finished (scans st ! j) \<Longrightarrow> autoscan_step E j st = st"
  by (auto simp: listener_step_def autoscan_step_def finished_def split: scan_pc.splits)

lemma only_running_listens:
  assumes "only_running k j st" "listener_step E k st = Inr st'"
  shows "only_running k j st'" "scans st' = scans st"
  using assms(1) listener_frame [OF assms(2)] by (auto simp: only_running_def)

lemma only_running_cases:
  assumes "only_running k j st" "thread_step E st st'"
  obtains "listener_step E k st = Inr st'" | "st' = autoscan_step E j st" | "st' = st"
  using assms(2)
proof cases
  case (listens k')
  then show ?thesis using that(1,3) assms(1) quiet_step(1) [of st k' E st'] by (cases "k' = k") (auto simp: only_running_def)
next
  case (scans j')
  then show ?thesis using that(2,3) assms(1) quiet_step(2) [of st j' E] by (cases "j' = j") (auto simp: only_running_def)
qed







definition example_svc_env :: fm_svc_env where
  "example_svc_env =
     \<lparr>conf_malloc = (\<lambda>_. True), float_to_int = (\<lambda>_. INT_MAX), conf_file = (\<lambda>_. None),
      fm_open = (\<lambda>_. 5),
      fm_driver = (\<lambda>h fd rq. \<lparr>rret = 0, rversion = 7, rfrequency = of_nat (16 * (87500 + 100 * length h)), rvalue = 0, rsignal = 0,
        rlow = 0, rhigh = 0, rused = 0\<rparr>),
      fm_read = (\<lambda>_ _. 0), fm_prop = (\<lambda>_ _. ''1''), fm_calibration = None, tx_pty = 0, tx_pi = 1, tx_radio_text = 2, stop_rt = 3,
      tx_ps_name = 4, stop_ps_name = 5, update_spur_table = 6, tx_setpsrepeatcount = 7, tune_power_level = 8,
      MASK_PTY = 31, MASK_PI = 65535, MASK_TXREPCOUNT = 15, atoi_overflow = (\<lambda>_. 0), fm_data = (\<lambda>_. []), no_elements = (\<lambda>_. False)\<rparr>"

definition example_scan :: "bytes \<Rightarrow> scan_pc \<Rightarrow> fm_service" where
  "example_scan evs pc =
     (service_start example_fm_world)\<lparr>threads := [\<lparr>thr_fd = 5, isStop = False, thr_pc = Treat evs\<rparr>], scans := [pc]\<rparr>"






section \<open>Scans that never return\<close>

definition pending :: "listener_pc \<Rightarrow> bytes" where
  "pending pc =
     (case pc of Treat evs \<Rightarrow> evs | StoreFreq _ evs \<Rightarrow> evs | LogFreq evs \<Rightarrow> evs | ReadCount evs \<Rightarrow> evs | WriteCount _ evs \<Rightarrow> evs | _ \<Rightarrow> [])"

text \<open>The scan waits, and the event that it waits for is not going to be treated.\<close>

definition hangs :: "nat \<Rightarrow> nat \<Rightarrow> fm_service \<Rightarrow> bool" where
  "hangs k j st \<longleftrightarrow>
     only_running k j st \<and> \<not> mSrchComplete st \<and> scans st ! j = WaitComplete \<and> 2 \<notin> set (pending (thr_pc (threads st ! k)))"

definition no_more_ends :: "'e fm_svc_env_scheme \<Rightarrow> bool" where
  "no_more_ends E \<longleftrightarrow> (\<forall>w. 2 \<notin> set (event_buffer E w))"

lemma listener_hangs:
  assumes "\<not> mSrchComplete st" "2 \<notin> set (pending (thr_pc (threads st ! k)))" "k < length (threads st)" "no_more_ends E"
    and "listener_step E k st = Inr st'"
  shows "\<not> mSrchComplete st' \<and> 2 \<notin> set (pending (thr_pc (threads st' ! k)))"
proof (cases "thr_pc (threads st ! k)")
  case (Treat evs)
  then show ?thesis using assms
    by (cases evs) (auto simp: listener_step_def pending_def Let_def split: if_splits)
next
  case LoopHead
  obtain pc stop w' where f: "listener_fetch E (thr_fd (threads st ! k)) (svc_world st) = (pc, stop, w')" by (metis prod_cases3)
  have "2 \<notin> set (take m (event_buffer E w))" for m w using assms(4) in_set_takeD unfolding no_more_ends_def by fast
  then have "2 \<notin> set (pending pc)"
    using f by (auto simp: listener_fetch_def pending_def Let_def split: prod.splits if_splits)
  then show ?thesis using assms LoopHead f by (auto simp: listener_step_def pending_def split: if_splits)
qed (use assms in \<open>auto simp: listener_step_def pending_def Let_def split: prod.splits if_splits\<close>)

lemma hangs_step:
  assumes "hangs k j st" "thread_step E st st'" "no_more_ends E"
  shows "hangs k j st'"
proof -
  have o: "only_running k j st" "k < length (threads st)" using assms(1) by (simp_all add: hangs_def only_running_def)
  from o(1) assms(2) show ?thesis
  proof (cases rule: only_running_cases)
    case 1
    then show ?thesis
      using assms(1) listener_hangs [OF _ _ o(2) assms(3) 1] only_running_listens [OF o(1) 1] by (simp add: hangs_def)
  next
    case 2
    then have "st' = st" using assms(1) by (simp add: autoscan_step_def hangs_def)
    then show ?thesis using assms(1) by simp
  qed (use assms(1) in simp)
qed

lemma hangs_run:
  "(thread_step E)\<^sup>*\<^sup>* st st' \<Longrightarrow> hangs k j st \<Longrightarrow> no_more_ends E \<Longrightarrow> hangs k j st'"
  by (induction rule: rtranclp_induct) (blast intro: hangs_step)+

text \<open>
  C40. The scan resets its flag only after it has started the search. When the end of the search is treated
  before, the event is lost: if the driver reports no end of a search in the events that are read later, the scan then
  waits forever, whatever steps the listener takes.
\<close>

theorem scan_end_lost:
  assumes "no_more_ends E" "only_running k j st" "scans st ! j = ResetComplete" "thr_pc (threads st ! k) = Treat [2]"
  shows "\<exists>st1. (thread_step E)\<^sup>*\<^sup>* st st1 \<and> (\<forall>st2. (thread_step E)\<^sup>*\<^sup>* st1 st2 \<longrightarrow> scans st2 ! j = WaitComplete)"
proof -
  have l: "k < length (threads st)" "j < length (scans st)" using assms(2) by (simp_all add: only_running_def)
  obtain sta where a: "listener_step E k st = Inr sta" using assms(4) by (auto simp: listener_step_def event_calls_def)
  then have p: "thr_pc (threads sta ! k) = Treat []"
    using assms(4) l(1) by (auto simp: listener_step_def event_calls_def)
  have o: "only_running k j sta" "scans sta = scans st" using only_running_listens [OF assms(2) a] by simp_all
  let ?st1 = "autoscan_step E j sta"
  have "hangs k j ?st1"
    using o p l(2) assms(3) by (auto simp: hangs_def only_running_def autoscan_step_def pending_def scan_to_def nth_list_update)
  then have "\<forall>st2. (thread_step E)\<^sup>*\<^sup>* ?st1 st2 \<longrightarrow> scans st2 ! j = WaitComplete"
    using hangs_run [OF _ _ assms(1)] by (meson hangs_def)
  moreover have "thread_step E st sta" "thread_step E sta ?st1"
    using a l o(2) by (auto intro: thread_step.listens thread_step.scans)
  ultimately show ?thesis by (meson converse_rtranclp_into_rtranclp rtranclp.rtrancl_refl)
qed

lemma always_eq:
  assumes "\<And>y. R\<^sup>*\<^sup>* x y \<Longrightarrow> f y = c"
  shows "{f y | y. R\<^sup>*\<^sup>* x y} = {c}"
proof -
  have "f x = c" "R\<^sup>*\<^sup>* x x" using assms by simp_all
  then show ?thesis using assms by (auto intro!: exI [of _ x])
qed

lemma example_no_more_ends: "no_more_ends example_svc_env"
  by (auto simp: no_more_ends_def event_buffer_def example_svc_env_def dest!: in_set_takeD)

theorem scan_end_lost_witness:
  "\<exists>st1. (thread_step example_svc_env)\<^sup>*\<^sup>* (example_scan [2] ResetComplete) st1 \<and>
     {scans st2 ! 0 | st2. (thread_step example_svc_env)\<^sup>*\<^sup>* st1 st2} = {WaitComplete}"
proof -
  have "only_running 0 0 (example_scan [2] ResetComplete)" by (simp add: only_running_def example_scan_def)
  from scan_end_lost [OF example_no_more_ends this]
  obtain st1 where "(thread_step example_svc_env)\<^sup>*\<^sup>* (example_scan [2] ResetComplete) st1"
    and "\<forall>st2. (thread_step example_svc_env)\<^sup>*\<^sup>* st1 st2 \<longrightarrow> scans st2 ! 0 = WaitComplete"
    by (auto simp: example_scan_def)
  then show ?thesis using always_eq [of "thread_step example_svc_env" st1 "\<lambda>st. scans st ! 0"] by (intro exI [of _ st1]) simp
qed

text \<open>More stations than the array holds, before the only end of the search that is left.\<close>

definition crowded :: "nat \<Rightarrow> nat \<Rightarrow> fm_service \<Rightarrow> bool" where
  "crowded k j st \<longleftrightarrow>
     only_running k j st \<and> \<not> mSrchComplete st \<and> scans st ! j = WaitComplete \<and> length (mStations st) = 100 \<and>
     (\<exists>n pre rest. n \<le> 100 \<and> mStationCnt st = of_nat n \<and> pending (thr_pc (threads st ! k)) = pre @ 2 # rest \<and> 2 \<notin> set pre \<and>
       2 \<notin> set rest \<and>
       (case thr_pc (threads st ! k) of
          Treat _ \<Rightarrow> 100 < n + count_list pre 1
        | StoreFreq i _ \<Rightarrow> i = of_nat n \<and> 100 < n + 1 + count_list pre 1
        | LogFreq _ \<Rightarrow> n < 100 \<and> 100 < n + 1 + count_list pre 1
        | ReadCount _ \<Rightarrow> n < 100 \<and> 100 < n + 1 + count_list pre 1
        | WriteCount c _ \<Rightarrow> c = of_nat n \<and> n < 100 \<and> 100 < n + 1 + count_list pre 1
        | _ \<Rightarrow> False))"

lemma crowded_listens:
  assumes a: "crowded k j st" and s: "listener_step E k st = Inr st'"
  shows "crowded k j st' \<or> hangs k j st'"
proof -
  let ?th = "threads st ! k"
  have o: "only_running k j st" "k < length (threads st)" and f: "\<not> mSrchComplete st" "scans st ! j = WaitComplete" "length (mStations st) = 100"
    using a by (simp_all add: crowded_def only_running_def)
  obtain n pre rest where n: "n \<le> 100" "mStationCnt st = of_nat n" and p: "pending (thr_pc ?th) = pre @ 2 # rest" "2 \<notin> set pre" "2 \<notin> set rest"
    and c: "case thr_pc ?th of
          Treat _ \<Rightarrow> 100 < n + count_list pre 1
        | StoreFreq i _ \<Rightarrow> i = of_nat n \<and> 100 < n + 1 + count_list pre 1
        | LogFreq _ \<Rightarrow> n < 100 \<and> 100 < n + 1 + count_list pre 1
        | ReadCount _ \<Rightarrow> n < 100 \<and> 100 < n + 1 + count_list pre 1
        | WriteCount c _ \<Rightarrow> c = of_nat n \<and> n < 100 \<and> 100 < n + 1 + count_list pre 1
        | _ \<Rightarrow> False"
    using a unfolding crowded_def by blast
  have o': "only_running k j st'" "scans st' = scans st" using only_running_listens [OF o(1) s] by simp_all
  note w = count_word [OF n(1)]
  have new: "crowded k j st'" if "\<not> mSrchComplete st'" "length (mStations st') = 100" "m \<le> 100" "mStationCnt st' = of_nat m"
    "pending (thr_pc (threads st' ! k)) = pre' @ 2 # rest" "2 \<notin> set pre'"
    "case thr_pc (threads st' ! k) of
          Treat _ \<Rightarrow> 100 < m + count_list pre' 1
        | StoreFreq i _ \<Rightarrow> i = of_nat m \<and> 100 < m + 1 + count_list pre' 1
        | LogFreq _ \<Rightarrow> m < 100 \<and> 100 < m + 1 + count_list pre' 1
        | ReadCount _ \<Rightarrow> m < 100 \<and> 100 < m + 1 + count_list pre' 1
        | WriteCount c _ \<Rightarrow> c = of_nat m \<and> m < 100 \<and> 100 < m + 1 + count_list pre' 1
        | _ \<Rightarrow> False" for m pre'
    using that o' f(2) p(3) unfolding crowded_def by (intro conjI exI [of _ m] exI [of _ pre'] exI [of _ rest]) simp_all
  show ?thesis
  proof (cases "thr_pc ?th")
    case (Treat evs)
    then obtain ev pre' where e: "pre = ev # pre'" using c n(1) by (cases pre) auto
    show ?thesis
      using new [of n pre'] s Treat e p c n f o by (auto simp: listener_step_def pending_def Let_def split: if_splits)
  next
    case (StoreFreq i evs)
    show ?thesis
    proof (cases "n < 100")
      case True
      then show ?thesis
        using new [of n pre] s StoreFreq p c n f o w by (auto simp: listener_step_def pending_def in_array_def split: prod.splits)
    next
      case False
      then have "\<not> in_array i (mStations st)" using c StoreFreq n(1) f(3) w(2) by (simp add: in_array_def)
      then have "thr_pc (threads st' ! k) = LoopHead" "mSrchComplete st' = mSrchComplete st"
        using s StoreFreq o(2) by (auto simp: listener_step_def Let_def split: prod.splits)
      then show ?thesis using o' f by (simp add: hangs_def pending_def)
    qed
  next
    case (LogFreq evs)
    then show ?thesis using new [of n pre] s p c n f o w by (auto simp: listener_step_def pending_def in_array_def)
  next
    case (ReadCount evs)
    then show ?thesis using new [of n pre] s p c n f o by (auto simp: listener_step_def pending_def)
  next
    case (WriteCount v evs)
    then show ?thesis using new [of "n + 1" pre] s p c n f o by (auto simp: listener_step_def pending_def add.commute)
  qed (use c in simp_all)
qed

lemma crowded_run:
  assumes "(thread_step E)\<^sup>*\<^sup>* st st'" "crowded k j st" "no_more_ends E"
  shows "crowded k j st' \<or> hangs k j st'"
  using assms(1)
proof induction
  case (step y z)
  show ?case
  proof (cases "hangs k j y")
    case True
    then show ?thesis using hangs_step [OF True step.hyps(2) assms(3)] by simp
  next
    case False
    then have y: "crowded k j y" "only_running k j y" using step.IH by (auto simp: crowded_def)
    from y(2) step.hyps(2) show ?thesis
    proof (cases rule: only_running_cases)
      case 1
      then show ?thesis by (rule crowded_listens [OF y(1)])
    next
      case 2
      then have "z = y" using y(1) by (simp add: autoscan_step_def crowded_def)
      then show ?thesis using y(1) by simp
    qed (use y(1) in simp)
  qed
qed (use assms(2) in simp)

text \<open>
  When the search finds more than a hundred stations, the index of the array is exceeded, the exception
  drops the events that are left in the buffer, and with them the end of the search: the scan waits forever,
  whatever runs.
\<close>

lemma scan_too_many_stations:
  assumes "no_more_ends E" "only_running k j st" "scans st ! j = WaitComplete"
    and "thr_pc (threads st ! k) = Treat (evs @ 2 # rest)" "2 \<notin> set evs" "2 \<notin> set rest" "100 < count_list evs 1"
    and "\<not> mSrchComplete st" "mStationCnt st = 0" "length (mStations st) = 100" "(thread_step E)\<^sup>*\<^sup>* st st'"
  shows "scans st' ! j = WaitComplete"
proof -
  have "crowded k j st"
    unfolding crowded_def using assms by (intro conjI exI [of _ 0] exI [of _ evs] exI [of _ rest]) (simp_all add: pending_def)
  then show ?thesis using crowded_run [OF assms(11) _ assms(1), of k j] by (auto simp: crowded_def hangs_def)
qed

lemma scan_too_many_stations_example:
  "{scans st ! 0 | st. (thread_step example_svc_env)\<^sup>*\<^sup>* (example_scan (replicate 101 1 @ [2]) WaitComplete) st} = {WaitComplete}"
proof -
  have "count_list (replicate 101 (1 :: u8)) 1 = 101" by (simp add: numeral_eq_Suc)
  then have "scans st ! 0 = WaitComplete"
    if "(thread_step example_svc_env)\<^sup>*\<^sup>* (example_scan (replicate 101 1 @ [2]) WaitComplete) st" for st
    using scan_too_many_stations [OF example_no_more_ends _ _ _ _ _ _ _ _ _ that, of 0 0 "replicate 101 1" "[]"]
    by (simp add: only_running_def example_scan_def service_start_def)
  then show ?thesis by (rule always_eq)
qed

section \<open>Listeners\<close>

text \<open>
  With openings one after the other there is one listener object, which knows the thread that was created last, and
  every other thread has been told to stop. What holds within an opening depends on its step.
\<close>

definition open_ok :: "fm_service \<Rightarrow> call_pc \<Rightarrow> bool" where
  "open_ok st pc =
     (case pc of
        NewEvents \<Rightarrow> mEvents st = None
      | StartOn \<Rightarrow> mEvents st = Some 0
      | StartWith obj \<Rightarrow> mEvents st = Some 0 \<and> obj = 0
      | InStart obj fd p \<Rightarrow> mEvents st = Some 0 \<and> obj = 0 \<and>
          (case p of
             TestThread \<Rightarrow> True
           | StopThread \<Rightarrow> threads st \<noteq> []
           | NewThread \<Rightarrow> (\<forall>th\<in>set (threads st). isStop th)
           | StartThread \<Rightarrow> threads st \<noteq> [] \<and> thr_pc (last (threads st)) = Created)
      | Thrown \<Rightarrow> False
      | _ \<Rightarrow> True)"

definition listeners_ok :: "fm_service \<Rightarrow> bool" where
  "listeners_ok st \<longleftrightarrow>
     length (mStations st) = 100 \<and> (\<forall>th\<in>set (butlast (threads st)). isStop th) \<and>
     (mEvents st = None \<and> mThread st = [] \<and> threads st = [] \<or>
      mEvents st = Some 0 \<and> mThread st = [if threads st = [] then None else Some (length (threads st) - 1)])"

definition service_inv :: "fm_service \<Rightarrow> bool" where
  "service_inv st \<longleftrightarrow>
     listeners_ok st \<and> (\<forall>pc\<in>set (calls st). open_ok st pc) \<and>
     (\<forall>i j. i < length (calls st) \<and> j < length (calls st) \<and> in_open (calls st ! i) \<and> in_open (calls st ! j) \<longrightarrow> i = j)"

lemma not_open_ok: "\<not> in_open pc \<Longrightarrow> pc \<noteq> Thrown \<Longrightarrow> open_ok st pc"
  by (cases pc) (simp_all add: in_open_def open_ok_def)

text \<open>A listener thread never clears its flag, and a thread that was not started takes no step.\<close>

lemma listener_step_threads:
  assumes "k < length (threads st)" "listener_step E k st = Inr st'"
  shows "\<exists>th. threads st' = (threads st)[k := th] \<and> (isStop (threads st ! k) \<longrightarrow> isStop th) \<and>
    (thr_pc (threads st ! k) = Created \<longrightarrow> thr_pc th = Created)"
    "length (mStations st') = length (mStations st)" "mEvents st' = mEvents st" "mThread st' = mThread st" "calls st' = calls st"
proof -
  have "length (threads st') = length (threads st)" "\<And>i. i \<noteq> k \<Longrightarrow> threads st' ! i = threads st ! i"
    using listener_frame [OF assms(2)] by simp_all
  then have "threads st' = (threads st)[k := threads st' ! k]" using assms(1) by (intro nth_equalityI) (auto simp: nth_list_update)
  moreover have "isStop (threads st ! k) \<longrightarrow> isStop (threads st' ! k)" "thr_pc (threads st ! k) = Created \<longrightarrow> thr_pc (threads st' ! k) = Created"
    using assms by (auto simp: listener_step_def Let_def split: listener_pc.splits list.splits prod.splits if_splits)
  ultimately show "\<exists>th. threads st' = (threads st)[k := th] \<and> (isStop (threads st ! k) \<longrightarrow> isStop th) \<and>
      (thr_pc (threads st ! k) = Created \<longrightarrow> thr_pc th = Created)" by blast
  show "length (mStations st') = length (mStations st)" "mEvents st' = mEvents st" "mThread st' = mThread st" "calls st' = calls st"
    using assms(2)
    by (auto simp: listener_step_def listener_to_def listener_stop_def Let_def split: listener_pc.splits list.splits prod.splits if_splits)
qed

lemma stops_update:
  assumes "k < length ths" "isStop (ths ! k) \<longrightarrow> isStop th"
  shows "(\<forall>t\<in>set (butlast ths). isStop t) \<Longrightarrow> (\<forall>t\<in>set (butlast (ths[k := th])). isStop t)"
    "(\<forall>t\<in>set ths. isStop t) \<Longrightarrow> (\<forall>t\<in>set (ths[k := th]). isStop t)"
proof -
  have n: "k < length xs \<Longrightarrow> k < length ths \<Longrightarrow> xs ! k = ths ! k \<Longrightarrow> \<forall>t\<in>set xs. isStop t \<Longrightarrow> \<forall>t\<in>set (xs[k := th]). isStop t" for xs
    using assms(2) nth_mem [of k xs] by (auto dest!: subsetD [OF set_update_subset_insert])
  show "(\<forall>t\<in>set ths. isStop t) \<Longrightarrow> (\<forall>t\<in>set (ths[k := th]). isStop t)" using n [of ths] assms(1) by simp
  show "(\<forall>t\<in>set (butlast ths). isStop t) \<Longrightarrow> (\<forall>t\<in>set (butlast (ths[k := th])). isStop t)"
    using n [of "butlast ths"] assms(1) by (cases "k < length ths - 1") (simp_all add: butlast_list_update nth_butlast)
qed

lemma listener_step_inv:
  assumes "service_inv st" "k < length (threads st)" "listener_step E k st = Inr st'"
  shows "service_inv st'"
proof -
  obtain th where t: "threads st' = (threads st)[k := th]" "isStop (threads st ! k) \<longrightarrow> isStop th"
    "thr_pc (threads st ! k) = Created \<longrightarrow> thr_pc th = Created"
    using listener_step_threads(1) [OF assms(2,3)] by blast
  note f = listener_step_threads(2-5) [OF assms(2,3)] and u = stops_update [OF assms(2) t(2)]
  have e: "threads st \<noteq> []" using assms(2) by auto
  have l: "thr_pc (last (threads st)) = Created \<Longrightarrow> thr_pc (last ((threads st)[k := th])) = Created"
    using t(3) assms(2) e by (simp add: last_list_update) (simp add: last_conv_nth)
  have "listeners_ok st'" using assms(1) f t(1) u(1) e by (auto simp: service_inv_def listeners_ok_def)
  moreover have "open_ok st pc \<Longrightarrow> open_ok st' pc" for pc
    using f t(1) u(2) l e by (auto simp: open_ok_def split: call_pc.splits start_pc.splits)
  ultimately show ?thesis using assms(1) f(4) by (simp add: service_inv_def)
qed

text \<open>One step of an opening keeps what holds of the listeners, and leads to its next step.\<close>

lemma startListner_ok:
  assumes "listeners_ok st" "open_ok st (InStart obj fd p)" "startListner obj fd p st = (pc, st')"
  shows "listeners_ok st' \<and> open_ok st' pc \<and> calls st' = calls st"
proof -
  have o: "obj = 0" "mEvents st = Some 0" "mThread st = [if threads st = [] then None else Some (length (threads st) - 1)]"
    using assms(1,2) by (auto simp: open_ok_def listeners_ok_def)
  show ?thesis
  proof (cases p)
    case TestThread
    then show ?thesis using assms o by (auto simp: startListner_def open_ok_def listeners_ok_def)
  next
    case StopThread
    let ?n = "length (threads st) - 1"
    have t: "threads st \<noteq> []" using assms(2) StopThread by (simp add: open_ok_def)
    then have "(threads st)[?n := (threads st ! ?n)\<lparr>isStop := True\<rparr>] = butlast (threads st) @ [(last (threads st))\<lparr>isStop := True\<rparr>]"
      by (cases "threads st" rule: rev_cases) simp_all
    then show ?thesis using assms o t StopThread by (auto simp: startListner_def open_ok_def listeners_ok_def)
  next
    case NewThread
    then show ?thesis using assms o by (auto simp: startListner_def open_ok_def listeners_ok_def)
  next
    case StartThread
    let ?n = "length (threads st) - 1"
    have t: "threads st \<noteq> []" "thr_pc (threads st ! ?n) = Created"
      using assms(2) StartThread by (auto simp: open_ok_def last_conv_nth)
    then have "butlast ((threads st)[?n := th]) = butlast (threads st)" for th
      by (cases "threads st" rule: rev_cases) simp_all
    then show ?thesis using assms o t StartThread by (auto simp: startListner_def open_ok_def listeners_ok_def)
  qed
qed

lemma call_pc_step_ok:
  assumes "listeners_ok st" "open_ok st c"
    and "(if c \<in> {CloseOff, CloseState} then closedev_step else opendev_step) E c st = (pc, st')"
  shows "listeners_ok st' \<and> open_ok st' pc \<and> calls st' = calls st \<and> (in_open pc \<longrightarrow> in_open c)"
proof (cases c)
  case (InStart obj fd p)
  then have "startListner obj fd p st = (pc, st')" using assms(3) by (simp add: opendev_step_def)
  then show ?thesis using startListner_ok [of st obj fd p pc st'] assms InStart by (simp add: in_open_def)
qed (use assms in \<open>auto simp: opendev_step_def closedev_step_def open_ok_def listeners_ok_def in_open_def split: if_splits prod.splits option.splits\<close>)

lemma call_step_inv:
  assumes "service_inv st" "i < length (calls st)"
  shows "service_inv (call_step E i st)"
proof -
  let ?c = "calls st ! i"
  obtain pc st' where s: "(if ?c \<in> {CloseOff, CloseState} then closedev_step else opendev_step) E ?c st = (pc, st')" by fastforce
  have inv: "listeners_ok st" "\<forall>pc\<in>set (calls st). open_ok st pc"
    "\<forall>i j. i < length (calls st) \<and> j < length (calls st) \<and> in_open (calls st ! i) \<and> in_open (calls st ! j) \<longrightarrow> i = j"
    using assms(1) by (simp_all add: service_inv_def)
  have "open_ok st ?c" using inv(2) assms(2) by simp
  from call_pc_step_ok [OF inv(1) this s] have r: "listeners_ok st'" "open_ok st' pc" "calls st' = calls st" "in_open pc \<longrightarrow> in_open ?c" by simp_all
  have e: "call_step E i st = st'\<lparr>calls := (calls st)[i := pc]\<rparr>" using s r(3) by (simp add: call_step_def)
  have u: "open_ok (st'\<lparr>calls := cs\<rparr>) c = open_ok st' c" "listeners_ok (st'\<lparr>calls := cs\<rparr>) = listeners_ok st'" for cs c
    by (simp_all add: open_ok_def listeners_ok_def cong: call_pc.case_cong start_pc.case_cong)
  have "open_ok st' c" if "c \<in> set ((calls st)[i := pc])" for c
  proof -
    obtain j where j: "j < length (calls st)" "c = (calls st)[i := pc] ! j" using \<open>c \<in> _\<close> by (metis in_set_conv_nth length_list_update)
    show ?thesis
    proof (cases "j = i")
      case False
      then have "c = calls st ! j" "open_ok st c" using j inv(2) by simp_all
      moreover have "calls st ! j \<noteq> Thrown" using calculation by (auto simp: open_ok_def)
      moreover have "in_open ?c \<Longrightarrow> \<not> in_open (calls st ! j)" using inv(3) j(1) assms(2) False by blast
      moreover have "\<not> in_open ?c \<Longrightarrow> open_ok st' c"
        using \<open>open_ok st c\<close> s by (cases "?c") (auto simp: in_open_def closedev_step_def opendev_step_def open_ok_def split: call_pc.splits start_pc.splits)
      ultimately show ?thesis using not_open_ok by blast
    qed (use j r(2) assms(2) in simp)
  qed
  moreover have "a = b" if "a < length (calls st)" "b < length (calls st)" "in_open ((calls st)[i := pc] ! a)" "in_open ((calls st)[i := pc] ! b)" for a b
    using that inv(3) r(4) assms(2) by (metis nth_list_update_eq nth_list_update_neq)
  ultimately show ?thesis unfolding e service_inv_def using r(1) u by simp
qed

lemma new_call_inv:
  assumes "service_inv st" "\<not> in_open pc \<or> (\<forall>c\<in>set (calls st). \<not> in_open c)" "pc = OpenAcquire \<or> pc = CloseOff"
  shows "service_inv (st\<lparr>calls := calls st @ [pc]\<rparr>)"
proof -
  have u: "open_ok (st\<lparr>calls := cs\<rparr>) c = open_ok st c" "listeners_ok (st\<lparr>calls := cs\<rparr>) = listeners_ok st" for cs c
    by (simp_all add: open_ok_def listeners_ok_def cong: call_pc.case_cong start_pc.case_cong)
  have "open_ok st pc" using assms(3) by (auto simp: open_ok_def)
  then show ?thesis using assms(1,2) by (auto simp: service_inv_def u nth_append less_Suc_eq)
qed

lemma world_inv:
  "service_inv (st\<lparr>svc_world := w\<rparr>) = service_inv st" "service_inv (st\<lparr>scans := xs\<rparr>) = service_inv st"
  "service_inv (st\<lparr>mStationCnt := n\<rparr>) = service_inv st" "service_inv (st\<lparr>mSrchComplete := b\<rparr>) = service_inv st"
  by (simp_all add: service_inv_def open_ok_def listeners_ok_def cong: call_pc.case_cong start_pc.case_cong)

lemma fm_reachable_inv:
  "fm_reachable E False st \<Longrightarrow> service_inv st"
proof (induction rule: fm_reachable.induct)
  case (started w)
  then show ?case by (simp add: service_inv_def listeners_ok_def service_start_def)
next
  case (served st c)
  have "service_inv (fm_serve E OpenDevice st)" if "c = OpenDevice"
    using new_call_inv [OF served.IH, of OpenAcquire] served.hyps(2) that by (simp add: fm_serve_def opendev_def)
  moreover have "service_inv (fm_serve E CloseDevice st)"
    using new_call_inv [OF served.IH, of CloseOff] by (simp add: fm_serve_def closedev_def in_open_def)
  ultimately show ?case using served.IH
    by (cases c) (auto simp: fm_serve_def powerup_def tune_def stopscan_def autoscan_def world_inv Let_def split: prod.split)
next
  case (stepped st st')
  from stepped.hyps(2) show ?case
  proof cases
    case (listens k)
    then show ?thesis using stepped.IH listener_step_inv by blast
  next
    case (scans j)
    then show ?thesis using stepped.IH by (auto simp: autoscan_step_def scan_to_def world_inv Let_def split: scan_pc.split)
  qed
next
  case (called st i)
  then show ?case by (blast intro: call_step_inv)
qed

text \<open>
  C20. Openings that do not overlap leave one listener. If every call of \<open>opendev\<close> comes after the one before has
  returned, then in every state that any sequence of calls and any interleaving of their steps with those of the listeners
  and scans leads to, a listener thread that was not told to stop is the one that the only listener object knows,
  so no two of them treat the events; no call fails by starting a thread twice or by a missing listener object; and
  the array of stations has its hundred entries.
\<close>

theorem fm_service_states:
  assumes "fm_reachable E False st"
  shows "(\<forall>k < length (threads st). isStop (threads st ! k) \<or> mEvents st = Some 0 \<and> mThread st = [Some k]) \<and>
    Thrown \<notin> set (calls st) \<and> length (mStations st) = 100"
proof -
  have i: "listeners_ok st" "\<forall>pc\<in>set (calls st). open_ok st pc" using fm_reachable_inv [OF assms] by (simp_all add: service_inv_def)
  have s: "isStop (threads st ! k) \<or> k = length (threads st) - 1" if "k < length (threads st)" for k
  proof (cases "k < length (threads st) - 1")
    case True
    then have "threads st ! k \<in> set (butlast (threads st))" by (metis length_butlast nth_butlast nth_mem)
    then show ?thesis using i(1) by (simp add: listeners_ok_def)
  qed (use that in auto)
  have "isStop (threads st ! k) \<or> mEvents st = Some 0 \<and> mThread st = [Some k]" if "k < length (threads st)" for k
    using s [OF that] i(1) that by (auto simp: listeners_ok_def)
  moreover have "Thrown \<notin> set (calls st)" using i(2) by (auto simp: open_ok_def)
  ultimately show ?thesis using i(1) by (simp add: listeners_ok_def)
qed

lemma call_step_calls: "length (calls (call_step E i st)) = length (calls st)"
proof -
  have "calls (snd (opendev_step E pc st)) = calls st" "calls (snd (closedev_step E pc st)) = calls st" for pc
    by (simp_all add: opendev_step_def closedev_step_def startListner_def Let_def split: call_pc.split start_pc.split option.split prod.split)
  then show ?thesis by (simp add: call_step_def split_def Let_def)
qed

lemma fm_reachable_calls:
  assumes "fm_reachable E overlap st" "\<forall>i\<in>set is. i < length (calls st)"
  shows "fm_reachable E overlap (fold (call_step E) is st)"
  using assms
proof (induction "is" arbitrary: st)
  case (Cons i "is")
  then show ?case using fm_reachable.called [of E overlap st i] by (simp add: call_step_calls)
qed simp

lemmas call_defs = call_step_def opendev_step_def startListner_def opendev_def service_start_def Let_def

text \<open>
  Two openings that overlap: both find that there is no listener object, so each creates one of its own, and in the end
  two threads listen that nothing will stop.
\<close>

lemma overlapping_opens:
  assumes "\<And>w :: fm_world. \<exists>w'. acquireFdNative E w (Some V4L2_DEVICE) = (fd, w')" "0 <s fd"
  shows "\<exists>st. fm_reachable E True st \<and> mEvents st = Some 1 \<and>
    threads st = [\<lparr>thr_fd = fd, isStop = False, thr_pc = LoopHead\<rparr>, \<lparr>thr_fd = fd, isStop = False, thr_pc = LoopHead\<rparr>]"
proof -
  fix w :: fm_world
  let ?st = "opendev (opendev (service_start w))" and ?is = "[0, 0, 1, 1, 0, 1, 0, 0, 0, 0, 0, 0, 1, 1, 1, 1, 1, 1] :: nat list"
  obtain w1 where a: "acquireFdNative E w (Some V4L2_DEVICE) = (fd, w1)" using assms(1) by blast
  obtain w2 where b: "acquireFdNative E w1 (Some V4L2_DEVICE) = (fd, w2)" using assms(1) by blast
  have p: "\<not> fd \<le>s 0" using assms(2) by (simp add: word_sless_alt word_sle_eq)
  have "fm_reachable E True ?st"
    using fm_reachable.served [of E True "service_start w" OpenDevice] fm_reachable.served [of E True "opendev (service_start w)" OpenDevice]
      fm_reachable.started [of E True w] by (simp add: fm_serve_def)
  then have "fm_reachable E True (fold (call_step E) ?is ?st)" by (rule fm_reachable_calls) (simp add: opendev_def)
  then show ?thesis
    by (intro exI [of _ "fold (call_step E) ?is ?st"]) (simp add: call_defs a b p)
qed

lemma example_opens: "\<exists>w'. acquireFdNative example_svc_env (w :: fm_world) (Some V4L2_DEVICE) = (5, w')"
proof -
  have "wait_init 45 example_svc_env w = (True, w)" for w :: fm_world
    using wait_init.simps(2) [of 44 example_svc_env w] by (simp add: example_svc_env_def)
  moreover have "fm_open example_svc_env V4L2_DEVICE = 5" "rret (fm_driver example_svc_env h 5 QueryCap) = 0" for h
    by (simp_all add: example_svc_env_def)
  ultimately show ?thesis by (simp add: acquireFdNative_def fm_ioctl_def Let_def word_sless_alt split: prod.split)
qed

theorem fm_service_states_witness:
  "\<exists>st. fm_reachable example_svc_env False st \<and> threads st = [\<lparr>thr_fd = 5, isStop = False, thr_pc = LoopHead\<rparr>] \<and>
     mThread st = [Some 0] \<and> Thrown \<notin> set (calls st)"
proof -
  let ?E = example_svc_env and ?is = "[0, 0, 0, 0, 0, 0, 0, 0, 0] :: nat list"
  let ?st = "fold (call_step ?E) ?is (opendev (service_start example_fm_world))"
  obtain w' where a: "acquireFdNative ?E example_fm_world (Some V4L2_DEVICE) = (5, w')" using example_opens by blast
  have "fm_reachable ?E False (opendev (service_start example_fm_world))"
    using fm_reachable.served [of ?E False "service_start example_fm_world" OpenDevice] fm_reachable.started [of ?E False example_fm_world]
    by (simp add: fm_serve_def service_start_def)
  then have r: "fm_reachable ?E False ?st" by (rule fm_reachable_calls) (simp add: opendev_def)
  have "threads ?st = [\<lparr>thr_fd = 5, isStop = False, thr_pc = LoopHead\<rparr>]" by (simp add: call_defs a word_sle_eq)
  then show ?thesis using fm_service_states [OF r] r by (intro exI [of _ ?st]) simp
qed

section \<open>Frequencies as floating point numbers\<close>

lemma float_int_nat:
  assumes "k < 2 ^ 31"
  shows "float_int (JFin (of_nat k)) = of_nat k"
proof -
  have "int k \<le> 2 ^ 31 - 1" using assms by simp
  then have "max (- (2 ^ 31)) (min (2 ^ 31 - 1) (int k)) = int k" by simp
  then show ?thesis by (simp add: float_int_def Let_def)
qed

text \<open>
  C21. A frequency reaches the driver exactly: for every frequency of the band in kHz, the \<open>float\<close> in MHz that is
  nearest to it, multiplied by thousand and truncated, is that frequency again, so the driver is asked to set
  it in its unit of 1/16 kHz and nothing else, and the call reports whether the driver accepted it.
\<close>

theorem tune_exact:
  assumes "87500 \<le> khz" "khz \<le> 108000" "0 \<le>s svc_fd st"
  shows "\<exists>st'. tune E (round_float (of_nat khz / 1000)) st =
      (0 \<le> rret (fm_driver E (fm_log (svc_world st)) (svc_fd st) (SFrequency (of_nat (16 * khz)))), st') \<and>
    fm_log (svc_world st') = fm_log (svc_world st) @ [Ioctl (svc_fd st) (SFrequency (of_nat (16 * khz)))]"
proof -
  have "times_1000 (round_float (of_nat khz / 1000)) = JFin (of_nat khz)"
    using thousandths_exact [of khz] assms(1,2) by auto
  then have f: "float_int (times_1000 (round_float (of_nat khz / 1000))) = of_nat khz"
    using float_int_nat [of khz] assms(2) by simp
  have s: "0 <s (of_nat khz :: s32)"
    using assms(1,2) by (simp add: word_sless_alt signed_of_nat signed_take_bit_int_eq_self)
  have m: "(of_nat khz :: u32) * TUNE_MULT = 16 * of_nat khz" by (simp add: TUNE_MULT_def)
  show ?thesis
    unfolding tune_def f setFreqNative_def set_freq_def
    using assms(3) s by (auto simp: m jni_status_def fm_ioctl_def logged_def fm_result_def FM_JNI_SUCCESS_def FM_JNI_FAILURE_def
        IOCTL_SUCC_def FM_SUCCESS_def FM_FAILURE_def Let_def)
qed

theorem tune_exact_witness:
  "\<exists>st'. tune example_svc_env (round_float (of_nat 101700 / 1000)) (service_start example_fm_world) = (True, st') \<and>
    fm_log (svc_world st') = [Ioctl 0 (SFrequency 1627200)]"
  using tune_exact [of 101700 "service_start example_fm_world" example_svc_env]
  by (auto simp: service_start_def example_svc_env_def example_fm_world_def word_sle_eq)

end
