(* ===== verification/Cpu_Freq.thy ===== *)
theory Cpu_Freq
  imports Fleety_Kernel
begin

text \<open>
  The frequency tables of the CPU frequency driver (\<open>src/kernel/drivers/cpufreq/freq_table.c\<close>) and the driver
  itself (\<open>qcom-cpufreq.c\<close>). The theorems show that the selected table entry is the best one within the limits
  of the policy, that the tables read from the device tree are strictly increasing, that the driver sets the clocks
  only to rates of table frequencies and refuses requests while it is suspended, and what bringing
  CPUs up and down does to the counts of the clocks.
\<close>

section \<open>Tables and policies\<close>

record freq_entry =
  driver_data :: u32
  frequency :: u32

type_synonym freq_table = "freq_entry list"

record cpufreq_policy =
  pcpu :: nat
  pcpus :: "nat set"
  pmin :: u32
  pmax :: u32
  pcur :: u32
  min_freq :: u32
  max_freq :: u32

text \<open>
  What the two files call on is not part of the sources: the marks of a table and the relations (constants of
  the kernel headers), the functions that force a policy into limits, the clock framework, the device tree, the
  allocations of the device and the CPU frequency core. Results may depend on what has happened so far, which
  is a list of events. A clock is a number, \<open>None\<close> is the NULL clock.
\<close>

datatype cpu_event =
    PreChange nat u32 u32 | PostChange nat u32 u32 | SetRate "nat option" u32
  | Prepare "nat option" bool | Unprepare "nat option" | Enable "nat option" bool | Disable "nat option"
  | UpdatePolicy nat | DevmFree | UnregisterHotcpu | RegisterPm

record cpu_env =
  CPUFREQ_ENTRY_INVALID :: u32
  CPUFREQ_TABLE_END :: u32
  CPUFREQ_RELATION_H :: u32
  CPUFREQ_RELATION_L :: u32
  verify_within_limits :: "cpufreq_policy \<Rightarrow> u32 \<Rightarrow> u32 \<Rightarrow> cpufreq_policy"
  verify_within_cpu_limits :: "cpufreq_policy \<Rightarrow> cpufreq_policy"
  clk_round_rate :: "nat option \<Rightarrow> u32 \<Rightarrow> u32"
  is_err_value :: "u32 \<Rightarrow> bool"
  clk_set_rate :: "cpu_event list \<Rightarrow> nat option \<Rightarrow> u32 \<Rightarrow> int"
  clk_get_rate :: "cpu_event list \<Rightarrow> nat option \<Rightarrow> u32"
  clk_prepare :: "cpu_event list \<Rightarrow> nat option \<Rightarrow> int"
  clk_enable :: "cpu_event list \<Rightarrow> nat option \<Rightarrow> int"
  clk_get :: "string \<Rightarrow> int + nat"
  of_property :: "string \<Rightarrow> u32 list option"
  of_read_res :: "string \<Rightarrow> int"
  devm_kzalloc :: "nat \<Rightarrow> bool"
  possible_cpus :: nat
  cpu_online :: "nat \<Rightarrow> bool"
  cpufreq_get_policy :: "cpu_event list \<Rightarrow> nat \<Rightarrow> cpufreq_policy option"
  cpufreq_register_driver :: int

text \<open>
  The tables are numbered by the allocation that made them, so that pointers to them can be compared and
  freed. \<open>show_table\<close> is the per-CPU pointer of \<open>freq_table.c\<close>, \<open>freq_tbl\<close> the one of \<open>qcom-cpufreq.c\<close>.
\<close>

record cpu_state =
  cpu_clk :: "nat \<Rightarrow> nat option"
  l2_clk :: "nat option"
  freq_tbl :: "nat \<Rightarrow> nat option"
  show_table :: "nat \<Rightarrow> nat option"
  tables :: "nat \<Rightarrow> freq_table"
  allocs :: nat
  hotplug_ready :: bool
  device_suspended :: "nat \<Rightarrow> bool"
  cpu_log :: "cpu_event list"

definition tell :: "cpu_event list \<Rightarrow> cpu_state \<Rightarrow> cpu_state" where
  "tell evs s = s\<lparr>cpu_log := cpu_log s @ evs\<rparr>"

lemma tell_frame [simp]:
  "cpu_clk (tell evs s) = cpu_clk s" "l2_clk (tell evs s) = l2_clk s" "freq_tbl (tell evs s) = freq_tbl s"
  "show_table (tell evs s) = show_table s" "tables (tell evs s) = tables s" "allocs (tell evs s) = allocs s"
  "hotplug_ready (tell evs s) = hotplug_ready s" "device_suspended (tell evs s) = device_suspended s"
  "cpu_log (tell evs s) = cpu_log s @ evs"
  by (simp_all add: tell_def)

section \<open>Frequency table helpers\<close>

fun cpuinfo_loop :: "'e cpu_env_scheme \<Rightarrow> freq_table \<Rightarrow> u32 \<Rightarrow> u32 \<Rightarrow> (u32 \<times> u32) res" where
  "cpuinfo_loop E [] lo hi = Inl (Fault OutOfBounds)"
| "cpuinfo_loop E (e # es) lo hi =
     (if frequency e = CPUFREQ_TABLE_END E then Inr (lo, hi)
      else if frequency e = CPUFREQ_ENTRY_INVALID E then cpuinfo_loop E es lo hi
      else cpuinfo_loop E es (if frequency e < lo then frequency e else lo) (if hi < frequency e then frequency e else hi))"

definition cpufreq_frequency_table_cpuinfo :: "'e cpu_env_scheme \<Rightarrow> cpufreq_policy \<Rightarrow> freq_table option \<Rightarrow> (int \<times> cpufreq_policy) res" where
  "cpufreq_frequency_table_cpuinfo E policy table =
     bnd (deref table) (\<lambda>t.
     bnd (cpuinfo_loop E t (- 1) 0) (\<lambda>(lo, hi).
     let policy = policy\<lparr>pmin := lo, min_freq := lo, pmax := hi, max_freq := hi\<rparr>
     in Inr (if pmin policy = - 1 then - EINVAL else 0, policy)))"

text \<open>The first component says whether a frequency within the limits was found.\<close>

fun verify_loop :: "'e cpu_env_scheme \<Rightarrow> cpufreq_policy \<Rightarrow> freq_table \<Rightarrow> u32 \<Rightarrow> (bool \<times> u32) res" where
  "verify_loop E policy [] next_larger = Inl (Fault OutOfBounds)"
| "verify_loop E policy (e # es) next_larger =
     (let freq = frequency e in
      if freq = CPUFREQ_TABLE_END E then Inr (False, next_larger)
      else if freq = CPUFREQ_ENTRY_INVALID E then verify_loop E policy es next_larger
      else if pmin policy \<le> freq \<and> freq \<le> pmax policy then Inr (True, next_larger)
      else verify_loop E policy es (if freq < next_larger \<and> pmax policy < freq then freq else next_larger))"

definition cpufreq_frequency_table_verify :: "'e cpu_env_scheme \<Rightarrow> cpufreq_policy \<Rightarrow> freq_table option \<Rightarrow> (int \<times> cpufreq_policy) res" where
  "cpufreq_frequency_table_verify E policy table =
     (let policy = verify_within_cpu_limits E policy in
      bnd (deref table) (\<lambda>t.
      bnd (verify_loop E policy t (- 1)) (\<lambda>(found, next_larger).
      Inr (0, if found then policy else verify_within_cpu_limits E (policy\<lparr>pmax := next_larger\<rparr>)))))"

definition cpufreq_frequency_get_table :: "cpu_state \<Rightarrow> nat \<Rightarrow> freq_table option" where
  "cpufreq_frequency_get_table s cpu = map_option (tables s) (show_table s cpu)"

definition cpufreq_generic_frequency_table_verify :: "'e cpu_env_scheme \<Rightarrow> cpufreq_policy \<Rightarrow> cpu_state \<Rightarrow> (int \<times> cpufreq_policy) res" where
  "cpufreq_generic_frequency_table_verify E policy s =
     (let table = cpufreq_frequency_get_table s (pcpu policy) in
      if table = None then Inr (- ENODEV, policy) else cpufreq_frequency_table_verify E policy table)"

text \<open>A candidate is the index of its entry and its frequency.\<close>

type_synonym candidate = "u32 \<times> u32"

definition better_choice :: "'e cpu_env_scheme \<Rightarrow> u32 \<Rightarrow> u32 \<Rightarrow> u32 \<Rightarrow> u32 \<Rightarrow> candidate \<times> candidate \<Rightarrow> candidate \<times> candidate" where
  "better_choice E target_freq relation i freq = (\<lambda>(optimal, suboptimal).
     if relation = CPUFREQ_RELATION_H E then
       (if freq \<le> target_freq then (if snd optimal \<le> freq then (i, freq) else optimal, suboptimal)
        else (optimal, if freq \<le> snd suboptimal then (i, freq) else suboptimal))
     else if relation = CPUFREQ_RELATION_L E then
       (if target_freq \<le> freq then (if freq \<le> snd optimal then (i, freq) else optimal, suboptimal)
        else (optimal, if snd suboptimal \<le> freq then (i, freq) else suboptimal))
     else (optimal, suboptimal))"

fun target_loop :: "'e cpu_env_scheme \<Rightarrow> cpufreq_policy \<Rightarrow> u32 \<Rightarrow> u32 \<Rightarrow> u32 \<Rightarrow> candidate \<times> candidate \<Rightarrow> freq_table \<Rightarrow>
    (u32 \<times> candidate \<times> candidate) res" where
  "target_loop E policy target_freq relation i c [] = Inl (Fault OutOfBounds)"
| "target_loop E policy target_freq relation i c (e # es) =
     (let freq = frequency e in
      if freq = CPUFREQ_TABLE_END E then Inr (i, c)
      else if freq = CPUFREQ_ENTRY_INVALID E \<or> freq < pmin policy \<or> pmax policy < freq
      then target_loop E policy target_freq relation (i + 1) c es
      else target_loop E policy target_freq relation (i + 1) (better_choice E target_freq relation i freq c) es)"

definition cpufreq_frequency_table_target :: "'e cpu_env_scheme \<Rightarrow> cpufreq_policy \<Rightarrow> freq_table option \<Rightarrow> u32 \<Rightarrow> u32 \<Rightarrow>
    (int \<times> u32 option) res" where
  "cpufreq_frequency_table_target E policy table target_freq relation =
     (let optimal = (- 1, if relation = CPUFREQ_RELATION_H E then 0 else if relation = CPUFREQ_RELATION_L E then - 1 else 0);
          suboptimal = (- 1, if relation = CPUFREQ_RELATION_H E then - 1 else 0) in
      bnd (deref table) (\<lambda>t.
      bnd (target_loop E policy target_freq relation 0 (optimal, suboptimal) t) (\<lambda>(i, optimal, suboptimal).
      if i < fst optimal then
        (if i < fst suboptimal then Inr (- EINVAL, None) else Inr (0, Some (fst suboptimal)))
      else Inr (0, Some (fst optimal)))))"

fun freqs_text :: "'e cpu_env_scheme \<Rightarrow> freq_table \<Rightarrow> string res" where
  "freqs_text E [] = Inl (Fault OutOfBounds)"
| "freqs_text E (e # es) =
     (if frequency e = CPUFREQ_TABLE_END E then Inr ''''
      else if frequency e = CPUFREQ_ENTRY_INVALID E then freqs_text E es
      else bnd (freqs_text E es) (\<lambda>s. Inr (print_int (sint (frequency e)) @ '' '' @ s)))"

definition show_available_freqs :: "'e cpu_env_scheme \<Rightarrow> cpufreq_policy \<Rightarrow> cpu_state \<Rightarrow> (int + string) res" where
  "show_available_freqs E policy s =
     (case cpufreq_frequency_get_table s (pcpu policy) of
        None \<Rightarrow> Inr (Inl (- ENODEV))
      | Some t \<Rightarrow> bnd (freqs_text E t) (\<lambda>txt. Inr (Inr (txt @ [CHR 0x0A]))))"

definition cpufreq_frequency_table_get_attr :: "nat option \<Rightarrow> nat \<Rightarrow> cpu_state \<Rightarrow> cpu_state" where
  "cpufreq_frequency_table_get_attr table cpu s = s\<lparr>show_table := (show_table s)(cpu := table)\<rparr>"

definition cpufreq_frequency_table_put_attr :: "nat \<Rightarrow> cpu_state \<Rightarrow> cpu_state" where
  "cpufreq_frequency_table_put_attr cpu s = s\<lparr>show_table := (show_table s)(cpu := None)\<rparr>"

definition cpufreq_table_validate_and_show :: "'e cpu_env_scheme \<Rightarrow> cpufreq_policy \<Rightarrow> nat option \<Rightarrow> cpu_state \<Rightarrow>
    (int \<times> cpufreq_policy \<times> cpu_state) res" where
  "cpufreq_table_validate_and_show E policy table s =
     bnd (cpufreq_frequency_table_cpuinfo E policy (map_option (tables s) table)) (\<lambda>(r, policy).
     Inr (r, policy, if r = 0 then cpufreq_frequency_table_get_attr table (pcpu policy) s else s))"

definition cpufreq_frequency_table_update_policy_cpu :: "nat \<Rightarrow> nat \<Rightarrow> cpu_state \<Rightarrow> cpu_state" where
  "cpufreq_frequency_table_update_policy_cpu cpu last_cpu s =
     s\<lparr>show_table := (show_table s)(cpu := show_table s last_cpu, last_cpu := None)\<rparr>"

section \<open>The driver\<close>

text \<open>The product is one of \<open>unsigned int\<close> and wraps. A failed change has no event that ends it.\<close>

definition set_cpu_freq :: "'e cpu_env_scheme \<Rightarrow> cpufreq_policy \<Rightarrow> u32 \<Rightarrow> cpu_state \<Rightarrow> int \<times> cpu_state" where
  "set_cpu_freq E policy new_freq s =
     (let clk = cpu_clk s (pcpu policy);
          s = tell [PreChange (pcpu policy) (pcur policy) new_freq] s;
          rate = clk_round_rate E clk (new_freq * 1000);
          r = clk_set_rate E (cpu_log s) clk rate;
          s = tell [SetRate clk rate] s
      in (r, if r = 0 then tell [PostChange (pcpu policy) (pcur policy) new_freq] s else s))"

definition entry_at :: "freq_table option \<Rightarrow> u32 \<Rightarrow> freq_entry res" where
  "entry_at table index =
     bnd (deref table) (\<lambda>t. if unat index < length t then Inr (t ! unat index) else Inl (Fault OutOfBounds))"

definition msm_cpufreq_target :: "'e cpu_env_scheme \<Rightarrow> cpufreq_policy \<Rightarrow> u32 \<Rightarrow> u32 \<Rightarrow> cpu_state \<Rightarrow> (int \<times> cpu_state) res" where
  "msm_cpufreq_target E policy target_freq relation s =
     (if device_suspended s (pcpu policy) then Inr (- EFAULT, s)
      else
        let table = cpufreq_frequency_get_table s (pcpu policy) in
        bnd (cpufreq_frequency_table_target E policy table target_freq relation) (\<lambda>(r, index).
        case index of
          None \<Rightarrow> Inr (- EINVAL, s)
        | Some i \<Rightarrow> bnd (entry_at table i) (\<lambda>e. Inr (set_cpu_freq E policy (frequency e) s))))"

definition msm_cpufreq_verify :: "'e cpu_env_scheme \<Rightarrow> cpufreq_policy \<Rightarrow> int \<times> cpufreq_policy" where
  "msm_cpufreq_verify E policy = (0, verify_within_limits E policy (min_freq policy) (max_freq policy))"

definition msm_cpufreq_get_freq :: "'e cpu_env_scheme \<Rightarrow> nat \<Rightarrow> cpu_state \<Rightarrow> u32" where
  "msm_cpufreq_get_freq E cpu s = clk_get_rate E (cpu_log s) (cpu_clk s cpu) div 1000"

text \<open>
  \<open>index\<close> is written by the call that succeeds. A failure of \<open>cpufreq_frequency_table_cpuinfo\<close> is only printed.
\<close>

definition msm_cpufreq_init :: "'e cpu_env_scheme \<Rightarrow> cpufreq_policy \<Rightarrow> cpu_state \<Rightarrow> (int \<times> cpufreq_policy \<times> cpu_state) res" where
  "msm_cpufreq_init E policy s =
     (let table = map_option (tables s) (freq_tbl s (pcpu policy));
          clk = cpu_clk s (pcpu policy);
          policy = policy\<lparr>pcpus := pcpus policy \<union> set (filter (\<lambda>cpu. cpu_clk s cpu = clk) [0..<possible_cpus E])\<rparr> in
      bnd (cpufreq_frequency_table_cpuinfo E policy table) (\<lambda>(_, policy).
      let cur_freq = clk_get_rate E (cpu_log s) clk div 1000 in
      bnd (bnd (cpufreq_frequency_table_target E policy table cur_freq (CPUFREQ_RELATION_H E)) (\<lambda>(r, index).
           if r = 0 then Inr index
           else bnd (cpufreq_frequency_table_target E policy table cur_freq (CPUFREQ_RELATION_L E)) (\<lambda>(r, index). Inr index))) (\<lambda>index.
      case index of
        None \<Rightarrow> Inr (- EINVAL, policy, s)
      | Some i \<Rightarrow>
          bnd (entry_at table i) (\<lambda>e.
          let (r, s) = set_cpu_freq E policy (frequency e) s in
          if r \<noteq> 0 then Inr (r, policy, s)
          else
            Inr (0, policy\<lparr>pcur := frequency e\<rparr>,
              cpufreq_frequency_table_get_attr (freq_tbl s (pcpu policy)) (pcpu policy) s)))))"

section \<open>Bringing CPUs up and down\<close>

datatype hotplug_action = CPU_DYING | CPU_DEAD | CPU_UP_CANCELED | CPU_UP_PREPARE | CPU_STARTING | CPU_OTHER

datatype notify = NOTIFY_OK | NOTIFY_BAD | NOTIFY_DONE

definition prepare :: "'e cpu_env_scheme \<Rightarrow> nat option \<Rightarrow> cpu_state \<Rightarrow> int \<times> cpu_state" where
  "prepare E clk s = (let rc = clk_prepare E (cpu_log s) clk in (rc, tell [Prepare clk (rc \<ge> 0)] s))"

definition enable :: "'e cpu_env_scheme \<Rightarrow> nat option \<Rightarrow> cpu_state \<Rightarrow> int \<times> cpu_state" where
  "enable E clk s = (let rc = clk_enable E (cpu_log s) clk in (rc, tell [Enable clk (rc = 0)] s))"

definition msm_cpufreq_cpu_callback :: "'e cpu_env_scheme \<Rightarrow> hotplug_action \<Rightarrow> nat \<Rightarrow> cpu_state \<Rightarrow> notify \<times> cpu_state" where
  "msm_cpufreq_cpu_callback E action cpu s =
     (if \<not> hotplug_ready s then (NOTIFY_BAD, s)
      else
        (case action of
           CPU_DYING \<Rightarrow> (NOTIFY_OK, tell [Disable (cpu_clk s cpu), Disable (l2_clk s)] s)
         | CPU_DEAD \<Rightarrow> (NOTIFY_OK, tell [Unprepare (cpu_clk s cpu), Unprepare (l2_clk s)] s)
         | CPU_UP_CANCELED \<Rightarrow> (NOTIFY_OK, tell [Unprepare (cpu_clk s cpu), Unprepare (l2_clk s)] s)
         | CPU_UP_PREPARE \<Rightarrow>
             let (rc, s) = prepare E (l2_clk s) s in
             if rc < 0 then (NOTIFY_BAD, s)
             else
               let (rc, s) = prepare E (cpu_clk s cpu) s in
               if rc < 0 then (NOTIFY_BAD, tell [Unprepare (l2_clk s)] s) else (NOTIFY_OK, s)
         | CPU_STARTING \<Rightarrow>
             let (rc, s) = enable E (l2_clk s) s in
             if rc < 0 then (NOTIFY_BAD, s)
             else
               let (rc, s) = enable E (cpu_clk s cpu) s in
               if rc \<noteq> 0 then (NOTIFY_BAD, tell [Disable (l2_clk s)] s) else (NOTIFY_OK, s)
         | CPU_OTHER \<Rightarrow> (NOTIFY_OK, s)))"

section \<open>Suspend and resume\<close>

definition msm_cpufreq_suspend :: "'e cpu_env_scheme \<Rightarrow> cpu_state \<Rightarrow> notify \<times> cpu_state" where
  "msm_cpufreq_suspend E s =
     (NOTIFY_DONE, s\<lparr>device_suspended := (\<lambda>cpu. cpu < possible_cpus E \<or> device_suspended s cpu)\<rparr>)"

fun resume_loop :: "'e cpu_env_scheme \<Rightarrow> nat list \<Rightarrow> cpu_state \<Rightarrow> cpu_state" where
  "resume_loop E [] s = s"
| "resume_loop E (cpu # cpus) s =
     (case cpufreq_get_policy E (cpu_log s) cpu of
        None \<Rightarrow> resume_loop E cpus s
      | Some policy \<Rightarrow>
          if pcur policy \<le> pmax policy \<and> pmin policy \<le> pcur policy then resume_loop E cpus s
          else resume_loop E cpus (tell [UpdatePolicy cpu] s))"

definition msm_cpufreq_resume :: "'e cpu_env_scheme \<Rightarrow> cpu_state \<Rightarrow> notify \<times> cpu_state" where
  "msm_cpufreq_resume E s =
     (let s = s\<lparr>device_suspended := (\<lambda>cpu. \<not> cpu < possible_cpus E \<and> device_suspended s cpu)\<rparr>
      in (NOTIFY_DONE, resume_loop E (filter (cpu_online E) [0..<possible_cpus E]) s))"

datatype pm_event = PM_POST_HIBERNATION | PM_POST_SUSPEND | PM_HIBERNATION_PREPARE | PM_SUSPEND_PREPARE | PM_OTHER

definition msm_cpufreq_pm_event :: "'e cpu_env_scheme \<Rightarrow> pm_event \<Rightarrow> cpu_state \<Rightarrow> notify \<times> cpu_state" where
  "msm_cpufreq_pm_event E event s =
     (case event of
        PM_POST_HIBERNATION \<Rightarrow> msm_cpufreq_resume E s
      | PM_POST_SUSPEND \<Rightarrow> msm_cpufreq_resume E s
      | PM_HIBERNATION_PREPARE \<Rightarrow> msm_cpufreq_suspend E s
      | PM_SUSPEND_PREPARE \<Rightarrow> msm_cpufreq_suspend E s
      | PM_OTHER \<Rightarrow> (NOTIFY_DONE, s))"

section \<open>Start-up\<close>

text \<open>
  The loop over the entries of the device tree. \<open>ftbl\<close> is the part of the table that is filled; it ends at the
  first frequency that the clock cannot reach or that does not exceed the one before.
\<close>

fun parse_loop :: "'e cpu_env_scheme \<Rightarrow> nat option \<Rightarrow> freq_table \<Rightarrow> u32 list \<Rightarrow> freq_table" where
  "parse_loop E clk ftbl [] = ftbl"
| "parse_loop E clk ftbl (d # data) =
     (let f = clk_round_rate E clk (d * 1000) in
      if is_err_value E f then ftbl
      else if ftbl \<noteq> [] \<and> f div 1000 \<le> frequency (last ftbl) then ftbl
      else parse_loop E clk (ftbl @ [\<lparr>driver_data = of_nat (length ftbl), frequency = f div 1000\<rparr>]) data)"

definition cpufreq_parse_dt :: "'e cpu_env_scheme \<Rightarrow> string \<Rightarrow> nat \<Rightarrow> cpu_state \<Rightarrow> (int + nat) \<times> cpu_state" where
  "cpufreq_parse_dt E tbl_name cpu s =
     (case of_property E tbl_name of
        None \<Rightarrow> (Inl (- EINVAL), s)
      | Some data \<Rightarrow>
          if data = [] then (Inl (- EINVAL), s)
          else if \<not> devm_kzalloc E (allocs s) then (Inl (- ENOMEM), s\<lparr>allocs := allocs s + 1\<rparr>)
          else if of_read_res E tbl_name \<noteq> 0 then (Inl (of_read_res E tbl_name), s\<lparr>allocs := allocs s + 1\<rparr>)
          else if \<not> devm_kzalloc E (allocs s + 1) then (Inl (- ENOMEM), s\<lparr>allocs := allocs s + 2\<rparr>)
          else
            let ftbl = parse_loop E (cpu_clk s cpu) [] data;
                t = allocs s + 1
            in (Inr t, tell [DevmFree] (s\<lparr>tables := (tables s)(t := ftbl @ [\<lparr>driver_data = of_nat (length ftbl), frequency = CPUFREQ_TABLE_END E\<rparr>]),
                  allocs := allocs s + 2\<rparr>)))"

definition clk_name :: "nat \<Rightarrow> string" where
  "clk_name cpu = take 9 (''cpu'' @ print_int (int cpu) @ ''_clk'')"

definition tbl_name :: "nat \<Rightarrow> string" where
  "tbl_name cpu = take 21 (''qcom,cpufreq-table-'' @ print_int (int cpu))"

fun clk_loop :: "'e cpu_env_scheme \<Rightarrow> nat list \<Rightarrow> cpu_state \<Rightarrow> int option \<times> cpu_state" where
  "clk_loop E [] s = (None, s)"
| "clk_loop E (cpu # cpus) s =
     (case clk_get E (clk_name cpu) of
        Inl e \<Rightarrow> (Some e, s)
      | Inr c \<Rightarrow> clk_loop E cpus (s\<lparr>cpu_clk := (cpu_clk s)(cpu := Some c)\<rparr>))"

text \<open>
  The tables of the single CPUs. A table that is not used because the clock is shared is given to \<open>kfree\<close>, although
  it is memory of the device (\<open>devm_kzalloc\<close>), whose address \<open>kfree\<close> does not know.
\<close>

fun tables_loop :: "'e cpu_env_scheme \<Rightarrow> nat list \<Rightarrow> cpu_state \<Rightarrow> (int \<times> cpu_state) res" where
  "tables_loop E [] s = Inr (0, s)"
| "tables_loop E (cpu # cpus) s =
     (let (ftbl, s) = cpufreq_parse_dt E (tbl_name cpu) cpu s in
      if cpu = 0 then
        (case ftbl of
           Inl e \<Rightarrow> Inr (e, s)
         | Inr t \<Rightarrow> tables_loop E cpus (s\<lparr>freq_tbl := (freq_tbl s)(cpu := Some t)\<rparr>))
      else if cpu_clk s cpu \<noteq> cpu_clk s (cpu - 1) then
        (case ftbl of
           Inl e \<Rightarrow> Inr (e, s)
         | Inr t \<Rightarrow> tables_loop E cpus (s\<lparr>freq_tbl := (freq_tbl s)(cpu := Some t)\<rparr>))
      else
        (case ftbl of
           Inl e \<Rightarrow> tables_loop E cpus (s\<lparr>freq_tbl := (freq_tbl s)(cpu := freq_tbl s (cpu - 1))\<rparr>)
         | Inr t \<Rightarrow> Inl (Fault InvalidFree)))"

definition msm_cpufreq_probe :: "'e cpu_env_scheme \<Rightarrow> cpu_state \<Rightarrow> (int \<times> cpu_state) res" where
  "msm_cpufreq_probe E s =
     (let s = s\<lparr>l2_clk := (case clk_get E ''l2_clk'' of Inl e \<Rightarrow> None | Inr c \<Rightarrow> Some c)\<rparr>;
          (r, s) = clk_loop E [0..<possible_cpus E] s in
      case r of
        Some e \<Rightarrow> Inr (e, s)
      | None \<Rightarrow>
          let s = s\<lparr>hotplug_ready := True\<rparr>;
              (ftbl, s) = cpufreq_parse_dt E ''qcom,cpufreq-table'' 0 s in
          (case ftbl of
             Inr t \<Rightarrow> Inr (0, s\<lparr>freq_tbl := (\<lambda>cpu. if cpu < possible_cpus E then Some t else freq_tbl s cpu)\<rparr>)
           | Inl e \<Rightarrow> tables_loop E [0..<possible_cpus E] s))"

definition msm_cpufreq_register :: "'e cpu_env_scheme \<Rightarrow> cpu_state \<Rightarrow> (int \<times> cpu_state) res" where
  "msm_cpufreq_register E s =
     (let s = s\<lparr>device_suspended := (\<lambda>cpu. \<not> cpu < possible_cpus E \<and> device_suspended s cpu)\<rparr> in
      bnd (msm_cpufreq_probe E s) (\<lambda>(rc, s).
      if rc < 0 then Inr (rc, tell [UnregisterHotcpu] s) else Inr (cpufreq_register_driver E, tell [RegisterPm] s)))"

section \<open>The selected entry\<close>

text \<open>
  A table that ends at its \<open>n\<close>-th entry, the entries within the limits of a policy, and what it means that one
  of them is the best: for the relation \<open>L\<close> the lowest frequency at or above the target, or else the highest one
  below; for \<open>H\<close> the highest frequency at or below the target, or else the lowest one above.
\<close>

definition ends_at :: "'e cpu_env_scheme \<Rightarrow> freq_table \<Rightarrow> nat \<Rightarrow> bool" where
  "ends_at E t n \<longleftrightarrow>
     n < length t \<and> n < 2 ^ 32 - 1 \<and> frequency (t ! n) = CPUFREQ_TABLE_END E \<and> (\<forall>i < n. frequency (t ! i) \<noteq> CPUFREQ_TABLE_END E)"

definition usable :: "'e cpu_env_scheme \<Rightarrow> cpufreq_policy \<Rightarrow> freq_table \<Rightarrow> nat \<Rightarrow> nat set" where
  "usable E policy t n =
     {i. i < n \<and> frequency (t ! i) \<noteq> CPUFREQ_ENTRY_INVALID E \<and> pmin policy \<le> frequency (t ! i) \<and> frequency (t ! i) \<le> pmax policy}"

definition best_low :: "u32 \<Rightarrow> (nat \<Rightarrow> u32) \<Rightarrow> nat set \<Rightarrow> nat \<Rightarrow> bool" where
  "best_low target f A j \<longleftrightarrow>
     j \<in> A \<and>
     (if \<exists>k\<in>A. target \<le> f k then target \<le> f j \<and> (\<forall>k\<in>A. target \<le> f k \<longrightarrow> f j \<le> f k) else \<forall>k\<in>A. f k \<le> f j)"

definition best_high :: "u32 \<Rightarrow> (nat \<Rightarrow> u32) \<Rightarrow> nat set \<Rightarrow> nat \<Rightarrow> bool" where
  "best_high target f A j \<longleftrightarrow>
     j \<in> A \<and>
     (if \<exists>k\<in>A. f k \<le> target then f j \<le> target \<and> (\<forall>k\<in>A. f k \<le> target \<longrightarrow> f k \<le> f j) else \<forall>k\<in>A. f j \<le> f k)"

text \<open>A candidate is the best of the entries in \<open>A\<close> with the property \<open>P\<close>; without one it is the initial value.\<close>

definition is_best :: "(u32 \<Rightarrow> bool) \<Rightarrow> (u32 \<Rightarrow> u32 \<Rightarrow> bool) \<Rightarrow> (nat \<Rightarrow> u32) \<Rightarrow> nat set \<Rightarrow> candidate \<Rightarrow> candidate \<Rightarrow> bool" where
  "is_best P le f A init c \<longleftrightarrow>
     (if \<exists>j\<in>A. P (f j) then \<exists>j\<in>A. c = (of_nat j, f j) \<and> P (f j) \<and> (\<forall>k\<in>A. P (f k) \<longrightarrow> le (f j) (f k)) else c = init)"

definition total_order :: "(u32 \<Rightarrow> u32 \<Rightarrow> bool) \<Rightarrow> u32 \<Rightarrow> bool" where
  "total_order le hi \<longleftrightarrow> (\<forall>x. le x x \<and> le x hi) \<and> (\<forall>x y. le x y \<or> le y x) \<and> (\<forall>x y z. le x y \<longrightarrow> le y z \<longrightarrow> le x z)"

lemma total_orders: "total_order (\<le>) (- 1)" "total_order (\<lambda>x y. y \<le> x) 0"
  by (auto simp: total_order_def)

lemma is_best_skip: "is_best P le f A init c \<Longrightarrow> \<not> P (f i) \<Longrightarrow> is_best P le f (insert i A) init c"
  by (auto simp: is_best_def)

lemma is_best_insert:
  assumes b: "is_best P le f A (d, hi) c" and o: "total_order le hi" and p: "P (f i)"
  shows "is_best P le f (insert i A) (d, hi) (if le (f i) (snd c) then (of_nat i, f i) else c)"
proof (cases "\<exists>j\<in>A. P (f j)")
  case False
  then have "le (f i) (snd c)" using b o by (simp add: is_best_def total_order_def)
  then show ?thesis using False p o by (auto simp: is_best_def total_order_def)
next
  case True
  from b obtain j where j: "j \<in> A" "c = (of_nat j, f j)" "P (f j)" "\<forall>k\<in>A. P (f k) \<longrightarrow> le (f j) (f k)"
    unfolding is_best_def if_P [OF True] by blast
  show ?thesis
  proof (cases "le (f i) (f j)")
    case True
    then have "\<forall>k\<in>insert i A. P (f k) \<longrightarrow> le (f i) (f k)" using j(4) o unfolding total_order_def by blast
    then show ?thesis using True p j(2) by (auto simp: is_best_def)
  next
    case False
    then have "le (f j) (f i)" using o unfolding total_order_def by blast
    then have "\<forall>k\<in>insert i A. P (f k) \<longrightarrow> le (f j) (f k)" using j(4) by blast
    then show ?thesis using False p j by (auto simp: is_best_def)
  qed
qed

text \<open>The candidates of a pass over the entries before \<open>i\<close>.\<close>

definition chosen :: "'e cpu_env_scheme \<Rightarrow> u32 \<Rightarrow> u32 \<Rightarrow> (nat \<Rightarrow> u32) \<Rightarrow> nat set \<Rightarrow> candidate \<times> candidate \<Rightarrow> bool" where
  "chosen E target relation f A = (\<lambda>(optimal, suboptimal).
     if relation = CPUFREQ_RELATION_H E then
       is_best (\<lambda>x. x \<le> target) (\<lambda>x y. y \<le> x) f A (- 1, 0) optimal \<and>
       is_best (\<lambda>x. target < x) (\<le>) f A (- 1, - 1) suboptimal
     else
       is_best (\<lambda>x. target \<le> x) (\<le>) f A (- 1, - 1) optimal \<and>
       is_best (\<lambda>x. x < target) (\<lambda>x y. y \<le> x) f A (- 1, 0) suboptimal)"

lemma chosen_insert:
  assumes "chosen E target relation f A c" "relation = CPUFREQ_RELATION_H E \<or> relation = CPUFREQ_RELATION_L E"
  shows "chosen E target relation f (insert i A) (better_choice E target relation (of_nat i) (f i) c)"
proof -
  obtain p q where c: "c = (p, q)" by (cases c)
  note up = is_best_insert [OF _ total_orders(1)] and down = is_best_insert [OF _ total_orders(2)]
  consider "relation = CPUFREQ_RELATION_H E" "f i \<le> target" | "relation = CPUFREQ_RELATION_H E" "target < f i"
    | "relation \<noteq> CPUFREQ_RELATION_H E" "target \<le> f i" | "relation \<noteq> CPUFREQ_RELATION_H E" "f i < target"
    by fastforce
  then show ?thesis
  proof cases
    case 1
    then have b: "is_best (\<lambda>x. x \<le> target) (\<lambda>x y. y \<le> x) f A (- 1, 0) p" "is_best (\<lambda>x. target < x) (\<le>) f A (- 1, - 1) q"
      using assms(1) by (simp_all add: chosen_def c)
    show ?thesis using 1 down [OF b(1), of i] is_best_skip [OF b(2), of i] by (simp add: chosen_def better_choice_def c leD)
  next
    case 2
    then have b: "is_best (\<lambda>x. x \<le> target) (\<lambda>x y. y \<le> x) f A (- 1, 0) p" "is_best (\<lambda>x. target < x) (\<le>) f A (- 1, - 1) q"
      using assms(1) by (simp_all add: chosen_def c)
    show ?thesis using 2 not_le [of "f i" target] is_best_skip [OF b(1), of i] up [OF b(2), of i] by (simp add: chosen_def better_choice_def c leD)
  next
    case 3
    then have b: "is_best (\<lambda>x. target \<le> x) (\<le>) f A (- 1, - 1) p" "is_best (\<lambda>x. x < target) (\<lambda>x y. y \<le> x) f A (- 1, 0) q"
      using assms(1) by (simp_all add: chosen_def c)
    show ?thesis using 3 assms(2) up [OF b(1), of i] is_best_skip [OF b(2), of i] by (simp add: chosen_def better_choice_def c leD)
  next
    case 4
    then have b: "is_best (\<lambda>x. target \<le> x) (\<le>) f A (- 1, - 1) p" "is_best (\<lambda>x. x < target) (\<lambda>x y. y \<le> x) f A (- 1, 0) q"
      using assms(1) by (simp_all add: chosen_def c)
    show ?thesis using 4 not_le [of target "f i"] assms(2) is_best_skip [OF b(1), of i] down [OF b(2), of i] by (simp add: chosen_def better_choice_def c leD)
  qed
qed

lemma usable_Suc:
  "usable E policy t (Suc i) =
     (if frequency (t ! i) = CPUFREQ_ENTRY_INVALID E \<or> frequency (t ! i) < pmin policy \<or> pmax policy < frequency (t ! i)
      then usable E policy t i else insert i (usable E policy t i))"
  by (auto simp: usable_def less_Suc_eq not_le not_less)

lemma target_loop_chosen:
  assumes "ends_at E t n" "relation = CPUFREQ_RELATION_H E \<or> relation = CPUFREQ_RELATION_L E"
    and "i \<le> n" "chosen E target relation (\<lambda>j. frequency (t ! j)) (usable E policy t i) c"
  shows "\<exists>c'. target_loop E policy target relation (of_nat i) c (drop i t) = Inr (of_nat n, c') \<and>
    chosen E target relation (\<lambda>j. frequency (t ! j)) (usable E policy t n) c'"
  using assms(3,4)
proof (induction "n - i" arbitrary: i c)
  case 0
  then have "drop n t = t ! n # drop (Suc n) t" using assms(1) by (simp add: ends_at_def Cons_nth_drop_Suc)
  then show ?case using 0 assms(1) by (simp add: ends_at_def)
next
  case (Suc m)
  let ?f = "\<lambda>j. frequency (t ! j)"
  from Suc have d: "drop i t = t ! i # drop (Suc i) t" using assms(1) by (simp add: ends_at_def Cons_nth_drop_Suc)
  have e: "?f i \<noteq> CPUFREQ_TABLE_END E" using Suc assms(1) by (simp add: ends_at_def)
  show ?case
  proof (cases "?f i = CPUFREQ_ENTRY_INVALID E \<or> ?f i < pmin policy \<or> pmax policy < ?f i")
    case True
    then show ?thesis
      using Suc.hyps(1) [of "Suc i" c] Suc.hyps(2) Suc.prems e by (simp add: d usable_Suc Let_def add.commute)
  next
    case False
    then show ?thesis
      using Suc.hyps(1) [of "Suc i" "better_choice E target relation (of_nat i) (?f i) c"] Suc.hyps(2) Suc.prems e
        chosen_insert [OF Suc.prems(2) assms(2), of i]
      by (simp add: d usable_Suc Let_def add.commute)
  qed
qed

lemma below_minus_1:
  assumes "n < 2 ^ 32 - 1" shows "of_nat n < (- 1 :: u32)"
proof -
  have "unat (of_nat (n + 1) :: u32) = n + 1" by (rule unat_of_nat_small) (use assms in simp)
  then have "(of_nat n :: u32) \<noteq> - 1" by auto
  then show ?thesis by (simp add: order_less_le)
qed

lemma not_below_index:
  assumes "j < n" "n < 2 ^ 32 - 1" shows "\<not> of_nat n < (of_nat j :: u32)"
proof -
  have "unat (of_nat n :: u32) = n" by (rule unat_of_nat_small) (use assms in simp)
  moreover have "unat (of_nat j :: u32) = j" by (rule unat_of_nat_small) (use assms in simp)
  ultimately show ?thesis unfolding word_less_nat_alt using assms(1) by simp
qed

lemma is_best_found:
  assumes "is_best P le f A d c" "\<exists>j\<in>A. P (f j)"
  shows "\<exists>j\<in>A. fst c = of_nat j \<and> P (f j) \<and> (\<forall>k\<in>A. P (f k) \<longrightarrow> le (f j) (f k))"
  using assms unfolding is_best_def by auto

lemma is_best_index:
  assumes b: "is_best P le f A (- 1, x) c" and A: "A \<subseteq> {..<n}" and n: "n < 2 ^ 32 - 1"
  shows "(of_nat n < fst c) = (\<forall>j\<in>A. \<not> P (f j))"
proof (cases "\<exists>j\<in>A. P (f j)")
  case False
  then have "c = (- 1, x)" using b unfolding is_best_def by (simp only: if_False)
  then show ?thesis using below_minus_1 [OF n] False by simp
next
  case True
  then obtain j where j: "j \<in> A" "fst c = of_nat j" using is_best_found [OF b] by blast
  then have "j < n" using A by blast
  from not_below_index [OF this n] have "\<not> of_nat n < fst c" unfolding j(2) .
  then show ?thesis using True by blast
qed

lemma usable_below: "usable E policy t n \<subseteq> {..<n}"
  by (auto simp: usable_def)

definition selected :: "'e cpu_env_scheme \<Rightarrow> cpufreq_policy \<Rightarrow> freq_table \<Rightarrow> nat \<Rightarrow> u32 \<Rightarrow> u32 \<Rightarrow> nat \<Rightarrow> bool" where
  "selected E policy t n target relation j \<longleftrightarrow>
     (if relation = CPUFREQ_RELATION_H E then best_high target (\<lambda>i. frequency (t ! i)) (usable E policy t n) j
      else best_low target (\<lambda>i. frequency (t ! i)) (usable E policy t n) j)"

lemma best_of_candidates:
  assumes c: "chosen E target relation f A (p, q)" and A: "A \<subseteq> {..<n}" "A \<noteq> {}" and n: "n < 2 ^ 32 - 1"
  shows "\<exists>j\<in>A. (if of_nat n < fst p then \<not> of_nat n < fst q \<and> fst q = of_nat j else fst p = of_nat j) \<and>
    (if relation = CPUFREQ_RELATION_H E then best_high target f A j else best_low target f A j)"
proof (cases "relation = CPUFREQ_RELATION_H E")
  case True
  then have b: "is_best (\<lambda>x. x \<le> target) (\<lambda>x y. y \<le> x) f A (- 1, 0) p" "is_best (\<lambda>x. target < x) (\<le>) f A (- 1, - 1) q"
    using c by (simp_all add: chosen_def)
  note ix = is_best_index [OF b(1) A(1) n] is_best_index [OF b(2) A(1) n]
  show ?thesis
  proof (cases "\<exists>j\<in>A. f j \<le> target")
    case found: True
    show ?thesis using is_best_found [OF b(1) found] found True ix(1) unfolding best_high_def by auto
  next
    case False
    then have lt: "\<forall>k\<in>A. target < f k" by (simp add: not_le)
    then have "\<exists>k\<in>A. target < f k" using A(2) by blast
    from is_best_found [OF b(2) this] ix lt False True show ?thesis unfolding best_high_def by auto
  qed
next
  case False
  then have b: "is_best (\<lambda>x. target \<le> x) (\<le>) f A (- 1, - 1) p" "is_best (\<lambda>x. x < target) (\<lambda>x y. y \<le> x) f A (- 1, 0) q"
    using c by (simp_all add: chosen_def)
  note ix = is_best_index [OF b(1) A(1) n] is_best_index [OF b(2) A(1) n]
  show ?thesis
  proof (cases "\<exists>j\<in>A. target \<le> f j")
    case found: True
    show ?thesis using is_best_found [OF b(1) found] found False ix(1) unfolding best_low_def by auto
  next
    case none: False
    then have lt: "\<forall>k\<in>A. f k < target" by (simp add: not_le)
    then have "\<exists>k\<in>A. f k < target" using A(2) by blast
    from is_best_found [OF b(2) this] ix lt False none show ?thesis unfolding best_low_def by auto
  qed
qed

lemma chosen_none: "chosen E target relation f {} (p, q) \<Longrightarrow> fst p = - 1 \<and> fst q = - 1"
  by (cases "relation = CPUFREQ_RELATION_H E") (simp_all add: chosen_def is_best_def)

lemma table_target_result:
  "target_loop E policy target relation 0
     ((- 1, if relation = CPUFREQ_RELATION_H E then 0 else if relation = CPUFREQ_RELATION_L E then - 1 else 0),
      (- 1, if relation = CPUFREQ_RELATION_H E then - 1 else 0)) t = Inr (i, p, q) \<Longrightarrow>
   cpufreq_frequency_table_target E policy (Some t) target relation =
     (if i < fst p then if i < fst q then Inr (- EINVAL, None) else Inr (0, Some (fst q)) else Inr (0, Some (fst p)))"
  by (simp add: cpufreq_frequency_table_target_def bnd_def deref_def)

lemma table_target_selects:
  assumes t: "ends_at E t n" and r: "relation = CPUFREQ_RELATION_H E \<or> relation = CPUFREQ_RELATION_L E"
  shows "if usable E policy t n = {}
    then cpufreq_frequency_table_target E policy (Some t) target relation = Inr (- EINVAL, None)
    else \<exists>j. cpufreq_frequency_table_target E policy (Some t) target relation = Inr (0, Some (of_nat j)) \<and>
      selected E policy t n target relation j"
proof -
  let ?p = "(- 1, if relation = CPUFREQ_RELATION_H E then 0 else if relation = CPUFREQ_RELATION_L E then - 1 else 0) :: candidate"
  let ?q = "(- 1, if relation = CPUFREQ_RELATION_H E then - 1 else 0) :: candidate"
  let ?f = "\<lambda>i. frequency (t ! i)" and ?A = "usable E policy t n"
  have "chosen E target relation ?f (usable E policy t 0) (?p, ?q)"
    using r by (auto simp: chosen_def is_best_def usable_def)
  from target_loop_chosen [OF t r le0 this] obtain p q where
    l: "target_loop E policy target relation 0 (?p, ?q) t = Inr (of_nat n, p, q)" and c: "chosen E target relation ?f ?A (p, q)"
    by (auto simp: split_paired_Ex)
  have n: "n < 2 ^ 32 - 1" using t by (simp add: ends_at_def)
  have res: "cpufreq_frequency_table_target E policy (Some t) target relation =
      (if of_nat n < fst p then if of_nat n < fst q then Inr (- EINVAL, None) else Inr (0, Some (fst q)) else Inr (0, Some (fst p)))"
    by (rule table_target_result [OF l])
  show ?thesis
  proof (cases "?A = {}")
    case True
    have "fst p = - 1 \<and> fst q = - 1" by (rule chosen_none [OF c [unfolded True]])
    then show ?thesis using True below_minus_1 [OF n] by (simp add: res)
  next
    case False
    from best_of_candidates [OF c usable_below False n] obtain j where
      j: "if of_nat n < fst p then \<not> of_nat n < fst q \<and> fst q = of_nat j else fst p = of_nat j"
      and b: "selected E policy t n target relation j"
      unfolding selected_def by blast
    have "cpufreq_frequency_table_target E policy (Some t) target relation = Inr (0, Some (of_nat j))"
    proof (cases "of_nat n < fst p")
      case True
      have "\<not> of_nat n < fst q \<and> fst q = of_nat j" by (rule if_P [OF True, THEN iffD1, OF j])
      then have q: "\<not> of_nat n < fst q" "fst q = of_nat j" by blast+
      show ?thesis unfolding res if_P [OF True] if_not_P [OF q(1)] by (simp only: q(2))
    next
      case False
      have p: "fst p = of_nat j" by (rule if_not_P [OF False, THEN iffD1, OF j])
      show ?thesis unfolding res if_not_P [OF False] by (simp only: p)
    qed
    then have "\<exists>j. cpufreq_frequency_table_target E policy (Some t) target relation = Inr (0, Some (of_nat j)) \<and>
      selected E policy t n target relation j" using b by blast
    then show ?thesis unfolding if_not_P [OF False] .
  qed
qed

section \<open>The tables of the device tree\<close>

text \<open>
  The marks are no frequencies in kHz of a rate that fits in 32 bits, and the two relations differ, as in
  \<open>linux/cpufreq.h\<close>. The calls on the device tree and on the clocks return negative errors.
\<close>

definition table_marks :: "'e cpu_env_scheme \<Rightarrow> bool" where
  "table_marks E \<longleftrightarrow>
     4294968 \<le> CPUFREQ_TABLE_END E \<and> 4294968 \<le> CPUFREQ_ENTRY_INVALID E \<and>
     CPUFREQ_RELATION_H E \<noteq> CPUFREQ_RELATION_L E"

definition negative_errors :: "'e cpu_env_scheme \<Rightarrow> bool" where
  "negative_errors E \<longleftrightarrow> (\<forall>name. of_read_res E name \<le> 0) \<and> (\<forall>name e. clk_get E name = Inl e \<longrightarrow> e < 0)"

text \<open>
  A table of the driver: rounded rates of a clock in strictly increasing order, closed by the end mark. The number
  of entries of a device tree property, whose length in bytes is an \<open>int\<close>, is far below \<open>2 ^ 32 - 1\<close>.
\<close>

definition table_body :: "'e cpu_env_scheme \<Rightarrow> nat option \<Rightarrow> u32 list \<Rightarrow> freq_table \<Rightarrow> bool" where
  "table_body E clk data ft \<longleftrightarrow>
     sorted_wrt (<) (map frequency ft) \<and> length ft \<le> length data \<and>
     (\<forall>e\<in>set ft. \<exists>d\<in>set data. frequency e = clk_round_rate E clk (d * 1000) div 1000)"

definition short_properties :: "'e cpu_env_scheme \<Rightarrow> bool" where
  "short_properties E \<longleftrightarrow> (\<forall>name data. of_property E name = Some data \<longrightarrow> length data < 2 ^ 29)"

lemma sorted_snoc:
  "sorted_wrt (<) (map frequency ft) \<Longrightarrow> ft = [] \<or> frequency (last ft) < x \<Longrightarrow> sorted_wrt (<) (map frequency ft @ [x])"
proof (cases ft rule: rev_cases)
  case (snoc ys y)
  assume "sorted_wrt (<) (map frequency ft)" "ft = [] \<or> frequency (last ft) < x"
  then show ?thesis using snoc by (auto simp: sorted_wrt_append)
qed simp

lemma parse_loop_body:
  "table_body E clk pre ft \<Longrightarrow> length ft = length pre \<Longrightarrow> table_body E clk (pre @ data) (parse_loop E clk ft data)"
proof (induction data arbitrary: pre ft)
  case (Cons d data)
  let ?f = "clk_round_rate E clk (d * 1000)"
  let ?e = "\<lparr>driver_data = of_nat (length ft), frequency = ?f div 1000\<rparr>"
  show ?case
  proof (cases "is_err_value E ?f \<or> (ft \<noteq> [] \<and> ?f div 1000 \<le> frequency (last ft))")
    case True
    then show ?thesis using Cons.prems by (auto simp: table_body_def Let_def)
  next
    case False
    then have "sorted_wrt (<) (map frequency ft @ [?f div 1000])"
      using Cons.prems(1) by (intro sorted_snoc) (auto simp: table_body_def not_le)
    then have "table_body E clk (pre @ [d]) (ft @ [?e])"
      using Cons.prems by (auto simp: table_body_def)
    from Cons.IH [OF this] show ?thesis using False Cons.prems(2) by (auto simp: Let_def)
  qed
qed (simp add: table_body_def)

definition driver_table :: "'e cpu_env_scheme \<Rightarrow> nat option \<Rightarrow> freq_table \<Rightarrow> bool" where
  "driver_table E clk t \<longleftrightarrow>
     (\<exists>ft name data. of_property E name = Some data \<and> table_body E clk data ft \<and>
        t = ft @ [\<lparr>driver_data = of_nat (length ft), frequency = CPUFREQ_TABLE_END E\<rparr>])"

lemma parse_dt_table:
  assumes "cpufreq_parse_dt E name cpu s = (Inr t, s')"
  shows "t < allocs s'" "allocs s \<le> t" "driver_table E (cpu_clk s cpu) (tables s' t)"
    "\<forall>t' < allocs s. tables s' t' = tables s t'"
proof -
  have "table_body E (cpu_clk s cpu) ([] @ data) (parse_loop E (cpu_clk s cpu) [] data)" for data
    by (rule parse_loop_body) (simp_all add: table_body_def)
  then show "driver_table E (cpu_clk s cpu) (tables s' t)"
    using assms unfolding driver_table_def
    by (auto simp: cpufreq_parse_dt_def Let_def tell_def split: option.splits if_splits intro!: exI)
qed (use assms in \<open>auto simp: cpufreq_parse_dt_def Let_def tell_def split: option.splits if_splits\<close>)

lemma parse_dt_frame:
  assumes "cpufreq_parse_dt E name cpu s = (r, s')"
  shows "cpu_clk s' = cpu_clk s" "freq_tbl s' = freq_tbl s" "show_table s' = show_table s" "allocs s \<le> allocs s'"
    "\<forall>t < allocs s. tables s' t = tables s t" "\<forall>clk x. SetRate clk x \<in> set (cpu_log s') \<longleftrightarrow> SetRate clk x \<in> set (cpu_log s)"
    "negative_errors E \<Longrightarrow> r = Inl e \<Longrightarrow> e < 0"
  using assms by (auto simp: cpufreq_parse_dt_def Let_def tell_def negative_errors_def EINVAL_def ENOMEM_def
      less_le split: option.splits if_splits)

lemma kHz_bound: "(x :: u32) div 1000 < 4294968"
proof -
  have "unat x < 2 ^ 32" using unsigned_less [of x] by simp
  then have "unat (x div 1000) < unat (4294968 :: u32)" by (simp add: unat_div)
  then show ?thesis by (simp only: word_less_nat_alt)
qed

lemma driver_table_ends:
  assumes d: "driver_table E clk t" and m: "table_marks E" and p: "short_properties E"
  shows "ends_at E t (length t - 1)"
    and "\<forall>i < length t - 1. \<exists>r. frequency (t ! i) = clk_round_rate E clk r div 1000"
    and "\<forall>i < length t - 1. frequency (t ! i) < 4294968"
    and "\<forall>i < length t - 1. frequency (t ! i) \<noteq> CPUFREQ_ENTRY_INVALID E"
    and "\<forall>j < length t - 1. \<forall>i < j. frequency (t ! i) < frequency (t ! j)"
proof -
  from d obtain ft name data where t: "of_property E name = Some data" "table_body E clk data ft"
    "t = ft @ [\<lparr>driver_data = of_nat (length ft), frequency = CPUFREQ_TABLE_END E\<rparr>]"
    unfolding driver_table_def by blast
  have l: "length ft < 2 ^ 29" using t(1,2) p by (fastforce simp: table_body_def short_properties_def)
  show r: "\<forall>i < length t - 1. \<exists>r. frequency (t ! i) = clk_round_rate E clk r div 1000"
    using t(2) by (fastforce simp: t(3) table_body_def nth_append)
  then show b: "\<forall>i < length t - 1. frequency (t ! i) < 4294968" using kHz_bound by metis
  show "\<forall>i < length t - 1. frequency (t ! i) \<noteq> CPUFREQ_ENTRY_INVALID E"
    using b m unfolding table_marks_def by fastforce
  have "\<forall>i < length t - 1. frequency (t ! i) \<noteq> CPUFREQ_TABLE_END E"
    using b m unfolding table_marks_def by fastforce
  then show "ends_at E t (length t - 1)" using l by (simp add: ends_at_def t(3))
  show "\<forall>j < length t - 1. \<forall>i < j. frequency (t ! i) < frequency (t ! j)"
    using t(2) by (auto simp: t(3) table_body_def nth_append sorted_wrt_iff_nth_less)
qed

text \<open>The product that is handed to the clock does not wrap for the frequencies of a table.\<close>

lemma kHz_product: "(f :: u32) < 4294968 \<Longrightarrow> unat (f * 1000) = unat f * 1000"
proof -
  assume "f < 4294968"
  then have "unat f < 4294968" by (simp add: word_less_nat_alt)
  then show ?thesis by (simp add: unat_word_ariths)
qed

section \<open>Every run of the driver\<close>

definition have_tables :: "'e cpu_env_scheme \<Rightarrow> nat \<Rightarrow> cpu_state \<Rightarrow> bool" where
  "have_tables E k s \<longleftrightarrow>
     (\<forall>cpu < k. \<exists>t src. freq_tbl s cpu = Some t \<and> t < allocs s \<and> driver_table E (cpu_clk s src) (tables s t))"

lemma have_tables_parse:
  assumes p: "cpufreq_parse_dt E name cpu s = (r, s')" and h: "have_tables E k s"
  shows "have_tables E k s'"
  unfolding have_tables_def
proof (intro allI impI)
  fix c assume "c < k"
  with h obtain t src where "freq_tbl s c = Some t" "t < allocs s" "driver_table E (cpu_clk s src) (tables s t)"
    unfolding have_tables_def by blast
  then show "\<exists>t src. freq_tbl s' c = Some t \<and> t < allocs s' \<and> driver_table E (cpu_clk s' src) (tables s' t)"
    using parse_dt_frame [OF p] by (intro exI [of _ t] exI [of _ src]) simp
qed

lemma have_tables_Suc:
  assumes "have_tables E k s" "freq_tbl s k = Some t" "t < allocs s" "driver_table E (cpu_clk s src) (tables s t)"
  shows "have_tables E (Suc k) s"
  using assms unfolding have_tables_def less_Suc_eq by blast

lemma have_tables_set:
  "have_tables E k s \<Longrightarrow> have_tables E k (s\<lparr>freq_tbl := (freq_tbl s)(k := x)\<rparr>)"
  by (simp add: have_tables_def)

lemma have_tables_tell [simp]: "have_tables E k (tell evs s) = have_tables E k s"
  by (simp add: have_tables_def tell_def)

text \<open>What the start-up keeps: it sets no rate and shows no table.\<close>

definition quiet :: "cpu_state \<Rightarrow> bool" where
  "quiet s \<longleftrightarrow> show_table s = (\<lambda>_. None) \<and> (\<forall>clk r. SetRate clk r \<notin> set (cpu_log s))"

lemma quiet_parse: "cpufreq_parse_dt E name cpu s = (r, s') \<Longrightarrow> quiet s \<Longrightarrow> quiet s'"
  using parse_dt_frame [of E name cpu s r s'] unfolding quiet_def by simp

lemma quiet_tell: "quiet (tell [e] s) = (quiet s \<and> (\<forall>clk r. e \<noteq> SetRate clk r))"
  by (auto simp: quiet_def tell_def)

lemma quiet_set [simp]: "quiet (s\<lparr>freq_tbl := x\<rparr>) = quiet s"
  by (simp add: quiet_def)

lemma tables_loop_own:
  assumes "cpufreq_parse_dt E (tbl_name k) k s = (ft, s1)" "k = 0 \<or> cpu_clk s1 k \<noteq> cpu_clk s1 (k - 1)"
  shows "tables_loop E (k # cs) s =
    (case ft of Inl e \<Rightarrow> Inr (e, s1) | Inr t \<Rightarrow> tables_loop E cs (s1\<lparr>freq_tbl := (freq_tbl s1)(k := Some t)\<rparr>))"
  unfolding tables_loop.simps assms(1) Let_def prod.case using assms(2) by (cases "k = 0") (simp_all only: if_True if_False simp_thms)

lemma tables_loop_shared:
  assumes "cpufreq_parse_dt E (tbl_name k) k s = (ft, s1)" "k \<noteq> 0" "cpu_clk s1 k = cpu_clk s1 (k - 1)"
  shows "tables_loop E (k # cs) s =
    (case ft of Inl e \<Rightarrow> tables_loop E cs (s1\<lparr>freq_tbl := (freq_tbl s1)(k := freq_tbl s1 (k - 1))\<rparr>)
     | Inr t \<Rightarrow> Inl (Fault InvalidFree))"
  unfolding tables_loop.simps assms(1) Let_def prod.case using assms(2,3) by (simp only: if_False simp_thms)

lemma tables_loop_ok:
  assumes neg: "negative_errors E"
  shows "tables_loop E [k..<n] s = Inr (r, s') \<Longrightarrow> k \<le> n \<Longrightarrow> have_tables E k s \<Longrightarrow> quiet s \<Longrightarrow>
    quiet s' \<and> (r < 0 \<or> have_tables E n s')"
proof (induction "n - k" arbitrary: k s)
  case 0
  then show ?case by simp
next
  case (Suc m)
  then have u: "[k..<n] = k # [Suc k..<n]" by (simp add: upt_conv_Cons)
  obtain ft s1 where p: "cpufreq_parse_dt E (tbl_name k) k s = (ft, s1)"
    by (cases "cpufreq_parse_dt E (tbl_name k) k s")
  note h = have_tables_parse [OF p Suc.prems(3)] and q = quiet_parse [OF p Suc.prems(4)]
  have IH: "quiet s' \<and> (r < 0 \<or> have_tables E n s')"
    if "tables_loop E [Suc k..<n] (s2\<lparr>freq_tbl := (freq_tbl s2)(k := Some t)\<rparr>) = Inr (r, s')" "have_tables E k s2" "quiet s2"
      "t < allocs s2" "driver_table E (cpu_clk s2 src) (tables s2 t)" for s2 t src
  proof (rule Suc.hyps(1) [OF _ that(1)])
    show "have_tables E (Suc k) (s2\<lparr>freq_tbl := (freq_tbl s2)(k := Some t)\<rparr>)"
      by (rule have_tables_Suc [of _ _ _ t src]) (use that have_tables_set in simp_all)
  qed (use Suc.hyps(2) that(3) in simp_all)
  show ?case
  proof (cases "k = 0 \<or> cpu_clk s1 k \<noteq> cpu_clk s1 (k - 1)")
    case True
    note l = Suc.prems(1) [unfolded u tables_loop_own [OF p True]]
    show ?thesis
    proof (cases ft)
      case (Inl e)
      then show ?thesis using l q parse_dt_frame(7) [OF p neg Inl] by simp
    next
      case (Inr t)
      note d = parse_dt_table [OF p [unfolded Inr]]
      have "driver_table E (cpu_clk s1 k) (tables s1 t)" using d(3) parse_dt_frame(1) [OF p] by simp
      from IH [OF _ h q d(1) this] show ?thesis using l Inr by simp
    qed
  next
    case False
    then have k: "k \<noteq> 0" "cpu_clk s1 k = cpu_clk s1 (k - 1)" by simp_all
    note l = Suc.prems(1) [unfolded u tables_loop_shared [OF p k]]
    have "k - 1 < k" using k(1) by simp
    then obtain t src where t: "freq_tbl s1 (k - 1) = Some t" "t < allocs s1" "driver_table E (cpu_clk s1 src) (tables s1 t)"
      using h unfolding have_tables_def by blast
    from l have "tables_loop E [Suc k..<n] (s1\<lparr>freq_tbl := (freq_tbl s1)(k := freq_tbl s1 (k - 1))\<rparr>) = Inr (r, s')"
      by (cases ft) simp_all
    from IH [OF this [unfolded t(1)] h q t(2,3)] show ?thesis .
  qed
qed

lemma clk_loop_frame:
  "clk_loop E cpus s = (r, s') \<Longrightarrow> \<exists>c. s' = s\<lparr>cpu_clk := c\<rparr>"
proof (induction cpus arbitrary: s)
  case Nil
  then show ?case by (intro exI [of _ "cpu_clk s"]) simp
next
  case (Cons cpu cpus)
  show ?case
  proof (cases "clk_get E (clk_name cpu)")
    case (Inl e)
    then show ?thesis using Cons.prems by (intro exI [of _ "cpu_clk s"]) simp
  next
    case (Inr c)
    then show ?thesis using Cons.IH [of "s\<lparr>cpu_clk := (cpu_clk s)(cpu := Some c)\<rparr>"] Cons.prems by auto
  qed
qed

lemma clk_loop_error: "negative_errors E \<Longrightarrow> clk_loop E cpus s = (Some e, s') \<Longrightarrow> e < 0"
  by (induction cpus arbitrary: s) (auto simp: negative_errors_def split: sum.splits)

lemma cpufreq_probe_ok:
  assumes neg: "negative_errors E" and p: "msm_cpufreq_probe E s = Inr (r, s')" and q: "quiet s"
  shows "quiet s' \<and> (r < 0 \<or> have_tables E (possible_cpus E) s')"
proof -
  define s0 where "s0 = s\<lparr>l2_clk := (case clk_get E ''l2_clk'' of Inl e \<Rightarrow> None | Inr c \<Rightarrow> Some c)\<rparr>"
  obtain e s1 where c: "clk_loop E [0..<possible_cpus E] s0 = (e, s1)" by (cases "clk_loop E [0..<possible_cpus E] s0")
  from clk_loop_frame [OF c] q have q1: "quiet s1" by (auto simp: quiet_def s0_def)
  obtain ft s2 where d: "cpufreq_parse_dt E ''qcom,cpufreq-table'' 0 (s1\<lparr>hotplug_ready := True\<rparr>) = (ft, s2)"
    by (cases "cpufreq_parse_dt E ''qcom,cpufreq-table'' 0 (s1\<lparr>hotplug_ready := True\<rparr>)")
  have q2: "quiet s2" by (rule quiet_parse [OF d]) (use q1 in \<open>simp add: quiet_def\<close>)
  have u: "Inr (r, s') = (case e of Some e \<Rightarrow> Inr (e, s1) | None \<Rightarrow>
      (case ft of Inr t \<Rightarrow> Inr (0, s2\<lparr>freq_tbl := (\<lambda>cpu. if cpu < possible_cpus E then Some t else freq_tbl s2 cpu)\<rparr>)
       | Inl e \<Rightarrow> tables_loop E [0..<possible_cpus E] s2))"
    unfolding p [symmetric] msm_cpufreq_probe_def Let_def s0_def [symmetric] c prod.case d by (rule refl)
  show ?thesis
  proof (cases e)
    case (Some x)
    then show ?thesis using u q1 clk_loop_error [OF neg] c by simp
  next
    case None
    show ?thesis
    proof (cases ft)
      case (Inl x)
      have "tables_loop E [0..<possible_cpus E] s2 = Inr (r, s')" using u None Inl by simp
      then show ?thesis by (rule tables_loop_ok [OF neg]) (simp_all add: q2 have_tables_def)
    next
      case (Inr t)
      note t = parse_dt_table [OF d [unfolded Inr]]
      have "driver_table E (cpu_clk s2 0) (tables s2 t)" using t(3) parse_dt_frame(1) [OF d] by simp
      then show ?thesis using u None Inr q2 t(1) by (auto simp: have_tables_def)
    qed
  qed
qed

lemma target_loop_other:
  assumes "ends_at E t n" "relation \<noteq> CPUFREQ_RELATION_H E" "relation \<noteq> CPUFREQ_RELATION_L E" "i \<le> n"
  shows "target_loop E policy target relation (of_nat i) c (drop i t) = Inr (of_nat n, c)"
  using assms(4)
proof (induction "n - i" arbitrary: i)
  case 0
  then have "drop n t = t ! n # drop (Suc n) t" using assms(1) by (simp add: ends_at_def Cons_nth_drop_Suc)
  then show ?case using 0 assms(1) by (simp add: ends_at_def)
next
  case (Suc m)
  then have d: "drop i t = t ! i # drop (Suc i) t" using assms(1) by (simp add: ends_at_def Cons_nth_drop_Suc)
  have e: "frequency (t ! i) \<noteq> CPUFREQ_TABLE_END E" using Suc assms(1) by (simp add: ends_at_def)
  have "better_choice E target relation i f c = c" for i f using assms(2,3) by (cases c) (simp add: better_choice_def)
  then show ?case using Suc.hyps(1) [of "Suc i"] Suc.hyps(2) e by (simp add: d Let_def add.commute)
qed

text \<open>Whatever the relation is, the result is an error or the index of an entry within the limits.\<close>

lemma table_target_cases:
  assumes t: "ends_at E t n"
  obtains "cpufreq_frequency_table_target E policy (Some t) target relation = Inr (- EINVAL, None)"
  | j where "j \<in> usable E policy t n" "cpufreq_frequency_table_target E policy (Some t) target relation = Inr (0, Some (of_nat j))"
proof (cases "relation = CPUFREQ_RELATION_H E \<or> relation = CPUFREQ_RELATION_L E")
  case True
  show thesis
  proof (cases "usable E policy t n = {}")
    case none: True
    then show thesis using that(1) table_target_selects [OF t True, of policy target] by simp
  next
    case False
    from table_target_selects [OF t True, of policy target] obtain j where
      "cpufreq_frequency_table_target E policy (Some t) target relation = Inr (0, Some (of_nat j))"
      "selected E policy t n target relation j"
      unfolding if_not_P [OF False] by blast
    moreover from this(2) have "j \<in> usable E policy t n"
      by (simp add: selected_def best_high_def best_low_def split: if_split_asm)
    ultimately show thesis using that(2) by blast
  qed
next
  case False
  have n: "n < 2 ^ 32 - 1" using t by (simp add: ends_at_def)
  have "target_loop E policy target relation 0 ((- 1, 0), (- 1, 0)) t = Inr (of_nat n, (- 1, 0), (- 1, 0))"
    using target_loop_other [OF t, of relation 0 policy target "((- 1, 0), (- 1, 0))"] False by simp
  then have "cpufreq_frequency_table_target E policy (Some t) target relation = Inr (- EINVAL, None)"
    using table_target_result [of E policy target relation t "of_nat n" "(- 1, 0)" "(- 1, 0)"] False below_minus_1 [OF n] by simp
  then show thesis by (rule that(1))
qed

lemma entry_at_index:
  assumes t: "ends_at E t n" and j: "j < n"
  shows "entry_at (Some t) (of_nat j) = Inr (t ! j)"
proof -
  have "unat (of_nat j :: u32) = j" by (rule unat_of_nat_small) (use assms in \<open>simp add: ends_at_def\<close>)
  then show ?thesis using assms by (simp add: entry_at_def deref_def bnd_def ends_at_def)
qed

lemma set_cpu_freq_tell:
  obtains evs where "snd (set_cpu_freq E policy f s) = tell evs s"
    "{(clk, r). SetRate clk r \<in> set evs} = {(cpu_clk s (pcpu policy), clk_round_rate E (cpu_clk s (pcpu policy)) (f * 1000))}"
proof -
  let ?clk = "cpu_clk s (pcpu policy)"
  let ?r = "clk_round_rate E ?clk (f * 1000)"
  let ?pre = "[PreChange (pcpu policy) (pcur policy) f]"
  let ?evs = "?pre @ [SetRate ?clk ?r] @
    (if clk_set_rate E (cpu_log s @ ?pre) ?clk ?r = 0 then [PostChange (pcpu policy) (pcur policy) f] else [])"
  show thesis by (rule that [of ?evs]) (auto simp: set_cpu_freq_def Let_def tell_def)
qed

lemma cpuinfo_loop_returns:
  assumes "ends_at E t n" "i \<le> n" shows "\<exists>r. cpuinfo_loop E (drop i t) lo hi = Inr r"
  using assms(2)
proof (induction "n - i" arbitrary: i lo hi)
  case 0
  then have "drop n t = t ! n # drop (Suc n) t" using assms(1) by (simp add: ends_at_def Cons_nth_drop_Suc)
  then show ?case using 0 assms(1) by (simp add: ends_at_def)
next
  case (Suc m)
  then have "drop i t = t ! i # drop (Suc i) t" using assms(1) by (simp add: ends_at_def Cons_nth_drop_Suc)
  then show ?case using Suc.hyps(1) [of "Suc i"] Suc.hyps(2) by simp
qed

lemma cpuinfo_returns:
  assumes "ends_at E t n"
  obtains r policy' where "cpufreq_frequency_table_cpuinfo E policy (Some t) = Inr (r, policy')" "pcpu policy' = pcpu policy"
  using cpuinfo_loop_returns [OF assms le0, of "- 1" 0]
  by (auto simp: cpufreq_frequency_table_cpuinfo_def deref_def bnd_def Let_def)

text \<open>
  The steps of the driver after its start: the core initialises a policy, asks for a frequency or moves a policy to
  another CPU of the same clock; CPUs come and go; the system suspends and resumes.
\<close>

inductive cpu_run :: "'e cpu_env_scheme \<Rightarrow> cpu_state \<Rightarrow> bool" for E where
  start: "quiet s0 \<Longrightarrow> msm_cpufreq_register E s0 = Inr (0, s) \<Longrightarrow> cpu_run E s"
| init: "cpu_run E s \<Longrightarrow> pcpu policy < possible_cpus E \<Longrightarrow> msm_cpufreq_init E policy s = Inr (r, policy', s') \<Longrightarrow> cpu_run E s'"
| target: "cpu_run E s \<Longrightarrow> msm_cpufreq_target E policy freq relation s = Inr (r, s') \<Longrightarrow> cpu_run E s'"
| move: "cpu_run E s \<Longrightarrow> cpu_clk s cpu = cpu_clk s last_cpu \<Longrightarrow> cpu_run E (cpufreq_frequency_table_update_policy_cpu cpu last_cpu s)"
| hotplug: "cpu_run E s \<Longrightarrow> msm_cpufreq_cpu_callback E action cpu s = (v, s') \<Longrightarrow> cpu_run E s'"
| pm: "cpu_run E s \<Longrightarrow> msm_cpufreq_pm_event E event s = (v, s') \<Longrightarrow> cpu_run E s'"

definition table_rate :: "'e cpu_env_scheme \<Rightarrow> cpu_state \<Rightarrow> nat option \<Rightarrow> u32 \<Rightarrow> bool" where
  "table_rate E s clk r \<longleftrightarrow>
     (\<exists>cpu < possible_cpus E. \<exists>t. \<exists>i < length (tables s t) - 1.
        clk = cpu_clk s cpu \<and> freq_tbl s cpu = Some t \<and> r = clk_round_rate E clk (frequency (tables s t ! i) * 1000))"

definition shown :: "'e cpu_env_scheme \<Rightarrow> cpu_state \<Rightarrow> nat \<Rightarrow> nat \<Rightarrow> bool" where
  "shown E s cpu t \<longleftrightarrow> (\<exists>c < possible_cpus E. freq_tbl s c = Some t \<and> cpu_clk s c = cpu_clk s cpu)"

definition driver_inv :: "'e cpu_env_scheme \<Rightarrow> cpu_state \<Rightarrow> bool" where
  "driver_inv E s \<longleftrightarrow>
     have_tables E (possible_cpus E) s \<and> (\<forall>cpu t. show_table s cpu = Some t \<longrightarrow> shown E s cpu t) \<and>
     (\<forall>clk r. SetRate clk r \<in> set (cpu_log s) \<longrightarrow> table_rate E s clk r)"

text \<open>Events that set no rate, and changes of the flags, keep the invariant.\<close>

definition same_driver :: "cpu_state \<Rightarrow> cpu_state \<Rightarrow> bool" where
  "same_driver s s' \<longleftrightarrow>
     cpu_clk s' = cpu_clk s \<and> freq_tbl s' = freq_tbl s \<and> tables s' = tables s \<and> allocs s' = allocs s \<and> show_table s' = show_table s"

lemma driver_inv_same:
  assumes "driver_inv E s" "same_driver s s'"
    and "\<And>clk r. SetRate clk r \<in> set (cpu_log s') \<Longrightarrow> SetRate clk r \<in> set (cpu_log s) \<or> table_rate E s clk r"
  shows "driver_inv E s'"
proof -
  have "have_tables E (possible_cpus E) s'" "shown E s' = shown E s" "table_rate E s' = table_rate E s" "show_table s' = show_table s"
    using assms(1,2) by (auto simp: driver_inv_def same_driver_def have_tables_def shown_def [abs_def] table_rate_def [abs_def])
  then show ?thesis using assms(1,3) unfolding driver_inv_def by metis
qed

lemma set_cpu_freq_inv:
  assumes i: "driver_inv E s" and t: "shown E s (pcpu policy) t" and j: "j < length (tables s t) - 1"
  shows "driver_inv E (snd (set_cpu_freq E policy (frequency (tables s t ! j)) s))"
proof -
  let ?f = "frequency (tables s t ! j)" and ?clk = "cpu_clk s (pcpu policy)"
  obtain evs where e: "snd (set_cpu_freq E policy ?f s) = tell evs s"
    "{(clk, r). SetRate clk r \<in> set evs} = {(?clk, clk_round_rate E ?clk (?f * 1000))}"
    by (rule set_cpu_freq_tell)
  have "table_rate E s ?clk (clk_round_rate E ?clk (?f * 1000))"
    using t j unfolding shown_def table_rate_def by metis
  then have "SetRate clk r \<in> set evs \<Longrightarrow> table_rate E s clk r" for clk r
    using eqset_imp_iff [OF e(2), of "(clk, r)"] by simp
  then show ?thesis unfolding e(1) by (intro driver_inv_same [OF i]) (auto simp: same_driver_def)
qed

lemma shown_table:
  assumes "driver_inv E s" "shown E s cpu t"
  obtains src where "driver_table E (cpu_clk s src) (tables s t)"
proof -
  from assms(2) obtain c where c: "c < possible_cpus E" "freq_tbl s c = Some t" unfolding shown_def by blast
  then obtain t' src where "freq_tbl s c = Some t'" "driver_table E (cpu_clk s src) (tables s t')"
    using assms(1) unfolding driver_inv_def have_tables_def by blast
  then show thesis using that c(2) by simp
qed

lemma shown_ends:
  assumes "table_marks E" "short_properties E" "driver_inv E s" "shown E s cpu t"
  shows "ends_at E (tables s t) (length (tables s t) - 1)"
  using shown_table [OF assms(3,4)] driver_table_ends(1) [OF _ assms(1,2)] by metis

lemma target_inv:
  assumes m: "table_marks E" "short_properties E" and i: "driver_inv E s" and t: "show_table s (pcpu policy) = Some t"
  shows "\<exists>r s'. msm_cpufreq_target E policy freq relation s = Inr (r, s') \<and> driver_inv E s'"
proof (cases "device_suspended s (pcpu policy)")
  case True
  then show ?thesis using i by (simp add: msm_cpufreq_target_def)
next
  case False
  let ?t = "tables s t"
  have sh: "shown E s (pcpu policy) t" using i t unfolding driver_inv_def by blast
  note e = shown_ends [OF m i sh]
  have tab: "cpufreq_frequency_get_table s (pcpu policy) = Some ?t" using t by (simp add: cpufreq_frequency_get_table_def)
  show ?thesis
  proof (rule table_target_cases [OF e, of policy freq relation])
    assume "cpufreq_frequency_table_target E policy (Some ?t) freq relation = Inr (- EINVAL, None)"
    then show ?thesis using False i by (simp add: msm_cpufreq_target_def tab bnd_def)
  next
    fix j assume j: "j \<in> usable E policy ?t (length ?t - 1)"
      "cpufreq_frequency_table_target E policy (Some ?t) freq relation = Inr (0, Some (of_nat j))"
    then have l: "j < length ?t - 1" by (simp add: usable_def)
    have "msm_cpufreq_target E policy freq relation s = Inr (set_cpu_freq E policy (frequency (?t ! j)) s)"
      using False j(2) entry_at_index [OF e l] by (simp add: msm_cpufreq_target_def tab bnd_def)
    then show ?thesis using set_cpu_freq_inv [OF i sh l] by (cases "set_cpu_freq E policy (frequency (?t ! j)) s") simp
  qed
qed

lemma get_attr_inv:
  assumes "driver_inv E s" "shown E s cpu t"
  shows "driver_inv E (cpufreq_frequency_table_get_attr (Some t) cpu s)"
  using assms by (auto simp: driver_inv_def cpufreq_frequency_table_get_attr_def have_tables_def shown_def table_rate_def)

lemma move_inv:
  assumes i: "driver_inv E s" and c: "cpu_clk s cpu = cpu_clk s last_cpu"
  shows "driver_inv E (cpufreq_frequency_table_update_policy_cpu cpu last_cpu s)" (is "driver_inv E ?s")
proof -
  have "have_tables E (possible_cpus E) ?s" "\<And>cpu t. shown E ?s cpu t = shown E s cpu t"
    "\<And>clk r. table_rate E ?s clk r = table_rate E s clk r" "cpu_log ?s = cpu_log s"
    using i by (simp_all add: driver_inv_def cpufreq_frequency_table_update_policy_cpu_def have_tables_def shown_def table_rate_def)
  moreover have "shown E s cpu' t" if "show_table ?s cpu' = Some t" for cpu' t
  proof (cases "cpu' = cpu")
    case True
    then have "show_table s last_cpu = Some t"
      using that by (simp add: cpufreq_frequency_table_update_policy_cpu_def split: if_split_asm)
    then have "shown E s last_cpu t" using i unfolding driver_inv_def by blast
    then show ?thesis using True c by (simp add: shown_def)
  next
    case False
    then have "show_table s cpu' = Some t"
      using that by (simp add: cpufreq_frequency_table_update_policy_cpu_def split: if_split_asm)
    then show ?thesis using i unfolding driver_inv_def by blast
  qed
  ultimately show ?thesis using i unfolding driver_inv_def by simp
qed

lemma init_inv:
  assumes m: "table_marks E" "short_properties E" and i: "driver_inv E s" and c: "pcpu policy < possible_cpus E"
  shows "\<exists>r policy' s'. msm_cpufreq_init E policy s = Inr (r, policy', s') \<and> driver_inv E s'"
proof -
  from i c obtain t where t: "freq_tbl s (pcpu policy) = Some t" unfolding driver_inv_def have_tables_def by blast
  let ?t = "tables s t" and ?clk = "cpu_clk s (pcpu policy)"
  let ?p = "policy\<lparr>pcpus := pcpus policy \<union> set (filter (\<lambda>cpu. cpu_clk s cpu = ?clk) [0..<possible_cpus E])\<rparr>"
  have sh: "shown E s (pcpu policy) t" using t c unfolding shown_def by blast
  note e = shown_ends [OF m i sh]
  obtain r0 p where p: "cpufreq_frequency_table_cpuinfo E ?p (Some ?t) = Inr (r0, p)" "pcpu p = pcpu policy"
    using cpuinfo_returns [OF e, of ?p] by auto
  define cur where "cur = clk_get_rate E (cpu_log s) ?clk div 1000"
  have found: ?thesis if l: "j < length ?t - 1" and
    ini: "msm_cpufreq_init E policy s = bnd (entry_at (Some ?t) (of_nat j)) (\<lambda>e.
      let (r, s) = set_cpu_freq E p (frequency e) s in
      if r \<noteq> 0 then Inr (r, p, s)
      else Inr (0, p\<lparr>pcur := frequency e\<rparr>, cpufreq_frequency_table_get_attr (freq_tbl s (pcpu p)) (pcpu p) s))" for j
  proof -
    obtain r s1 where st: "set_cpu_freq E p (frequency (?t ! j)) s = (r, s1)" by (cases "set_cpu_freq E p (frequency (?t ! j)) s")
    have i1: "driver_inv E s1" using set_cpu_freq_inv [OF i _ l, of p] sh p(2) st by simp
    have "freq_tbl s1 = freq_tbl s \<and> cpu_clk s1 = cpu_clk s"
      using set_cpu_freq_tell [of E p "frequency (?t ! j)" s] st by (metis snd_conv tell_frame(1,3))
    then have "freq_tbl s1 (pcpu policy) = Some t" "shown E s1 (pcpu policy) t" using t sh by (simp_all add: shown_def)
    then show ?thesis using ini st i1 get_attr_inv [OF i1] entry_at_index [OF e l] p(2) by (simp add: bnd_def)
  qed
  show ?thesis
  proof (rule table_target_cases [OF e, of p cur "CPUFREQ_RELATION_H E"])
    assume h: "cpufreq_frequency_table_target E p (Some ?t) cur (CPUFREQ_RELATION_H E) = Inr (- EINVAL, None)"
    show ?thesis
    proof (rule table_target_cases [OF e, of p cur "CPUFREQ_RELATION_L E"])
      assume "cpufreq_frequency_table_target E p (Some ?t) cur (CPUFREQ_RELATION_L E) = Inr (- EINVAL, None)"
      then show ?thesis using h p i t by (simp add: msm_cpufreq_init_def bnd_def Let_def cur_def EINVAL_def)
    next
      fix j assume j: "j \<in> usable E p ?t (length ?t - 1)" "cpufreq_frequency_table_target E p (Some ?t) cur (CPUFREQ_RELATION_L E) = Inr (0, Some (of_nat j))"
      then have "j < length ?t - 1" by (simp add: usable_def)
      then show ?thesis by (rule found) (use h j p t in \<open>simp add: msm_cpufreq_init_def bnd_def Let_def cur_def EINVAL_def\<close>)
    qed
  next
    fix j assume j: "j \<in> usable E p ?t (length ?t - 1)" "cpufreq_frequency_table_target E p (Some ?t) cur (CPUFREQ_RELATION_H E) = Inr (0, Some (of_nat j))"
    then have "j < length ?t - 1" by (simp add: usable_def)
    then show ?thesis by (rule found) (use j p t in \<open>simp add: msm_cpufreq_init_def bnd_def Let_def cur_def\<close>)
  qed
qed

lemma callback_frame:
  assumes "msm_cpufreq_cpu_callback E action cpu s = (v, s')"
  shows "same_driver s s'" "l2_clk s' = l2_clk s" "hotplug_ready s' = hotplug_ready s"
    "SetRate clk r \<in> set (cpu_log s') \<Longrightarrow> SetRate clk r \<in> set (cpu_log s)"
  using assms
  by (auto simp: msm_cpufreq_cpu_callback_def same_driver_def prepare_def enable_def Let_def split: if_split_asm hotplug_action.split_asm)

lemma resume_loop_frame:
  "same_driver s (resume_loop E cpus s) \<and>
   (SetRate clk r \<in> set (cpu_log (resume_loop E cpus s)) \<longrightarrow> SetRate clk r \<in> set (cpu_log s))"
proof (induction cpus arbitrary: s)
  case (Cons cpu cpus)
  have "same_driver s (tell [UpdatePolicy cpu] s)" by (simp add: same_driver_def)
  then show ?case using Cons.IH [of s] Cons.IH [of "tell [UpdatePolicy cpu] s"] by (simp add: same_driver_def split: option.split)
qed (simp add: same_driver_def)

lemma pm_event_frame:
  assumes "msm_cpufreq_pm_event E event s = (v, s')"
  shows "same_driver s s'" "SetRate clk r \<in> set (cpu_log s') \<Longrightarrow> SetRate clk r \<in> set (cpu_log s)"
proof -
  have "same_driver s s' \<and> (SetRate clk r \<in> set (cpu_log s') \<longrightarrow> SetRate clk r \<in> set (cpu_log s))"
    using assms resume_loop_frame [of "s\<lparr>device_suspended := (\<lambda>cpu. \<not> cpu < possible_cpus E \<and> device_suspended s cpu)\<rparr>" E
        "filter (cpu_online E) [0..<possible_cpus E]" clk r]
    by (cases event) (auto simp: msm_cpufreq_pm_event_def msm_cpufreq_suspend_def msm_cpufreq_resume_def same_driver_def)
  then show "same_driver s s'" "SetRate clk r \<in> set (cpu_log s') \<Longrightarrow> SetRate clk r \<in> set (cpu_log s)" by blast+
qed

lemma register_inv:
  assumes n: "negative_errors E" and q: "quiet s0" and r: "msm_cpufreq_register E s0 = Inr (0, s)"
  shows "driver_inv E s"
proof -
  define s1 where "s1 = s0\<lparr>device_suspended := (\<lambda>cpu. \<not> cpu < possible_cpus E \<and> device_suspended s0 cpu)\<rparr>"
  obtain rc s2 where p: "msm_cpufreq_probe E s1 = Inr (rc, s2)"
    using r unfolding msm_cpufreq_register_def Let_def s1_def [symmetric] by (auto simp: bnd_eq_Inr)
  have "quiet s1" using q by (simp add: s1_def quiet_def)
  from cpufreq_probe_ok [OF n p this] have "quiet s2" "rc < 0 \<or> have_tables E (possible_cpus E) s2" by simp_all
  moreover have "\<not> rc < 0 \<and> s = tell [RegisterPm] s2"
    using r p unfolding msm_cpufreq_register_def Let_def s1_def [symmetric] by (auto split: if_split_asm)
  ultimately show ?thesis by (auto simp: driver_inv_def quiet_def)
qed

lemma cpu_run_inv:
  assumes m: "table_marks E" "short_properties E" "negative_errors E"
  shows "cpu_run E s \<Longrightarrow> driver_inv E s"
proof (induction rule: cpu_run.induct)
  case (start s0 s)
  then show ?case by (rule register_inv [OF m(3)])
next
  case (init s policy r policy' s')
  then show ?case using init_inv [OF m(1,2), of s policy] by auto
next
  case (target s policy freq relation r s')
  show ?case
  proof (cases "show_table s (pcpu policy)")
    case None
    then have "s' = s" using target.hyps(2)
      by (auto simp: msm_cpufreq_target_def cpufreq_frequency_get_table_def cpufreq_frequency_table_target_def deref_def bnd_def
          split: if_split_asm)
    then show ?thesis using target.IH by simp
  next
    case (Some t)
    then show ?thesis using target_inv [OF m(1,2) target.IH Some, of freq relation] target.hyps(2) by auto
  qed
next
  case (move s cpu last_cpu)
  then show ?case by (intro move_inv)
next
  case (hotplug s action cpu v s')
  show ?case using driver_inv_same [OF hotplug.IH callback_frame(1) [OF hotplug.hyps(2)]] callback_frame(4) [OF hotplug.hyps(2)] by blast
next
  case (pm s event v s')
  show ?case using driver_inv_same [OF pm.IH pm_event_frame(1) [OF pm.hyps(2)]] pm_event_frame(2) [OF pm.hyps(2)] by blast
qed

section \<open>The counts of the clocks\<close>

text \<open>
  How often a clock was prepared and enabled by the driver, minus how often it was unprepared and disabled.
\<close>

fun prepared :: "nat option \<Rightarrow> cpu_event list \<Rightarrow> int" where
  "prepared clk [] = 0"
| "prepared clk (Prepare c ok # es) = (if c = clk \<and> ok then 1 else 0) + prepared clk es"
| "prepared clk (Unprepare c # es) = (if c = clk then - 1 else 0) + prepared clk es"
| "prepared clk (_ # es) = prepared clk es"

fun enabled :: "nat option \<Rightarrow> cpu_event list \<Rightarrow> int" where
  "enabled clk [] = 0"
| "enabled clk (Enable c ok # es) = (if c = clk \<and> ok then 1 else 0) + enabled clk es"
| "enabled clk (Disable c # es) = (if c = clk then - 1 else 0) + enabled clk es"
| "enabled clk (_ # es) = enabled clk es"

lemma prepared_append [simp]: "prepared clk (es @ fs) = prepared clk es + prepared clk fs"
  by (induction clk es rule: prepared.induct) simp_all

lemma enabled_append [simp]: "enabled clk (es @ fs) = enabled clk es + enabled clk fs"
  by (induction clk es rule: enabled.induct) simp_all

text \<open>
  The phases through which the kernel takes a CPU. A callback that refuses \<open>CPU_UP_PREPARE\<close> keeps the CPU down. The
  answers to the other actions do not matter to the kernel; in particular a CPU comes up when its
  \<open>CPU_STARTING\<close> callback fails. These CPUs are collected in the last argument.
\<close>

datatype cpu_phase = CpuDown | CpuPrepared | CpuUp | CpuStopped

fun legal :: "hotplug_action \<Rightarrow> cpu_phase \<Rightarrow> bool" where
  "legal CPU_UP_PREPARE p = (p = CpuDown)"
| "legal CPU_UP_CANCELED p = (p = CpuPrepared)"
| "legal CPU_STARTING p = (p = CpuPrepared)"
| "legal CPU_DYING p = (p = CpuUp)"
| "legal CPU_DEAD p = (p = CpuStopped)"
| "legal CPU_OTHER p = True"

fun after :: "hotplug_action \<Rightarrow> notify \<Rightarrow> cpu_phase \<Rightarrow> cpu_phase" where
  "after CPU_UP_PREPARE v p = (if v = NOTIFY_OK then CpuPrepared else p)"
| "after CPU_UP_CANCELED v p = CpuDown"
| "after CPU_STARTING v p = CpuUp"
| "after CPU_DYING v p = CpuStopped"
| "after CPU_DEAD v p = CpuDown"
| "after CPU_OTHER v p = p"

definition failed_start :: "hotplug_action \<Rightarrow> notify \<Rightarrow> bool" where
  "failed_start action v \<longleftrightarrow> action = CPU_STARTING \<and> v \<noteq> NOTIFY_OK"

inductive hotplug_run ::
  "'e cpu_env_scheme \<Rightarrow> cpu_state \<Rightarrow> (nat \<Rightarrow> cpu_phase) \<Rightarrow> cpu_state \<Rightarrow> (nat \<Rightarrow> cpu_phase) \<Rightarrow> nat list \<Rightarrow> bool"
  for E s0 ph0 where
  boot: "hotplug_run E s0 ph0 s0 ph0 []"
| callback: "hotplug_run E s0 ph0 s ph failed \<Longrightarrow> cpu < possible_cpus E \<Longrightarrow> legal action (ph cpu) \<Longrightarrow>
    msm_cpufreq_cpu_callback E action cpu s = (v, s') \<Longrightarrow>
    hotplug_run E s0 ph0 s' (ph(cpu := after action v (ph cpu))) (if failed_start action v then cpu # failed else failed)"

text \<open>What the CPUs hold of a clock: each one that is not down prepares its own clock and the L2 clock, each one that is up enables them.\<close>

definition uses :: "cpu_state \<Rightarrow> nat option \<Rightarrow> nat \<Rightarrow> int" where
  "uses s clk cpu = (if cpu_clk s cpu = clk then 1 else 0) + (if l2_clk s = clk then 1 else 0)"

definition held :: "nat \<Rightarrow> cpu_state \<Rightarrow> cpu_phase set \<Rightarrow> nat option \<Rightarrow> (nat \<Rightarrow> cpu_phase) \<Rightarrow> int" where
  "held n s ps clk ph = (\<Sum>cpu<n. if ph cpu \<in> ps then uses s clk cpu else 0)"

lemma held_update:
  assumes "cpu < n"
  shows "held n s ps clk (ph(cpu := p)) = held n s ps clk ph + (if p \<in> ps then uses s clk cpu else 0) - (if ph cpu \<in> ps then uses s clk cpu else 0)"
proof -
  have "(\<Sum>c\<in>{..<n} - {cpu}. if (ph(cpu := p)) c \<in> ps then uses s clk c else 0) =
      (\<Sum>c\<in>{..<n} - {cpu}. if ph c \<in> ps then uses s clk c else 0)"
    by (rule sum.cong) auto
  then show ?thesis using assms by (simp add: held_def sum.remove [of "{..<n}" cpu])
qed

lemma callback_counts:
  assumes "msm_cpufreq_cpu_callback E action cpu s = (v, s')" "legal action p" "hotplug_ready s" "\<And>l c. clk_enable E l c \<le> 0"
  defines "q \<equiv> after action v p"
  shows "prepared clk (cpu_log s') = prepared clk (cpu_log s) +
      (if q \<noteq> CpuDown then uses s clk cpu else 0) - (if p \<noteq> CpuDown then uses s clk cpu else 0)"
    and "enabled clk (cpu_log s') = enabled clk (cpu_log s) +
      (if q = CpuUp then uses s clk cpu else 0) - (if p = CpuUp then uses s clk cpu else 0) -
      (if failed_start action v then uses s clk cpu else 0)"
proof -
  have z: "\<not> clk_enable E l c < 0 \<Longrightarrow> clk_enable E l c = 0" for l c using assms(4) [of l c] by simp
  show "prepared clk (cpu_log s') = prepared clk (cpu_log s) +
      (if q \<noteq> CpuDown then uses s clk cpu else 0) - (if p \<noteq> CpuDown then uses s clk cpu else 0)"
    using assms(1-3) unfolding q_def
    by (cases action) (auto simp: msm_cpufreq_cpu_callback_def prepare_def enable_def Let_def uses_def split: if_split_asm)
  show "enabled clk (cpu_log s') = enabled clk (cpu_log s) +
      (if q = CpuUp then uses s clk cpu else 0) - (if p = CpuUp then uses s clk cpu else 0) -
      (if failed_start action v then uses s clk cpu else 0)"
    using assms(1-3) unfolding q_def
    by (cases action) (auto simp: msm_cpufreq_cpu_callback_def prepare_def enable_def Let_def uses_def failed_start_def dest: z split: if_split_asm)
qed

lemma hotplug_run_counts:
  assumes "hotplug_run E s0 ph0 s ph failed" "hotplug_ready s0" "\<And>l c. clk_enable E l c \<le> 0"
  shows "same_driver s0 s \<and> l2_clk s = l2_clk s0 \<and> hotplug_ready s \<and>
    prepared clk (cpu_log s) - held (possible_cpus E) s0 (- {CpuDown}) clk ph =
      prepared clk (cpu_log s0) - held (possible_cpus E) s0 (- {CpuDown}) clk ph0 \<and>
    enabled clk (cpu_log s) - held (possible_cpus E) s0 {CpuUp} clk ph + (\<Sum>cpu\<leftarrow>failed. uses s0 clk cpu) =
      enabled clk (cpu_log s0) - held (possible_cpus E) s0 {CpuUp} clk ph0"
  using assms(1)
proof (induction rule: hotplug_run.induct)
  case boot
  then show ?case using assms(2) by (simp add: same_driver_def)
next
  case (callback s ph failed cpu action v s')
  have d: "same_driver s0 s'" "l2_clk s' = l2_clk s0" "hotplug_ready s'"
    using callback.IH callback_frame(1-3) [OF callback.hyps(4)] by (simp_all add: same_driver_def)
  have u: "uses s clk cpu = uses s0 clk cpu" "hotplug_ready s" using callback.IH by (simp_all add: uses_def same_driver_def)
  note c = callback_counts [OF callback.hyps(4,3) u(2) assms(3), of clk, unfolded u(1)]
  define q where "q = after action v (ph cpu)"
  note h = held_update [OF callback.hyps(2), of s0 "- {CpuDown}" clk ph "after action v (ph cpu)"]
    held_update [OF callback.hyps(2), of s0 "{CpuUp}" clk ph "after action v (ph cpu)"]
  show ?case
    using c callback.IH d h unfolding q_def [symmetric] Compl_iff singleton_iff
    by (cases "ph cpu"; cases q; cases "failed_start action v") (simp_all add: fun_upd_def)
qed

section \<open>Main theorems\<close>

text \<open>The constants of \<open>linux/cpufreq.h\<close>, a clock that reaches every rate and a device tree with three frequencies.\<close>

definition sample_env :: cpu_env where
  "sample_env = \<lparr>CPUFREQ_ENTRY_INVALID = - 1, CPUFREQ_TABLE_END = - 2, CPUFREQ_RELATION_H = 1, CPUFREQ_RELATION_L = 0,
     verify_within_limits = (\<lambda>p lo hi. p), verify_within_cpu_limits = (\<lambda>p. p),
     clk_round_rate = (\<lambda>clk r. r), is_err_value = (\<lambda>r. 4294963200 < r), clk_set_rate = (\<lambda>l clk r. 0),
     clk_get_rate = (\<lambda>l clk. 400000000), clk_prepare = (\<lambda>l clk. 0), clk_enable = (\<lambda>l clk. 0),
     clk_get = (\<lambda>name. Inr (if name = ''l2_clk'' then 0 else 1)),
     of_property = (\<lambda>name. if name = ''qcom,cpufreq-table'' then Some [200000, 400000, 800000] else None),
     of_read_res = (\<lambda>name. 0), devm_kzalloc = (\<lambda>n. True), possible_cpus = 2, cpu_online = (\<lambda>cpu. True),
     cpufreq_get_policy = (\<lambda>l cpu. None), cpufreq_register_driver = 0\<rparr>"

definition sample_state :: cpu_state where
  "sample_state = \<lparr>cpu_clk = (\<lambda>cpu. None), l2_clk = None, freq_tbl = (\<lambda>cpu. None), show_table = (\<lambda>cpu. None),
     tables = (\<lambda>t. []), allocs = 0, hotplug_ready = False, device_suspended = (\<lambda>cpu. False), cpu_log = []\<rparr>"

definition sample_policy :: cpufreq_policy where
  "sample_policy = \<lparr>pcpu = 0, pcpus = {}, pmin = 200000, pmax = 800000, pcur = 400000, min_freq = 200000, max_freq = 800000\<rparr>"

definition sample_table :: freq_table where
  "sample_table = [\<lparr>driver_data = 0, frequency = 200000\<rparr>, \<lparr>driver_data = 1, frequency = 400000\<rparr>,
     \<lparr>driver_data = 2, frequency = 800000\<rparr>, \<lparr>driver_data = 3, frequency = - 2\<rparr>]"

lemma sample_marks: "table_marks sample_env" "short_properties sample_env" "negative_errors sample_env"
  by (simp add: table_marks_def sample_env_def) (auto simp: short_properties_def negative_errors_def sample_env_def)

lemma sample_quiet: "quiet sample_state"
  by (simp add: quiet_def sample_state_def)

definition sample_started :: "cpu_state option" where
  "sample_started = (case msm_cpufreq_register sample_env sample_state of Inr (r, s) \<Rightarrow> if r = 0 then Some s else None | Inl e \<Rightarrow> None)"

lemma sample_init:
  "case sample_started of None \<Rightarrow> False
   | Some s1 \<Rightarrow>
     (case msm_cpufreq_init sample_env sample_policy s1 of
        Inl e \<Rightarrow> False
      | Inr (r, p, s) \<Rightarrow> show_table s 0 \<noteq> None \<and> \<not> device_suspended s 0 \<and> SetRate (Some 1) 400000000 \<in> set (cpu_log s))"
  by code_simp

lemma sample_run: "\<exists>s. cpu_run sample_env s \<and> show_table s 0 \<noteq> None \<and> SetRate (Some 1) 400000000 \<in> set (cpu_log s)"
proof -
  obtain s1 where s1: "sample_started = Some s1" using sample_init by (auto split: option.splits)
  then have "msm_cpufreq_register sample_env sample_state = Inr (0, s1)"
    by (auto simp: sample_started_def split: sum.splits prod.splits if_splits)
  then have r: "cpu_run sample_env s1" by (rule cpu_run.start [OF sample_quiet])
  obtain r p s2 where i: "msm_cpufreq_init sample_env sample_policy s1 = Inr (r, p, s2)" "show_table s2 0 \<noteq> None"
    "SetRate (Some 1) 400000000 \<in> set (cpu_log s2)"
    using sample_init unfolding s1 option.case by (auto split: sum.splits prod.splits)
  have "pcpu sample_policy < possible_cpus sample_env" by (simp add: sample_policy_def sample_env_def)
  from cpu_run.init [OF r this i(1)] i(2,3) show ?thesis by blast
qed

lemma sample_table_ends: "ends_at sample_env sample_table 3"
  by (simp add: ends_at_def sample_table_def sample_env_def numeral_3_eq_3 All_less_Suc)

text \<open>
  C15. The selection of a table entry is optimal. With the relation \<open>L\<close> it is the lowest frequency at or above the
  target among the valid entries within the limits of the policy, or the highest one below when there is none above;
  with \<open>H\<close> the highest one at or below the target, or else the lowest one above. The call fails with \<open>-EINVAL\<close>
  exactly when no valid entry is within the limits.
\<close>

theorem table_target_best:
  assumes "ends_at E t n" "relation = CPUFREQ_RELATION_H E \<or> relation = CPUFREQ_RELATION_L E"
  shows "if usable E policy t n = {}
    then cpufreq_frequency_table_target E policy (Some t) target relation = Inr (- EINVAL, None)
    else \<exists>j. cpufreq_frequency_table_target E policy (Some t) target relation = Inr (0, Some (of_nat j)) \<and>
      selected E policy t n target relation j"
  by (rule table_target_selects [OF assms])

theorem table_target_best_witness:
  "usable sample_env sample_policy sample_table 3 \<noteq> {} \<and>
   (\<exists>j. cpufreq_frequency_table_target sample_env sample_policy (Some sample_table) 500000 0 = Inr (0, Some (of_nat j)) \<and>
     selected sample_env sample_policy sample_table 3 500000 0 j)"
proof -
  have "0 \<in> usable sample_env sample_policy sample_table 3"
    by (simp add: usable_def sample_table_def sample_env_def sample_policy_def)
  then have n: "usable sample_env sample_policy sample_table 3 \<noteq> {}" by blast
  have "(0 :: u32) = CPUFREQ_RELATION_L sample_env" by (simp add: sample_env_def)
  then have "0 = CPUFREQ_RELATION_H sample_env \<or> 0 = CPUFREQ_RELATION_L sample_env" by blast
  from table_target_best [OF sample_table_ends this, of sample_policy 500000] n show ?thesis unfolding if_not_P [OF n] by blast
qed

text \<open>
  C16. In every run of the driver, every rate it sets on a clock is the rounded rate of a frequency of the table of a
  CPU of that clock. The initialisation of the policy of any CPU returns: it does not read past a table or follow a
  NULL table. A request for a frequency is refused and changes nothing while the CPU is suspended. Otherwise it
  returns exactly when the CPU has a table to show, which its initialisation provides; before, it dereferences NULL.
\<close>

theorem driver_rates_from_table:
  assumes "table_marks E" "short_properties E" "negative_errors E" "cpu_run E s"
  shows "(\<forall>clk r. SetRate clk r \<in> set (cpu_log s) \<longrightarrow> table_rate E s clk r) \<and>
    (\<forall>policy. pcpu policy < possible_cpus E \<longrightarrow> (\<exists>r policy' s'. msm_cpufreq_init E policy s = Inr (r, policy', s'))) \<and>
    (\<forall>policy freq relation.
       if device_suspended s (pcpu policy) then msm_cpufreq_target E policy freq relation s = Inr (- EFAULT, s)
       else if show_table s (pcpu policy) = None then msm_cpufreq_target E policy freq relation s = Inl (Fault NullDeref)
       else \<exists>r s'. msm_cpufreq_target E policy freq relation s = Inr (r, s'))"
proof -
  note i = cpu_run_inv [OF assms]
  have "\<exists>r s'. msm_cpufreq_target E policy freq relation s = Inr (r, s')" if "show_table s (pcpu policy) \<noteq> None" for policy freq relation
    using that target_inv [OF assms(1,2) i, of policy _ freq relation] by auto
  moreover have "\<exists>r policy' s'. msm_cpufreq_init E policy s = Inr (r, policy', s')" if "pcpu policy < possible_cpus E" for policy
    using init_inv [OF assms(1,2) i that] by blast
  moreover have "msm_cpufreq_target E policy freq relation s = Inr (- EFAULT, s)" if "device_suspended s (pcpu policy)" for policy freq relation
    using that by (simp add: msm_cpufreq_target_def)
  moreover have "msm_cpufreq_target E policy freq relation s = Inl (Fault NullDeref)"
    if "\<not> device_suspended s (pcpu policy)" "show_table s (pcpu policy) = None" for policy freq relation
    using that by (simp add: msm_cpufreq_target_def cpufreq_frequency_get_table_def cpufreq_frequency_table_target_def Let_def deref_def bnd_def)
  ultimately show ?thesis using i unfolding driver_inv_def by auto
qed

theorem driver_rates_from_table_witness:
  "\<exists>s. cpu_run sample_env s \<and> table_rate sample_env s (Some 1) 400000000 \<and>
     (\<exists>r s'. msm_cpufreq_target sample_env sample_policy 500000 0 s = Inr (r, s')) \<and>
     (\<exists>r policy' s'. msm_cpufreq_init sample_env sample_policy s = Inr (r, policy', s'))"
proof -
  obtain s where s: "cpu_run sample_env s" "show_table s 0 \<noteq> None" "SetRate (Some 1) 400000000 \<in> set (cpu_log s)"
    using sample_run by blast
  note d = driver_rates_from_table [OF sample_marks s(1)]
  have p: "pcpu sample_policy = 0" "pcpu sample_policy < possible_cpus sample_env" by (simp_all add: sample_policy_def sample_env_def)
  have "\<exists>r s'. msm_cpufreq_target sample_env sample_policy 500000 0 s = Inr (r, s')" using d s(2) p(1) by metis
  moreover have "\<exists>r policy' s'. msm_cpufreq_init sample_env sample_policy s = Inr (r, policy', s')" using d p(2) by blast
  ultimately show ?thesis using d s(1,3) by blast
qed

text \<open>
  C18. In every run of the driver the table of every CPU is closed by the end mark, its frequencies are valid and
  strictly increasing, and the product in Hz that is handed to the clock does not wrap around.
\<close>

theorem driver_tables_increase:
  assumes "table_marks E" "short_properties E" "negative_errors E" "cpu_run E s" "cpu < possible_cpus E"
  shows "\<exists>t. freq_tbl s cpu = Some t \<and> ends_at E (tables s t) (length (tables s t) - 1) \<and>
    (\<forall>j < length (tables s t) - 1. frequency (tables s t ! j) \<noteq> CPUFREQ_ENTRY_INVALID E \<and>
       unat (frequency (tables s t ! j) * 1000) = unat (frequency (tables s t ! j)) * 1000 \<and>
       (\<forall>i < j. frequency (tables s t ! i) < frequency (tables s t ! j)))"
proof -
  from cpu_run_inv [OF assms(1-4)] assms(5) obtain t src where
    t: "freq_tbl s cpu = Some t" "driver_table E (cpu_clk s src) (tables s t)"
    unfolding driver_inv_def have_tables_def by blast
  note d = driver_table_ends [OF t(2) assms(1,2)]
  show ?thesis using t(1) d(1,4,5) kHz_product d(3) by blast
qed

theorem driver_tables_increase_witness:
  "\<exists>s t. cpu_run sample_env s \<and> freq_tbl s 1 = Some t \<and> ends_at sample_env (tables s t) (length (tables s t) - 1)"
proof -
  obtain s where s: "cpu_run sample_env s" using sample_run by blast
  have "(1 :: nat) < possible_cpus sample_env" by (simp add: sample_env_def)
  from driver_tables_increase [OF sample_marks s this] s show ?thesis by blast
qed

text \<open>
  C17. What bringing CPUs up and down does to the clock counts, once the driver has its clocks. However the callbacks of
  the CPUs are interleaved and whichever of them fail, since the start the prepare count of a clock has changed by as much as the number of
  uses by CPUs that are not down. The enable count has changed by as much as the number of uses by CPUs that are up, less
  one use for every \<open>CPU_STARTING\<close> that failed: the kernel brings such a CPU up all the same, and disables its
  clocks when it goes down. So the counts are balanced exactly as long as no \<open>CPU_STARTING\<close> fails.
\<close>

theorem hotplug_counts_balanced:
  assumes "hotplug_run E s0 ph0 s ph failed" "hotplug_ready s0" "\<And>l c. clk_enable E l c \<le> 0"
  shows "prepared clk (cpu_log s) - prepared clk (cpu_log s0) =
      held (possible_cpus E) s0 (- {CpuDown}) clk ph - held (possible_cpus E) s0 (- {CpuDown}) clk ph0 \<and>
    enabled clk (cpu_log s) - enabled clk (cpu_log s0) =
      held (possible_cpus E) s0 {CpuUp} clk ph - held (possible_cpus E) s0 {CpuUp} clk ph0 - (\<Sum>cpu\<leftarrow>failed. uses s0 clk cpu)"
  using hotplug_run_counts [OF assms, of clk] by linarith

text \<open>A clock that refuses to be enabled: CPU 1 is brought up and down again, and the count of its clock ends at \<open>- 2\<close>.\<close>

definition refusing_env :: cpu_env where
  "refusing_env = sample_env\<lparr>clk_enable := (\<lambda>l clk. - 5)\<rparr>"

theorem hotplug_counts_balanced_witness:
  "\<exists>s. hotplug_run refusing_env (sample_state\<lparr>hotplug_ready := True\<rparr>) (\<lambda>cpu. CpuDown) s (\<lambda>cpu. CpuDown) [1] \<and>
     prepared None (cpu_log s) = 0 \<and> enabled None (cpu_log s) = - 2"
proof -
  let ?s0 = "sample_state\<lparr>hotplug_ready := True\<rparr>" and ?ph = "\<lambda>cpu :: nat. CpuDown"
  have n: "1 < possible_cpus refusing_env" by (simp add: refusing_env_def sample_env_def)
  obtain s1 where c1: "msm_cpufreq_cpu_callback refusing_env CPU_UP_PREPARE 1 ?s0 = (NOTIFY_OK, s1)" "hotplug_ready s1"
    by (simp add: msm_cpufreq_cpu_callback_def prepare_def refusing_env_def sample_env_def Let_def)
  obtain s2 where c2: "msm_cpufreq_cpu_callback refusing_env CPU_STARTING 1 s1 = (NOTIFY_BAD, s2)" "hotplug_ready s2"
    using c1(2) by (simp add: msm_cpufreq_cpu_callback_def enable_def refusing_env_def sample_env_def Let_def)
  obtain s3 where c3: "msm_cpufreq_cpu_callback refusing_env CPU_DYING 1 s2 = (NOTIFY_OK, s3)" "hotplug_ready s3"
    using c2(2) by (simp add: msm_cpufreq_cpu_callback_def)
  obtain s4 where c4: "msm_cpufreq_cpu_callback refusing_env CPU_DEAD 1 s3 = (NOTIFY_OK, s4)"
    using c3(2) by (simp add: msm_cpufreq_cpu_callback_def)
  have r1: "hotplug_run refusing_env ?s0 ?ph s1 (?ph(1 := CpuPrepared)) []"
    using hotplug_run.callback [OF hotplug_run.boot n _ c1(1), of ?ph] by (simp add: failed_start_def)
  have r2: "hotplug_run refusing_env ?s0 ?ph s2 (?ph(1 := CpuUp)) [1]"
    using hotplug_run.callback [OF r1 n _ c2(1)] by (simp add: failed_start_def)
  have r3: "hotplug_run refusing_env ?s0 ?ph s3 (?ph(1 := CpuStopped)) [1]"
    using hotplug_run.callback [OF r2 n _ c3(1)] by (simp add: failed_start_def)
  have "hotplug_run refusing_env ?s0 ?ph s4 (?ph(1 := CpuDown)) [1]"
    using hotplug_run.callback [OF r3 n _ c4] by (simp add: failed_start_def)
  then have r: "hotplug_run refusing_env ?s0 ?ph s4 ?ph [1]" by (simp add: fun_upd_idem)
  have "clk_enable refusing_env l c \<le> 0" for l c by (simp add: refusing_env_def)
  from hotplug_counts_balanced [OF r _ this, of None] r show ?thesis
    by (auto simp: held_def uses_def sample_state_def intro!: exI [of _ s4])
qed

end
