(* ===== verification/Spec2Isabelle.thy ===== *)
theory Spec2Isabelle
  imports Scorpion_Stop Spider_Service Fleety_Keys Byte_Util Su_Agent Su_Program Fm_Service Cpu_Freq
begin

text \<open>
  A verification library of the X300, an Android box for vehicles.

  \<^bold>\<open>The program.\<close> A daemon, Scorpion, joins an STM32 controller on a UART with an application on a local socket.
  Three kernel drivers own the GPIO outputs, the keys and the state of the board; a hardware module and a system
  service give applications access to them. An agent runs commands for unprivileged programs, and the program \<open>su\<close> changes
  the identity. A radio service tunes, scans and configures the FM receiver. The CPU frequency driver selects
  the clock rates. They meet at a few interfaces: sysfs attributes between the hardware module and the drivers, exported
  functions between the drivers, JNI calls between Java and native code, frames on the UART and the socket.

  \<^bold>\<open>Conventions\<close> (\<open>X300_Prelude\<close>, \<open>C_Strings\<close>). A C function that may fault or not return has a result
  \<open>stop + 'a\<close>, composed with \<open>bnd\<close>; a dereferenced NULL, an access out of an object and a use of freed memory are
  faults. Machine integers are words of their width. What a component changes is a record that its functions take and return;
  what it hands to the system is a log in that record. Code that is not part of the sources (the kernel, the C and
  Java libraries where they are not used in a simple way, devices) is a field of an environment record that the functions
  take as an argument, and what a theorem needs of it is a named hypothesis, met by the environment of its witness.

  \<^bold>\<open>The Scorpion daemon\<close> (\<open>src/external/scorpion\<close>).
  \<^item> \<open>Scorpion_Misc\<close>: CRC, checksum and BCD (\<open>scorpion_misc.c\<close>); the CRC is the bit-serial CCITT division.
  \<^item> \<open>Scorpion_CB\<close>: the circular buffer (\<open>scorpion_cb.c\<close>), the locale \<open>byte_fifo\<close> and its interpretation; every run of
    operations refines a queue.
  \<^item> \<open>Scorpion_Framing\<close>: the frame format as locales \<open>wire_codec\<close>, \<open>frame_sender\<close> and \<open>frame_parser\<close>, interpreted by
    both links.
  \<^item> \<open>Scorpion_IO\<close>: the state of the daemon. \<open>Scorpion_STM32\<close> and \<open>Scorpion_Protocol\<close>: codec and sending half of the two links
    (\<open>scorpion_stm32*.c\<close>, \<open>scorpion_protocol*.c\<close>); escaping is reversible and stays in its buffer.
  \<^item> \<open>Scorpion_Shell\<close>: the remote shell (\<open>scorpion_protocol_shell.c\<close>). \<open>Scorpion_Dispatch\<close>: the handlers and receive loops; a stream of
    frames is dispatched once and in order.
  \<^item> \<open>Scorpion_Link\<close>: from the bytes on one side to the bytes on the other. \<open>Scorpion_Uart\<close>, \<open>Scorpion_Server\<close>, \<open>Scorpion_Stop\<close>:
    the threads, start-up, the main loop with its watchdog, and the way it stops (\<open>scorpion_uart.c\<close>, \<open>scorpion_socket.c\<close>,
    \<open>scorpion_event.c\<close>, \<open>scorpion_server.c\<close>).

  \<^bold>\<open>The board\<close> (\<open>src/kernel/drivers/fleety\<close>, \<open>src/hardware/qcom/spider\<close>, \<open>src/frameworks/base\<close>).
  \<^item> \<open>Fleety_Kernel\<close>: the state shared by the drivers, the kernel services, and the locale \<open>sysfs_node\<close> of an attribute that
    is written and read back, interpreted by the attributes of two drivers.
  \<^item> \<open>Fleety_Leds\<close>, \<open>Fleety_Spider\<close>, \<open>Fleety_Keys\<close>: the three drivers; after the probe functions a call faults only by
    an undefined shift for an index outside of a map, keys are disabled all or not at all, probe and remove of the key driver are balanced.
  \<^item> \<open>Spider_HAL\<close>: the hardware module (\<open>spider.c\<close>); a call drives its pin. \<open>Spider_Service\<close>: the native part and the Java service
    (\<open>SpiderService.java\<close>); the copies of the outputs agree over calls one after the other, calls return, and concurrent calls
    lose updates.
  \<^item> \<open>Byte_Util\<close>: number fields in byte arrays (\<open>ByteUtil.java\<close>), a round trip for every type.

  \<^bold>\<open>Privileged commands.\<close> \<open>Su_Agent\<close> (\<open>src/external/SuAgent\<close>): the words of the client are put together for the shell, what the shell
  is given is what the abandoned buffer then holds, and the output comes back completely; the descriptors of the server stay well formed. \<open>Su_Program\<close> (\<open>src/system/extras/su/su.c\<close>): the identity that is taken
  is the one of the argument, whoever calls.

  \<^bold>\<open>The radio\<close> (\<open>src/packages/apps/FleetyFmService\<close>).
  \<^item> \<open>Fm_Conf\<close>: the hash tables of the configuration (\<open>ConfFileParser.cpp\<close>), the locale \<open>chained_table\<close> interpreted for groups and for
    keys. \<open>Fm_Format\<close>: the parser; a loaded file is the map it describes.
  \<^item> \<open>Fm_Radio\<close>: ioctls, parameters and native functions (\<open>FmIoctlsInterface.cpp\<close>, \<open>FmPerformanceParams.cpp\<close>,
    \<open>android_hardware_fm.cpp\<close>). \<open>Fm_Ths\<close>: the thresholds (\<open>ConfigFmThs.cpp\<close>); the driver gets exactly those of the file, and
    a load returns unless an earlier one left \<open>strtok\<close> in freed memory.
  \<^item> \<open>Java_Float\<close>: single precision numbers. \<open>Fm_Service\<close>: the Java service with its threads as a step relation
    (\<open>FleetyFmServiceUtil.java\<close>, \<open>FleetyFmServiceEventListner.java\<close>, \<open>FleetyFmService.java\<close>); a scan returns the stations under every
    interleaving with the listener once its flag is reset, over any number of reads of the event buffer, and hangs if the end comes before;
    openings leave one listener if they do not overlap; a tuned frequency arrives exactly.

  \<^bold>\<open>The CPU frequency driver\<close> (\<open>src/kernel/drivers/cpufreq\<close>). \<open>Cpu_Freq\<close>: tables, requests, hotplug, suspend, device tree and
  start-up; the selected entry is the best one, every rate set is one of the tables, which increase strictly, and the clock counts
  are exactly those of the CPUs in use, less what a failed \<open>CPU_STARTING\<close> did not enable.

  \<^bold>\<open>Loops, bounds and fuel.\<close> Loops are structural recursion or functions with a termination measure. Loops that run as
  long as the system does are given as single passes, as recursion over the list of what wakes them up, or as step relations. Where a theorem
  speaks of events until an end comes, the number of steps until then is a variable of the theorem. The wait of the radio for its driver has the counter of the source.
  Property lengths of the device tree are below \<open>2 ^ 29\<close> entries, as an \<open>int\<close> counts their bytes.

  \<^bold>\<open>Not modelled.\<close> BusyBox, a distribution of its own. The touchscreen, charger, display and sound drivers: register sequences
  whose meaning is in hardware that the sources do not describe. The Android framework, telephony and applications: whole files of Android
  that rest on the rest of Android. The sample stack \<open>hello\<close>, which has the shape of the modelled spider stack, the test programs, the
  files in \<open>/proc\<close>, the boot animation, \<open>vold\<close> and \<open>adb\<close>, the scripts: input and output. Of the modelled files, module and class
  registration, log messages, and methods that return a constant without any effect. Memory is not bounded
  beyond the failures of \<open>malloc\<close>.

  \<^bold>\<open>Concurrency.\<close> Threads that share state without a lock are interleaved step by step in the service of the radio (openings, scans and
  listeners) and in the setters of the spider service; a step is one access to a shared field or one native call, and writes are seen in
  program order, which Java promises for \<open>volatile\<close> fields only. Elsewhere a call of a driver, a locked region, a pass of a thread of
  the daemon and a native call are one step each.
\<close>

end
